(* ===== verification/Prelude.thy ===== *)
theory Prelude
  imports Main "HOL-Library.Word" "HOL-Library.Monad_Syntax"
begin

text \<open>
  Shared vocabulary of the development: the machine types of \<^verbatim>\<open>types.h\<close>, C arrays with
  explicit bounds, byte memory with 32-bit addresses, and the generic facts the component
  theories use.

  \<^item> A C array is a list of fixed length. \<open>aget\<close> and \<open>aset\<close> are the read and the write of one
    element; an index outside the array is \<open>None\<close>, the model's value for undefined behaviour.
  \<^item> Memory is a function from 32-bit addresses to bytes; pointer arithmetic wraps.
  \<^item> \<open>loop_up\<close> is the C loop \<open>for (i = lo; i < hi; i++) body\<close> over a state.
\<close>

unbundle bit_operations_syntax

type_synonym u8 = "8 word"
type_synonym u16 = "16 word"
type_synonym u32 = "32 word"
type_synonym memory = "u32 \<Rightarrow> u8"

named_theorems carray "reads and writes of C arrays"
named_theorems inv_simps "definitions of the component invariants"

section \<open>C arrays\<close>

definition aget :: "'a list \<Rightarrow> int \<Rightarrow> 'a option" where
  "aget xs i = (if 0 \<le> i \<and> i < int (length xs) then Some (xs ! nat i) else None)"

definition aset :: "'a list \<Rightarrow> int \<Rightarrow> 'a \<Rightarrow> 'a list option" where
  "aset xs i v = (if 0 \<le> i \<and> i < int (length xs) then Some (xs[nat i := v]) else None)"

lemma aget_Some [carray]: "0 \<le> i \<Longrightarrow> i < int (length xs) \<Longrightarrow> aget xs i = Some (xs ! nat i)"
  by (simp add: aget_def)

lemma aset_Some [carray]: "0 \<le> i \<Longrightarrow> i < int (length xs) \<Longrightarrow> aset xs i v = Some (xs[nat i := v])"
  by (simp add: aset_def)

lemma aget_None [carray]: "i < 0 \<or> int (length xs) \<le> i \<Longrightarrow> aget xs i = None"
  by (auto simp: aget_def)

lemma aset_None [carray]: "i < 0 \<or> int (length xs) \<le> i \<Longrightarrow> aset xs i v = None"
  by (auto simp: aset_def)

lemma aget_eq_Some_iff: "aget xs i = Some x \<longleftrightarrow> 0 \<le> i \<and> i < int (length xs) \<and> x = xs ! nat i"
  by (auto simp: aget_def)

lemma aset_eq_Some_iff:
  "aset xs i v = Some ys \<longleftrightarrow> 0 \<le> i \<and> i < int (length xs) \<and> ys = xs[nat i := v]"
  by (auto simp: aset_def)

text \<open>
  What every indexed store of the kernel promises: a write to an index that can be read
  succeeds, changes that index only and keeps the set of valid indices. The descriptor tables,
  the control blocks and the plain arrays all satisfy it.
\<close>

locale indexed_store =
  fixes get :: "'s \<Rightarrow> 'i \<Rightarrow> 'a option"
    and put :: "'s \<Rightarrow> 'i \<Rightarrow> 'a \<Rightarrow> 's option"
  assumes put_valid: "get s i \<noteq> None \<Longrightarrow> \<exists>s'. put s i v = Some s'"
    and get_put_same: "put s i v = Some s' \<Longrightarrow> get s' i = Some v"
    and get_put_other: "put s i v = Some s' \<Longrightarrow> j \<noteq> i \<Longrightarrow> get s' j = get s j"
begin

lemma put_put_same:
  assumes "put s i v = Some s1" and "put s1 i w = Some s2"
  shows "get s2 i = Some w \<and> (\<forall>j. j \<noteq> i \<longrightarrow> get s2 j = get s j)"
  using assms by (metis get_put_other get_put_same)

lemma valid_after_put:
  assumes "put s i v = Some s'" and "get s i \<noteq> None"
  shows "get s' j \<noteq> None \<longleftrightarrow> get s j \<noteq> None"
  using assms by (cases "j = i") (auto simp: get_put_same get_put_other)

end

interpretation array_store: indexed_store aget aset
  by unfold_locales (auto simp: aget_def aset_def split: if_splits)

text \<open>Arrays of arrays, \<open>xs[i][j]\<close>.\<close>

definition aget2 :: "'a list list \<Rightarrow> int \<times> int \<Rightarrow> 'a option" where
  "aget2 xs ij = do { r \<leftarrow> aget xs (fst ij); aget r (snd ij) }"

definition aset2 :: "'a list list \<Rightarrow> int \<times> int \<Rightarrow> 'a \<Rightarrow> 'a list list option" where
  "aset2 xs ij v = do { r \<leftarrow> aget xs (fst ij); r' \<leftarrow> aset r (snd ij) v; aset xs (fst ij) r' }"

interpretation grid_store: indexed_store aget2 aset2
proof
  fix xs :: "'a list list" and ij v
  assume "aget2 xs ij \<noteq> None"
  then show "\<exists>ys. aset2 xs ij v = Some ys"
    by (auto simp: aget2_def aset2_def aget_def aset_def bind_eq_Some_conv split: if_splits)
next
  fix xs :: "'a list list" and ij v ys
  assume set: "aset2 xs ij v = Some ys"
  then show "aget2 ys ij = Some v"
    by (auto simp: aget2_def aset2_def aget_eq_Some_iff aset_eq_Some_iff bind_eq_Some_conv)
  show "aget2 ys kl = aget2 xs kl" if "kl \<noteq> ij" for kl
  proof (cases "fst kl = fst ij")
    case True
    with that have "snd kl \<noteq> snd ij" by (auto simp: prod_eq_iff)
    then show ?thesis
      using set True by (auto simp: aget2_def aset2_def aget_def aset_def bind_eq_Some_conv
          nth_list_update split: if_splits)
  next
    case False
    then show ?thesis
      using set by (auto simp: aget2_def aset2_def aget_def aset_def bind_eq_Some_conv
          nth_list_update split: if_splits)
  qed
qed

lemma all_list_update: "\<forall>x \<in> set xs. P x \<Longrightarrow> P v \<Longrightarrow> \<forall>x \<in> set (xs[i := v]). P x"
  using set_update_subset_insert [of xs i v] by auto

section \<open>Counting loops\<close>

function loop_up :: "int \<Rightarrow> int \<Rightarrow> (int \<Rightarrow> 's \<Rightarrow> 's) \<Rightarrow> 's \<Rightarrow> 's" where
  "loop_up lo hi body s = (if lo < hi then loop_up (lo + 1) hi body (body lo s) else s)"
  by pat_completeness auto
termination
  by (relation "measure (\<lambda>(lo, hi, body, s). nat (hi - lo))") auto

declare loop_up.simps [simp del]

lemma loop_up_done [simp]: "hi \<le> lo \<Longrightarrow> loop_up lo hi body s = s"
  by (simp add: loop_up.simps)

lemma loop_up_step: "lo < hi \<Longrightarrow> loop_up lo hi body s = loop_up (lo + 1) hi body (body lo s)"
  by (simp add: loop_up.simps)

text \<open>A loop keeps an invariant indexed by the counter, and so ends in the invariant at \<open>hi\<close>.\<close>

lemma loop_up_inv:
  assumes "lo \<le> hi" and "P lo s"
    and step: "\<And>i s. lo \<le> i \<Longrightarrow> i < hi \<Longrightarrow> P i s \<Longrightarrow> P (i + 1) (body i s)"
  shows "P hi (loop_up lo hi body s)"
proof -
  have "P hi (loop_up l hi body t)" if "l \<le> hi" "lo \<le> l" "P l t" for l t
    using that
  proof (induction "nat (hi - l)" arbitrary: l t)
    case 0
    then show ?case by simp
  next
    case (Suc n)
    then have "l < hi" by linarith
    with Suc show ?case by (simp add: loop_up_step step)
  qed
  with assms(1,2) show ?thesis by blast
qed

text \<open>The same loop when the body may leave the bounds of an array.\<close>

function loop_opt :: "int \<Rightarrow> int \<Rightarrow> (int \<Rightarrow> 's \<Rightarrow> 's option) \<Rightarrow> 's \<Rightarrow> 's option" where
  "loop_opt lo hi body s =
     (if lo < hi then
        (case body lo s of None \<Rightarrow> None | Some s' \<Rightarrow> loop_opt (lo + 1) hi body s')
      else Some s)"
  by pat_completeness auto
termination
  by (relation "measure (\<lambda>(lo, hi, body, s). nat (hi - lo))") auto

declare loop_opt.simps [simp del]

lemma loop_opt_done [simp]: "hi \<le> lo \<Longrightarrow> loop_opt lo hi body s = Some s"
  by (simp add: loop_opt.simps)

lemma loop_opt_step:
  "lo < hi \<Longrightarrow> body lo s = Some s' \<Longrightarrow> loop_opt lo hi body s = loop_opt (lo + 1) hi body s'"
  by (simp add: loop_opt.simps)

lemma loop_opt_inv:
  assumes "lo \<le> hi" and "P lo s"
    and step: "\<And>i s. lo \<le> i \<Longrightarrow> i < hi \<Longrightarrow> P i s \<Longrightarrow> \<exists>s'. body i s = Some s' \<and> P (i + 1) s'"
  shows "\<exists>t. loop_opt lo hi body s = Some t \<and> P hi t"
proof -
  have "\<exists>u. loop_opt l hi body t = Some u \<and> P hi u" if "l \<le> hi" "lo \<le> l" "P l t" for l t
    using that
  proof (induction "nat (hi - l)" arbitrary: l t)
    case 0
    then show ?case by simp
  next
    case (Suc n)
    then have l: "l < hi" by linarith
    with Suc.prems step obtain t' where t': "body l t = Some t'" "P (l + 1) t'" by blast
    have "\<exists>u. loop_opt (l + 1) hi body t' = Some u \<and> P hi u"
      using Suc.hyps l t'(2) Suc.prems by (intro Suc.hyps(1)) auto
    with l t'(1) show ?case by (simp add: loop_opt_step)
  qed
  with assms(1,2) show ?thesis by blast
qed

lemma replicate_prefix_step:
  assumes "i < length xs"
  shows "(replicate i v @ drop i xs)[i := v] = replicate (Suc i) v @ drop (Suc i) xs"
proof -
  obtain y ys where y: "drop i xs = y # ys" using assms by (cases "drop i xs") auto
  then have "drop (Suc i) xs = ys" by (metis drop_Suc list.sel(3) tl_drop)
  with y show ?thesis by (simp add: list_update_append replicate_app_Cons_same)
qed

text \<open>A loop that stores \<open>f i\<close> at every index \<open>i\<close> of an array.\<close>

lemma loop_write:
  assumes len: "length xs = n"
    and body: "\<And>i ys. 0 \<le> i \<Longrightarrow> i < int n \<Longrightarrow> length ys = n \<Longrightarrow> body i ys = aset ys i (f (nat i))"
  shows "loop_opt 0 (int n) body xs = Some (map f [0..<n])"
proof -
  let ?P = "\<lambda>i ys. length ys = n \<and> (\<forall>k < nat i. ys ! k = f k)"
  have "\<exists>t. loop_opt 0 (int n) body xs = Some t \<and> ?P (int n) t"
  proof (rule loop_opt_inv)
    fix i ys assume i: "0 \<le> i" "i < int n" and P: "?P i ys"
    have "body i ys = Some (ys[nat i := f (nat i)])" using body [OF i] P i by (simp add: aset_def)
    moreover have "?P (i + 1) (ys[nat i := f (nat i)])"
      using P i by (auto simp: nth_list_update less_Suc_eq nat_add_distrib)
    ultimately show "\<exists>s'. body i ys = Some s' \<and> ?P (i + 1) s'" by blast
  qed (use len in auto)
  then obtain t where t: "loop_opt 0 (int n) body xs = Some t" "length t = n" "\<forall>k < n. t ! k = f k" by auto
  have "t = map f [0..<n]" by (rule nth_equalityI) (use t in auto)
  with t(1) show ?thesis by simp
qed

section \<open>Addresses\<close>

lemma addr_offset_eq_iff:
  fixes b :: u32
  assumes "\<bar>i - j\<bar> < 4294967296"
  shows "b + of_int i = b + of_int j \<longleftrightarrow> i = j"
proof
  assume "b + of_int i = b + of_int j"
  then have "(of_int i :: u32) = of_int j" by simp
  then have "i mod 4294967296 = j mod 4294967296"
    by (simp add: word_of_int_eq_iff take_bit_eq_mod)
  then have "(i - j) mod 4294967296 = 0" by (simp add: mod_eq_dvd_iff)
  then obtain k where "i - j = 4294967296 * k" by (auto elim: dvdE)
  with assms have "k = 0" by (simp add: abs_mult)
  with \<open>i - j = 4294967296 * k\<close> show "i = j" by simp
qed simp

text \<open>The little-endian load of a 32-bit field of a structure.\<close>

definition load32 :: "memory \<Rightarrow> u32 \<Rightarrow> u32" where
  "load32 m a = ucast (m a) + 256 * ucast (m (a + 1)) + 65536 * ucast (m (a + 2))
     + 16777216 * ucast (m (a + 3))"

lemma sint_small:
  fixes w :: u32
  assumes "unat w < 2147483648"
  shows "sint w = int (unat w)"
proof -
  have "uint w < 2147483648" using assms unfolding unat_eq_nat_uint by linarith
  moreover have "(2::int) ^ 31 = 2147483648" by simp
  ultimately have "signed_take_bit 31 (uint w) = uint w"
    using uint_ge_0 [of w] by (intro signed_take_bit_int_eq_self) linarith+
  moreover have "sint w = signed_take_bit 31 (uint w)" by (subst sint_uint) simp
  ultimately show ?thesis by (metis uint_nat)
qed

lemma unat_u32_bound: "unat (w::u32) < 2 ^ 32"
  using unsigned_less [of w, where ?'a = nat] by simp

section \<open>Buffers in memory\<close>

text \<open>Memory \<open>m\<close> with the bytes \<open>bs\<close> stored from address \<open>b\<close> on (addresses wrap).\<close>

definition overlay :: "memory \<Rightarrow> u32 \<Rightarrow> u8 list \<Rightarrow> memory" where
  "overlay m b bs = (\<lambda>a. if unat (a - b) < length bs then bs ! unat (a - b) else m a)"

lemma overlay_Nil [simp]: "overlay m b [] = m"
  by (simp add: overlay_def)

lemma overlay_snoc:
  assumes "length bs < 2 ^ 32"
  shows "(overlay m b bs)(b + of_nat (length bs) := v) = overlay m b (bs @ [v])"
proof
  fix a :: u32
  have "unat (of_nat (length bs) :: u32) = length bs"
    using assms by (simp add: unat_of_nat)
  moreover have "a = b + of_nat (length bs) \<longleftrightarrow> a - b = of_nat (length bs)"
    by (simp add: algebra_simps)
  ultimately have "a = b + of_nat (length bs) \<longleftrightarrow> unat (a - b) = length bs"
    by (metis unsigned_word_eqI)
  then show "((overlay m b bs)(b + of_nat (length bs) := v)) a = overlay m b (bs @ [v]) a"
    by (auto simp: overlay_def nth_append)
qed

lemma overlay_outside: "length bs \<le> unat (a - b) \<Longrightarrow> overlay m b bs a = m a"
  by (simp add: overlay_def)

lemma overlay_inside:
  assumes "k < length bs" and "length bs \<le> 2 ^ 32"
  shows "overlay m b bs (b + of_nat k) = bs ! k"
proof -
  have "unat (of_nat k :: u32) = k" using assms by (simp add: unat_of_nat)
  with assms(1) show ?thesis by (simp add: overlay_def)
qed

section \<open>Sequences of operations\<close>

primrec run_steps :: "('e \<Rightarrow> 's \<Rightarrow> 's option) \<Rightarrow> 'e list \<Rightarrow> 's \<Rightarrow> 's option" where
  "run_steps step [] s = Some s"
| "run_steps step (e # es) s = do { s' \<leftarrow> step e s; run_steps step es s' }"

text \<open>
  A busy loop \<open>while (cond) {}\<close> that only interrupts can end: \<open>es\<close> are the interrupts that arrive
  while it runs, \<open>h\<close> their handler. The result holds the interrupts that arrive after the loop;
  \<open>None\<close> is a loop that still runs when the last interrupt has been served.
\<close>

fun spin :: "('s \<Rightarrow> bool option) \<Rightarrow> ('e \<Rightarrow> 's \<Rightarrow> 's option) \<Rightarrow> 'e list \<Rightarrow> 's \<Rightarrow> ('s \<times> 'e list) option" where
  "spin cond h [] s = (case cond s of Some False \<Rightarrow> Some (s, []) | _ \<Rightarrow> None)"
| "spin cond h (e # es) s =
     (case cond s of None \<Rightarrow> None | Some False \<Rightarrow> Some (s, e # es)
      | Some True \<Rightarrow> (case h e s of None \<Rightarrow> None | Some s' \<Rightarrow> spin cond h es s'))"

lemma spin_done: "cond s = Some False \<Longrightarrow> spin cond h es s = Some (s, es)"
  by (cases es) simp_all

lemma spin_step: "cond s = Some True \<Longrightarrow> h e s = Some s' \<Longrightarrow> spin cond h (e # es) s = spin cond h es s'"
  by simp

text \<open>
  A component whose operations keep an invariant and implement those of an abstract
  specification: then every sequence of operations runs to its end and implements the sequence
  of the abstract operations.
\<close>

locale simulation =
  fixes inv :: "'s \<Rightarrow> bool"
    and abs :: "'s \<Rightarrow> 'a"
    and step :: "'e \<Rightarrow> 's \<Rightarrow> 's option"
    and spec :: "'e \<Rightarrow> 'a \<Rightarrow> 'a"
    and valid :: "'e \<Rightarrow> bool"
  assumes step_simulates: "inv s \<Longrightarrow> valid e \<Longrightarrow> \<exists>s'. step e s = Some s' \<and> inv s' \<and> abs s' = spec e (abs s)"
begin

lemma run_simulates:
  assumes "inv s" and "\<And>e. e \<in> set es \<Longrightarrow> valid e"
  shows "\<exists>s'. run_steps step es s = Some s' \<and> inv s' \<and> abs s' = fold spec es (abs s)"
  using assms
proof (induction es arbitrary: s)
  case (Cons e es)
  then obtain s1 where s1: "step e s = Some s1" "inv s1" "abs s1 = spec e (abs s)"
    using step_simulates [of s e] by auto
  with Cons.IH [of s1] Cons.prems show ?case by simp
qed simp

end

end
