(* ===== verification/Lib_Strings.thy ===== *)
theory Lib_Strings
  imports Prelude
begin

text \<open>
  The string routines of \<^verbatim>\<open>student-distrib/lib.c\<close>: \<open>strlen\<close>, \<open>strncmp\<close>, \<open>strcpy\<close>, \<open>strncpy\<close>,
  \<open>strrev\<close> and \<open>itoa\<close>. A \<open>char *\<close> is the buffer it points to, a list of bytes; a read or a
  write outside the buffer is \<open>None\<close>. Each loop of the source is one recursive function with
  the source's loop variable. The lemmas relate every routine to the C string a buffer holds
  (\<open>cstr\<close>: the bytes before the first NUL).
\<close>

section \<open>The routines\<close>

function strlen_loop :: "u8 list \<Rightarrow> nat \<Rightarrow> nat option" where
  "strlen_loop s len =
     (case aget s (int len) of
        None \<Rightarrow> None
      | Some c \<Rightarrow> if c \<noteq> 0 then strlen_loop s (len + 1) else Some len)"
  by pat_completeness auto
termination
  by (relation "measure (\<lambda>(s, len). length s - len)") (auto simp: aget_eq_Some_iff)

definition strlen :: "u8 list \<Rightarrow> nat option" where
  "strlen s = strlen_loop s 0"

function strncmp_loop :: "u8 list \<Rightarrow> u8 list \<Rightarrow> nat \<Rightarrow> nat \<Rightarrow> int option" where
  "strncmp_loop s1 s2 n i =
     (if i < n then
        (case aget s1 (int i) of None \<Rightarrow> None | Some a \<Rightarrow>
         (case aget s2 (int i) of None \<Rightarrow> None | Some b \<Rightarrow>
            if a \<noteq> b \<or> a = 0 then Some (sint a - sint b)
            else strncmp_loop s1 s2 n (i + 1)))
      else Some 0)"
  by pat_completeness auto
termination
  by (relation "measure (\<lambda>(s1, s2, n, i). n - i)") auto

definition strncmp :: "u8 list \<Rightarrow> u8 list \<Rightarrow> nat \<Rightarrow> int option" where
  "strncmp s1 s2 n = strncmp_loop s1 s2 n 0"

function strcpy_loop :: "u8 list \<Rightarrow> u8 list \<Rightarrow> nat \<Rightarrow> u8 list option" where
  "strcpy_loop dest src i =
     (case aget src (int i) of None \<Rightarrow> None | Some c \<Rightarrow>
        if c \<noteq> 0 then
          (case aset dest (int i) c of None \<Rightarrow> None | Some d \<Rightarrow> strcpy_loop d src (i + 1))
        else aset dest (int i) 0)"
  by pat_completeness auto
termination
  by (relation "measure (\<lambda>(dest, src, i). length src - i)") (auto simp: aget_eq_Some_iff)

definition strcpy :: "u8 list \<Rightarrow> u8 list \<Rightarrow> u8 list option" where
  "strcpy dest src = strcpy_loop dest src 0"

text \<open>
  \<open>strncpy\<close> has two loops: the copy, whose guard reads \<open>src[i]\<close> before it compares \<open>i\<close> with
  \<open>n\<close>, and the padding with NUL bytes.
\<close>

function strncpy_pad :: "u8 list \<Rightarrow> nat \<Rightarrow> nat \<Rightarrow> u8 list option" where
  "strncpy_pad dest n i =
     (if i < n then
        (case aset dest (int i) 0 of None \<Rightarrow> None | Some d \<Rightarrow> strncpy_pad d n (i + 1))
      else Some dest)"
  by pat_completeness auto
termination
  by (relation "measure (\<lambda>(dest, n, i). n - i)") auto

function strncpy_loop :: "u8 list \<Rightarrow> u8 list \<Rightarrow> nat \<Rightarrow> nat \<Rightarrow> u8 list option" where
  "strncpy_loop dest src n i =
     (case aget src (int i) of None \<Rightarrow> None | Some c \<Rightarrow>
        if c \<noteq> 0 \<and> i < n then
          (case aset dest (int i) c of None \<Rightarrow> None | Some d \<Rightarrow> strncpy_loop d src n (i + 1))
        else strncpy_pad dest n i)"
  by pat_completeness auto
termination
  by (relation "measure (\<lambda>(dest, src, n, i). n - i)") auto

definition strncpy :: "u8 list \<Rightarrow> u8 list \<Rightarrow> nat \<Rightarrow> u8 list option" where
  "strncpy dest src n = strncpy_loop dest src n 0"

function strrev_loop :: "u8 list \<Rightarrow> int \<Rightarrow> int \<Rightarrow> u8 list option" where
  "strrev_loop s beg fin =
     (if beg < fin then
        (case aget s fin of None \<Rightarrow> None | Some tmp \<Rightarrow>
         (case aget s beg of None \<Rightarrow> None | Some b \<Rightarrow>
          (case aset s fin b of None \<Rightarrow> None | Some s1 \<Rightarrow>
           (case aset s1 beg tmp of None \<Rightarrow> None | Some s2 \<Rightarrow>
              strrev_loop s2 (beg + 1) (fin - 1)))))
      else Some s)"
  by pat_completeness auto
termination
  by (relation "measure (\<lambda>(s, beg, fin). nat (fin - beg))") auto

definition strrev :: "u8 list \<Rightarrow> u8 list option" where
  "strrev s = (case strlen s of None \<Rightarrow> None | Some n \<Rightarrow> strrev_loop s 0 (int n - 1))"

text \<open>The digit table of \<open>itoa\<close>: \<open>"0123456789ABCDEFGHIJKLMNOPQRSTUVWXYZ"\<close> and its NUL.\<close>

definition itoa_lookup :: "u8 list" where
  "itoa_lookup = map (\<lambda>c. of_char c) ''0123456789ABCDEFGHIJKLMNOPQRSTUVWXYZ'' @ [0]"

text \<open>
  \<open>newval % radix\<close> and \<open>newval /= radix\<close> are unsigned: the signed \<open>radix\<close> is converted. A zero
  radix divides by zero; radix one never ends; both are \<open>None\<close>.
\<close>

partial_function (option) itoa_loop :: "u32 \<Rightarrow> u8 list \<Rightarrow> nat \<Rightarrow> u32 \<Rightarrow> u8 list option" where
  "itoa_loop newval buf k radix =
     (if newval > 0 then
        (if radix = 0 then None else
         (case aget itoa_lookup (sint (newval mod radix)) of None \<Rightarrow> None | Some c \<Rightarrow>
          (case aset buf (int k) c of None \<Rightarrow> None | Some b \<Rightarrow>
             itoa_loop (newval div radix) b (k + 1) radix)))
      else aset buf (int k) 0)"

definition itoa :: "u32 \<Rightarrow> u8 list \<Rightarrow> int \<Rightarrow> u8 list option" where
  "itoa val buf radix =
     (if val = 0 then
        (case aset buf 0 48 of None \<Rightarrow> None | Some b \<Rightarrow> aset b 1 0)
      else
        (case itoa_loop val buf 0 (word_of_int radix) of
           None \<Rightarrow> None
         | Some b \<Rightarrow> strrev b))"

section \<open>C strings\<close>

definition cstr :: "u8 list \<Rightarrow> u8 list" where
  "cstr s = takeWhile (\<lambda>c. c \<noteq> 0) s"

text \<open>A C string literal, and the character of its escape \<open>\<backslash>n\<close>.\<close>

definition c_string :: "string \<Rightarrow> u8 list" where
  "c_string t = map of_char t @ [0]"

definition newline :: string where "newline = [CHR 0x0A]"

lemma nul_in_c_string [simp]: "0 \<in> set (c_string t)"
  by (simp add: c_string_def)

lemma nul_notin_cstr [simp]: "0 \<notin> set (cstr s)"
  by (auto simp: cstr_def dest: set_takeWhileD)

lemma cstr_append_nul: "0 \<notin> set xs \<Longrightarrow> cstr (xs @ 0 # ys) = xs"
proof (induction xs)
  case (Cons x xs)
  then show ?case by (auto simp: cstr_def)
qed (simp add: cstr_def)

lemma cstr_decomp:
  assumes "0 \<in> set s"
  shows "s = cstr s @ 0 # drop (length (cstr s) + 1) s"
  using assms
proof (induction s)
  case (Cons c s)
  then show ?case by (cases "c = 0") (auto simp: cstr_def)
qed simp

lemma length_cstr_less: "0 \<in> set s \<Longrightarrow> length (cstr s) < length s"
  by (induction s) (auto simp: cstr_def)

lemma cstr_no_nul: "0 \<notin> set s \<Longrightarrow> cstr s = s"
  by (induction s) (auto simp: cstr_def)

lemma cstr_prefix: "cstr s = take (length (cstr s)) s"
  unfolding cstr_def by (rule takeWhile_eq_take)

lemma nth_cstr: "i < length (cstr s) \<Longrightarrow> s ! i = cstr s ! i"
  by (simp add: cstr_def takeWhile_nth)

lemma nth_length_cstr: "0 \<in> set s \<Longrightarrow> s ! length (cstr s) = 0"
  using nth_length_takeWhile [of "\<lambda>c. c \<noteq> 0" s] length_cstr_less [of s] by (simp add: cstr_def)

section \<open>strlen\<close>

lemma strlen_loop_eq:
  "strlen_loop s len =
     (if 0 \<in> set (drop len s) then Some (len + length (cstr (drop len s))) else None)"
proof (induction s len rule: strlen_loop.induct)
  case (1 s len)
  show ?case
  proof (cases "len < length s")
    case True
    then have "drop len s = s ! len # drop (len + 1) s" by (simp add: Cons_nth_drop_Suc)
    with True 1 show ?thesis by (simp add: aget_def cstr_def)
  next
    case False
    then show ?thesis by (simp add: aget_def)
  qed
qed

lemma strlen_eq: "strlen s = (if 0 \<in> set s then Some (length (cstr s)) else None)"
  by (simp add: strlen_def strlen_loop_eq del: strlen_loop.simps)

declare strlen_loop.simps [simp del] strncmp_loop.simps [simp del] strcpy_loop.simps [simp del]
  strncpy_pad.simps [simp del] strncpy_loop.simps [simp del] strrev_loop.simps [simp del]

section \<open>strncmp\<close>

text \<open>\<open>readable s n\<close>: a scan of at most \<open>n\<close> bytes that stops at a NUL stays inside \<open>s\<close>.\<close>

definition readable :: "u8 list \<Rightarrow> nat \<Rightarrow> bool" where
  "readable s n \<longleftrightarrow> 0 \<in> set s \<or> n \<le> length s"

lemma take_cstr_eq_iff_Cons:
  "take (Suc n) (cstr (a # s)) = take (Suc n) (cstr (b # t)) \<longleftrightarrow>
     a = b \<and> (a = 0 \<or> take n (cstr s) = take n (cstr t))"
  by (auto simp: cstr_def)

lemma readable_drop_Suc:
  "readable (drop i s) (n - i) \<Longrightarrow> i < n \<Longrightarrow> s ! i \<noteq> 0 \<Longrightarrow> i < length s \<Longrightarrow>
     readable (drop (i + 1) s) (n - (i + 1))"
  by (auto simp: readable_def Cons_nth_drop_Suc [symmetric])

lemma readable_length: "readable (drop i s) (n - i) \<Longrightarrow> i < n \<Longrightarrow> i < length s"
  by (cases "i < length s") (auto simp: readable_def)

lemma strncmp_loop_zero:
  assumes "readable (drop i s1) (n - i)" and "readable (drop i s2) (n - i)"
  shows "\<exists>r. strncmp_loop s1 s2 n i = Some r \<and>
    (r = 0 \<longleftrightarrow> take (n - i) (cstr (drop i s1)) = take (n - i) (cstr (drop i s2)))"
  using assms
proof (induction s1 s2 n i rule: strncmp_loop.induct)
  case (1 s1 s2 n i)
  show ?case
  proof (cases "i < n")
    case False
    then show ?thesis by (simp add: strncmp_loop.simps)
  next
    case True
    then have len: "i < length s1" "i < length s2"
      using "1.prems" by (auto dest: readable_length)
    then have d: "drop i s1 = s1 ! i # drop (i + 1) s1" "drop i s2 = s2 ! i # drop (i + 1) s2"
      by (simp_all add: Cons_nth_drop_Suc)
    have n: "n - i = Suc (n - (i + 1))" using True by simp
    have eq: "take (n - i) (cstr (drop i s1)) = take (n - i) (cstr (drop i s2)) \<longleftrightarrow>
        s1 ! i = s2 ! i \<and> (s1 ! i = 0 \<or>
          take (n - (i + 1)) (cstr (drop (i + 1) s1)) = take (n - (i + 1)) (cstr (drop (i + 1) s2)))"
      unfolding n d by (rule take_cstr_eq_iff_Cons)
    show ?thesis
    proof (cases "s1 ! i \<noteq> s2 ! i \<or> s1 ! i = 0")
      case True
      moreover have "sint (s1 ! i) - sint (s2 ! i) = 0 \<longleftrightarrow> s1 ! i = s2 ! i"
        by (auto simp: signed_word_eqI)
      ultimately show ?thesis
        using \<open>i < n\<close> len eq by (auto simp: strncmp_loop.simps [of s1 s2 n i] aget_def)
    next
      case False
      have "\<exists>r. strncmp_loop s1 s2 n (i + 1) = Some r \<and> (r = 0 \<longleftrightarrow>
          take (n - (i + 1)) (cstr (drop (i + 1) s1)) = take (n - (i + 1)) (cstr (drop (i + 1) s2)))"
        using "1.IH" [of "s1 ! i" "s2 ! i"] \<open>i < n\<close> len False
          readable_drop_Suc [OF "1.prems"(1)] readable_drop_Suc [OF "1.prems"(2)]
        by (simp add: aget_def)
      with \<open>i < n\<close> len False eq show ?thesis
        by (simp add: strncmp_loop.simps [of s1 s2 n i] aget_def)
    qed
  qed
qed

lemma strncmp_zero_iff:
  assumes "readable s1 n" and "readable s2 n"
  shows "\<exists>r. strncmp s1 s2 n = Some r \<and> (r = 0 \<longleftrightarrow> take n (cstr s1) = take n (cstr s2))"
  using strncmp_loop_zero [of 0 s1 n s2] assms by (simp add: strncmp_def)

section \<open>strcpy and strncpy\<close>

lemma take_Suc_update: "i < length xs \<Longrightarrow> take (Suc i) (xs[i := v]) = take i xs @ [v]"
  by (simp add: take_Suc_conv_app_nth)

lemma strcpy_loop_eq:
  assumes "0 \<in> set (drop i src)" and "i + length (cstr (drop i src)) < length dest"
  shows "strcpy_loop dest src i =
    Some (take i dest @ cstr (drop i src) @ 0 # drop (i + length (cstr (drop i src)) + 1) dest)"
  using assms
proof (induction dest src i rule: strcpy_loop.induct)
  case (1 dest src i)
  from "1.prems"(1) have i: "i < length src" by (cases "i < length src") auto
  then have d: "drop i src = src ! i # drop (i + 1) src" by (simp add: Cons_nth_drop_Suc)
  show ?case
  proof (cases "src ! i = 0")
    case True
    then have "cstr (drop i src) = []" unfolding d by (simp add: cstr_def)
    with True i "1.prems" show ?thesis
      by (simp add: strcpy_loop.simps [of dest src i] aget_def aset_def upd_conv_take_nth_drop)
  next
    case False
    then have c: "cstr (drop i src) = src ! i # cstr (drop (i + 1) src)"
      unfolding d by (simp add: cstr_def)
    have "strcpy_loop (dest[i := src ! i]) src (i + 1) =
       Some (take (i + 1) (dest[i := src ! i]) @ cstr (drop (i + 1) src) @
         0 # drop (i + 1 + length (cstr (drop (i + 1) src)) + 1) (dest[i := src ! i]))"
      using "1.IH" [of "src ! i"] False i "1.prems" c by (simp add: aget_def aset_def d)
    with False i "1.prems" c show ?thesis
      by (simp add: strcpy_loop.simps [of dest src i] aget_def aset_def take_Suc_update)
  qed
qed

lemma strcpy_eq:
  assumes "0 \<in> set src" and "length (cstr src) < length dest"
  shows "strcpy dest src = Some (cstr src @ 0 # drop (length (cstr src) + 1) dest)"
  using strcpy_loop_eq [of 0 src dest] assms by (simp add: strcpy_def)

lemma strncpy_pad_eq:
  assumes "i \<le> n" and "n \<le> length dest"
  shows "strncpy_pad dest n i = Some (take i dest @ replicate (n - i) 0 @ drop n dest)"
  using assms
proof (induction dest n i rule: strncpy_pad.induct)
  case (1 dest n i)
  show ?case
  proof (cases "i < n")
    case True
    then have "n - i = Suc (n - (i + 1))" by simp
    with True 1 show ?thesis
      by (simp add: strncpy_pad.simps [of dest n i] aset_def take_Suc_update)
  next
    case False
    with "1.prems" show ?thesis by (simp add: strncpy_pad.simps)
  qed
qed

lemma strncpy_loop_eq:
  assumes "i \<le> n" and "n \<le> length dest" and "readable (drop i src) (n - i + 1)"
  shows "strncpy_loop dest src n i = Some (take i dest @ take (n - i) (cstr (drop i src)) @
     replicate (n - i - length (cstr (drop i src))) 0 @ drop n dest)"
  using assms
proof (induction dest src n i rule: strncpy_loop.induct)
  case (1 dest src n i)
  from "1.prems"(3) have i: "i < length src"
    by (cases "i < length src") (auto simp: readable_def)
  then have d: "drop i src = src ! i # drop (i + 1) src" by (simp add: Cons_nth_drop_Suc)
  show ?case
  proof (cases "src ! i \<noteq> 0 \<and> i < n")
    case True
    then have c: "cstr (drop i src) = src ! i # cstr (drop (i + 1) src)"
      unfolding d by (simp add: cstr_def)
    from True have n: "n - i = Suc (n - (i + 1))" by auto
    have "readable (drop (i + 1) src) (n - (i + 1) + 1)"
      using "1.prems"(3) True d n by (auto simp: readable_def)
    then have "strncpy_loop (dest[i := src ! i]) src n (i + 1) =
       Some (take (i + 1) (dest[i := src ! i]) @ take (n - (i + 1)) (cstr (drop (i + 1) src)) @
         replicate (n - (i + 1) - length (cstr (drop (i + 1) src))) 0 @ drop n (dest[i := src ! i]))"
      using "1.IH" [of "src ! i"] True i "1.prems" by (simp add: aget_def aset_def)
    with True i "1.prems" c n show ?thesis
      by (simp add: strncpy_loop.simps [of dest src n i] aget_def aset_def take_Suc_update)
  next
    case False
    then have "i = n \<or> cstr (drop i src) = []"
      using "1.prems"(1) unfolding d by (auto simp: cstr_def)
    then have "take (n - i) (cstr (drop i src)) = [] \<and> n - i - length (cstr (drop i src)) = n - i"
      by auto
    with False i "1.prems" show ?thesis
      by (auto simp: strncpy_loop.simps [of dest src n i] aget_def strncpy_pad_eq)
  qed
qed

lemma strncpy_eq:
  assumes "n \<le> length dest" and "readable src (n + 1)"
  shows "strncpy dest src n =
    Some (take n (cstr src) @ replicate (n - length (cstr src)) 0 @ drop n dest)"
  using strncpy_loop_eq [of 0 n dest src] assms by (simp add: strncpy_def)

section \<open>strrev and itoa\<close>

lemma strrev_loop_nth:
  assumes "0 \<le> beg" and "beg \<le> fin + 1" and "fin < int (length s)"
  shows "\<exists>t. strrev_loop s beg fin = Some t \<and> length t = length s \<and>
    (\<forall>k < length s. t ! k =
       (if beg \<le> int k \<and> int k \<le> fin then s ! nat (beg + fin - int k) else s ! k))"
  using assms
proof (induction s beg fin rule: strrev_loop.induct)
  case (1 s beg fin)
  show ?case
  proof (cases "beg < fin")
    case False
    then have "k = nat (beg + fin - int k)" if "beg \<le> int k" "int k \<le> fin" for k
      using that by linarith
    with False "1.prems" show ?thesis by (simp add: strrev_loop.simps [of s beg fin])
  next
    case True
    let ?s = "s[nat fin := s ! nat beg, nat beg := s ! nat fin]"
    from True "1.prems" obtain t where t: "strrev_loop ?s (beg + 1) (fin - 1) = Some t"
      "length t = length s"
      "\<And>k. k < length s \<Longrightarrow> t ! k = (if beg + 1 \<le> int k \<and> int k \<le> fin - 1
          then ?s ! nat (beg + fin - int k) else ?s ! k)"
      using "1.IH" [of "s ! nat fin" "s ! nat beg" "s[nat fin := s ! nat beg]" ?s]
      by (auto simp: aget_def aset_def)
    have "t ! k = (if beg \<le> int k \<and> int k \<le> fin then s ! nat (beg + fin - int k) else s ! k)"
      if "k < length s" for k
      using t(3) [OF that] that True "1.prems"
      by (auto simp: nth_list_update nat_eq_iff nat_eq_iff2)
    with t True "1.prems" show ?thesis
      by (simp add: strrev_loop.simps [of s beg fin] aget_def aset_def)
  qed
qed

lemma strrev_eq:
  assumes "0 \<in> set s"
  shows "strrev s = Some (rev (cstr s) @ drop (length (cstr s)) s)"
proof -
  let ?n = "length (cstr s)"
  have n: "?n < length s" using assms by (rule length_cstr_less)
  then obtain t where t: "strrev_loop s 0 (int ?n - 1) = Some t" "length t = length s"
    and nth: "\<And>k. k < length s \<Longrightarrow>
      t ! k = (if int k \<le> int ?n - 1 then s ! nat (int ?n - 1 - int k) else s ! k)"
    using strrev_loop_nth [of 0 "int ?n - 1" s] by auto
  have "t = rev (cstr s) @ drop ?n s"
  proof (rule nth_equalityI)
    show "length t = length (rev (cstr s) @ drop ?n s)" using t(2) n by simp
  next
    fix k assume "k < length t"
    then have k: "k < length s" using t(2) by simp
    show "t ! k = (rev (cstr s) @ drop ?n s) ! k"
    proof (cases "k < ?n")
      case True
      then have "nat (int ?n - 1 - int k) = ?n - Suc k" by linarith
      with True nth [OF k] n show ?thesis by (simp add: nth_append rev_nth nth_cstr)
    next
      case False
      with nth [OF k] n show ?thesis by (simp add: nth_append)
    qed
  qed
  with t(1) assms show ?thesis by (simp add: strrev_def strlen_eq)
qed

text \<open>The reference: the digits of a number, least significant first, as ASCII bytes.\<close>

definition digit_char :: "nat \<Rightarrow> u8" where
  "digit_char d = itoa_lookup ! d"

fun rev_digits :: "nat \<Rightarrow> nat \<Rightarrow> u8 list" where
  "rev_digits b n =
     (if n = 0 \<or> b < 2 then [] else digit_char (n mod b) # rev_digits b (n div b))"

declare rev_digits.simps [simp del]

text \<open>Reading a digit string back, most significant digit first.\<close>

definition digit_val :: "u8 \<Rightarrow> nat" where
  "digit_val c = (if unat c < 58 then unat c - 48 else unat c - 55)"

definition radix_value :: "nat \<Rightarrow> u8 list \<Rightarrow> nat" where
  "radix_value b cs = foldl (\<lambda>v c. v * b + digit_val c) 0 cs"

lemma digit_table:
  "\<forall>d \<in> set [0..<36]. digit_val (itoa_lookup ! d) = d \<and> itoa_lookup ! d \<noteq> 0"
  by code_simp

lemma digit_val_char: "d < 36 \<Longrightarrow> digit_val (digit_char d) = d"
  using digit_table by (simp add: digit_char_def)

lemma digit_char_nonzero: "d < 36 \<Longrightarrow> digit_char d \<noteq> 0"
  using digit_table by (simp add: digit_char_def)

lemma mod_radix_less: "2 \<le> b \<Longrightarrow> b \<le> 36 \<Longrightarrow> n mod b < (36::nat)"
  using mod_less_divisor [of b n] by linarith

lemma radix_value_rev_digits:
  "2 \<le> b \<Longrightarrow> b \<le> 36 \<Longrightarrow> radix_value b (rev (rev_digits b n)) = n"
proof (induction b n rule: rev_digits.induct)
  case (1 b n)
  show ?case
  proof (cases "n = 0")
    case True
    then show ?thesis by (simp add: rev_digits.simps radix_value_def)
  next
    case False
    with 1 show ?thesis
      by (simp add: rev_digits.simps [of b n] radix_value_def digit_val_char mod_radix_less)
  qed
qed

lemma nul_notin_rev_digits: "b \<le> 36 \<Longrightarrow> 0 \<notin> set (rev_digits b n)"
proof (induction b n rule: rev_digits.induct)
  case (1 b n)
  have "digit_char (n mod b) \<noteq> 0" if "2 \<le> b"
    using that 1 by (intro digit_char_nonzero mod_radix_less) auto
  with 1 show ?case by (auto simp: rev_digits.simps [of b n])
qed

lemma length_rev_digits: "n < 2 ^ k \<Longrightarrow> length (rev_digits b n) \<le> k"
proof (induction k arbitrary: n)
  case 0
  then show ?case by (simp add: rev_digits.simps)
next
  case (Suc k)
  show ?case
  proof (cases "n = 0 \<or> b < 2")
    case True
    then show ?thesis by (auto simp: rev_digits.simps)
  next
    case False
    then have "n div b \<le> n div 2" by (intro div_le_mono2) auto
    with Suc.prems have "n div b < 2 ^ k" by (simp add: less_mult_imp_div_less mult.commute)
    from Suc.IH [OF this] False show ?thesis by (simp add: rev_digits.simps [of b n])
  qed
qed

lemma itoa_loop_eq:
  assumes "2 \<le> unat r" and "unat r \<le> 36"
    and "k + length (rev_digits (unat r) (unat v)) < length buf"
  shows "itoa_loop v buf k r = Some (take k buf @ rev_digits (unat r) (unat v) @
    0 # drop (k + length (rev_digits (unat r) (unat v)) + 1) buf)"
  using assms
proof (induction "unat v" arbitrary: v buf k rule: less_induct)
  case less
  show ?case
  proof (cases "v = 0")
    case True
    with less.prems show ?thesis
      by (simp add: itoa_loop.simps rev_digits.simps aset_def upd_conv_take_nth_drop)
  next
    case False
    let ?d = "unat v mod unat r"
    have d36: "?d < 36" using less.prems by (intro mod_radix_less)
    have sd: "sint (v mod r) = int ?d" using d36 by (subst sint_small) (simp_all add: unat_mod)
    have digits: "rev_digits (unat r) (unat v) =
        digit_char ?d # rev_digits (unat r) (unat (v div r))"
      using False less.prems by (simp add: rev_digits.simps [of _ "unat v"] unat_div unat_eq_0)
    have r0: "r \<noteq> 0" using less.prems by auto
    have "unat (v div r) < unat v"
      using False less.prems by (simp add: unat_div unat_gt_0)
    then have "itoa_loop (v div r) (buf[k := digit_char ?d]) (k + 1) r =
      Some (take (k + 1) (buf[k := digit_char ?d]) @ rev_digits (unat r) (unat (v div r)) @
        0 # drop (k + 1 + length (rev_digits (unat r) (unat (v div r))) + 1) (buf[k := digit_char ?d]))"
      using less.prems digits by (intro less.hyps) auto
    moreover have "aget itoa_lookup (int ?d) = Some (digit_char ?d)"
      using d36 by (simp add: aget_def digit_char_def itoa_lookup_def)
    moreover have "itoa_loop v buf k r = itoa_loop (v div r) (buf[k := digit_char ?d]) (k + 1) r"
      using False r0 sd calculation(2) less.prems
      by (subst itoa_loop.simps) (simp add: aset_def word_gt_0)
    ultimately show ?thesis
      using less.prems digits by (simp add: take_Suc_update)
  qed
qed

lemma rev_digits_nonempty: "n \<noteq> 0 \<Longrightarrow> 2 \<le> b \<Longrightarrow> rev_digits b n \<noteq> []"
  by (simp add: rev_digits.simps)

lemma itoa_nonzero_eq:
  assumes "val \<noteq> 0" and "2 \<le> radix" and "radix \<le> 36"
    and "length (rev_digits (nat radix) (unat val)) < length buf"
  shows "itoa val buf radix = Some (rev (rev_digits (nat radix) (unat val)) @
    0 # drop (length (rev_digits (nat radix) (unat val)) + 1) buf)"
proof -
  let ?ds = "rev_digits (nat radix) (unat val)"
  let ?rest = "0 # drop (length ?ds + 1) buf"
  have r: "unat (word_of_int radix :: u32) = nat radix"
    using assms(2,3) by (simp add: unat_eq_nat_uint uint_word_of_int)
  then have "itoa_loop val buf 0 (word_of_int radix) = Some (?ds @ ?rest)"
    using assms itoa_loop_eq [of "word_of_int radix" 0 val buf] by simp
  moreover have "cstr (?ds @ ?rest) = ?ds"
    using assms(2,3) by (intro cstr_append_nul nul_notin_rev_digits) linarith
  ultimately show ?thesis
    using assms(1) by (simp add: itoa_def strrev_eq)
qed

text \<open>
  C33: \<open>itoa\<close> returns for every 32-bit value and every radix from 2 to 36, given a buffer of at
  least 33 bytes; it keeps the buffer's size, and the string it leaves reads back, in that
  radix, as the value.
\<close>

theorem itoa_roundtrip:
  assumes "2 \<le> radix" and "radix \<le> 36" and "33 \<le> length buf"
  shows "\<exists>b. itoa val buf radix = Some b \<and> length b = length buf \<and> 0 \<in> set b \<and>
    radix_value (nat radix) (cstr b) = unat val"
proof (cases "val = 0")
  case True
  obtain x y zs where "buf = x # y # zs"
    using assms(3) by (cases buf; cases "tl buf") auto
  with True show ?thesis
    by (simp add: itoa_def aset_def cstr_def radix_value_def digit_val_def)
next
  case False
  let ?ds = "rev_digits (nat radix) (unat val)"
  have len: "length ?ds \<le> 32"
    by (intro length_rev_digits unat_u32_bound)
  have nul: "0 \<notin> set (rev ?ds)"
    using assms(2) by (simp add: nul_notin_rev_digits nat_le_iff)
  from False assms len have
    "itoa val buf radix = Some (rev ?ds @ 0 # drop (length ?ds + 1) buf)"
    by (intro itoa_nonzero_eq) auto
  moreover have "radix_value (nat radix) (cstr (rev ?ds @ 0 # drop (length ?ds + 1) buf)) = unat val"
    using assms(1,2) by (simp add: cstr_append_nul [OF nul] radix_value_rev_digits nat_le_iff)
  ultimately show ?thesis using len assms(3) by simp
qed

theorem itoa_roundtrip_witness:
  "\<exists>b. itoa 48879 (replicate 33 170) 16 = Some b \<and> length b = length (replicate 33 (170::u8)) \<and>
    0 \<in> set b \<and> radix_value (nat 16) (cstr b) = unat (48879 :: u32)"
  by (rule itoa_roundtrip) simp_all

end
