(* ===== verification/Process.thy ===== *)
theory Process
  imports Lib_Strings
begin

text \<open>
  The process control blocks of \<^verbatim>\<open>student-distrib/process_control.c\<close> and \<^verbatim>\<open>process_control.h\<close>.

  A pointer to an operation table is the name of the static table it points to, \<open>None\<close> for
  \<open>NULL\<close>; a function pointer in a table is a constructor naming the function. \<open>int32_t\<close> fields
  that hold bit patterns (\<open>inode\<close>, \<open>flags\<close>, stack pointers) are 32-bit words, \<open>-1\<close> being the
  all-ones word; \<open>int\<close> variables used as indices and counters are integers.
  An access outside \<open>control_blocks\<close> or \<open>fd_table\<close> is \<open>None\<close>.
\<close>

section \<open>Operation tables, descriptors and control blocks\<close>

datatype optable_id = File_table | Dir_table | Stdin_table | Stdout_table | Rtc_table

datatype open_fn = Terminal_open | Keyboard_open | File_open | Directory_open | Rtc_open
datatype read_fn = Terminal_read | Terminal_read_fail | File_read | Directory_read | Rtc_read
datatype write_fn = Terminal_write | Keyboard_write | File_write | Directory_write | Rtc_write
datatype close_fn = Terminal_close | Keyboard_close | File_close | Directory_close | Rtc_close

record optable =
  op_open :: "open_fn option"
  op_read :: "read_fn option"
  op_write :: "write_fn option"
  op_close :: "close_fn option"

record fd_block =
  file_operations_pointer :: "optable_id option"
  inode :: u32
  file_position :: u32
  flags :: u32

record pcb =
  fd_table :: "fd_block list"
  pid :: int
  parent :: int
  stack_pos :: u32
  ss :: u32
  esp :: u32
  args :: "u8 list"

record procs =
  control_blocks :: "pcb list"
  num_active_processes :: int
  current_pid :: int
  past_pid :: int
  tables :: "optable_id \<Rightarrow> optable"
  file_ptr :: "optable_id option"
  dir_ptr :: "optable_id option"
  stdin_ptr :: "optable_id option"
  stdout_ptr :: "optable_id option"

definition SENTINEL_PROCESS :: int where "SENTINEL_PROCESS = 0"
definition TOTAL_PROCESSES :: int where "TOTAL_PROCESSES = 7"
definition MAX_PROCESSES :: int where "MAX_PROCESSES = 6"
definition FDT_SIZE :: int where "FDT_SIZE = 8"
definition ARGS_BUFFER_SIZE :: int where "ARGS_BUFFER_SIZE = 1024"

lemmas proc_consts = SENTINEL_PROCESS_def TOTAL_PROCESSES_def MAX_PROCESSES_def FDT_SIZE_def
  ARGS_BUFFER_SIZE_def

text \<open>\<open>control_blocks[i]\<close>: read, write, and the descriptors of the running process.\<close>

definition get_cb :: "procs \<Rightarrow> int \<Rightarrow> pcb option" where
  "get_cb p i = aget (control_blocks p) i"

definition put_cb :: "procs \<Rightarrow> int \<Rightarrow> pcb \<Rightarrow> procs option" where
  "put_cb p i c =
     (case aset (control_blocks p) i c of
        None \<Rightarrow> None | Some cs \<Rightarrow> Some (p\<lparr>control_blocks := cs\<rparr>))"

definition get_fd :: "procs \<Rightarrow> int \<Rightarrow> fd_block option" where
  "get_fd p fd = (case get_cb p (current_pid p) of None \<Rightarrow> None | Some c \<Rightarrow> aget (fd_table c) fd)"

definition put_fd :: "procs \<Rightarrow> int \<Rightarrow> fd_block \<Rightarrow> procs option" where
  "put_fd p fd b =
     (case get_cb p (current_pid p) of None \<Rightarrow> None | Some c \<Rightarrow>
      (case aset (fd_table c) fd b of None \<Rightarrow> None | Some t \<Rightarrow>
         put_cb p (current_pid p) (c\<lparr>fd_table := t\<rparr>)))"

text \<open>Marking a descriptor free, as the initialisation and the close routines do.\<close>

definition freed :: "fd_block \<Rightarrow> fd_block" where
  "freed b = b\<lparr>flags := -1, inode := -1, file_operations_pointer := None\<rparr>"

definition is_free :: "fd_block \<Rightarrow> bool" where
  "is_free b \<longleftrightarrow> flags b = -1"

section \<open>process_control.c\<close>

text \<open>The loop that frees descriptors 2 to 7 of one block.\<close>

definition free_fds :: "pcb \<Rightarrow> pcb option" where
  "free_fds c = loop_opt 2 FDT_SIZE
     (\<lambda>i c. case aget (fd_table c) i of None \<Rightarrow> None | Some b \<Rightarrow>
        (case aset (fd_table c) i (freed b) of None \<Rightarrow> None | Some t \<Rightarrow> Some (c\<lparr>fd_table := t\<rparr>))) c"

definition clear_args_buffer :: "pcb \<Rightarrow> pcb option" where
  "clear_args_buffer c = loop_opt 0 ARGS_BUFFER_SIZE
     (\<lambda>i c. case aset (args c) i 0 of None \<Rightarrow> None | Some a \<Rightarrow> Some (c\<lparr>args := a\<rparr>)) c"

definition stdin_block :: fd_block where
  "stdin_block = \<lparr>file_operations_pointer = Some Stdin_table, inode = 0, file_position = 0, flags = 1\<rparr>"

definition stdout_block :: fd_block where
  "stdout_block = \<lparr>file_operations_pointer = Some Stdout_table, inode = 0, file_position = 0, flags = 1\<rparr>"

definition init_std :: "int \<Rightarrow> procs \<Rightarrow> procs option" where
  "init_std i p =
     (case get_cb p i of None \<Rightarrow> None | Some c \<Rightarrow>
      (case aset (fd_table c) 0 stdin_block of None \<Rightarrow> None | Some t0 \<Rightarrow>
       (case aset t0 1 stdout_block of None \<Rightarrow> None | Some t1 \<Rightarrow>
          put_cb p i (c\<lparr>fd_table := t1\<rparr>))))"

definition init_rest :: "int \<Rightarrow> procs \<Rightarrow> procs option" where
  "init_rest i p =
     (case get_cb p i of None \<Rightarrow> None | Some c \<Rightarrow>
      (case free_fds c of None \<Rightarrow> None | Some c1 \<Rightarrow>
       (case clear_args_buffer c1 of None \<Rightarrow> None | Some c2 \<Rightarrow> put_cb p i c2)))"

definition process_control_block_init :: "procs \<Rightarrow> (int \<times> procs) option" where
  "process_control_block_init p0 =
     (let p1 = p0\<lparr>stdout_ptr := Some Stdout_table, stdin_ptr := Some Stdin_table,
            tables := (tables p0)
              (Stdout_table := \<lparr>op_open = Some Terminal_open, op_read = Some Terminal_read_fail,
                 op_write = Some Terminal_write, op_close = Some Terminal_close\<rparr>,
               Stdin_table := \<lparr>op_open = Some Keyboard_open, op_read = Some Terminal_read,
                 op_write = Some Keyboard_write, op_close = Some Keyboard_close\<rparr>)\<rparr>
      in case loop_opt 0 TOTAL_PROCESSES init_std p1 of None \<Rightarrow> None | Some p2 \<Rightarrow>
        (let p3 = p2\<lparr>file_ptr := Some File_table, dir_ptr := Some Dir_table,
            tables := (tables p2)
              (File_table := \<lparr>op_open = Some File_open, op_read = Some File_read,
                 op_write = Some File_write, op_close = Some File_close\<rparr>,
               Dir_table := \<lparr>op_open = Some Directory_open, op_read = Some Directory_read,
                 op_write = Some Directory_write, op_close = Some Directory_close\<rparr>)\<rparr>
         in case loop_opt 0 TOTAL_PROCESSES init_rest p3 of None \<Rightarrow> None | Some p4 \<Rightarrow>
              Some (0, p4\<lparr>num_active_processes := 0\<rparr>)))"

text \<open>\<open>first_process_init\<close>: \<open>ss_reg\<close> and \<open>esp_reg\<close> are the registers the inline assembly reads.\<close>

definition first_process_init :: "u32 \<Rightarrow> u32 \<Rightarrow> procs \<Rightarrow> (int \<times> procs) option" where
  "first_process_init ss_reg esp_reg p0 =
     (let p1 = p0\<lparr>current_pid := SENTINEL_PROCESS\<rparr>
      in case get_cb p1 SENTINEL_PROCESS of None \<Rightarrow> None | Some c \<Rightarrow>
        (case put_cb p1 SENTINEL_PROCESS
             (c\<lparr>pid := SENTINEL_PROCESS, parent := SENTINEL_PROCESS, ss := ss_reg, esp := esp_reg\<rparr>)
         of None \<Rightarrow> None | Some p2 \<Rightarrow>
           (case loop_opt 1 TOTAL_PROCESSES
                (\<lambda>i p. case get_cb p i of None \<Rightarrow> None | Some c \<Rightarrow> put_cb p i (c\<lparr>pid := -1\<rparr>)) p2
            of None \<Rightarrow> None | Some p3 \<Rightarrow> Some (SENTINEL_PROCESS, p3))))"

text \<open>\<open>clear_args\<close>: zero the argument bytes of the running process up to its first NUL.\<close>

function clear_args_loop :: "u8 list \<Rightarrow> int \<Rightarrow> u8 list option" where
  "clear_args_loop as i =
     (if i < ARGS_BUFFER_SIZE then
        (case aget as i of None \<Rightarrow> None | Some c \<Rightarrow>
           if c = 0 then Some as
           else (case aset as i 0 of None \<Rightarrow> None | Some as' \<Rightarrow> clear_args_loop as' (i + 1)))
      else Some as)"
  by pat_completeness auto
termination
  by (relation "measure (\<lambda>(as, i). nat (ARGS_BUFFER_SIZE - i))") auto

declare clear_args_loop.simps [simp del]

definition clear_args :: "procs \<Rightarrow> procs option" where
  "clear_args p =
     (case get_cb p (current_pid p) of None \<Rightarrow> None | Some c \<Rightarrow>
      (case clear_args_loop (args c) 0 of None \<Rightarrow> None | Some as \<Rightarrow>
         put_cb p (current_pid p) (c\<lparr>args := as\<rparr>)))"

text \<open>The search of \<open>create_new_pcb\<close>: the first block from \<open>i\<close> on whose \<open>pid\<close> is \<open>-1\<close>, else 7.\<close>

function find_free_pid :: "procs \<Rightarrow> int \<Rightarrow> int option" where
  "find_free_pid p i =
     (if i < TOTAL_PROCESSES then
        (case get_cb p i of None \<Rightarrow> None | Some c \<Rightarrow>
           if pid c = -1 then Some i else find_free_pid p (i + 1))
      else Some i)"
  by pat_completeness auto
termination
  by (relation "measure (\<lambda>(p, i). nat (TOTAL_PROCESSES - i))") auto

declare find_free_pid.simps [simp del]

definition create_new_pcb :: "int \<Rightarrow> procs \<Rightarrow> (int \<times> procs) option" where
  "create_new_pcb par p =
     (case find_free_pid p 1 of None \<Rightarrow> None | Some i \<Rightarrow>
        if i = TOTAL_PROCESSES then Some (-1, p)
        else
          (case get_cb p i of None \<Rightarrow> None | Some c \<Rightarrow>
           (case free_fds (c\<lparr>pid := i, parent := par\<rparr>) of None \<Rightarrow> None | Some c1 \<Rightarrow>
            (case put_cb p i c1 of None \<Rightarrow> None | Some p1 \<Rightarrow>
             (case clear_args (p1\<lparr>num_active_processes := num_active_processes p1 + 1\<rparr>) of
                None \<Rightarrow> None | Some p2 \<Rightarrow> Some (i, p2))))))"

definition load_pcb :: "int \<Rightarrow> u32 \<Rightarrow> u32 \<Rightarrow> procs \<Rightarrow> procs option" where
  "load_pcb i ss_val esp_val p =
     (case get_cb p i of None \<Rightarrow> None | Some c \<Rightarrow> put_cb p i (c\<lparr>ss := ss_val, esp := esp_val\<rparr>))"

definition destroy_pcb :: "int \<Rightarrow> procs \<Rightarrow> (int \<times> procs) option" where
  "destroy_pcb i p =
     (case get_cb p i of None \<Rightarrow> None | Some c \<Rightarrow>
      (case put_cb p i (c\<lparr>pid := -1\<rparr>) of None \<Rightarrow> None | Some p1 \<Rightarrow>
         Some (0, p1\<lparr>num_active_processes := num_active_processes p1 - 1\<rparr>)))"

section \<open>The stores\<close>

interpretation cb_store: indexed_store get_cb put_cb
  by unfold_locales
    (auto simp: get_cb_def put_cb_def aget_def aset_def split: if_splits option.splits)

text \<open>The descriptors of the running process form a store of their own.\<close>

lemma put_fd_current: "put_fd p fd b = Some p' \<Longrightarrow> current_pid p' = current_pid p"
  by (auto simp: put_fd_def put_cb_def split: option.splits)

interpretation fd_store: indexed_store get_fd put_fd
proof
  fix p i v
  assume "get_fd p i \<noteq> None"
  then obtain c where c: "get_cb p (current_pid p) = Some c" "0 \<le> i" "i < int (length (fd_table c))"
    by (auto simp: get_fd_def aget_def split: option.splits if_splits)
  then obtain p' where "put_cb p (current_pid p) (c\<lparr>fd_table := (fd_table c)[nat i := v]\<rparr>) = Some p'"
    using cb_store.put_valid by fastforce
  with c show "\<exists>p'. put_fd p i v = Some p'" by (simp add: put_fd_def aset_def)
next
  fix p i v p'
  assume put: "put_fd p i v = Some p'"
  then obtain c t where ct: "get_cb p (current_pid p) = Some c" "aset (fd_table c) i v = Some t"
    "put_cb p (current_pid p) (c\<lparr>fd_table := t\<rparr>) = Some p'"
    by (auto simp: put_fd_def split: option.splits)
  then have "get_cb p' (current_pid p') = Some (c\<lparr>fd_table := t\<rparr>)"
    using put_fd_current [OF put] by (simp add: cb_store.get_put_same)
  with ct show "get_fd p' i = Some v"
    using array_store.get_put_same [OF ct(2)] by (simp add: get_fd_def)
  show "get_fd p' j = get_fd p j" if "j \<noteq> i" for j
    using \<open>get_cb p' (current_pid p') = Some (c\<lparr>fd_table := t\<rparr>)\<close> ct(1)
      array_store.get_put_other [OF ct(2) that] by (simp add: get_fd_def)
qed

section \<open>Well-formed control blocks\<close>

definition pcb_wf :: "pcb \<Rightarrow> bool" where
  "pcb_wf c \<longleftrightarrow> length (fd_table c) = 8 \<and> length (args c) = 1024"

definition active_count :: "procs \<Rightarrow> nat" where
  "active_count p = length (filter (\<lambda>c. pid c \<noteq> -1) (tl (control_blocks p)))"

definition procs_wf :: "procs \<Rightarrow> bool" where
  "procs_wf p \<longleftrightarrow>
     length (control_blocks p) = 7 \<and> (\<forall>c \<in> set (control_blocks p). pcb_wf c) \<and>
     0 \<le> current_pid p \<and> current_pid p < 7 \<and>
     num_active_processes p = int (active_count p)"

declare pcb_wf_def [inv_simps] procs_wf_def [inv_simps]

lemma length_filter_update:
  "i < length xs \<Longrightarrow>
   length (filter P (xs[i := v])) + (if P (xs ! i) then 1 else 0) =
   length (filter P xs) + (if P v then 1 else 0)"
proof (induction xs arbitrary: i)
  case (Cons x xs)
  then show ?case by (cases i) auto
qed simp

lemma tl_update: "0 < i \<Longrightarrow> tl (xs[i := v]) = (tl xs)[i - 1 := v]"
  by (cases xs; cases i) auto

lemma tl_update_0: "tl (xs[0 := v]) = tl xs"
  by (cases xs) auto

lemma active_count_put:
  assumes "put_cb p i c' = Some p'" and "get_cb p i = Some c" and "1 \<le> i"
  shows "active_count p' + (if pid c \<noteq> -1 then 1 else 0) = active_count p + (if pid c' \<noteq> -1 then 1 else 0)"
proof -
  from assms have i: "0 < nat i" "nat i < length (control_blocks p)" "c = control_blocks p ! nat i"
    and p': "p' = p\<lparr>control_blocks := (control_blocks p)[nat i := c']\<rparr>"
    by (auto simp: put_cb_def get_cb_def aget_eq_Some_iff aset_eq_Some_iff split: option.splits)
  then have "nat i - 1 < length (tl (control_blocks p))" "tl (control_blocks p) ! (nat i - 1) = c"
    by (auto simp: nth_tl)
  then show ?thesis
    using length_filter_update [of "nat i - 1" "tl (control_blocks p)" "\<lambda>c. pid c \<noteq> -1" c'] i(1)
    by (simp add: active_count_def p' tl_update)
qed

lemma put_cb_frame:
  "put_cb p i c = Some p' \<Longrightarrow>
     current_pid p' = current_pid p \<and> num_active_processes p' = num_active_processes p \<and>
     past_pid p' = past_pid p \<and> tables p' = tables p \<and> file_ptr p' = file_ptr p \<and>
     dir_ptr p' = dir_ptr p \<and> length (control_blocks p') = length (control_blocks p)"
  by (auto simp: put_cb_def aset_eq_Some_iff split: option.splits)

lemma put_cb_wf_blocks:
  assumes "put_cb p i c = Some p'" and "\<forall>c \<in> set (control_blocks p). pcb_wf c" and "pcb_wf c"
  shows "\<forall>c \<in> set (control_blocks p'). pcb_wf c"
proof -
  have "control_blocks p' = (control_blocks p)[nat i := c]"
    using assms(1) by (auto simp: put_cb_def aset_eq_Some_iff split: option.splits)
  then have "set (control_blocks p') \<subseteq> insert c (set (control_blocks p))"
    by (simp add: set_update_subset_insert)
  with assms(2,3) show ?thesis by auto
qed

lemma get_cb_wf:
  "procs_wf p \<Longrightarrow> 0 \<le> i \<Longrightarrow> i < 7 \<Longrightarrow> \<exists>c. get_cb p i = Some c \<and> pcb_wf c"
  by (auto simp: procs_wf_def get_cb_def aget_def)

lemma put_cb_wf:
  assumes "procs_wf p" and "0 \<le> i" and "i < 7"
  shows "\<exists>p'. put_cb p i c = Some p'"
  using cb_store.put_valid get_cb_wf [OF assms] by (metis option.distinct(1))

text \<open>Every descriptor 0 to 7 of the running process can be read and written.\<close>

lemma get_fd_wf: "procs_wf p \<Longrightarrow> 0 \<le> fd \<Longrightarrow> fd < 8 \<Longrightarrow> \<exists>b. get_fd p fd = Some b"
  using get_cb_wf [of p "current_pid p"] by (auto simp: get_fd_def aget_def procs_wf_def pcb_wf_def)

text \<open>
  Replacing a block by a well-formed one keeps the invariant, with the counter adjusted by what
  the replacement does to the block's \<open>pid\<close>.
\<close>

lemma put_cb_keeps_wf:
  assumes wf: "procs_wf p" and get: "get_cb p i = Some c" and put: "put_cb p i c' = Some p'"
    and c': "pcb_wf c'" and i: "1 \<le> i \<or> pid c' = pid c"
    and n: "n + (if pid c \<noteq> -1 then 1 else 0) =
      num_active_processes p + (if pid c' \<noteq> -1 then 1 else 0)"
  shows "procs_wf (p'\<lparr>num_active_processes := n\<rparr>)"
proof -
  have blocks: "\<forall>c \<in> set (control_blocks p'). pcb_wf c"
    using put_cb_wf_blocks [OF put _ c'] wf by (simp add: procs_wf_def)
  have count: "active_count p' + (if pid c \<noteq> -1 then 1 else 0) =
      active_count p + (if pid c' \<noteq> -1 then 1 else 0)"
  proof (cases "1 \<le> i")
    case True
    from active_count_put [OF put get this] show ?thesis .
  next
    case False
    with put i have "active_count p' = active_count p"
      by (auto simp: active_count_def put_cb_def aset_eq_Some_iff split: option.splits)
        (auto simp: tl_update_0 le_less)
    with False i show ?thesis by auto
  qed
  have "n = int (active_count p')"
    using n count wf by (auto simp: procs_wf_def split: if_splits)
  moreover have "active_count (p'\<lparr>num_active_processes := n\<rparr>) = active_count p'"
    by (simp add: active_count_def)
  ultimately show ?thesis
    using put_cb_frame [OF put] blocks wf unfolding procs_wf_def by auto
qed

lemma put_cb_same_pid_wf:
  assumes "procs_wf p" and "get_cb p i = Some c" and "put_cb p i c' = Some p'"
    and "pcb_wf c'" and "pid c' = pid c"
  shows "procs_wf p'"
proof -
  have n: "num_active_processes p' = num_active_processes p" using put_cb_frame [OF assms(3)] by simp
  have "procs_wf (p'\<lparr>num_active_processes := num_active_processes p'\<rparr>)"
    using put_cb_keeps_wf [OF assms(1-4), of "num_active_processes p'"] assms(5) n by simp
  then show ?thesis by simp
qed

lemma put_fd_wf:
  assumes "procs_wf p" and "put_fd p fd b = Some p'"
  shows "procs_wf p'"
proof -
  from assms(2) obtain c t where ct: "get_cb p (current_pid p) = Some c"
    "aset (fd_table c) fd b = Some t" "put_cb p (current_pid p) (c\<lparr>fd_table := t\<rparr>) = Some p'"
    by (auto simp: put_fd_def split: option.splits)
  have "pcb_wf c" using get_cb_wf [OF assms(1), of "current_pid p"] ct(1) assms(1)
    by (auto simp: procs_wf_def)
  then have "pcb_wf (c\<lparr>fd_table := t\<rparr>)"
    using ct(2) by (auto simp: pcb_wf_def aset_eq_Some_iff)
  then show ?thesis using put_cb_same_pid_wf [OF assms(1) ct(1,3)] by simp
qed

section \<open>The loops over one block\<close>

lemma list8E:
  assumes "length xs = 8"
  obtains a b c d e f g h where "xs = [a, b, c, d, e, f, g, h]"
  using assms by (auto simp: numeral_eq_Suc length_Suc_conv)

lemma free_fds_eq:
  assumes "length (fd_table c) = 8"
  shows "free_fds c =
    Some (c\<lparr>fd_table := take 2 (fd_table c) @ map freed (drop 2 (fd_table c))\<rparr>)"
proof -
  from assms obtain f0 f1 f2 f3 f4 f5 f6 f7 where t: "fd_table c = [f0, f1, f2, f3, f4, f5, f6, f7]"
    by (rule list8E)
  show ?thesis
    by (simp add: free_fds_def FDT_SIZE_def loop_opt.simps aget_def aset_def t)
qed

lemma clear_args_buffer_eq:
  assumes "length (args c) = 1024"
  shows "clear_args_buffer c = Some (c\<lparr>args := replicate 1024 0\<rparr>)"
proof -
  let ?body = "\<lambda>i c. case aset (args c) i 0 of None \<Rightarrow> None | Some a \<Rightarrow> Some (c\<lparr>args := a\<rparr>)"
  let ?P = "\<lambda>i d. d = c\<lparr>args := replicate (nat i) 0 @ drop (nat i) (args c)\<rparr>"
  have "\<exists>t. loop_opt 0 1024 ?body c = Some t \<and> ?P 1024 t"
  proof (rule loop_opt_inv)
    fix i d assume i: "0 \<le> i" "i < 1024" and d: "?P i d"
    have "(replicate (nat i) 0 @ drop (nat i) (args c))[nat i := 0] =
        replicate (nat (i + 1)) 0 @ drop (nat (i + 1)) (args c)"
      using i assms replicate_prefix_step [of "nat i" "args c" 0] by (simp add: nat_add_distrib)
    then show "\<exists>d'. ?body i d = Some d' \<and> ?P (i + 1) d'"
      using i d assms by (simp add: aset_def)
  qed auto
  then show ?thesis using assms by (auto simp: clear_args_buffer_def ARGS_BUFFER_SIZE_def)
qed

lemma clear_args_loop_eq:
  assumes "length as = 1024" and "k \<le> 1024"
  shows "clear_args_loop as (int k) =
    Some (take k as @ replicate (length (cstr (drop k as))) 0 @ drop (k + length (cstr (drop k as))) as)"
  using assms
proof (induction "1024 - k" arbitrary: as k)
  case 0
  then show ?case by (simp add: clear_args_loop.simps ARGS_BUFFER_SIZE_def cstr_def)
next
  case (Suc n)
  then have k: "k < length as" by simp
  then have d: "drop k as = as ! k # drop (k + 1) as" by (simp add: Cons_nth_drop_Suc)
  show ?case
  proof (cases "as ! k = 0")
    case True
    then have "cstr (drop k as) = []" unfolding d by (simp add: cstr_def)
    with True k Suc.prems show ?thesis
      by (simp add: clear_args_loop.simps ARGS_BUFFER_SIZE_def aget_def)
  next
    case False
    then have c: "cstr (drop k as) = as ! k # cstr (drop (k + 1) as)"
      unfolding d by (simp add: cstr_def)
    have "clear_args_loop (as[k := 0]) (int (k + 1)) =
        Some (take (k + 1) (as[k := 0]) @ replicate (length (cstr (drop (k + 1) (as[k := 0])))) 0 @
          drop (k + 1 + length (cstr (drop (k + 1) (as[k := 0])))) (as[k := 0]))"
      using Suc by (intro Suc.hyps) auto
    with False k Suc.prems show ?thesis
      by (simp add: clear_args_loop.simps [of as "int k"] ARGS_BUFFER_SIZE_def aget_def aset_def
          c take_Suc_update add.commute)
  qed
qed

lemma clear_args_loop_cleared:
  assumes "length as = 1024"
  obtains as' where "clear_args_loop as 0 = Some as'" "length as' = 1024" "cstr as' = []"
proof -
  let ?n = "length (cstr as)"
  have "?n \<le> length as" unfolding cstr_def by (rule length_takeWhile_le)
  moreover have "cstr (replicate ?n 0 @ drop ?n as) = []"
  proof (cases "cstr as")
    case Nil
    then show ?thesis by simp
  next
    case (Cons x xs)
    then show ?thesis by (simp add: cstr_def)
  qed
  ultimately show ?thesis
    using clear_args_loop_eq [OF assms, of 0] assms that by simp
qed

section \<open>The operations keep the invariant\<close>

lemma clear_args_ok:
  assumes wf: "procs_wf p" and c: "get_cb p (current_pid p) = Some c"
  obtains p' as where "clear_args p = Some p'" and "procs_wf p'"
    and "get_cb p' (current_pid p) = Some (c\<lparr>args := as\<rparr>)" and "length as = 1024" and "cstr as = []"
    and "\<And>j. j \<noteq> current_pid p \<Longrightarrow> get_cb p' j = get_cb p j"
    and "current_pid p' = current_pid p" and "num_active_processes p' = num_active_processes p"
proof -
  have cur: "0 \<le> current_pid p" "current_pid p < 7" using wf by (auto simp: procs_wf_def)
  have cwf: "pcb_wf c" using get_cb_wf [OF wf cur] c by simp
  then obtain as where as: "clear_args_loop (args c) 0 = Some as" "length as = 1024" "cstr as = []"
    by (auto simp: pcb_wf_def elim: clear_args_loop_cleared)
  obtain p' where p': "put_cb p (current_pid p) (c\<lparr>args := as\<rparr>) = Some p'"
    using put_cb_wf [OF wf cur] by blast
  have "procs_wf p'"
    using cwf as(2) by (intro put_cb_same_pid_wf [OF wf c p']) (auto simp: pcb_wf_def)
  then show ?thesis
    using that [of p' as] c as p' cb_store.get_put_same [OF p'] cb_store.get_put_other [OF p']
      put_cb_frame [OF p'] by (simp add: clear_args_def)
qed

lemma find_free_pid_spec:
  assumes "procs_wf p" and "0 \<le> i" and "i \<le> 7"
  shows "\<exists>j. find_free_pid p i = Some j \<and> i \<le> j \<and> j \<le> 7 \<and>
    (\<forall>k c. i \<le> k \<and> k < j \<and> get_cb p k = Some c \<longrightarrow> pid c \<noteq> -1) \<and>
    (j < 7 \<longrightarrow> (\<exists>c. get_cb p j = Some c \<and> pid c = -1))"
  using assms
proof (induction p i rule: find_free_pid.induct)
  case (1 p i)
  show ?case
  proof (cases "i < 7")
    case True
    then obtain c where c: "get_cb p i = Some c" using get_cb_wf "1.prems" by blast
    show ?thesis
    proof (cases "pid c = -1")
      case True
      with c \<open>i < 7\<close> show ?thesis by (auto simp: find_free_pid.simps TOTAL_PROCESSES_def)
    next
      case False
      then obtain j where j: "find_free_pid p (i + 1) = Some j" "i + 1 \<le> j" "j \<le> 7"
        "\<forall>k c. i + 1 \<le> k \<and> k < j \<and> get_cb p k = Some c \<longrightarrow> pid c \<noteq> -1"
        "j < 7 \<longrightarrow> (\<exists>c. get_cb p j = Some c \<and> pid c = -1)"
        using "1.IH" [OF _ c] \<open>i < 7\<close> "1.prems" by (auto simp: TOTAL_PROCESSES_def)
      have "pid d \<noteq> -1" if "i \<le> k" "k < j" "get_cb p k = Some d" for k d
      proof (cases "k = i")
        case True
        with that c False show ?thesis by simp
      next
        case ne: False
        then have "i + 1 \<le> k" using that(1) by simp
        with that j(4) show ?thesis by blast
      qed
      with j c False \<open>i < 7\<close> show ?thesis
        by (auto simp: find_free_pid.simps [of p i] TOTAL_PROCESSES_def)
    qed
  next
    case False
    with "1.prems" show ?thesis by (simp add: find_free_pid.simps TOTAL_PROCESSES_def)
  qed
qed

text \<open>A counter below six means that some block is free; six, that none is.\<close>

lemma free_block_exists:
  assumes "procs_wf p" and "num_active_processes p < 6"
  shows "\<exists>i c. 1 \<le> i \<and> i < 7 \<and> get_cb p i = Some c \<and> pid c = -1"
proof (rule ccontr)
  assume none: "\<not> ?thesis"
  have "pid c \<noteq> -1" if "c \<in> set (tl (control_blocks p))" for c
  proof -
    from that obtain k where k: "k < length (tl (control_blocks p))" "c = tl (control_blocks p) ! k"
      by (auto simp: in_set_conv_nth)
    then have "get_cb p (int (Suc k)) = Some c"
      by (simp add: get_cb_def aget_def nth_tl nat_add_distrib)
    moreover have "1 \<le> int (Suc k)" "int (Suc k) < 7"
      using k assms(1) by (auto simp: procs_wf_def)
    ultimately show ?thesis using none by blast
  qed
  then have "active_count p = length (tl (control_blocks p))"
    by (simp add: active_count_def filter_True)
  with assms show False by (simp add: procs_wf_def)
qed

lemma no_free_block:
  assumes "procs_wf p" and "num_active_processes p = 6" and "1 \<le> i" and "get_cb p i = Some c"
  shows "pid c \<noteq> -1"
proof
  assume free: "pid c = -1"
  from assms(3,4) have "c \<in> set (tl (control_blocks p))"
    by (auto simp: get_cb_def aget_eq_Some_iff in_set_conv_nth nth_tl intro!: exI [of _ "nat i - 1"])
  then have "active_count p < length (tl (control_blocks p))"
    unfolding active_count_def using free by (intro length_filter_less) auto
  with assms(1,2) show False by (simp add: procs_wf_def)
qed

definition descriptors_free :: "pcb \<Rightarrow> bool" where
  "descriptors_free c \<longleftrightarrow> (\<forall>fd \<in> {2..<8}. is_free (fd_table c ! fd) \<and>
     file_operations_pointer (fd_table c ! fd) = None)"

lemma descriptors_free_freed:
  "length (fd_table c) = 8 \<Longrightarrow>
   descriptors_free (c\<lparr>fd_table := take 2 (fd_table c) @ map freed (drop 2 (fd_table c))\<rparr>)"
  by (auto simp: descriptors_free_def is_free_def freed_def nth_append)

lemma create_new_pcb_split:
  assumes wf: "procs_wf p" and room: "num_active_processes p < 6"
  obtains i c p1 p2 where "1 \<le> i" "i < 7" "get_cb p i = Some c" "pid c = -1" "pcb_wf c"
    "\<And>k d. 1 \<le> k \<Longrightarrow> k < i \<Longrightarrow> get_cb p k = Some d \<Longrightarrow> pid d \<noteq> -1"
    "put_cb p i (c\<lparr>pid := i, parent := par,
        fd_table := take 2 (fd_table c) @ map freed (drop 2 (fd_table c))\<rparr>) = Some p1"
    "procs_wf (p1\<lparr>num_active_processes := num_active_processes p + 1\<rparr>)"
    "clear_args (p1\<lparr>num_active_processes := num_active_processes p + 1\<rparr>) = Some p2"
    "create_new_pcb par p = Some (i, p2)"
proof -
  obtain i where i: "find_free_pid p 1 = Some i" "1 \<le> i" "i \<le> 7"
    "\<forall>k c. 1 \<le> k \<and> k < i \<and> get_cb p k = Some c \<longrightarrow> pid c \<noteq> -1"
    "i < 7 \<longrightarrow> (\<exists>c. get_cb p i = Some c \<and> pid c = -1)"
    using find_free_pid_spec [OF wf, of 1] by auto
  have "i < 7" using free_block_exists [OF wf room] i(3,4) by force
  with i(5) obtain c where c: "get_cb p i = Some c" "pid c = -1" by blast
  have cwf: "pcb_wf c" using get_cb_wf [OF wf, of i] i(2) \<open>i < 7\<close> c(1) by simp
  define c1 where "c1 = c\<lparr>pid := i, parent := par,
        fd_table := take 2 (fd_table c) @ map freed (drop 2 (fd_table c))\<rparr>"
  have fds: "free_fds (c\<lparr>pid := i, parent := par\<rparr>) = Some c1"
    using cwf by (subst free_fds_eq) (auto simp: pcb_wf_def c1_def)
  obtain p1 where p1: "put_cb p i c1 = Some p1"
    using put_cb_wf [OF wf, of i c1] i(2) \<open>i < 7\<close> by auto
  let ?p1 = "p1\<lparr>num_active_processes := num_active_processes p + 1\<rparr>"
  have wf1: "procs_wf ?p1"
    using cwf i(2) c by (intro put_cb_keeps_wf [OF wf c(1) p1]) (auto simp: c1_def pcb_wf_def)
  then obtain d where "get_cb ?p1 (current_pid ?p1) = Some d"
    using get_cb_wf [OF wf1, of "current_pid ?p1"] by (auto simp: procs_wf_def)
  from clear_args_ok [OF wf1 this] obtain p2 where p2: "clear_args ?p1 = Some p2" by blast
  have "create_new_pcb par p = Some (i, p2)"
    using i(1) \<open>i < 7\<close> c fds p1 p2 put_cb_frame [OF p1]
    by (simp add: create_new_pcb_def TOTAL_PROCESSES_def)
  with that [of i c p1 p2] i(2,4) \<open>i < 7\<close> c cwf p1 wf1 p2 show ?thesis
    unfolding c1_def by blast
qed

text \<open>
  C19: while fewer than six processes run, \<open>create_new_pcb\<close> succeeds: it returns the lowest free
  block, marks it used with the given parent and with descriptors 2 to 7 free, counts one more
  process, keeps the invariant, and changes no block other than the new one and (through
  \<open>clear_args\<close>) that of the running process.
\<close>

theorem create_new_pcb_ok:
  assumes "procs_wf p" and "num_active_processes p < 6"
  shows "\<exists>i p' c. create_new_pcb par p = Some (i, p') \<and> 1 \<le> i \<and> i < 7 \<and>
    (\<exists>old. get_cb p i = Some old \<and> pid old = -1) \<and>
    (\<forall>k d. 1 \<le> k \<and> k < i \<and> get_cb p k = Some d \<longrightarrow> pid d \<noteq> -1) \<and>
    get_cb p' i = Some c \<and> pid c = i \<and> parent c = par \<and> descriptors_free c \<and>
    procs_wf p' \<and> num_active_processes p' = num_active_processes p + 1 \<and>
    current_pid p' = current_pid p \<and>
    (\<forall>j. j \<noteq> i \<and> j \<noteq> current_pid p \<longrightarrow> get_cb p' j = get_cb p j)"
proof -
  obtain i c p1 p2 where i: "1 \<le> i" "i < 7" and c: "get_cb p i = Some c" "pid c = -1" "pcb_wf c"
    and least: "\<And>k d. 1 \<le> k \<Longrightarrow> k < i \<Longrightarrow> get_cb p k = Some d \<Longrightarrow> pid d \<noteq> -1"
    and p1: "put_cb p i (c\<lparr>pid := i, parent := par,
        fd_table := take 2 (fd_table c) @ map freed (drop 2 (fd_table c))\<rparr>) = Some p1"
    and wf1: "procs_wf (p1\<lparr>num_active_processes := num_active_processes p + 1\<rparr>)"
    and p2: "clear_args (p1\<lparr>num_active_processes := num_active_processes p + 1\<rparr>) = Some p2"
    and res: "create_new_pcb par p = Some (i, p2)"
    using create_new_pcb_split [OF assms, of par] by blast
  let ?p1 = "p1\<lparr>num_active_processes := num_active_processes p + 1\<rparr>"
  let ?c1 = "c\<lparr>pid := i, parent := par,
        fd_table := take 2 (fd_table c) @ map freed (drop 2 (fd_table c))\<rparr>"
  have cb1: "get_cb ?p1 k = get_cb p1 k" for k by (simp add: get_cb_def)
  have cur: "current_pid ?p1 = current_pid p" using put_cb_frame [OF p1] by simp
  obtain d where d: "get_cb ?p1 (current_pid ?p1) = Some d"
    using get_cb_wf [OF wf1, of "current_pid ?p1"] wf1 by (auto simp: procs_wf_def)
  from clear_args_ok [OF wf1 d] p2 obtain as where
    wf2: "procs_wf p2" and curb: "get_cb p2 (current_pid p) = Some (d\<lparr>args := as\<rparr>)"
    and others: "\<And>j. j \<noteq> current_pid p \<Longrightarrow> get_cb p2 j = get_cb p1 j"
    and cur2: "current_pid p2 = current_pid p"
    and num2: "num_active_processes p2 = num_active_processes p + 1"
    unfolding cur cb1 by (metis option.inject select_convs(2) surjective update_convs(2))
  have new: "\<exists>as'. get_cb p2 i = Some (?c1\<lparr>args := as'\<rparr>)"
  proof (cases "i = current_pid p")
    case True
    then have "d = ?c1" using d cb_store.get_put_same [OF p1] cur cb1 by simp
    with curb True show ?thesis by blast
  next
    case False
    then have "get_cb p2 i = Some (?c1\<lparr>args := args ?c1\<rparr>)"
      using others cb_store.get_put_same [OF p1] by simp
    then show ?thesis by blast
  qed
  have "descriptors_free (?c1\<lparr>args := as'\<rparr>)" for as'
    using c(3) descriptors_free_freed [of c] by (simp add: pcb_wf_def descriptors_free_def)
  moreover have "get_cb p2 j = get_cb p j" if "j \<noteq> i" "j \<noteq> current_pid p" for j
    using that others cb_store.get_put_other [OF p1] by simp
  ultimately show ?thesis
    using res i c least new wf2 cur2 num2 by (auto intro!: exI [of _ i] exI [of _ p2])
qed

text \<open>A concrete state for the witnesses: seven unused blocks, the sentinel running.\<close>

definition unused_block :: pcb where
  "unused_block = \<lparr>fd_table = replicate 8 (freed stdin_block), pid = -1, parent = 0, stack_pos = 0,
     ss = 0, esp = 0, args = replicate 1024 0\<rparr>"

definition sample_procs :: procs where
  "sample_procs = \<lparr>control_blocks = replicate 7 unused_block, num_active_processes = 0,
     current_pid = 0, past_pid = 0,
     tables = (\<lambda>_. \<lparr>op_open = None, op_read = None, op_write = None, op_close = None\<rparr>),
     file_ptr = None, dir_ptr = None, stdin_ptr = None, stdout_ptr = None\<rparr>"

lemma sample_procs_wf: "procs_wf sample_procs" and sample_procs_num: "num_active_processes sample_procs = 0"
  by (simp_all add: sample_procs_def procs_wf_def pcb_wf_def unused_block_def active_count_def)

theorem create_new_pcb_ok_witness:
  "\<exists>i p' c. create_new_pcb 0 sample_procs = Some (i, p') \<and> 1 \<le> i \<and> i < 7 \<and>
    get_cb p' i = Some c \<and> pid c = i \<and> descriptors_free c \<and> num_active_processes p' = 1"
  using create_new_pcb_ok [OF sample_procs_wf, of 0] by (auto simp: sample_procs_num)

text \<open>
  When six processes run, \<open>create_new_pcb\<close> reports failure and changes nothing.
\<close>

lemma create_new_pcb_full:
  assumes "procs_wf p" and "num_active_processes p = 6"
  shows "create_new_pcb par p = Some (-1, p)"
proof -
  obtain i where i: "find_free_pid p 1 = Some i" "1 \<le> i" "i \<le> 7"
    "i < 7 \<longrightarrow> (\<exists>c. get_cb p i = Some c \<and> pid c = -1)"
    using find_free_pid_spec [OF assms(1), of 1] by auto
  then have "i = 7" using no_free_block [OF assms] by force
  with i(1) show ?thesis by (simp add: create_new_pcb_def TOTAL_PROCESSES_def)
qed

definition full_procs :: procs where
  "full_procs = sample_procs\<lparr>control_blocks := replicate 7 (unused_block\<lparr>pid := 3\<rparr>),
     num_active_processes := 6\<rparr>"

lemma create_new_pcb_full_witness: "create_new_pcb 0 full_procs = Some (-1, full_procs)"
  by (rule create_new_pcb_full)
    (simp_all add: full_procs_def sample_procs_def procs_wf_def pcb_wf_def unused_block_def active_count_def)

lemma destroy_pcb_run:
  assumes wf: "procs_wf p" and i: "1 \<le> i" "i < 7" and c: "get_cb p i = Some c" "pid c \<noteq> -1"
  shows "\<exists>p'. destroy_pcb i p = Some (0, p') \<and> procs_wf p' \<and>
    get_cb p' i = Some (c\<lparr>pid := -1\<rparr>) \<and> (\<forall>j. j \<noteq> i \<longrightarrow> get_cb p' j = get_cb p j) \<and>
    num_active_processes p' = num_active_processes p - 1 \<and> num_active_processes p' < 6"
proof -
  have cwf: "pcb_wf c" using get_cb_wf [OF wf, of i] i c(1) by simp
  obtain p1 where p1: "put_cb p i (c\<lparr>pid := -1\<rparr>) = Some p1"
    using put_cb_wf [OF wf, of i] i by force
  let ?p = "p1\<lparr>num_active_processes := num_active_processes p - 1\<rparr>"
  have wf': "procs_wf ?p"
    using cwf i c by (intro put_cb_keeps_wf [OF wf c(1) p1]) (auto simp: pcb_wf_def)
  have cb: "get_cb ?p k = get_cb p1 k" for k by (simp add: get_cb_def)
  have "num_active_processes ?p < 6"
  proof (rule ccontr)
    assume "\<not> ?thesis"
    moreover have "num_active_processes ?p \<le> 6"
      using wf' length_filter_le [of "\<lambda>c. pid c \<noteq> -1" "tl (control_blocks ?p)"]
      by (auto simp: procs_wf_def active_count_def)
    ultimately have "num_active_processes ?p = 6" by simp
    then show False
      using no_free_block [OF wf', of i "c\<lparr>pid := -1\<rparr>"] i(1) cb_store.get_put_same [OF p1]
      unfolding cb by simp
  qed
  then show ?thesis
    using c p1 put_cb_frame [OF p1] wf' cb_store.get_put_same [OF p1]
      cb_store.get_put_other [OF p1] cb by (auto simp: destroy_pcb_def)
qed

text \<open>
  \<open>create_new_pcb\<close> clears the argument buffer of the process that is running, the parent:
  the argument buffer of the new block, when it is another block, keeps whatever the last
  process in that block left there.
\<close>

lemma create_new_pcb_stale_args:
  assumes "procs_wf p" and "num_active_processes p < 6"
    and "create_new_pcb par p = Some (i, p')" and "i \<noteq> current_pid p"
    and "get_cb p i = Some old"
  shows "\<exists>new cur. get_cb p' i = Some new \<and> args new = args old \<and>
    get_cb p' (current_pid p) = Some cur \<and> cstr (args cur) = []"
proof -
  obtain j c p1 p2 where c: "get_cb p j = Some c"
    and p1: "put_cb p j (c\<lparr>pid := j, parent := par,
        fd_table := take 2 (fd_table c) @ map freed (drop 2 (fd_table c))\<rparr>) = Some p1"
    and wf1: "procs_wf (p1\<lparr>num_active_processes := num_active_processes p + 1\<rparr>)"
    and p2: "clear_args (p1\<lparr>num_active_processes := num_active_processes p + 1\<rparr>) = Some p2"
    and res: "create_new_pcb par p = Some (j, p2)"
    by (rule create_new_pcb_split [OF assms(1,2), of par]) (rule that; assumption)
  let ?p1 = "p1\<lparr>num_active_processes := num_active_processes p + 1\<rparr>"
  have eq: "j = i" "p2 = p'" using res assms(3) by auto
  have cur: "current_pid ?p1 = current_pid p" using put_cb_frame [OF p1] by simp
  obtain d where d: "get_cb ?p1 (current_pid ?p1) = Some d"
    using get_cb_wf [OF wf1, of "current_pid ?p1"] wf1 by (auto simp: procs_wf_def)
  obtain q as where q: "clear_args ?p1 = Some q" "procs_wf q"
    "get_cb q (current_pid ?p1) = Some (d\<lparr>args := as\<rparr>)" "length as = 1024" "cstr as = []"
    and others: "\<And>j. j \<noteq> current_pid ?p1 \<Longrightarrow> get_cb q j = get_cb ?p1 j"
    by (rule clear_args_ok [OF wf1 d]) (rule that; (assumption | blast))
  have "q = p'" using q(1) p2 eq by simp
  have "get_cb p' i = get_cb p1 i"
    using others [of i] assms(4) cur \<open>q = p'\<close> by (simp add: get_cb_def)
  then show ?thesis
    using cb_store.get_put_same [OF p1] c assms(5) eq q(3,5) \<open>q = p'\<close> cur by auto
qed

definition stale_procs :: procs where
  "stale_procs = sample_procs\<lparr>control_blocks :=
     [unused_block, unused_block\<lparr>args := 65 # replicate 1023 0\<rparr>, unused_block, unused_block,
      unused_block, unused_block, unused_block]\<rparr>"

lemma stale_procs_facts:
  "procs_wf stale_procs" "num_active_processes stale_procs = 0" "current_pid stale_procs = 0"
  "get_cb stale_procs 1 = Some (unused_block\<lparr>args := 65 # replicate 1023 0\<rparr>)"
  "find_free_pid stale_procs 1 = Some 1"
  by (simp_all add: stale_procs_def sample_procs_def procs_wf_def pcb_wf_def unused_block_def
      active_count_def get_cb_def aget_def find_free_pid.simps TOTAL_PROCESSES_def)

lemma stale_procs_create: "\<exists>p'. create_new_pcb 0 stale_procs = Some (1, p')"
proof -
  have room: "num_active_processes stale_procs < 6" by (simp add: stale_procs_facts)
  obtain i p' where "create_new_pcb 0 stale_procs = Some (i, p')" "i < 7"
    by (rule create_new_pcb_split [OF stale_procs_facts(1) room, of 0]) (rule that; assumption)
  then show ?thesis
    using stale_procs_facts(5)
    by (auto simp: create_new_pcb_def TOTAL_PROCESSES_def split: option.splits)
qed

lemma create_new_pcb_stale_args_witness:
  "\<exists>p' new. create_new_pcb 0 stale_procs = Some (1, p') \<and> get_cb p' 1 = Some new \<and>
     cstr (args new) = [65]"
proof -
  obtain p' where p': "create_new_pcb 0 stale_procs = Some (1, p')"
    using stale_procs_create by blast
  show ?thesis
    using create_new_pcb_stale_args [OF stale_procs_facts(1) _ p' _ stale_procs_facts(4)] p'
    by (auto simp: stale_procs_facts cstr_def)
qed

section \<open>Initialisation\<close>

text \<open>The state of a zeroed data segment: array sizes only.\<close>

definition procs_sized :: "procs \<Rightarrow> bool" where
  "procs_sized p \<longleftrightarrow> length (control_blocks p) = 7 \<and> (\<forall>c \<in> set (control_blocks p). pcb_wf c)"

lemma procs_sized_get: "procs_sized p \<Longrightarrow> 0 \<le> i \<Longrightarrow> i < 7 \<Longrightarrow> \<exists>c. get_cb p i = Some c \<and> pcb_wf c"
  by (auto simp: procs_sized_def get_cb_def aget_def)


lemma procs_sized_put:
  assumes "procs_sized p" and "put_cb p i c = Some p'" and "pcb_wf c"
  shows "procs_sized p'"
  using put_cb_wf_blocks [OF assms(2) _ assms(3)] put_cb_frame [OF assms(2)] assms(1)
  by (auto simp: procs_sized_def)

text \<open>
  A loop that rewrites each block from \<open>lo\<close> on by \<open>f\<close>: the shape of the three initialisation
  loops.
\<close>

lemma block_loop:
  assumes sized: "procs_sized p" and lo: "0 \<le> lo" "lo \<le> 7"
    and body: "\<And>i q c. get_cb q i = Some c \<Longrightarrow> pcb_wf c \<Longrightarrow> body i q = put_cb q i (f c)"
    and f: "\<And>c. pcb_wf c \<Longrightarrow> pcb_wf (f c)"
  obtains cs where "loop_opt lo 7 body p = Some (p\<lparr>control_blocks := cs\<rparr>)"
    "procs_sized (p\<lparr>control_blocks := cs\<rparr>)"
    "\<And>k. lo \<le> k \<Longrightarrow> aget cs k = map_option f (get_cb p k)"
    "\<And>k. k < lo \<Longrightarrow> aget cs k = get_cb p k"
proof -
  let ?P = "\<lambda>i q. \<exists>cs. q = p\<lparr>control_blocks := cs\<rparr> \<and> procs_sized q \<and>
    (\<forall>k. aget cs k = (if lo \<le> k \<and> k < i then map_option f (get_cb p k) else get_cb p k))"
  have "\<exists>t. loop_opt lo 7 body p = Some t \<and> ?P 7 t"
  proof (rule loop_opt_inv [OF lo(2)])
    show "?P lo p" using sized by (auto simp: get_cb_def intro!: exI [of _ "control_blocks p"])
  next
    fix i q assume i: "lo \<le> i" "i < 7" and "?P i q"
    then obtain cs where q: "q = p\<lparr>control_blocks := cs\<rparr>" "procs_sized q"
      "\<And>k. aget cs k = (if lo \<le> k \<and> k < i then map_option f (get_cb p k) else get_cb p k)" by blast
    obtain c where c: "get_cb q i = Some c" "pcb_wf c"
      using procs_sized_get [OF q(2), of i] i lo by auto
    obtain q' where q': "put_cb q i (f c) = Some q'"
      using cb_store.put_valid [of q i "f c"] c by auto
    have ci: "get_cb p i = Some c" using c(1) q(1,3) by (simp add: get_cb_def)
    have "q' = p\<lparr>control_blocks := control_blocks q'\<rparr>"
      using q' q(1) by (auto simp: put_cb_def split: option.splits)
    moreover have "aget (control_blocks q') k =
        (if lo \<le> k \<and> k < i + 1 then map_option f (get_cb p k) else get_cb p k)" for k
      using cb_store.get_put_same [OF q'] cb_store.get_put_other [OF q', of k] q(1) q(3) [of k] ci i
      by (cases "k = i") (auto simp: get_cb_def)
    ultimately have "?P (i + 1) q'"
      using procs_sized_put [OF q(2) q' f [OF c(2)]] by blast
    with q' body [OF c] show "\<exists>q'. body i q = Some q' \<and> ?P (i + 1) q'" by auto
  qed
  then obtain cs where cs: "loop_opt lo 7 body p = Some (p\<lparr>control_blocks := cs\<rparr>)"
    "procs_sized (p\<lparr>control_blocks := cs\<rparr>)"
    "\<And>k. aget cs k = (if lo \<le> k \<and> k < 7 then map_option f (get_cb p k) else get_cb p k)" by blast
  have "get_cb p k = None" if "7 \<le> k" for k
    using sized that by (simp add: get_cb_def aget_def procs_sized_def)
  then have "aget cs k = map_option f (get_cb p k)" if "lo \<le> k" for k
    using cs(3) [of k] that by (cases "k < 7") auto
  moreover have "aget cs k = get_cb p k" if "k < lo" for k
    using cs(3) [of k] that by simp
  ultimately show ?thesis using that cs(1,2) by blast
qed

lemma get_cb_nonneg: "get_cb p k = Some c \<Longrightarrow> 0 \<le> k"
  by (simp add: get_cb_def aget_eq_Some_iff)

lemma get_cb_sized_wf: "procs_sized p \<Longrightarrow> get_cb p k = Some c \<Longrightarrow> pcb_wf c"
  by (auto simp: procs_sized_def get_cb_def aget_eq_Some_iff)

lemma init_std_eq:
  assumes "get_cb p i = Some c" and "pcb_wf c"
  shows "init_std i p = put_cb p i (c\<lparr>fd_table := stdin_block # stdout_block # drop 2 (fd_table c)\<rparr>)"
proof -
  from assms(2) obtain f0 f1 f2 f3 f4 f5 f6 f7 where "fd_table c = [f0, f1, f2, f3, f4, f5, f6, f7]"
    by (auto simp: pcb_wf_def elim: list8E)
  with assms(1) show ?thesis by (simp add: init_std_def aset_def)
qed

lemma init_rest_eq:
  assumes "get_cb p i = Some c" and "pcb_wf c"
  shows "init_rest i p = put_cb p i (c\<lparr>fd_table := take 2 (fd_table c) @ map freed (drop 2 (fd_table c)),
    args := replicate 1024 0\<rparr>)"
  using assms by (simp add: init_rest_def pcb_wf_def free_fds_eq clear_args_buffer_eq)

definition fresh_block :: "pcb \<Rightarrow> bool" where
  "fresh_block c \<longleftrightarrow> length (fd_table c) = 8 \<and> fd_table c ! 0 = stdin_block \<and>
     fd_table c ! 1 = stdout_block \<and> descriptors_free c \<and> args c = replicate 1024 0"

lemma fresh_after_loops:
  assumes "pcb_wf c" and "std = c\<lparr>fd_table := stdin_block # stdout_block # drop 2 (fd_table c)\<rparr>"
  shows "fresh_block (std\<lparr>fd_table := take 2 (fd_table std) @ map freed (drop 2 (fd_table std)),
    args := replicate 1024 0\<rparr>)"
  using assms descriptors_free_freed [of std]
  by (simp add: pcb_wf_def fresh_block_def descriptors_free_def)

text \<open>The four tables of operations, as \<open>process_control_block_init\<close> sets them up.\<close>

definition api_set :: "procs \<Rightarrow> bool" where
  "api_set p \<longleftrightarrow> file_ptr p = Some File_table \<and> dir_ptr p = Some Dir_table \<and>
     tables p Stdout_table = \<lparr>op_open = Some Terminal_open, op_read = Some Terminal_read_fail,
       op_write = Some Terminal_write, op_close = Some Terminal_close\<rparr> \<and>
     tables p Stdin_table = \<lparr>op_open = Some Keyboard_open, op_read = Some Terminal_read,
       op_write = Some Keyboard_write, op_close = Some Keyboard_close\<rparr> \<and>
     tables p File_table = \<lparr>op_open = Some File_open, op_read = Some File_read,
       op_write = Some File_write, op_close = Some File_close\<rparr> \<and>
     tables p Dir_table = \<lparr>op_open = Some Directory_open, op_read = Some Directory_read,
       op_write = Some Directory_write, op_close = Some Directory_close\<rparr>"

lemma process_control_block_init_run:
  assumes "procs_sized p"
  shows "\<exists>p1. process_control_block_init p = Some (0, p1) \<and> procs_sized p1 \<and>
    num_active_processes p1 = 0 \<and> (\<forall>k c. get_cb p1 k = Some c \<longrightarrow> fresh_block c) \<and>
    api_set p1"
proof -
  let ?std = "\<lambda>c. c\<lparr>fd_table := stdin_block # stdout_block # drop 2 (fd_table c)\<rparr>"
  let ?rest = "\<lambda>c. c\<lparr>fd_table := take 2 (fd_table c) @ map freed (drop 2 (fd_table c)),
    args := replicate 1024 0\<rparr>"
  have keep: "pcb_wf (?std c)" "pcb_wf (?rest c)" if "pcb_wf c" for c
    using that by (auto simp: pcb_wf_def)
  define p1 where "p1 = p\<lparr>stdout_ptr := Some Stdout_table, stdin_ptr := Some Stdin_table,
      tables := (tables p)
        (Stdout_table := \<lparr>op_open = Some Terminal_open, op_read = Some Terminal_read_fail,
           op_write = Some Terminal_write, op_close = Some Terminal_close\<rparr>,
         Stdin_table := \<lparr>op_open = Some Keyboard_open, op_read = Some Terminal_read,
           op_write = Some Keyboard_write, op_close = Some Keyboard_close\<rparr>)\<rparr>"
  have s1: "procs_sized p1" using assms by (simp add: p1_def procs_sized_def)
  obtain cs1 where cs1: "loop_opt 0 7 init_std p1 = Some (p1\<lparr>control_blocks := cs1\<rparr>)"
      "procs_sized (p1\<lparr>control_blocks := cs1\<rparr>)"
      "\<And>k. 0 \<le> k \<Longrightarrow> aget cs1 k = map_option ?std (get_cb p1 k)"
    by (rule block_loop [OF s1, of 0 init_std ?std]) (use init_std_eq keep(1) in auto)
  define p3 where "p3 = p1\<lparr>control_blocks := cs1, file_ptr := Some File_table,
      dir_ptr := Some Dir_table,
      tables := (tables p1)
        (File_table := \<lparr>op_open = Some File_open, op_read = Some File_read,
           op_write = Some File_write, op_close = Some File_close\<rparr>,
         Dir_table := \<lparr>op_open = Some Directory_open, op_read = Some Directory_read,
           op_write = Some Directory_write, op_close = Some Directory_close\<rparr>)\<rparr>"
  have s3: "procs_sized p3" using cs1(2) by (simp add: p3_def procs_sized_def)
  obtain cs2 where cs2: "loop_opt 0 7 init_rest p3 = Some (p3\<lparr>control_blocks := cs2\<rparr>)"
      "procs_sized (p3\<lparr>control_blocks := cs2\<rparr>)"
      "\<And>k. 0 \<le> k \<Longrightarrow> aget cs2 k = map_option ?rest (get_cb p3 k)"
    by (rule block_loop [OF s3, of 0 init_rest ?rest]) (use init_rest_eq keep(2) in auto)
  let ?p = "p3\<lparr>control_blocks := cs2, num_active_processes := 0\<rparr>"
  have res: "process_control_block_init p = Some (0, ?p)"
    using cs1(1) cs2(1)
    by (simp add: process_control_block_init_def TOTAL_PROCESSES_def p1_def p3_def)
  have "fresh_block c" if c: "get_cb ?p k = Some c" for k c
  proof -
    have k: "0 \<le> k" using get_cb_nonneg [OF c] .
    from c obtain c3 where c3: "get_cb p3 k = Some c3" "c = ?rest c3"
      using cs2(3) [OF k] by (auto simp: get_cb_def)
    then obtain c1 where c1: "get_cb p1 k = Some c1" "c3 = ?std c1"
      using cs1(3) [OF k] by (auto simp: get_cb_def p3_def)
    show ?thesis
      unfolding c3(2) by (rule fresh_after_loops [OF get_cb_sized_wf [OF s1 c1(1)] c1(2)])
  qed
  moreover have "procs_sized ?p" using cs2(2) by (simp add: procs_sized_def)
  ultimately show ?thesis using res by (auto simp: p3_def p1_def api_set_def)
qed

lemma first_process_init_run:
  assumes "procs_sized p"
  obtains p' where "first_process_init ss_reg esp_reg p = Some (0, p')" "procs_sized p'"
    "current_pid p' = 0" "num_active_processes p' = num_active_processes p"
    "\<And>k c. get_cb p k = Some c \<Longrightarrow> get_cb p' k = Some (if k = 0
       then c\<lparr>pid := 0, parent := 0, ss := ss_reg, esp := esp_reg\<rparr> else c\<lparr>pid := -1\<rparr>)"
    "api_set p' = api_set p"
proof -
  let ?p0 = "p\<lparr>current_pid := 0\<rparr>"
  have s0: "procs_sized ?p0" using assms by (simp add: procs_sized_def)
  obtain c where c: "get_cb ?p0 0 = Some c" "pcb_wf c" using procs_sized_get [OF s0, of 0] by auto
  let ?c = "c\<lparr>pid := 0, parent := 0, ss := ss_reg, esp := esp_reg\<rparr>"
  obtain p2 where p2: "put_cb ?p0 0 ?c = Some p2"
    using cb_store.put_valid [of ?p0 0 ?c] c(1) by auto
  have s2: "procs_sized p2"
    using c(2) by (intro procs_sized_put [OF s0 p2]) (simp add: pcb_wf_def)
  let ?body = "\<lambda>i p. case get_cb p i of None \<Rightarrow> None | Some c \<Rightarrow> put_cb p i (c\<lparr>pid := -1\<rparr>)"
  obtain cs where cs: "loop_opt 1 7 ?body p2 = Some (p2\<lparr>control_blocks := cs\<rparr>)"
      "procs_sized (p2\<lparr>control_blocks := cs\<rparr>)"
      "\<And>k. 1 \<le> k \<Longrightarrow> aget cs k = map_option (\<lambda>c. c\<lparr>pid := -1\<rparr>) (get_cb p2 k)"
      "\<And>k. k < 1 \<Longrightarrow> aget cs k = get_cb p2 k"
    by (rule block_loop [OF s2, of 1 ?body "\<lambda>c. c\<lparr>pid := -1\<rparr>"]) (auto simp: pcb_wf_def)
  let ?p = "p2\<lparr>control_blocks := cs\<rparr>"
  have res: "first_process_init ss_reg esp_reg p = Some (0, ?p)"
    using c(1) p2 cs(1) by (simp add: first_process_init_def SENTINEL_PROCESS_def TOTAL_PROCESSES_def)
  have "get_cb ?p k = Some (if k = 0 then d\<lparr>pid := 0, parent := 0, ss := ss_reg, esp := esp_reg\<rparr>
      else d\<lparr>pid := -1\<rparr>)" if d: "get_cb p k = Some d" for k d
  proof (cases "k = 0")
    case True
    then show ?thesis
      using d c(1) cs(4) [of 0] cb_store.get_put_same [OF p2] by (simp add: get_cb_def)
  next
    case False
    then have k: "1 \<le> k" using get_cb_nonneg [OF d] by simp
    show ?thesis
      using cs(3) [OF k] cb_store.get_put_other [OF p2 False] d False by (simp add: get_cb_def)
  qed
  then show ?thesis
    using that [OF res cs(2)] put_cb_frame [OF p2] by (simp add: api_set_def)
qed

lemma procs_wf_at_boot:
  assumes "procs_sized p" and "current_pid p = 0" and "num_active_processes p = 0"
    and free: "\<And>k c. 1 \<le> k \<Longrightarrow> get_cb p k = Some c \<Longrightarrow> pid c = -1"
  shows "procs_wf p"
proof -
  have "pid c = -1" if "c \<in> set (tl (control_blocks p))" for c
  proof -
    from that obtain k where k: "k < length (tl (control_blocks p))" "c = tl (control_blocks p) ! k"
      by (auto simp: in_set_conv_nth)
    then have "get_cb p (int (Suc k)) = Some c"
      by (simp add: get_cb_def aget_def nth_tl nat_add_distrib)
    then show ?thesis by (rule free [rotated]) simp
  qed
  then have "active_count p = 0" by (simp add: active_count_def)
  with assms(1-3) show ?thesis by (simp add: procs_wf_def procs_sized_def)
qed

text \<open>
  The two initialisation calls of \<open>entry\<close> run in bounds from any contents of the control
  blocks, and leave the process invariant established: no process counted, the sentinel
  running, blocks 1 to 6 free, and every block with terminal descriptors 0 and 1, free
  descriptors 2 to 7 and an all-zero argument buffer.
\<close>

lemma process_init_establishes_wf:
  assumes "procs_sized p"
  shows "\<exists>p1 p2. process_control_block_init p = Some (0, p1) \<and>
    first_process_init ss_reg esp_reg p1 = Some (0, p2) \<and> procs_wf p2 \<and>
    current_pid p2 = 0 \<and> num_active_processes p2 = 0 \<and>
    (\<forall>k c. get_cb p2 k = Some c \<longrightarrow> fresh_block c \<and> pid c = (if k = 0 then 0 else -1)) \<and>
    api_set p2"
proof -
  obtain p1 where p1: "process_control_block_init p = Some (0, p1)" "procs_sized p1"
    "num_active_processes p1 = 0" "\<And>k c. get_cb p1 k = Some c \<Longrightarrow> fresh_block c"
    "api_set p1"
    using process_control_block_init_run [OF assms] by blast
  obtain p2 where p2: "first_process_init ss_reg esp_reg p1 = Some (0, p2)" "procs_sized p2"
    "current_pid p2 = 0" "num_active_processes p2 = num_active_processes p1"
    and cb: "\<And>k c. get_cb p1 k = Some c \<Longrightarrow> get_cb p2 k = Some (if k = 0
       then c\<lparr>pid := 0, parent := 0, ss := ss_reg, esp := esp_reg\<rparr> else c\<lparr>pid := -1\<rparr>)"
    and tab: "api_set p2 = api_set p1"
    by (rule first_process_init_run [OF p1(2), of ss_reg esp_reg]) (rule that; assumption)
  have blocks: "fresh_block c \<and> pid c = (if k = 0 then 0 else -1)" if c: "get_cb p2 k = Some c" for k c
  proof -
    have "0 \<le> k" "k < 7" using c p2(2) by (auto simp: get_cb_def aget_eq_Some_iff procs_sized_def)
    then obtain d where "get_cb p1 k = Some d" using procs_sized_get [OF p1(2)] by blast
    with cb [OF this] c p1(4) [OF this] show ?thesis
      by (auto simp: fresh_block_def descriptors_free_def)
  qed
  then have "procs_wf p2" using p2 p1(3) by (intro procs_wf_at_boot) auto
  with p1 p2 tab blocks show ?thesis by auto
qed

end
