(* ===== verification/Filesystem.thy ===== *)
theory Filesystem
  imports Process
begin

text \<open>
  The read-only file system of \<^verbatim>\<open>student-distrib/filesystem_driver.c\<close> and
  \<^verbatim>\<open>filesystem_driver.h\<close>.

  The image the boot loader leaves in memory is a byte memory \<open>fs_mem\<close>, which no kernel routine
  writes; the three static pointers are addresses in it. Structure members are read at their
  offsets: the boot block (4096 bytes) holds the counts and 63 directory entries of 64 bytes
  from offset 64 on; an inode block holds its length and then the numbers of its data blocks.
  The caller's buffer is in a memory of its own, at address \<open>buf\<close>. A C string passed in is a
  byte list; \<open>None\<close> is an access outside an array or a call that does not return.
\<close>

section \<open>Layout of the image\<close>

definition MAX_DIR_ENTRIES :: nat where "MAX_DIR_ENTRIES = 63"
definition FILE_SIZE :: u32 where "FILE_SIZE = 4096"
definition FILENAME_SIZE :: nat where "FILENAME_SIZE = 32"

lemmas fs_consts = MAX_DIR_ENTRIES_def FILE_SIZE_def FILENAME_SIZE_def

record dir_entry =
  filename :: "u8 list"
  file_type :: u32
  inode_num :: u32
  reserved :: "u8 list"

record fsys =
  fs_mem :: memory
  casted_block :: u32
  node_list :: u32
  data_list :: u32

definition bytes_at :: "memory \<Rightarrow> u32 \<Rightarrow> nat \<Rightarrow> u8 list" where
  "bytes_at m a n = map (\<lambda>k. m (a + of_nat k)) [0..<n]"

text \<open>The members of \<open>boot_block_t\<close>, \<open>node_block_t\<close> and \<open>data_block_t\<close>.\<close>

definition num_dir_entries :: "fsys \<Rightarrow> u32" where
  "num_dir_entries fs = load32 (fs_mem fs) (casted_block fs)"

definition inodes :: "fsys \<Rightarrow> u32" where
  "inodes fs = load32 (fs_mem fs) (casted_block fs + 4)"

definition dir_entries :: "fsys \<Rightarrow> u32 \<Rightarrow> dir_entry" where
  "dir_entries fs i =
     (let a = casted_block fs + 64 + 64 * i
      in \<lparr>filename = bytes_at (fs_mem fs) a FILENAME_SIZE, file_type = load32 (fs_mem fs) (a + 32),
          inode_num = load32 (fs_mem fs) (a + 36), reserved = bytes_at (fs_mem fs) (a + 40) 24\<rparr>)"

definition B_length :: "fsys \<Rightarrow> u32 \<Rightarrow> u32" where
  "B_length fs n = load32 (fs_mem fs) (node_list fs + 4096 * n)"

definition data_blocks :: "fsys \<Rightarrow> u32 \<Rightarrow> u32 \<Rightarrow> u32" where
  "data_blocks fs n k = load32 (fs_mem fs) (node_list fs + 4096 * n + 4 + 4 * k)"

definition data_block :: "fsys \<Rightarrow> u32 \<Rightarrow> u32" where
  "data_block fs blk = data_list fs + 4096 * blk"

section \<open>filesystem_driver.c\<close>

definition boot_block_init :: "u32 \<Rightarrow> memory \<Rightarrow> fsys" where
  "boot_block_init addr m =
     (let fs = \<lparr>fs_mem = m, casted_block = addr, node_list = addr + FILE_SIZE, data_list = 0\<rparr>
      in fs\<lparr>data_list := addr + FILE_SIZE + inodes fs * FILE_SIZE\<rparr>)"

text \<open>The search loop of \<open>read_dentry_by_name\<close>, from entry \<open>i\<close> on.\<close>

function dentry_scan :: "fsys \<Rightarrow> u8 list \<Rightarrow> nat \<Rightarrow> dir_entry \<Rightarrow> (int \<times> dir_entry) option" where
  "dentry_scan fs fname i dentry =
     (if i < MAX_DIR_ENTRIES then
        (let current_filename = filename (dir_entries fs (of_nat i))
         in case aget current_filename 0 of None \<Rightarrow> None | Some c \<Rightarrow>
              if c = 0 then dentry_scan fs fname (i + 1) dentry
              else (case strncmp current_filename fname FILENAME_SIZE of None \<Rightarrow> None | Some r \<Rightarrow>
                      if r = 0 then Some (0, dir_entries fs (of_nat i))
                      else dentry_scan fs fname (i + 1) dentry))
      else Some (-1, dentry))"
  by pat_completeness auto
termination
  by (relation "measure (\<lambda>(fs, fname, i, dentry). MAX_DIR_ENTRIES - i)") auto

declare dentry_scan.simps [simp del]

definition read_dentry_by_name :: "fsys \<Rightarrow> u8 list \<Rightarrow> dir_entry \<Rightarrow> (int \<times> dir_entry) option" where
  "read_dentry_by_name fs fname dentry =
     (case strlen fname of None \<Rightarrow> None | Some n \<Rightarrow>
        if n = 0 then Some (-1, dentry)
        else if n > 32 then Some (-1, dentry)
        else dentry_scan fs fname 0 dentry)"

definition read_dentry_by_index :: "fsys \<Rightarrow> u32 \<Rightarrow> dir_entry \<Rightarrow> int \<times> dir_entry" where
  "read_dentry_by_index fs index dentry =
     (let max_inodes = inodes fs
      in if index > max_inodes - 1 then (-1, dentry) else (0, dir_entries fs index))"

text \<open>
  The copy loop of \<open>read_data\<close>. \<open>b\<close> is the descriptor, which the loop reads and does not change
  before it returns; \<open>data_pointer\<close> is the address of the current data block.
\<close>

definition advance :: "procs \<Rightarrow> int \<Rightarrow> fd_block \<Rightarrow> u32 \<Rightarrow> procs option" where
  "advance p fd b i = put_fd p fd (b\<lparr>file_position := file_position b + i\<rparr>)"

function read_loop :: "fsys \<Rightarrow> procs \<Rightarrow> int \<Rightarrow> fd_block \<Rightarrow> u32 \<Rightarrow> u32 \<Rightarrow> u32 \<Rightarrow>
    memory \<Rightarrow> u32 \<Rightarrow> u32 \<Rightarrow> u32 \<Rightarrow> u32 \<Rightarrow> (int \<times> memory \<times> procs) option" where
  "read_loop fs p fd b num buf len mem i j loop data_pointer =
     (if len \<noteq> i then
        if i = num then
          (case advance p fd b i of None \<Rightarrow> None | Some p' \<Rightarrow>
             Some (sint i, mem(buf + i := fs_mem fs (data_pointer + j)), p'))
        else if file_position b + i \<ge> num then Some (0, mem, p)
        else
          (let mem' = mem(buf + i := fs_mem fs (data_pointer + j)); i' = i + 1; j' = j + 1
           in if j' mod FILE_SIZE = 0
              then read_loop fs p fd b num buf len mem' i' 0 (loop + 1)
                     (data_block fs (data_blocks fs (inode b) (loop + 1)))
              else read_loop fs p fd b num buf len mem' i' j' loop data_pointer)
      else
        (case advance p fd b i of None \<Rightarrow> None | Some p' \<Rightarrow> Some (sint i, mem, p')))"
  by pat_completeness auto

lemma unat_countdown:
  fixes l i :: u32
  assumes "l \<noteq> i"
  shows "unat (l - (i + 1)) < unat (l - i)"
proof -
  have "l - i \<noteq> 0" using assms by simp
  then have "unat (l - i - 1) < unat (l - i)" by (simp add: measure_unat)
  then show ?thesis by (simp add: algebra_simps)
qed

termination read_loop
  by (relation "measure (\<lambda>(fs, p, fd, b, num, buf, len, mem, i, j, loop, dp). unat (len - i))")
    (auto simp: unat_countdown)

declare read_loop.simps [simp del]

definition read_data ::
  "fsys \<Rightarrow> procs \<Rightarrow> int \<Rightarrow> u32 \<Rightarrow> memory \<Rightarrow> u32 \<Rightarrow> u32 \<Rightarrow> (int \<times> memory \<times> procs) option" where
  "read_data fs p fd offset mem buf len =
     (case get_fd p fd of None \<Rightarrow> None | Some b \<Rightarrow>
        if inode b > inodes fs then Some (-1, mem, p)
        else
          (let curr = data_blocks fs (inode b) (offset div FILE_SIZE);
               num = B_length fs (inode b)
           in if num = 0 then Some (0, mem, p)
              else if file_position b > num then Some (0, mem, p)
              else read_loop fs p fd b num buf len mem 0 (offset mod FILE_SIZE)
                     (offset div FILE_SIZE) (data_block fs curr)))"

text \<open>
  The search for a free descriptor in the open routines: \<open>Inl r\<close> is \<open>return r\<close>, \<open>Inr open\<close> the
  slot taken. \<open>full\<close> is the index at which the routine's own test reports a full table;
  \<open>file_open\<close> tests for \<open>FDT_SIZE\<close>, an index the loop does not reach.
\<close>

function fd_scan :: "int \<Rightarrow> procs \<Rightarrow> int \<Rightarrow> (int + int) option" where
  "fd_scan full p i =
     (if i < FDT_SIZE then
        (case get_fd p i of None \<Rightarrow> None | Some b \<Rightarrow>
           if is_free b then Some (Inr i)
           else if i = full then Some (Inl (-1))
           else fd_scan full p (i + 1))
      else Some (Inr 0))"
  by pat_completeness auto
termination
  by (relation "measure (\<lambda>(full, p, i). nat (FDT_SIZE - i))") auto

declare fd_scan.simps [simp del]

definition take_slot :: "int \<Rightarrow> (procs \<Rightarrow> fd_block) \<Rightarrow> procs \<Rightarrow> (int \<times> procs) option" where
  "take_slot full fblock p =
     (case fd_scan full p 2 of None \<Rightarrow> None
      | Some (Inl r) \<Rightarrow> Some (r, p)
      | Some (Inr slot) \<Rightarrow>
          (case put_fd p slot (fblock p) of None \<Rightarrow> None | Some p' \<Rightarrow> Some (slot, p')))"

definition file_block :: "u32 \<Rightarrow> procs \<Rightarrow> fd_block" where
  "file_block n p =
     \<lparr>file_operations_pointer = file_ptr p, inode = n, file_position = 0, flags = 1\<rparr>"

definition directory_block :: "u32 \<Rightarrow> procs \<Rightarrow> fd_block" where
  "directory_block n p =
     \<lparr>file_operations_pointer = dir_ptr p, inode = 0, file_position = 0, flags = n\<rparr>"

text \<open>The uninitialised local \<open>dentry\<close> is a parameter \<open>junk\<close> of the routines that declare it.\<close>

definition file_open :: "fsys \<Rightarrow> dir_entry \<Rightarrow> u8 list \<Rightarrow> procs \<Rightarrow> (int \<times> procs) option" where
  "file_open fs junk fname p =
     (case read_dentry_by_name fs fname junk of None \<Rightarrow> None | Some (ret, dentry) \<Rightarrow>
        if ret = -1 then Some (ret, p)
        else take_slot FDT_SIZE (file_block (inode_num dentry)) p)"

definition file_close :: "int \<Rightarrow> procs \<Rightarrow> (int \<times> procs) option" where
  "file_close fd p =
     (if fd < 2 \<or> fd \<ge> FDT_SIZE then Some (-1, p)
      else
        (case get_fd p fd of None \<Rightarrow> None | Some b \<Rightarrow>
           if is_free b then Some (-1, p)
           else (case put_fd p fd (freed b) of None \<Rightarrow> None | Some p' \<Rightarrow> Some (0, p'))))"

definition file_write :: "int \<Rightarrow> int \<Rightarrow> int" where
  "file_write fd nbytes = -1"

definition file_read ::
  "fsys \<Rightarrow> procs \<Rightarrow> int \<Rightarrow> memory \<Rightarrow> u32 \<Rightarrow> u32 \<Rightarrow> (int \<times> memory \<times> procs) option" where
  "file_read fs p fd mem buf nbytes =
     (case get_fd p fd of None \<Rightarrow> None | Some b \<Rightarrow>
        read_data fs p fd (file_position b) mem buf nbytes)"

definition directory_open :: "fsys \<Rightarrow> dir_entry \<Rightarrow> u8 list \<Rightarrow> procs \<Rightarrow> (int \<times> procs) option" where
  "directory_open fs junk fname p =
     (case read_dentry_by_name fs fname junk of None \<Rightarrow> None | Some (ret, dentry) \<Rightarrow>
        if ret = -1 then Some (ret, p)
        else take_slot (FDT_SIZE - 1) (directory_block (num_dir_entries fs)) p)"

definition directory_close :: "int \<Rightarrow> procs \<Rightarrow> (int \<times> procs) option" where
  "directory_close fd p =
     (if fd < 2 \<or> fd \<ge> FDT_SIZE then Some (-1, p)
      else
        (case get_fd p fd of None \<Rightarrow> None | Some b \<Rightarrow>
           if is_free b then Some (-1, p)
           else (case put_fd p fd (freed b) of None \<Rightarrow> None | Some p' \<Rightarrow> Some (0, p'))))"

definition directory_write :: "int \<Rightarrow> int \<Rightarrow> int" where
  "directory_write fd nbytes = -1"

text \<open>
  The copy of a name in \<open>directory_read\<close>: the result is the memory, \<open>fnIdx\<close> and whether the loop
  met the NUL (and returned from there) or ran to its bound.
\<close>

function name_loop :: "u8 list \<Rightarrow> int \<Rightarrow> memory \<Rightarrow> u32 \<Rightarrow> int \<Rightarrow> u32 \<Rightarrow>
    (memory \<times> int \<times> u32 \<times> bool) option" where
  "name_loop name nbytes mem buf fnIdx bufferIdx =
     (if fnIdx < nbytes then
        (case aget name fnIdx of None \<Rightarrow> None | Some c \<Rightarrow>
           if c = 0 then Some (mem(buf + bufferIdx := 0), fnIdx, bufferIdx, True)
           else name_loop name nbytes (mem(buf + bufferIdx := c)) buf (fnIdx + 1) (bufferIdx + 1))
      else Some (mem, fnIdx, bufferIdx, False))"
  by pat_completeness auto
termination
  by (relation "measure (\<lambda>(name, nbytes, mem, buf, fnIdx, bufferIdx). nat (nbytes - fnIdx))") auto

declare name_loop.simps [simp del]

text \<open>The \<open>while (1)\<close> loop: with a negative \<open>nbytes\<close> it can run forever, which is \<open>None\<close>.\<close>

partial_function (option) directory_read_loop ::
  "fsys \<Rightarrow> dir_entry \<Rightarrow> int \<Rightarrow> memory \<Rightarrow> u32 \<Rightarrow> u32 \<Rightarrow> int \<Rightarrow> procs \<Rightarrow> (int \<times> memory \<times> procs) option" where
  "directory_read_loop fs dentry fd mem buf bufferIdx nbytes p =
     (case get_fd p fd of None \<Rightarrow> None | Some b \<Rightarrow>
        if flags b = 0 \<or> file_position b = of_nat MAX_DIR_ENTRIES then Some (0, mem, p)
        else
          (let dentry' = snd (read_dentry_by_index fs (file_position b) dentry)
           in case aget (filename dentry') 0 of None \<Rightarrow> None | Some c \<Rightarrow>
                if c = 0 then
                  (case put_fd p fd (b\<lparr>file_position := file_position b + 1\<rparr>) of None \<Rightarrow> None | Some p' \<Rightarrow>
                     directory_read_loop fs dentry' fd mem buf bufferIdx nbytes p')
                else
                  (case name_loop (filename dentry') nbytes mem buf 0 bufferIdx of None \<Rightarrow> None
                   | Some (mem', fnIdx, bufferIdx', met_nul) \<Rightarrow>
                       if met_nul \<or> fnIdx = nbytes then
                         (case put_fd p fd (b\<lparr>file_position := file_position b + 1,
                                  flags := flags b - 1\<rparr>) of None \<Rightarrow> None | Some p' \<Rightarrow>
                            Some (fnIdx, mem', p'))
                       else directory_read_loop fs dentry' fd mem' buf bufferIdx' nbytes p)))"

definition directory_read ::
  "fsys \<Rightarrow> dir_entry \<Rightarrow> procs \<Rightarrow> int \<Rightarrow> memory \<Rightarrow> u32 \<Rightarrow> int \<Rightarrow> (int \<times> memory \<times> procs) option" where
  "directory_read fs junk p fd mem buf nbytes = directory_read_loop fs junk fd mem buf 0 nbytes p"

section \<open>Directory lookup\<close>

lemma length_filename [simp]: "length (filename (dir_entries fs i)) = 32"
  by (simp add: dir_entries_def bytes_at_def FILENAME_SIZE_def Let_def)

text \<open>The directory as a sequence of names, and the lookup it should give.\<close>

definition entry_name :: "fsys \<Rightarrow> nat \<Rightarrow> u8 list" where
  "entry_name fs i = cstr (filename (dir_entries fs (of_nat i)))"

definition find_entry :: "fsys \<Rightarrow> u8 list \<Rightarrow> nat \<Rightarrow> nat option" where
  "find_entry fs name i = find (\<lambda>k. entry_name fs k = name) [i..<63]"

lemma length_entry_name: "length (entry_name fs i) \<le> 32"
  unfolding entry_name_def cstr_def using length_takeWhile_le length_filename by metis

lemma entry_name_empty_iff: "entry_name fs i = [] \<longleftrightarrow> filename (dir_entries fs (of_nat i)) ! 0 = 0"
proof -
  obtain x xs where "filename (dir_entries fs (of_nat i)) = x # xs"
    using length_filename [of fs "of_nat i"] by (cases "filename (dir_entries fs (of_nat i))") auto
  then show ?thesis by (simp add: entry_name_def cstr_def)
qed

lemma strncmp_entry:
  assumes "0 \<in> set fname" and "length (cstr fname) \<le> 32"
  obtains r where "strncmp (filename (dir_entries fs (of_nat i))) fname 32 = Some r"
    "r = 0 \<longleftrightarrow> entry_name fs i = cstr fname"
proof -
  have "readable (filename (dir_entries fs (of_nat i))) 32" by (simp add: readable_def)
  moreover have "readable fname 32" using assms(1) by (simp add: readable_def)
  ultimately obtain r where r: "strncmp (filename (dir_entries fs (of_nat i))) fname 32 = Some r"
    "r = 0 \<longleftrightarrow> take 32 (entry_name fs i) = take 32 (cstr fname)"
    using strncmp_zero_iff unfolding entry_name_def by blast
  then show ?thesis using that assms(2) length_entry_name [of fs i] by simp
qed

lemma dentry_scan_eq:
  assumes "0 \<in> set fname" and "cstr fname \<noteq> []" and "length (cstr fname) \<le> 32"
  shows "dentry_scan fs fname i d = Some (case find_entry fs (cstr fname) i of
    None \<Rightarrow> (-1, d) | Some k \<Rightarrow> (0, dir_entries fs (of_nat k)))"
proof (induction "63 - i" arbitrary: i)
  case 0
  then show ?case by (simp add: dentry_scan.simps find_entry_def MAX_DIR_ENTRIES_def)
next
  case (Suc n)
  then have i: "i < 63" and IH: "dentry_scan fs fname (i + 1) d =
      Some (case find_entry fs (cstr fname) (i + 1) of
        None \<Rightarrow> (-1, d) | Some k \<Rightarrow> (0, dir_entries fs (of_nat k)))"
    by simp_all
  have find: "find_entry fs (cstr fname) i =
      (if entry_name fs i = cstr fname then Some i else find_entry fs (cstr fname) (i + 1))"
    using i by (simp add: find_entry_def upt_conv_Cons)
  obtain r where r: "strncmp (filename (dir_entries fs (of_nat i))) fname 32 = Some r"
    "r = 0 \<longleftrightarrow> entry_name fs i = cstr fname"
    using strncmp_entry [OF assms(1,3)] by blast
  have first: "aget (filename (dir_entries fs (of_nat i))) 0 =
      Some (filename (dir_entries fs (of_nat i)) ! 0)"
    by (simp add: aget_def)
  show ?case
    using i r find IH first entry_name_empty_iff [of fs i] assms(2)
    by (subst dentry_scan.simps) (auto simp: fs_consts Let_def)
qed

lemma read_dentry_by_name_eq:
  assumes "0 \<in> set fname"
  shows "read_dentry_by_name fs fname d =
    Some (if cstr fname = [] \<or> 32 < length (cstr fname) then (-1, d)
          else case find_entry fs (cstr fname) 0 of
            None \<Rightarrow> (-1, d) | Some k \<Rightarrow> (0, dir_entries fs (of_nat k)))"
  using assms dentry_scan_eq [OF assms] by (simp add: read_dentry_by_name_def strlen_eq)

lemma find_entry_Some_iff:
  "find_entry fs name 0 = Some k \<longleftrightarrow>
     k < 63 \<and> entry_name fs k = name \<and> (\<forall>j<k. entry_name fs j \<noteq> name)"
  unfolding find_entry_def find_Some_iff by (auto intro: less_trans)

lemma find_entry_None_iff: "find_entry fs name 0 = None \<longleftrightarrow> (\<forall>j<63. entry_name fs j \<noteq> name)"
  unfolding find_entry_def find_None_iff by auto

text \<open>
  C28: \<open>read_dentry_by_name\<close> returns the first of the 63 directory entries whose name is the
  string given, and reports failure exactly when the string is empty, longer than 32 bytes, or
  the name of no entry; names of all 32 bytes, which have no terminator, are found too.
\<close>

theorem read_dentry_by_name_correct:
  assumes "0 \<in> set fname"
  shows "\<exists>ret d'. read_dentry_by_name fs fname d = Some (ret, d') \<and>
    (ret = 0 \<longleftrightarrow> cstr fname \<noteq> [] \<and> length (cstr fname) \<le> 32 \<and> (\<exists>k<63. entry_name fs k = cstr fname)) \<and>
    (ret = 0 \<longrightarrow> (\<exists>k<63. d' = dir_entries fs (of_nat k) \<and> entry_name fs k = cstr fname \<and>
       (\<forall>j<k. entry_name fs j \<noteq> cstr fname))) \<and>
    (ret \<noteq> 0 \<longrightarrow> ret = -1 \<and> d' = d)"
proof (cases "cstr fname = [] \<or> 32 < length (cstr fname)")
  case True
  then show ?thesis by (auto simp: read_dentry_by_name_eq [OF assms])
next
  case False
  then show ?thesis
    using read_dentry_by_name_eq [OF assms, of fs d] find_entry_Some_iff [of fs "cstr fname"]
      find_entry_None_iff [of fs "cstr fname"]
    by (cases "find_entry fs (cstr fname) 0") auto
qed

text \<open>
  A small image for the witnesses, at address 0: one directory entry, named \<^verbatim>\<open>a\<close>, of type 2 and
  inode 0; one inode, of three bytes, whose only data block is block 0.
\<close>

definition sample_mem :: memory where
  "sample_mem = (\<lambda>_. 0)(0 := 1, 4 := 1, 8 := 1, 64 := 97, 96 := 2, 4096 := 3,
     8192 := 104, 8193 := 105, 8194 := 10)"

definition sample_fs :: fsys where
  "sample_fs = boot_block_init 0 sample_mem"

lemma upt_32: "[0..<32] = [0,1,2,3,4,5,6,7,8,9,10,11,12,13,14,15,16,17,18,19,20,21,22,23,24,25,26,27,28,29,30,31]"
  by (simp add: upt_conv_Cons)

lemma sample_fs_eq:
  "sample_fs = \<lparr>fs_mem = sample_mem, casted_block = 0, node_list = 4096, data_list = 8192\<rparr>"
  by (simp add: sample_fs_def boot_block_init_def inodes_def load32_def sample_mem_def FILE_SIZE_def)

lemma sample_fs_entry: "entry_name sample_fs 0 = [97]"
  by (simp add: sample_fs_eq entry_name_def dir_entries_def bytes_at_def FILENAME_SIZE_def upt_32
      sample_mem_def Let_def cstr_def)

theorem read_dentry_by_name_correct_witness:
  "\<exists>d'. read_dentry_by_name sample_fs [97, 0] (dir_entries sample_fs 5) = Some (0, d')"
proof -
  have "\<exists>k<63. entry_name sample_fs k = cstr [97, 0]"
    by (rule exI [of _ 0]) (simp add: sample_fs_entry, simp add: cstr_def)
  moreover have "cstr [97, 0] \<noteq> []" "length (cstr [97, 0]) \<le> 32" by (simp_all add: cstr_def)
  ultimately show ?thesis
    using read_dentry_by_name_correct [of "[97, 0]" sample_fs "dir_entries sample_fs 5"] by auto
qed

section \<open>Opening and closing descriptors\<close>

lemma fd_scan_spec:
  assumes wf: "procs_wf p" and "0 \<le> i" and "i \<le> 8" and "7 \<le> full"
  shows "(\<exists>j b. fd_scan full p i = Some (Inr j) \<and> i \<le> j \<and> j < 8 \<and> get_fd p j = Some b \<and> is_free b \<and>
      (\<forall>k c. i \<le> k \<and> k < j \<and> get_fd p k = Some c \<longrightarrow> \<not> is_free c)) \<or>
    fd_scan full p i = Some (if full = 7 \<and> i < 8 then Inl (-1) else Inr 0) \<and>
      (\<forall>k c. i \<le> k \<and> k < 8 \<and> get_fd p k = Some c \<longrightarrow> \<not> is_free c)"
  using assms
proof (induction full p i rule: fd_scan.induct)
  case (1 full p i)
  show ?case
  proof (cases "i < 8")
    case False
    with 1 show ?thesis by (auto simp: fd_scan.simps FDT_SIZE_def)
  next
    case True
    then obtain b where b: "get_fd p i = Some b" using get_fd_wf "1.prems" by blast
    show ?thesis
    proof (cases "is_free b")
      case True
      with b \<open>i < 8\<close> show ?thesis by (auto simp: fd_scan.simps FDT_SIZE_def)
    next
      case used: False
      show ?thesis
      proof (cases "i = full")
        case True
        with b used \<open>i < 8\<close> "1.prems" show ?thesis
          by (auto simp: fd_scan.simps FDT_SIZE_def le_less)
      next
        case False
        have step: "fd_scan full p i = fd_scan full p (i + 1)"
          using b used \<open>i < 8\<close> False by (simp add: fd_scan.simps [of full p i] FDT_SIZE_def)
        have below: "(\<forall>k c. i \<le> k \<and> k < m \<and> get_fd p k = Some c \<longrightarrow> \<not> is_free c) \<longleftrightarrow>
            (\<forall>k c. i + 1 \<le> k \<and> k < m \<and> get_fd p k = Some c \<longrightarrow> \<not> is_free c)" for m
          using b used by (metis add1_zle_eq less_le option.inject)
        have last: "full = 7 \<Longrightarrow> i + 1 < 8" using \<open>i < 8\<close> False by simp
        show ?thesis
          using "1.IH" [OF _ b used False] \<open>i < 8\<close> "1.prems" last
          unfolding step below FDT_SIZE_def by fastforce
      qed
    qed
  qed
qed

definition fds_full :: "procs \<Rightarrow> bool" where
  "fds_full p \<longleftrightarrow> (\<forall>k \<in> {2..<8}. case get_fd p k of None \<Rightarrow> True | Some b \<Rightarrow> \<not> is_free b)"

text \<open>\<open>lowest_free p j\<close>: \<open>j\<close> is the first free descriptor of the running process, from 2 on.\<close>

definition lowest_free :: "procs \<Rightarrow> int \<Rightarrow> bool" where
  "lowest_free p j \<longleftrightarrow> 2 \<le> j \<and> j < 8 \<and> (case get_fd p j of None \<Rightarrow> False | Some b \<Rightarrow> is_free b) \<and>
     (\<forall>k \<in> {2..<j}. case get_fd p k of None \<Rightarrow> False | Some b \<Rightarrow> \<not> is_free b)"

lemma fd_scan_free:
  assumes wf: "procs_wf p" and "\<not> fds_full p" and "7 \<le> full"
  obtains j where "fd_scan full p 2 = Some (Inr j)" "lowest_free p j"
proof -
  obtain k b where k: "2 \<le> k" "k < 8" "get_fd p k = Some b" "is_free b"
    using assms(2) by (auto simp: fds_full_def split: option.splits)
  from fd_scan_spec [OF wf, of 2 full] k assms(3)
  obtain j c where j: "fd_scan full p 2 = Some (Inr j)" "2 \<le> j" "j < 8" "get_fd p j = Some c"
    "is_free c" "\<forall>k c. 2 \<le> k \<and> k < j \<and> get_fd p k = Some c \<longrightarrow> \<not> is_free c" by auto
  have "\<exists>d. get_fd p m = Some d \<and> \<not> is_free d" if "m \<in> {2..<j}" for m
    using get_fd_wf [OF wf, of m] that j by auto
  then have "lowest_free p j" using j by (force simp: lowest_free_def split: option.splits)
  with j(1) show ?thesis by (rule that)
qed

lemma fd_scan_full:
  assumes "procs_wf p" and "fds_full p" and "7 \<le> full"
  shows "fd_scan full p 2 = Some (if full = 7 then Inl (-1) else Inr 0)"
  using fd_scan_spec [OF assms(1), of 2 full] assms(2,3)
  by (auto simp: fds_full_def split: option.splits)

text \<open>
  The contract of a descriptor: opening takes the lowest free slot, closing frees the slot, both
  touch no other descriptor and keep the process invariant. The clients are written once, for
  files and directories (and for the clock device in its own theory).
\<close>

locale descriptor_ops =
  fixes open_op :: "procs \<Rightarrow> (int \<times> procs) option"
    and close_op :: "int \<Rightarrow> procs \<Rightarrow> (int \<times> procs) option"
    and block :: "procs \<Rightarrow> fd_block"
  assumes opening_free: "procs_wf p \<Longrightarrow> \<not> fds_full p \<Longrightarrow>
      \<exists>j p'. open_op p = Some (j, p') \<and> lowest_free p j \<and> put_fd p j (block p) = Some p'"
    and closing_used: "procs_wf p \<Longrightarrow> 2 \<le> fd \<Longrightarrow> fd < 8 \<Longrightarrow> get_fd p fd = Some b \<Longrightarrow> \<not> is_free b \<Longrightarrow>
      flags b \<noteq> 0 \<Longrightarrow> \<exists>p'. close_op fd p = Some (0, p') \<and> put_fd p fd (freed b) = Some p'"
    and closing_range: "fd < 2 \<or> 8 \<le> fd \<Longrightarrow> close_op fd p = Some (-1, p)"
begin

lemma opening_ok:
  assumes "procs_wf p" and "\<not> fds_full p"
  obtains j p' where "open_op p = Some (j, p')" "lowest_free p j" "get_fd p' j = Some (block p)"
    "\<And>i. i \<noteq> j \<Longrightarrow> get_fd p' i = get_fd p i" "procs_wf p'"
proof -
  obtain j p' where j: "open_op p = Some (j, p')" "lowest_free p j" "put_fd p j (block p) = Some p'"
    using opening_free [OF assms] by blast
  with that fd_store.get_put_same [OF j(3)] fd_store.get_put_other [OF j(3)]
    put_fd_wf [OF assms(1) j(3)] show ?thesis by blast
qed

lemma closing_ok:
  assumes "procs_wf p" and "2 \<le> fd" and "fd < 8" and "get_fd p fd = Some b" and "\<not> is_free b"
    and "flags b \<noteq> 0"
  obtains p' where "close_op fd p = Some (0, p')" "get_fd p' fd = Some (freed b)"
    "\<And>i. i \<noteq> fd \<Longrightarrow> get_fd p' i = get_fd p i" "procs_wf p'"
proof -
  obtain p' where p': "close_op fd p = Some (0, p')" "put_fd p fd (freed b) = Some p'"
    using closing_used [OF assms] by blast
  with that fd_store.get_put_same [OF p'(2)] fd_store.get_put_other [OF p'(2)]
    put_fd_wf [OF assms(1) p'(2)] show ?thesis by blast
qed

text \<open>Opening and closing leaves a table with the same free slots, so that the slot is reused.\<close>

lemma open_close_reuse:
  assumes wf: "procs_wf p" and "\<not> fds_full p" and "\<not> is_free (block p)" and "flags (block p) \<noteq> 0"
  shows "\<exists>j p1 p2. open_op p = Some (j, p1) \<and> close_op j p1 = Some (0, p2) \<and> procs_wf p2 \<and>
    lowest_free p2 j \<and> (\<forall>i. i \<noteq> j \<longrightarrow> get_fd p2 i = get_fd p i)"
proof -
  obtain j p1 where j: "open_op p = Some (j, p1)" "lowest_free p j" "get_fd p1 j = Some (block p)"
    and o1: "\<And>i. i \<noteq> j \<Longrightarrow> get_fd p1 i = get_fd p i" and wf1: "procs_wf p1"
    by (rule opening_ok [OF assms(1,2)]) (rule that; assumption)
  have j2: "2 \<le> j" "j < 8" using j(2) by (auto simp: lowest_free_def)
  obtain p2 where p2: "close_op j p1 = Some (0, p2)" "get_fd p2 j = Some (freed (block p))"
    and o2: "\<And>i. i \<noteq> j \<Longrightarrow> get_fd p2 i = get_fd p1 i" and wf2: "procs_wf p2"
    by (rule closing_ok [OF wf1 j2 j(3) assms(3,4)]) (rule that; assumption)
  have same: "get_fd p2 i = get_fd p i" if "i \<noteq> j" for i using o1 [OF that] o2 [OF that] by simp
  have "is_free (freed (block p))" by (simp add: is_free_def freed_def)
  then have "lowest_free p2 j"
    using j(2) p2(2) same unfolding lowest_free_def by simp
  with j(1) p2(1) wf2 same show ?thesis by (intro exI conjI) auto
qed

end

text \<open>The file and directory close routines also refuse a descriptor that is free.\<close>

locale strict_descriptor_ops = descriptor_ops +
  assumes closing_free: "get_fd p fd = Some b \<Longrightarrow> is_free b \<Longrightarrow> close_op fd p = Some (-1, p)"
begin

lemma close_twice:
  assumes "procs_wf p" and "2 \<le> fd" and "fd < 8" and "get_fd p fd = Some b" and "\<not> is_free b"
    and "flags b \<noteq> 0"
  shows "\<exists>p'. close_op fd p = Some (0, p') \<and> close_op fd p' = Some (-1, p')"
proof -
  obtain p' where "close_op fd p = Some (0, p')" "get_fd p' fd = Some (freed b)"
    using closing_ok [OF assms] by blast
  then show ?thesis using closing_free [of p' fd "freed b"] by (auto simp: is_free_def freed_def)
qed

end

lemma take_slot_free:
  assumes "procs_wf p" and "\<not> fds_full p" and "7 \<le> full"
  shows "\<exists>j p'. take_slot full blk p = Some (j, p') \<and> lowest_free p j \<and> put_fd p j (blk p) = Some p'"
proof -
  obtain j where j: "fd_scan full p 2 = Some (Inr j)" "lowest_free p j"
    using fd_scan_free [OF assms] by blast
  then have "get_fd p j \<noteq> None" by (auto simp: lowest_free_def split: option.splits)
  then obtain p' where "put_fd p j (blk p) = Some p'" using fd_store.put_valid by blast
  with j show ?thesis by (simp add: take_slot_def)
qed

lemma close_used:
  assumes "2 \<le> fd" and "fd < 8" and "get_fd p fd = Some b" and "\<not> is_free b"
  shows "\<exists>p'. file_close fd p = Some (0, p') \<and> directory_close fd p = Some (0, p') \<and>
    put_fd p fd (freed b) = Some p'"
proof -
  obtain p' where "put_fd p fd (freed b) = Some p'"
    using fd_store.put_valid [of p fd "freed b"] assms(3) by auto
  with assms show ?thesis by (simp add: file_close_def directory_close_def FDT_SIZE_def)
qed

lemma close_range: "fd < 2 \<or> 8 \<le> fd \<Longrightarrow> file_close fd p = Some (-1, p) \<and> directory_close fd p = Some (-1, p)"
  by (auto simp: file_close_def directory_close_def FDT_SIZE_def)

lemma close_free:
  "get_fd p fd = Some b \<Longrightarrow> is_free b \<Longrightarrow>
     file_close fd p = Some (-1, p) \<and> directory_close fd p = Some (-1, p)"
  by (auto simp: file_close_def directory_close_def FDT_SIZE_def)

lemma FDT_SIZE_ge: "7 \<le> FDT_SIZE" "7 \<le> FDT_SIZE - 1"
  by (simp_all add: FDT_SIZE_def)

interpretation file_fd: strict_descriptor_ops "take_slot FDT_SIZE (file_block n)" file_close "file_block n" for n
  using take_slot_free [OF _ _ FDT_SIZE_ge(1)] close_used close_range close_free
  by unfold_locales blast+

interpretation dir_fd: strict_descriptor_ops "take_slot (FDT_SIZE - 1) (directory_block n)" directory_close
    "directory_block n" for n
  using take_slot_free [OF _ _ FDT_SIZE_ge(2)] close_used close_range close_free
  by unfold_locales blast+


lemma sample_procs_get_fd:
  "get_fd sample_procs i = (if 0 \<le> i \<and> i < 8 then Some (freed stdin_block) else None)"
  by (auto simp: get_fd_def get_cb_def sample_procs_def aget_def unused_block_def nth_Cons')

lemma sample_procs_not_full: "\<not> fds_full sample_procs"
  by (auto simp: fds_full_def sample_procs_get_fd is_free_def freed_def intro!: bexI [of _ 2])

lemma sample_lookup:
  "read_dentry_by_name sample_fs [97, 0] d = Some (0, dir_entries sample_fs 0)"
proof -
  have "cstr [97, 0] = [97]" by (simp add: cstr_def)
  moreover have "find_entry sample_fs [97] 0 = Some 0"
    by (simp add: find_entry_Some_iff sample_fs_entry)
  ultimately show ?thesis by (simp add: read_dentry_by_name_eq)
qed


text \<open>
  When descriptors 2 to 7 are all in use, \<open>file_open\<close> does not fail: its test for a full
  table is inside the loop and never true, so it takes slot 0, replaces the standard input of the
  process by the file and returns 0. \<open>directory_open\<close> returns \<open>-1\<close> and changes nothing.
\<close>

lemma file_open_full_replaces_stdin:
  assumes wf: "procs_wf p" and full: "fds_full p"
    and name: "read_dentry_by_name fs fname junk = Some (0, d)"
  shows "(\<exists>p'. file_open fs junk fname p = Some (0, p') \<and>
      get_fd p' 0 = Some \<lparr>file_operations_pointer = file_ptr p, inode = inode_num d,
        file_position = 0, flags = 1\<rparr>) \<and>
    directory_open fs junk fname p = Some (-1, p)"
proof
  obtain p' where p': "put_fd p 0 (file_block (inode_num d) p) = Some p'"
    using fd_store.put_valid [of p 0] get_fd_wf [OF wf, of 0] by fastforce
  then show "\<exists>p'. file_open fs junk fname p = Some (0, p') \<and>
      get_fd p' 0 = Some \<lparr>file_operations_pointer = file_ptr p, inode = inode_num d,
        file_position = 0, flags = 1\<rparr>"
    using name fd_scan_full [OF wf full FDT_SIZE_ge(1)] fd_store.get_put_same [OF p']
    by (simp add: file_open_def take_slot_def FDT_SIZE_def file_block_def)
  show "directory_open fs junk fname p = Some (-1, p)"
    using name fd_scan_full [OF wf full FDT_SIZE_ge(2)]
    by (simp add: directory_open_def take_slot_def FDT_SIZE_def)
qed

definition busy_procs :: procs where
  "busy_procs = sample_procs\<lparr>control_blocks := replicate 7 (unused_block\<lparr>fd_table := replicate 8 stdin_block\<rparr>)\<rparr>"

lemma busy_procs_facts: "procs_wf busy_procs" "fds_full busy_procs"
  by (auto simp: busy_procs_def sample_procs_def procs_wf_def pcb_wf_def unused_block_def
      active_count_def fds_full_def get_fd_def get_cb_def aget_def is_free_def stdin_block_def nth_Cons'
      split: option.splits)

lemma file_open_full_replaces_stdin_witness:
  "\<exists>p'. file_open sample_fs (dir_entries sample_fs 5) [97, 0] busy_procs = Some (0, p')"
  using file_open_full_replaces_stdin [OF busy_procs_facts sample_lookup] by blast

section \<open>Reading files\<close>

text \<open>The contents of a file: byte \<open>k\<close> is in data block \<open>k div 4096\<close> of its inode.\<close>

definition file_byte :: "fsys \<Rightarrow> u32 \<Rightarrow> nat \<Rightarrow> u8" where
  "file_byte fs n k = fs_mem fs
     (data_block fs (data_blocks fs n (of_nat (k div 4096))) + of_nat (k mod 4096))"

definition file_bytes :: "fsys \<Rightarrow> u32 \<Rightarrow> nat \<Rightarrow> nat \<Rightarrow> u8 list" where
  "file_bytes fs n pos len = map (file_byte fs n) [pos..<pos + len]"

definition file_content :: "fsys \<Rightarrow> u32 \<Rightarrow> u8 list" where
  "file_content fs n = file_bytes fs n 0 (unat (B_length fs n))"

lemma length_file_bytes [simp]: "length (file_bytes fs n pos len) = len"
  by (simp add: file_bytes_def)

lemma file_bytes_Suc: "file_bytes fs n pos (Suc i) = file_bytes fs n pos i @ [file_byte fs n (pos + i)]"
  by (simp add: file_bytes_def)

lemma file_bytes_slice:
  "pos + len \<le> unat (B_length fs n) \<Longrightarrow> file_bytes fs n pos len = take len (drop pos (file_content fs n))"
  by (simp add: file_content_def file_bytes_def drop_map take_map)

text \<open>The state of the copy loop after \<open>i\<close> bytes, for a read that started at \<open>pos\<close>.\<close>

definition read_at ::
  "fsys \<Rightarrow> procs \<Rightarrow> int \<Rightarrow> fd_block \<Rightarrow> u32 \<Rightarrow> u32 \<Rightarrow> u32 \<Rightarrow> memory \<Rightarrow> nat \<Rightarrow> nat \<Rightarrow> (int \<times> memory \<times> procs) option" where
  "read_at fs p fd b num buf len mem pos i =
     read_loop fs p fd b num buf len (overlay mem buf (file_bytes fs (inode b) pos i)) (of_nat i)
       (of_nat ((pos + i) mod 4096)) (of_nat ((pos + i) div 4096))
       (data_block fs (data_blocks fs (inode b) (of_nat ((pos + i) div 4096))))"

lemma u32_mod_4096:
  assumes "k < 4096"
  shows "(of_nat k + 1 :: u32) mod 4096 = 0 \<longleftrightarrow> k = 4095"
proof -
  have "unat ((of_nat k + 1 :: u32) mod 4096) = Suc k mod 4096"
  proof -
    have "(of_nat k + 1 :: u32) = of_nat (Suc k)" by simp
    moreover have "unat (of_nat (Suc k) :: u32) = Suc k"
      using assms by (simp add: unat_of_nat del: of_nat_Suc)
    ultimately show ?thesis by (simp only: unat_mod_distrib unat_numeral take_bit_numeral_numeral) simp
  qed
  moreover have "Suc k mod 4096 = 0 \<longleftrightarrow> k = 4095" using assms by (simp add: mod_Suc)
  ultimately show ?thesis by (metis unat_eq_zero)
qed

lemma next_position:
  fixes q :: nat
  assumes "w = (of_nat (q mod 4096) + 1 :: u32)"
  shows "w mod 4096 = 0 \<Longrightarrow> Suc q mod 4096 = 0 \<and> Suc q div 4096 = Suc (q div 4096)"
    and "w mod 4096 \<noteq> 0 \<Longrightarrow> Suc q mod 4096 = Suc (q mod 4096) \<and> Suc q div 4096 = q div 4096"
proof -
  have iff: "w mod 4096 = 0 \<longleftrightarrow> q mod 4096 = 4095"
    unfolding assms by (rule u32_mod_4096) simp
  show "Suc q mod 4096 = 0 \<and> Suc q div 4096 = Suc (q div 4096)" if "w mod 4096 = 0"
    using that unfolding iff by (simp add: mod_Suc div_Suc)
  show "Suc q mod 4096 = Suc (q mod 4096) \<and> Suc q div 4096 = q div 4096" if "w mod 4096 \<noteq> 0"
    using that unfolding iff by (simp add: mod_Suc div_Suc)
qed

lemma read_at_step:
  assumes pos: "pos = unat (file_position b)" and i: "i < unat len" and q: "pos + i < unat num"
  shows "read_at fs p fd b num buf len mem pos i = read_at fs p fd b num buf len mem pos (Suc i)"
proof -
  have bound: "i < 2 ^ 32" "pos + i < 2 ^ 32"
    using i q unat_u32_bound [of len] unat_u32_bound [of num] by linarith+
  then have u: "unat (of_nat i :: u32) = i" "unat (of_nat (pos + i) :: u32) = pos + i"
    by (simp_all add: unat_of_nat del: of_nat_add)
  let ?q = "pos + i"
  let ?dp = "data_block fs (data_blocks fs (inode b) (of_nat (?q div 4096)))"
  let ?bytes = "file_bytes fs (inode b) pos"
  have guards: "len \<noteq> of_nat i" "of_nat i \<noteq> num" "\<not> num \<le> file_position b + of_nat i"
  proof -
    show "len \<noteq> of_nat i" using u(1) i by auto
    show "of_nat i \<noteq> num" using u(1) q by auto
    have "file_position b + of_nat i = of_nat ?q" using pos by simp
    then show "\<not> num \<le> file_position b + of_nat i" using u(2) q by (simp add: word_le_nat_alt)
  qed
  have mem: "(overlay mem buf (?bytes i))(buf + of_nat i := fs_mem fs (?dp + of_nat (?q mod 4096))) =
      overlay mem buf (?bytes (Suc i))"
    using overlay_snoc [of "?bytes i" mem buf] bound(1) by (simp add: file_bytes_Suc file_byte_def)
  have unfold: "read_at fs p fd b num buf len mem pos i =
      (if (of_nat (?q mod 4096) + 1 :: u32) mod 4096 = 0
       then read_loop fs p fd b num buf len (overlay mem buf (?bytes (Suc i))) (of_nat i + 1) 0
              (of_nat (?q div 4096) + 1) (data_block fs (data_blocks fs (inode b) (of_nat (?q div 4096) + 1)))
       else read_loop fs p fd b num buf len (overlay mem buf (?bytes (Suc i))) (of_nat i + 1)
              (of_nat (?q mod 4096) + 1) (of_nat (?q div 4096)) ?dp)"
    unfolding read_at_def by (subst read_loop.simps) (simp only: guards mem Let_def FILE_SIZE_def if_True if_False not_False_eq_True)
  have suc: "of_nat (Suc n) = (of_nat n + 1 :: u32)" for n by simp
  show ?thesis
  proof (cases "(of_nat (?q mod 4096) + 1 :: u32) mod 4096 = 0")
    case True
    with next_position(1) [OF refl True] show ?thesis
      unfolding unfold unfolding read_at_def add_Suc_right by (simp only: suc if_True semiring_1_class.of_nat_0 simp_thms)
  next
    case False
    with next_position(2) [OF refl False] show ?thesis
      unfolding unfold unfolding read_at_def add_Suc_right by (simp only: suc if_False)
  qed
qed

lemma read_at_run:
  assumes "pos = unat (file_position b)" and "i \<le> unat len" and "pos + i \<le> unat num"
  shows "read_at fs p fd b num buf len mem pos 0 = read_at fs p fd b num buf len mem pos i"
  using assms(2,3)
proof (induction i)
  case (Suc i)
  then show ?case using read_at_step [OF assms(1), of i len num fs p fd buf mem] by simp
qed simp

lemma read_data_start:
  assumes "get_fd p fd = Some b" and "inode b \<le> inodes fs" and "B_length fs (inode b) \<noteq> 0"
    and "file_position b \<le> B_length fs (inode b)"
  shows "read_data fs p fd (file_position b) mem buf len =
    read_at fs p fd b (B_length fs (inode b)) buf len mem (unat (file_position b)) 0"
proof -
  have "of_nat (unat (file_position b) mod 4096) = file_position b mod 4096"
    by (simp add: word_arith_nat_mod)
  moreover have "of_nat (unat (file_position b) div 4096) = file_position b div 4096"
    by (simp add: word_arith_nat_div)
  moreover have "\<not> inode b > inodes fs" "\<not> file_position b > B_length fs (inode b)"
    using assms(2,4) by (simp_all add: not_less)
  ultimately show ?thesis
    using assms(1,3) by (simp add: read_data_def read_at_def FILE_SIZE_def file_bytes_def Let_def)
qed

lemma advance_ok:
  assumes "procs_wf p" and "get_fd p fd = Some b"
  obtains p' where "advance p fd b i = Some p'" "procs_wf p'"
    "get_fd p' fd = Some (b\<lparr>file_position := file_position b + i\<rparr>)"
    "\<And>k. k \<noteq> fd \<Longrightarrow> get_fd p' k = get_fd p k"
proof -
  let ?b = "b\<lparr>file_position := file_position b + i\<rparr>"
  obtain p' where p': "put_fd p fd ?b = Some p'"
    using fd_store.put_valid [of p fd ?b] assms(2) by auto
  show ?thesis
    by (rule that [of p'])
      (use p' put_fd_wf [OF assms(1) p'] fd_store.get_put_same [OF p'] fd_store.get_put_other [OF p'] in
        \<open>simp_all add: advance_def\<close>)
qed

text \<open>\<open>open_file fs b\<close>: a descriptor of a non-empty file, with its position in the file.\<close>

definition open_file :: "fsys \<Rightarrow> fd_block \<Rightarrow> bool" where
  "open_file fs b \<longleftrightarrow> inode b \<le> inodes fs \<and> B_length fs (inode b) \<noteq> 0 \<and>
     file_position b \<le> B_length fs (inode b) \<and> unat (B_length fs (inode b)) < 2147483648"

lemma file_read_eq:
  assumes "get_fd p fd = Some b" and "open_file fs b"
    and "i \<le> unat len" and "unat (file_position b) + i \<le> unat (B_length fs (inode b))"
  shows "file_read fs p fd mem buf len =
    read_at fs p fd b (B_length fs (inode b)) buf len mem (unat (file_position b)) i"
  using assms read_data_start [OF assms(1), of fs mem buf len]
    read_at_run [OF refl assms(3,4), of fs p fd buf mem]
  by (simp add: file_read_def open_file_def)

lemma file_read_within_eq:
  assumes "get_fd p fd = Some b" and "open_file fs b"
    and "unat (file_position b) + unat len \<le> unat (B_length fs (inode b))"
    and "advance p fd b len = Some p'"
  shows "file_read fs p fd mem buf len = Some (int (unat len),
    overlay mem buf (take (unat len) (drop (unat (file_position b)) (file_content fs (inode b)))), p')"
proof -
  have "unat len < 2147483648" using assms(2,3) by (simp add: open_file_def)
  then have "sint len = int (unat len)" by (rule sint_small)
  then show ?thesis
    using file_read_eq [OF assms(1,2) le_refl assms(3), of mem buf] assms(3,4)
    by (simp add: read_at_def read_loop.simps file_bytes_slice)
qed

lemma file_read_past_start_eq:
  assumes "get_fd p fd = Some b" and "open_file fs b" and "file_position b = 0"
    and "B_length fs (inode b) < len" and "advance p fd b (B_length fs (inode b)) = Some p'"
  shows "file_read fs p fd mem buf len = Some (int (unat (B_length fs (inode b))),
    overlay mem buf (file_content fs (inode b) @ [file_byte fs (inode b) (unat (B_length fs (inode b)))]), p')"
proof -
  let ?num = "B_length fs (inode b)"
  have num: "unat ?num < 2147483648" using assms(2) by (simp add: open_file_def)
  have le: "unat ?num \<le> unat len" using assms(4) by (simp add: word_less_nat_alt)
  have "len \<noteq> ?num" using assms(4) by auto
  moreover have "(overlay mem buf (file_content fs (inode b)))
      (buf + ?num := file_byte fs (inode b) (unat ?num)) =
      overlay mem buf (file_content fs (inode b) @ [file_byte fs (inode b) (unat ?num)])"
    using overlay_snoc [of "file_content fs (inode b)" mem buf] num by (simp add: file_content_def)
  ultimately show ?thesis
    using file_read_eq [OF assms(1,2) le, of mem buf] assms(3,5) sint_small [OF num]
    by (simp add: read_at_def read_loop.simps file_content_def file_byte_def)
qed

lemma file_read_tail_eq:
  assumes "get_fd p fd = Some b" and "open_file fs b" and "0 < file_position b"
    and "unat (B_length fs (inode b)) < unat (file_position b) + unat len"
  shows "file_read fs p fd mem buf len = Some (0,
    overlay mem buf (drop (unat (file_position b)) (file_content fs (inode b))), p)"
proof -
  let ?num = "B_length fs (inode b)" and ?pos = "file_position b"
  define m where "m = unat ?num - unat ?pos"
  have pos: "unat ?pos \<le> unat ?num" using assms(2) by (simp add: open_file_def word_le_nat_alt)
  then have m: "unat ?pos + m = unat ?num" "m < unat len" using assms(4) by (auto simp: m_def)
  have "0 < unat ?pos" using assms(3) by (simp add: word_less_nat_alt)
  then have "m < unat ?num" using m(1) by simp
  moreover have u: "unat (of_nat m :: u32) = m"
    using m unat_u32_bound [of len] by (simp add: unat_of_nat)
  ultimately have "len \<noteq> of_nat m" "of_nat m \<noteq> ?num" using m(2) by auto
  moreover have "?pos + of_nat m = ?num"
  proof -
    have "?pos + of_nat m = of_nat (unat ?pos + m)" by simp
    also have "\<dots> = ?num" unfolding m(1) by simp
    finally show ?thesis .
  qed
  moreover have "file_bytes fs (inode b) (unat ?pos) m = drop (unat ?pos) (file_content fs (inode b))"
    using file_bytes_slice [of "unat ?pos" m fs "inode b"] m(1) by (simp add: file_content_def)
  ultimately show ?thesis
    using file_read_eq [OF assms(1,2), of m len mem buf] m
    by (simp add: read_at_def read_loop.simps)
qed


text \<open>
  A read of more bytes than the file has, from position 0, returns the length of the file
  and moves the position to its end; it stores the whole file and one byte more, the one that
  follows the file in its last block, at offset \<open>length\<close> of the buffer.
\<close>

lemma file_read_whole:
  assumes "procs_wf p" and "get_fd p fd = Some b" and "open_file fs b" and "file_position b = 0"
    and "length (file_content fs (inode b)) < unat len"
  shows "\<exists>p' extra. file_read fs p fd mem buf len = Some (int (length (file_content fs (inode b))),
      overlay mem buf (file_content fs (inode b) @ [extra]), p') \<and>
    procs_wf p' \<and> get_fd p' fd = Some (b\<lparr>file_position := B_length fs (inode b)\<rparr>) \<and>
    (\<forall>k. k \<noteq> fd \<longrightarrow> get_fd p' k = get_fd p k)"
proof -
  let ?num = "B_length fs (inode b)"
  obtain p' where p': "advance p fd b ?num = Some p'" "procs_wf p'"
    "get_fd p' fd = Some (b\<lparr>file_position := file_position b + ?num\<rparr>)"
    "\<And>k. k \<noteq> fd \<Longrightarrow> get_fd p' k = get_fd p k"
    by (rule advance_ok [OF assms(1,2), of ?num]) (rule that; assumption)
  have "?num < len" using assms(5) by (simp add: file_content_def word_less_nat_alt)
  from file_read_past_start_eq [OF assms(2,3,4) this p'(1)] p' assms(4) show ?thesis
    by (auto simp: file_content_def)
qed

text \<open>
  C40: a read that starts inside the file and asks for more than is left stores the rest of the
  file in the buffer but returns 0, the end-of-file value, and leaves the position where it was:
  a caller that reads in chunks never sees the last partial chunk.
\<close>

theorem file_read_tail_lost:
  assumes "get_fd p fd = Some b" and "open_file fs b" and "0 < file_position b"
    and "length (file_content fs (inode b)) < unat (file_position b) + unat len"
  shows "file_read fs p fd mem buf len = Some (0,
    overlay mem buf (drop (unat (file_position b)) (file_content fs (inode b))), p)"
  using file_read_tail_eq [OF assms(1-3)] assms(4) by (simp add: file_content_def)

text \<open>A process that has the sample file open as descriptor 2, at position \<open>pos\<close>.\<close>

definition reading_block :: "u32 \<Rightarrow> fd_block" where
  "reading_block pos = \<lparr>file_operations_pointer = Some File_table, inode = 0, file_position = pos, flags = 1\<rparr>"

definition reading_procs :: "u32 \<Rightarrow> procs" where
  "reading_procs pos = sample_procs\<lparr>control_blocks := replicate 7 (unused_block\<lparr>fd_table :=
     [stdin_block, stdout_block, reading_block pos] @ replicate 5 (freed stdin_block)\<rparr>)\<rparr>"

lemma reading_procs_facts:
  "procs_wf (reading_procs pos)" "get_fd (reading_procs pos) 2 = Some (reading_block pos)"
  by (auto simp: reading_procs_def sample_procs_def procs_wf_def pcb_wf_def unused_block_def
      active_count_def get_fd_def get_cb_def aget_def)

lemma sample_fs_length: "B_length sample_fs 0 = 3" "inodes sample_fs = 1"
  by (simp_all add: B_length_def inodes_def sample_fs_eq load32_def sample_mem_def)

lemma sample_fs_content: "file_content sample_fs 0 = [104, 105, 10]"
  unfolding file_content_def sample_fs_length
  by (simp add: file_bytes_def upt_conv_Cons file_byte_def data_block_def data_blocks_def
      sample_fs_eq load32_def sample_mem_def)

lemma reading_block_open: "pos \<le> 3 \<Longrightarrow> open_file sample_fs (reading_block pos)"
  by (simp add: open_file_def reading_block_def sample_fs_length)


lemma file_read_whole_witness:
  "\<exists>p' extra. file_read sample_fs (reading_procs 0) 2 (\<lambda>_. 0) 1000 32 =
     Some (3, overlay (\<lambda>_. 0) 1000 [104, 105, 10, extra], p')"
  using file_read_whole [OF reading_procs_facts reading_block_open, of 0 32 "\<lambda>_. 0" 1000]
  by (auto simp: reading_block_def sample_fs_content)

theorem file_read_tail_lost_witness:
  "file_read sample_fs (reading_procs 1) 2 (\<lambda>_. 0) 1000 32 =
     Some (0, overlay (\<lambda>_. 0) 1000 [105, 10], reading_procs 1)"
  using file_read_tail_lost [OF reading_procs_facts(2) reading_block_open, of 1 32 "\<lambda>_. 0" 1000]
  by (simp add: reading_block_def sample_fs_content)

section \<open>Reading directories\<close>

text \<open>The bytes one call stores for a name: the name and its NUL, cut to \<open>n\<close> bytes.\<close>

definition name_bytes :: "u8 list \<Rightarrow> nat \<Rightarrow> u8 list" where
  "name_bytes name n = take n (name @ [0])"

lemma name_loop_run:
  assumes len: "length s = 32" and n: "n \<le> 32" and k: "k \<le> length (cstr s)" "k \<le> n"
  shows "\<exists>m. name_loop s (int n) (overlay mem buf (take k (cstr s))) buf (int k) (of_nat k) =
    Some (overlay mem buf (name_bytes (cstr s) n), int (min n (length (cstr s))), m, length (cstr s) < n)"
  using k
proof (induction "n - k" arbitrary: k)
  case 0
  then have "k = n" by simp
  with 0 show ?case by (simp add: name_loop.simps name_bytes_def)
next
  case (Suc d)
  then have kn: "k < n" by simp
  have "length (cstr s) \<le> 32" using len by (simp add: cstr_def) (metis length_takeWhile_le)
  with Suc.prems have klen: "k < 32" using kn n by simp
  have len_take: "length (take k (cstr s)) = k" using Suc.prems by simp
  have ov: "(overlay mem buf (take k (cstr s)))(buf + of_nat k := v) = overlay mem buf (take k (cstr s) @ [v])" for v
    using overlay_snoc [of "take k (cstr s)" mem buf v] klen unfolding len_take by simp
  show ?case
  proof (cases "k = length (cstr s)")
    case True
    then have "0 \<in> set s"
      using len klen cstr_no_nul [of s] by force
    then have "s ! k = 0" using nth_length_cstr True by simp
    moreover have "name_bytes (cstr s) n = take k (cstr s) @ [0]"
      using True kn by (simp add: name_bytes_def)
    ultimately show ?thesis
      using kn klen len True ov [of 0] by (simp add: name_loop.simps aget_def)
  next
    case False
    then have lt: "k < length (cstr s)" using Suc.prems by simp
    have nz: "s ! k \<noteq> 0"
      using nth_cstr [OF lt] nul_notin_cstr nth_mem [OF lt] by metis
    have "take k (cstr s) @ [s ! k] = take (Suc k) (cstr s)"
      using lt nth_cstr [OF lt] by (simp add: take_Suc_conv_app_nth)
    then have "name_loop s (int n) (overlay mem buf (take k (cstr s))) buf (int k) (of_nat k) =
        name_loop s (int n) (overlay mem buf (take (Suc k) (cstr s))) buf (int (Suc k)) (of_nat (Suc k))"
      using kn klen len nz ov [of "s ! k"]
      by (subst name_loop.simps) (simp add: aget_def add.commute)
    then show ?thesis using Suc.hyps(1) [of "Suc k"] Suc.hyps(2) kn lt by simp
  qed
qed

lemma name_loop_eq:
  assumes "length s = 32" and "n \<le> 32"
  obtains m where "name_loop s (int n) mem buf 0 0 =
    Some (overlay mem buf (name_bytes (cstr s) n), int (min n (length (cstr s))), m, length (cstr s) < n)"
  using name_loop_run [OF assms, of 0 mem buf] by auto

text \<open>The next entry with a name, from \<open>i\<close> on.\<close>

definition next_entry :: "fsys \<Rightarrow> nat \<Rightarrow> nat option" where
  "next_entry fs i = find (\<lambda>k. entry_name fs k \<noteq> []) [i..<63]"

lemma next_entry_step:
  "i < 63 \<Longrightarrow> next_entry fs i = (if entry_name fs i \<noteq> [] then Some i else next_entry fs (Suc i))"
  by (simp add: next_entry_def upt_conv_Cons)

lemma index_in_range:
  assumes "63 \<le> unat (inodes fs)" and "i < 63"
  shows "read_dentry_by_index fs (of_nat i) d = (0, dir_entries fs (of_nat i))"
proof -
  have "inodes fs \<noteq> 0" using assms(1) by auto
  then have "unat (inodes fs - 1) = unat (inodes fs) - 1" by (simp add: unat_minus_one)
  moreover have "unat (of_nat i :: u32) = i" using assms(2) by (simp add: unat_of_nat)
  ultimately show ?thesis
    using assms by (simp add: read_dentry_by_index_def word_less_nat_alt)
qed

lemma directory_read_loop_run:
  assumes wf: "procs_wf p" and b: "get_fd p fd = Some b" and fl: "flags b \<noteq> 0"
    and nodes: "63 \<le> unat (inodes fs)" and n: "n \<le> 32" and i: "file_position b = of_nat i" "i \<le> 63"
  shows "\<exists>p'. procs_wf p' \<and> (\<forall>k. k \<noteq> fd \<longrightarrow> get_fd p' k = get_fd p k) \<and>
    (case next_entry fs i of
       None \<Rightarrow> directory_read_loop fs d fd mem buf 0 (int n) p = Some (0, mem, p') \<and>
         get_fd p' fd = Some (b\<lparr>file_position := 63\<rparr>)
     | Some k \<Rightarrow> directory_read_loop fs d fd mem buf 0 (int n) p =
           Some (int (min n (length (entry_name fs k))), overlay mem buf (name_bytes (entry_name fs k) n), p') \<and>
         get_fd p' fd = Some (b\<lparr>file_position := of_nat k + 1, flags := flags b - 1\<rparr>))"
  using wf b fl i
proof (induction "63 - i" arbitrary: i p b d)
  case 0
  then have "i = 63" by simp
  with 0 show ?case
    by (intro exI [of _ p]) (auto simp: next_entry_def directory_read_loop.simps MAX_DIR_ENTRIES_def)
next
  case (Suc m)
  have i: "i < 63" using Suc.hyps(2) by simp
  have ne: "file_position b \<noteq> of_nat MAX_DIR_ENTRIES"
  proof
    assume "file_position b = of_nat MAX_DIR_ENTRIES"
    then have "unat (of_nat i :: u32) = unat (of_nat 63 :: u32)"
      using Suc.prems(4) by (simp add: MAX_DIR_ENTRIES_def)
    with i show False by (simp add: unat_of_nat)
  qed
  let ?e = "dir_entries fs (of_nat i)"
  have entry: "snd (read_dentry_by_index fs (file_position b) d) = ?e" for d
    using index_in_range [OF nodes i] Suc.prems(4) by simp
  have first: "aget (filename ?e) 0 = Some (filename ?e ! 0)" by (simp add: aget_def)
  show ?case
  proof (cases "entry_name fs i = []")
    case True
    let ?b = "b\<lparr>file_position := file_position b + 1\<rparr>"
    obtain p1 where p1: "put_fd p fd ?b = Some p1"
      using fd_store.put_valid [of p fd ?b] Suc.prems(2) by auto
    have step: "directory_read_loop fs d fd mem buf 0 (int n) p =
        directory_read_loop fs ?e fd mem buf 0 (int n) p1"
      using Suc.prems(2,3) ne entry first True p1
      by (subst directory_read_loop.simps) (simp add: entry_name_empty_iff)
    have "\<exists>p'. procs_wf p' \<and> (\<forall>k. k \<noteq> fd \<longrightarrow> get_fd p' k = get_fd p1 k) \<and>
      (case next_entry fs (Suc i) of
         None \<Rightarrow> directory_read_loop fs ?e fd mem buf 0 (int n) p1 = Some (0, mem, p') \<and>
           get_fd p' fd = Some (?b\<lparr>file_position := 63\<rparr>)
       | Some k \<Rightarrow> directory_read_loop fs ?e fd mem buf 0 (int n) p1 =
             Some (int (min n (length (entry_name fs k))), overlay mem buf (name_bytes (entry_name fs k) n), p') \<and>
           get_fd p' fd = Some (?b\<lparr>file_position := of_nat k + 1, flags := flags ?b - 1\<rparr>))"
      using Suc.hyps(2) i put_fd_wf [OF Suc.prems(1) p1] fd_store.get_put_same [OF p1] Suc.prems(3,4)
      by (intro Suc.hyps(1)) (auto simp: add.commute)
    then show ?thesis
      using step fd_store.get_put_other [OF p1] next_entry_step [OF i, of fs] True
      by (cases "next_entry fs (Suc i)") simp_all
  next
    case False
    let ?b = "b\<lparr>file_position := file_position b + 1, flags := flags b - 1\<rparr>"
    obtain p1 where p1: "put_fd p fd ?b = Some p1"
      using fd_store.put_valid [of p fd ?b] Suc.prems(2) by auto
    obtain k where k: "name_loop (filename ?e) (int n) mem buf 0 0 =
        Some (overlay mem buf (name_bytes (entry_name fs i) n),
          int (min n (length (entry_name fs i))), k, length (entry_name fs i) < n)"
      using name_loop_eq [OF length_filename n] unfolding entry_name_def by blast
    have "length (entry_name fs i) < n \<or> int (min n (length (entry_name fs i))) = int n" by auto
    then have "directory_read_loop fs d fd mem buf 0 (int n) p =
        Some (int (min n (length (entry_name fs i))), overlay mem buf (name_bytes (entry_name fs i) n), p1)"
      using Suc.prems(2,3) ne entry first False p1 k
      by (subst directory_read_loop.simps) (simp add: entry_name_empty_iff)
    then show ?thesis
      using next_entry_step [OF i, of fs] False put_fd_wf [OF Suc.prems(1) p1]
        fd_store.get_put_same [OF p1] fd_store.get_put_other [OF p1] Suc.prems(4)
      by (intro exI [of _ p1]) simp
  qed
qed


definition dir_mem :: memory where
  "dir_mem = (\<lambda>_. 0)(0 := 2, 4 := 64, 128 := 98)"

definition dir_fs :: fsys where
  "dir_fs = boot_block_init 0 dir_mem"

lemma dir_fs_facts: "inodes dir_fs = 64" "next_entry dir_fs 0 = Some 1" "entry_name dir_fs 1 = [98]"
proof -
  have eq: "dir_fs = \<lparr>fs_mem = dir_mem, casted_block = 0, node_list = 4096, data_list = 266240\<rparr>"
    by (simp add: dir_fs_def boot_block_init_def inodes_def load32_def dir_mem_def FILE_SIZE_def)
  show "inodes dir_fs = 64" by (simp add: eq inodes_def load32_def dir_mem_def)
  have "entry_name dir_fs 0 = []"
    by (simp add: eq entry_name_empty_iff dir_entries_def bytes_at_def Let_def FILENAME_SIZE_def dir_mem_def)
  moreover show e1: "entry_name dir_fs 1 = [98]"
    by (simp add: eq entry_name_def dir_entries_def bytes_at_def Let_def FILENAME_SIZE_def dir_mem_def
        upt_32 cstr_def)
  ultimately show "next_entry dir_fs 0 = Some 1"
    using next_entry_step [of 0 dir_fs] next_entry_step [of 1 dir_fs] by simp
qed


end
