(* ===== verification/Hardware.thy ===== *)
theory Hardware
  imports Prelude
begin

text \<open>
  Port input and output, the interrupt flag, and the two interrupt controllers of
  \<^verbatim>\<open>student-distrib/i8259.c\<close> and \<^verbatim>\<open>i8259.h\<close>.

  The machine records every \<open>outb\<close> in order. What \<open>inb\<close> returns is up to the devices, which are
  not part of the program: a function \<open>dev\<close> of the writes so far and the port, a parameter of
  every definition that reads a port.
\<close>

type_synonym outputs = "(u8 \<times> u16) list"
type_synonym device = "outputs \<Rightarrow> u16 \<Rightarrow> u8"

record machine =
  outs :: outputs
  iflag :: bool
  master_mask :: u8
  slave_mask :: u8

definition outb :: "u8 \<Rightarrow> u16 \<Rightarrow> 'a machine_scheme \<Rightarrow> 'a machine_scheme" where
  "outb d port s = s\<lparr>outs := outs s @ [(d, port)]\<rparr>"

definition inb :: "device \<Rightarrow> u16 \<Rightarrow> 'a machine_scheme \<Rightarrow> u8" where
  "inb dev port s = dev (outs s) port"

definition cli :: "'a machine_scheme \<Rightarrow> 'a machine_scheme" where
  "cli s = s\<lparr>iflag := False\<rparr>"

definition sti :: "'a machine_scheme \<Rightarrow> 'a machine_scheme" where
  "sti s = s\<lparr>iflag := True\<rparr>"

definition restore_flags :: "bool \<Rightarrow> 'a machine_scheme \<Rightarrow> 'a machine_scheme" where
  "restore_flags f s = s\<lparr>iflag := f\<rparr>"

lemmas io_defs = outb_def inb_def cli_def sti_def restore_flags_def

section \<open>i8259.c\<close>

definition MASTER_8259_PORT :: u16 where "MASTER_8259_PORT = 0x20"
definition SLAVE_8259_PORT :: u16 where "SLAVE_8259_PORT = 0xA0"
definition ICW1 :: u8 where "ICW1 = 0x11"
definition ICW2_MASTER :: u8 where "ICW2_MASTER = 0x20"
definition ICW2_SLAVE :: u8 where "ICW2_SLAVE = 0x28"
definition ICW3_MASTER :: u8 where "ICW3_MASTER = 0x04"
definition ICW3_SLAVE :: u8 where "ICW3_SLAVE = 0x02"
definition ICW4 :: u8 where "ICW4 = 0x01"
definition EOI :: u8 where "EOI = 0x60"

lemmas pic_consts = MASTER_8259_PORT_def SLAVE_8259_PORT_def ICW1_def ICW2_MASTER_def ICW2_SLAVE_def
  ICW3_MASTER_def ICW3_SLAVE_def ICW4_def EOI_def

definition i8259_init :: "'a machine_scheme \<Rightarrow> 'a machine_scheme" where
  "i8259_init s =
     (let s = outb ICW1 MASTER_8259_PORT s;
          s = outb ICW1 SLAVE_8259_PORT s;
          s = outb ICW2_MASTER (MASTER_8259_PORT + 1) s;
          s = outb ICW2_SLAVE (SLAVE_8259_PORT + 1) s;
          s = outb ICW3_MASTER (MASTER_8259_PORT + 1) s;
          s = outb ICW3_SLAVE (SLAVE_8259_PORT + 1) s;
          s = outb ICW4 (MASTER_8259_PORT + 1) s
      in outb ICW4 (SLAVE_8259_PORT + 1) s)"

text \<open>\<open>~(1 << irq_num)\<close> and \<open>1 << irq_num\<close> are computed as \<open>int\<close> and cut to a byte on assignment.\<close>

definition irq_bit :: "u32 \<Rightarrow> u8" where
  "irq_bit n = push_bit (unat n) 1"

definition enable_irq :: "device \<Rightarrow> u32 \<Rightarrow> 'a machine_scheme \<Rightarrow> 'a machine_scheme" where
  "enable_irq dev irq_num s =
     (if irq_num < 8 then
        (let port = MASTER_8259_PORT + 1;
             val = inb dev port s AND NOT (irq_bit irq_num)
         in outb val port (s\<lparr>master_mask := val\<rparr>))
      else
        (let port = SLAVE_8259_PORT + 1;
             val = inb dev port s AND NOT (irq_bit (irq_num - 8))
         in outb val port (s\<lparr>slave_mask := val\<rparr>)))"

definition disable_irq :: "device \<Rightarrow> u32 \<Rightarrow> 'a machine_scheme \<Rightarrow> 'a machine_scheme" where
  "disable_irq dev irq_num s =
     (if irq_num < 8 then
        (let port = MASTER_8259_PORT + 1;
             val = inb dev port s OR irq_bit irq_num
         in outb val port (s\<lparr>master_mask := val\<rparr>))
      else
        (let port = SLAVE_8259_PORT + 1;
             val = inb dev port s OR irq_bit (irq_num - 8)
         in outb val port (s\<lparr>slave_mask := val\<rparr>)))"

definition send_eoi :: "u32 \<Rightarrow> 'a machine_scheme \<Rightarrow> 'a machine_scheme" where
  "send_eoi irq_num s =
     (if irq_num < 8 then outb (EOI OR ucast (irq_num AND 7)) MASTER_8259_PORT s
      else
        (let s = outb (EOI OR 2) MASTER_8259_PORT s
         in outb (EOI OR ucast (irq_num - 8)) SLAVE_8259_PORT s))"

section \<open>Interrupt masks\<close>

text \<open>
  What the code relies on in the controllers: a mask register reads back the last mask written
  to its port, whatever is written to the other ports.
\<close>

definition mask_port :: "u16 \<Rightarrow> bool" where
  "mask_port p \<longleftrightarrow> p = 0x21 \<or> p = 0xA1"

definition mask_readback :: "device \<Rightarrow> bool" where
  "mask_readback dev \<longleftrightarrow>
     (\<forall>tr p q w. mask_port p \<longrightarrow> dev (tr @ [(w, q)]) p = (if q = p then w else dev tr p))"

text \<open>The line \<open>n\<close> (0 to 15) is masked when its bit in the register of its controller is set.\<close>

definition masked :: "device \<Rightarrow> 'a machine_scheme \<Rightarrow> nat \<Rightarrow> bool" where
  "masked dev s n \<longleftrightarrow>
     (if n < 8 then bit (inb dev 0x21 s) n else bit (inb dev 0xA1 s) (n - 8))"

lemma mask_readback_outb:
  "mask_readback dev \<Longrightarrow> mask_port p \<Longrightarrow> inb dev p (outb w q s) = (if q = p then w else inb dev p s)"
  by (simp add: mask_readback_def io_defs)

lemma inb_update_masks [simp]:
  "inb dev p (s\<lparr>master_mask := v\<rparr>) = inb dev p s" "inb dev p (s\<lparr>slave_mask := v\<rparr>) = inb dev p s"
  by (simp_all add: inb_def)

lemma bit_irq_bit: "n < 8 \<Longrightarrow> bit (irq_bit w) n \<longleftrightarrow> unat w = n"
  by (auto simp: irq_bit_def bit_exp_iff)

lemma unat_lines:
  assumes "n < 16" and "w = of_nat n"
  shows "unat (w :: u32) = n" "w < 8 \<longleftrightarrow> n < 8" "8 \<le> n \<Longrightarrow> unat (w - 8) = n - 8"
proof -
  show u: "unat w = n" using assms by (simp add: unat_of_nat)
  show "w < 8 \<longleftrightarrow> n < 8" using u by (simp add: word_less_nat_alt)
  show "unat (w - 8) = n - 8" if "8 \<le> n"
  proof -
    have "(8::u32) \<le> w" using u that by (simp add: word_le_nat_alt)
    then have "unat (w - 8) = unat w - unat (8::u32)" by (rule unat_sub)
    with u show ?thesis by simp
  qed
qed

lemma mask_after_enable:
  assumes "mask_readback dev" and "n < 16" and "k < 16"
  shows "masked dev (enable_irq dev (of_nat n) s) k \<longleftrightarrow> masked dev s k \<and> k \<noteq> n"
  using assms(2,3) unat_lines [OF assms(2) refl]
  by (auto simp: masked_def enable_irq_def Let_def mask_readback_outb [OF assms(1)] mask_port_def
      pic_consts bit_and_iff bit_not_iff bit_irq_bit)

lemma mask_after_disable:
  assumes "mask_readback dev" and "n < 16" and "k < 16"
  shows "masked dev (disable_irq dev (of_nat n) s) k \<longleftrightarrow> masked dev s k \<or> k = n"
  using assms(2,3) unat_lines [OF assms(2) refl]
  by (auto simp: masked_def disable_irq_def Let_def mask_readback_outb [OF assms(1)] mask_port_def
      pic_consts bit_or_iff bit_irq_bit)

text \<open>
  With controllers whose mask registers read back what was written, \<open>enable_irq\<close> unmasks
  its line and \<open>disable_irq\<close> masks it, on the controller that owns the line, and neither
  changes any of the other fifteen lines.
\<close>

lemma irq_masks_exact:
  assumes "mask_readback dev" and "n < 16" and "k < 16"
  shows "(masked dev (enable_irq dev (of_nat n) s) k \<longleftrightarrow> masked dev s k \<and> k \<noteq> n) \<and>
    (masked dev (disable_irq dev (of_nat n) s) k \<longleftrightarrow> masked dev s k \<or> k = n)"
  using mask_after_enable [OF assms] mask_after_disable [OF assms] by blast

text \<open>A pair of controllers that keep the last mask written.\<close>

fun last_write :: "u8 \<Rightarrow> outputs \<Rightarrow> u16 \<Rightarrow> u8" where
  "last_write w [] p = w"
| "last_write w ((v, q) # tr) p = last_write (if q = p then v else w) tr p"

lemma last_write_snoc: "last_write v (tr @ [(w, q)]) p = (if q = p then w else last_write v tr p)"
  by (induction tr arbitrary: v) auto

lemma last_write_readback: "mask_readback (last_write 0xFF)"
  by (simp add: mask_readback_def last_write_snoc)

definition idle_machine :: machine where
  "idle_machine = \<lparr>outs = [], iflag = False, master_mask = 0, slave_mask = 0\<rparr>"

lemma irq_masks_exact_witness:
  "\<not> masked (last_write 0xFF) (enable_irq (last_write 0xFF) 8 idle_machine) 8 \<and>
   masked (last_write 0xFF) (disable_irq (last_write 0xFF) 8 idle_machine) 8"
  using irq_masks_exact [OF last_write_readback, of 8 8 idle_machine] by simp

text \<open>End of interrupt for the four lines the kernel serves.\<close>

lemma send_eoi_lines:
  "send_eoi 0 s = outb 0x60 0x20 s" "send_eoi 1 s = outb 0x61 0x20 s"
  "send_eoi 8 s = outb 0x60 0xA0 (outb 0x62 0x20 s)"
  by (simp_all add: send_eoi_def pic_consts)

end
