(* ===== verification/Lib_Memory.thy ===== *)
theory Lib_Memory
  imports Prelude
begin

text \<open>
  The memory routines of \<^verbatim>\<open>student-distrib/lib.c\<close>, which are inline assembly: \<open>memset\<close>,
  \<open>memset_word\<close>, \<open>memset_dword\<close>, \<open>memcpy\<close> and \<open>memmove\<close>. Each definition keeps the structure of the assembly: the byte loop up
  to a 4-byte boundary, the \<open>rep\<close> string instruction on double words, the byte loop for the
  rest; registers are 32-bit words, the counts in \<open>ecx\<close> and \<open>edx\<close> are naturals. The lemmas
  show that the optimised routines compute a plain fill and a plain copy of the original bytes.
\<close>

section \<open>The routines\<close>

definition store32 :: "memory \<Rightarrow> u32 \<Rightarrow> u32 \<Rightarrow> memory" where
  "store32 m a v =
     m(a := ucast v, a + 1 := ucast (drop_bit 8 v), a + 2 := ucast (drop_bit 16 v),
       a + 3 := ucast (drop_bit 24 v))"

primrec rep_stosl :: "nat \<Rightarrow> u32 \<Rightarrow> u32 \<Rightarrow> memory \<Rightarrow> u32 \<times> memory" where
  "rep_stosl 0 eax edi m = (edi, m)"
| "rep_stosl (Suc ecx) eax edi m = rep_stosl ecx eax (edi + 4) (store32 m edi eax)"

primrec memset_bottom :: "nat \<Rightarrow> u32 \<Rightarrow> u32 \<Rightarrow> memory \<Rightarrow> memory" where
  "memset_bottom 0 eax edi m = m"
| "memset_bottom (Suc edx) eax edi m = memset_bottom edx eax (edi + 1) (m(edi := ucast eax))"

fun memset_top :: "nat \<Rightarrow> u32 \<Rightarrow> u32 \<Rightarrow> memory \<Rightarrow> memory" where
  "memset_top 0 eax edi m = m"
| "memset_top (Suc ecx) eax edi m =
     (if edi AND 3 = 0 then
        (let (edi', m') = rep_stosl (Suc ecx div 4) eax edi m
         in memset_bottom (Suc ecx mod 4) eax edi' m')
      else memset_top ecx eax (edi + 1) (m(edi := ucast eax)))"

definition memset :: "memory \<Rightarrow> u32 \<Rightarrow> u32 \<Rightarrow> u32 \<Rightarrow> memory" where
  "memset m s c0 n =
     (let c = c0 AND 0xFF
      in memset_top (unat n) (push_bit 24 c OR push_bit 16 c OR push_bit 8 c OR c) s m)"

definition store16 :: "memory \<Rightarrow> u32 \<Rightarrow> u32 \<Rightarrow> memory" where
  "store16 m a v = m(a := ucast v, a + 1 := ucast (drop_bit 8 v))"

primrec rep_stosw :: "nat \<Rightarrow> u32 \<Rightarrow> u32 \<Rightarrow> memory \<Rightarrow> u32 \<times> memory" where
  "rep_stosw 0 eax edi m = (edi, m)"
| "rep_stosw (Suc ecx) eax edi m = rep_stosw ecx eax (edi + 2) (store16 m edi eax)"

definition memset_word :: "memory \<Rightarrow> u32 \<Rightarrow> u32 \<Rightarrow> u32 \<Rightarrow> memory" where
  "memset_word m s c n = snd (rep_stosw (unat n) c s m)"

definition memset_dword :: "memory \<Rightarrow> u32 \<Rightarrow> u32 \<Rightarrow> u32 \<Rightarrow> memory" where
  "memset_dword m s c n = snd (rep_stosl (unat n) c s m)"

text \<open>One \<open>movsl\<close> reads the four source bytes before it writes the four destination bytes.\<close>

definition movsl :: "memory \<Rightarrow> u32 \<Rightarrow> u32 \<Rightarrow> memory" where
  "movsl m esi edi =
     m(edi := m esi, edi + 1 := m (esi + 1), edi + 2 := m (esi + 2), edi + 3 := m (esi + 3))"

primrec rep_movsl :: "nat \<Rightarrow> u32 \<Rightarrow> u32 \<Rightarrow> memory \<Rightarrow> u32 \<times> u32 \<times> memory" where
  "rep_movsl 0 esi edi m = (esi, edi, m)"
| "rep_movsl (Suc ecx) esi edi m = rep_movsl ecx (esi + 4) (edi + 4) (movsl m esi edi)"

primrec memcpy_bottom :: "nat \<Rightarrow> u32 \<Rightarrow> u32 \<Rightarrow> memory \<Rightarrow> memory" where
  "memcpy_bottom 0 esi edi m = m"
| "memcpy_bottom (Suc edx) esi edi m = memcpy_bottom edx (esi + 1) (edi + 1) (m(edi := m esi))"

fun memcpy_top :: "nat \<Rightarrow> u32 \<Rightarrow> u32 \<Rightarrow> memory \<Rightarrow> memory" where
  "memcpy_top 0 esi edi m = m"
| "memcpy_top (Suc ecx) esi edi m =
     (if edi AND 3 = 0 then
        (let (esi', edi', m') = rep_movsl (Suc ecx div 4) esi edi m
         in memcpy_bottom (Suc ecx mod 4) esi' edi' m')
      else memcpy_top ecx (esi + 1) (edi + 1) (m(edi := m esi)))"

definition memcpy :: "memory \<Rightarrow> u32 \<Rightarrow> u32 \<Rightarrow> u32 \<Rightarrow> memory" where
  "memcpy m dest src n = memcpy_top (unat n) src dest m"

text \<open>\<open>memmove\<close> also leaves the direction flag: clear on the forward path, set on the other.\<close>

primrec rep_movsb_up :: "nat \<Rightarrow> u32 \<Rightarrow> u32 \<Rightarrow> memory \<Rightarrow> memory" where
  "rep_movsb_up 0 esi edi m = m"
| "rep_movsb_up (Suc ecx) esi edi m = rep_movsb_up ecx (esi + 1) (edi + 1) (m(edi := m esi))"

primrec rep_movsb_down :: "nat \<Rightarrow> u32 \<Rightarrow> u32 \<Rightarrow> memory \<Rightarrow> memory" where
  "rep_movsb_down 0 esi edi m = m"
| "rep_movsb_down (Suc ecx) esi edi m = rep_movsb_down ecx (esi - 1) (edi - 1) (m(edi := m esi))"

definition memmove :: "memory \<Rightarrow> u32 \<Rightarrow> u32 \<Rightarrow> u32 \<Rightarrow> memory \<times> bool" where
  "memmove m dest src n =
     (if dest \<le> src then (rep_movsb_up (unat n) src dest m, False)
      else (rep_movsb_down (unat n) (src + n - 1) (dest + n - 1) m, True))"

section \<open>Plain fill and plain copy\<close>

definition fill :: "memory \<Rightarrow> u32 \<Rightarrow> nat \<Rightarrow> u8 \<Rightarrow> memory" where
  "fill m s n c = (\<lambda>a. if unat (a - s) < n then c else m a)"

definition copy :: "memory \<Rightarrow> u32 \<Rightarrow> u32 \<Rightarrow> nat \<Rightarrow> memory" where
  "copy m src dest n = (\<lambda>a. if unat (a - dest) < n then m (src + (a - dest)) else m a)"

lemma fill_0 [simp]: "fill m s 0 c = m" and copy_0 [simp]: "copy m src dest 0 = m"
  by (auto simp: fill_def copy_def)

text \<open>The offset of an address from a later start of the same block.\<close>

lemma unat_sub_of_nat:
  fixes x :: u32
  assumes "k < 2 ^ 32"
  shows "unat (x - of_nat k) = (if k \<le> unat x then unat x - k else 2 ^ 32 + unat x - k)"
proof -
  have u: "unat (of_nat k :: u32) = k" using assms by (simp add: unat_of_nat)
  show ?thesis
  proof (cases "k \<le> unat x")
    case True
    then have "(of_nat k :: u32) \<le> x" using u by (simp add: word_le_nat_alt)
    then show ?thesis using True u by (simp add: unat_sub)
  next
    case False
    then have "x < (of_nat k :: u32)" using u by (simp add: word_less_nat_alt)
    then show ?thesis using False u unat_sub_if_size [of x "of_nat k"] by (simp add: word_size)
  qed
qed

lemma unat_sub_wrap:
  fixes x y :: u32
  shows "unat x < unat y \<Longrightarrow> unat (x - y) = unat x + 2 ^ 32 - unat y"
  using unat_sub_if_size [of x y] by (simp add: word_size)

lemma fill_append:
  assumes "k + l \<le> 2 ^ 32"
  shows "fill (fill m s k c) (s + of_nat k) l c = fill m s (k + l) c"
proof (cases "l = 0")
  case False
  then have k: "k < 2 ^ 32" using assms by simp
  show ?thesis
  proof
    fix a
    have "unat (a - (s + of_nat k)) = (if k \<le> unat (a - s) then unat (a - s) - k
        else 2 ^ 32 + unat (a - s) - k)"
      using unat_sub_of_nat [OF k, of "a - s"] by (simp add: diff_diff_eq)
    then show "fill (fill m s k c) (s + of_nat k) l c a = fill m s (k + l) c a"
      using assms by (auto simp: fill_def)
  qed
qed simp

lemma upd_eq_fill: "m(s := c) = fill m s 1 c"
  by (auto simp: fill_def unat_eq_0)

lemma fill_Suc: "Suc l \<le> 2 ^ 32 \<Longrightarrow> fill (m(s := c)) (s + 1) l c = fill m s (Suc l) c"
  using fill_append [of 1 l m s c] by (simp add: upd_eq_fill)

text \<open>\<open>dup c\<close> is the value \<open>memset\<close> loads into \<open>eax\<close>: each of its bytes is the low byte of \<open>c\<close>.\<close>

abbreviation dup :: "u32 \<Rightarrow> u32" where
  "dup c \<equiv> push_bit 24 (c AND 0xFF) OR push_bit 16 (c AND 0xFF) OR push_bit 8 (c AND 0xFF)
     OR (c AND 0xFF)"

lemma bit_and_255: "bit ((c :: u32) AND 0xFF) n \<longleftrightarrow> n < 8 \<and> bit c n"
proof -
  have m: "(0xFF :: u32) = mask 8" by (simp add: mask_eq_exp_minus_1)
  show ?thesis unfolding m by (auto simp: bit_simps dest: bit_imp_le_length)
qed

lemma dup_bytes_aux:
  fixes x c :: u32
  assumes x: "\<And>n. bit x n \<longleftrightarrow> n < 8 \<and> bit c n"
  defines "e \<equiv> push_bit 24 x OR push_bit 16 x OR push_bit 8 x OR x"
  shows "(ucast e :: u8) = ucast c" and "(ucast (drop_bit 8 e) :: u8) = ucast c"
    and "(ucast (drop_bit 16 e) :: u8) = ucast c" and "(ucast (drop_bit 24 e) :: u8) = ucast c"
  by (rule bit_word_eqI; auto simp: e_def bit_simps x)+

lemmas dup_bytes = dup_bytes_aux [OF bit_and_255]

lemma fill_4: "m(s := v, s + 1 := v, s + 2 := v, s + 3 := v) = fill m s 4 v"
proof -
  have "fill (fill m s 1 v) (s + 1) 1 v = fill m s 2 v"
    using fill_append [of 1 1 m s v] by (simp only: one_add_one of_nat_1) simp
  moreover have "fill (fill m s 2 v) (s + 2) 1 v = fill m s 3 v"
    using fill_append [of 2 1 m s v] by simp
  moreover have "fill (fill m s 3 v) (s + 3) 1 v = fill m s 4 v"
    using fill_append [of 3 1 m s v] by simp
  ultimately show ?thesis by (simp only: upd_eq_fill)
qed

lemma store32_dup: "store32 m s (dup c) = fill m s 4 (ucast c)"
  unfolding store32_def dup_bytes by (rule fill_4)

text \<open>The loops, for any \<open>eax\<close> whose four bytes are \<open>v\<close>.\<close>

lemma rep_stosl_eq:
  assumes e: "\<And>m s. store32 m s e = fill m s 4 v" and "4 * n \<le> 2 ^ 32"
  shows "rep_stosl n e s m = (s + of_nat (4 * n), fill m s (4 * n) v)"
  using assms(2)
proof (induction n arbitrary: s m)
  case (Suc n)
  then have "fill (fill m s 4 v) (s + 4) (4 * n) v = fill m s (4 + 4 * n) v"
    using fill_append [of 4 "4 * n" m s v] by simp
  with Suc show ?case by (simp add: e algebra_simps)
qed simp

lemma memset_bottom_eq:
  assumes e: "ucast e = v" and "n \<le> 2 ^ 32"
  shows "memset_bottom n e s m = fill m s n v"
  using assms(2)
proof (induction n arbitrary: s m)
  case (Suc n)
  then have "memset_bottom n e (s + 1) (m(s := v)) = fill (m(s := v)) (s + 1) n v" by simp
  also have "\<dots> = fill m s (Suc n) v" using Suc.prems by (rule fill_Suc)
  finally show ?case by (simp only: memset_bottom.simps e)
qed simp

lemma memset_top_eq:
  assumes e: "ucast e = v" "\<And>m s. store32 m s e = fill m s 4 v" and "n \<le> 2 ^ 32"
  shows "memset_top n e s m = fill m s n v"
  using assms(3)
proof (induction n arbitrary: s m)
  case (Suc n)
  let ?q = "Suc n div 4" and ?r = "Suc n mod 4"
  have qr: "4 * ?q + ?r = Suc n" by (rule mult_div_mod_eq)
  show ?case
  proof (cases "s AND 3 = 0")
    case True
    have "fill (fill m s (4 * ?q) v) (s + of_nat (4 * ?q)) ?r v = fill m s (Suc n) v"
      using fill_append [of "4 * ?q" ?r m s v] Suc.prems unfolding qr by blast
    moreover have "?r \<le> 2 ^ 32" using Suc.prems qr by linarith
    ultimately have
      "memset_bottom ?r e (s + of_nat (4 * ?q)) (fill m s (4 * ?q) v) = fill m s (Suc n) v"
      using memset_bottom_eq [OF e(1), of ?r] by metis
    moreover have "rep_stosl ?q e s m = (s + of_nat (4 * ?q), fill m s (4 * ?q) v)"
      using Suc.prems qr by (intro rep_stosl_eq e) linarith
    ultimately show ?thesis using True by (simp only: memset_top.simps refl if_True Let_def prod.case)
  next
    case False
    have "memset_top n e (s + 1) (m(s := v)) = fill (m(s := v)) (s + 1) n v"
      using Suc by simp
    also have "\<dots> = fill m s (Suc n) v" using Suc.prems by (rule fill_Suc)
    finally show ?thesis using False by (simp only: memset_top.simps e if_False)
  qed
qed simp

text \<open>
  C36: the word-at-a-time \<open>memset\<close> stores the low byte of its second argument at exactly the
  \<open>n\<close> addresses from \<open>s\<close> on, whatever the alignment of \<open>s\<close>, and nowhere else.
\<close>

theorem memset_fill: "memset m s c n = fill m s (unat n) (ucast c)"
proof -
  have "unat n \<le> 2 ^ 32" using unat_u32_bound [of n] by simp
  then show ?thesis
    unfolding memset_def Let_def by (intro memset_top_eq dup_bytes store32_dup)
qed

text \<open>
  The word and double-word fills store \<open>n\<close> copies of the value, \<open>2 n\<close> and \<open>4 n\<close> bytes, and
  change nothing else.
\<close>

definition value_byte :: "u32 \<Rightarrow> nat \<Rightarrow> u8" where
  "value_byte v k = ucast (drop_bit (8 * k) v)"

definition pattern_fill :: "memory \<Rightarrow> u32 \<Rightarrow> nat \<Rightarrow> nat \<Rightarrow> u32 \<Rightarrow> memory" where
  "pattern_fill m s w n v = (\<lambda>a. if unat (a - s) < w * n then value_byte v (unat (a - s) mod w) else m a)"

lemma pattern_fill_Suc:
  assumes "w * Suc n \<le> 2 ^ 32" "0 < w"
  shows "pattern_fill (pattern_fill m s w 1 v) (s + of_nat w) w n v = pattern_fill m s w (Suc n) v"
proof (cases "n = 0")
  case False
  have "w * 2 \<le> w * Suc n" using False by (intro mult_le_mono) auto
  then have w: "w < 2 ^ 32" using assms by linarith
  show ?thesis
  proof
    fix a
    have "unat (a - (s + of_nat w)) = (if w \<le> unat (a - s) then unat (a - s) - w
        else 2 ^ 32 + unat (a - s) - w)"
      using unat_sub_of_nat [OF w, of "a - s"] by (simp add: diff_diff_eq)
    then show "pattern_fill (pattern_fill m s w 1 v) (s + of_nat w) w n v a = pattern_fill m s w (Suc n) v a"
      using assms by (auto simp: pattern_fill_def le_mod_geq)
  qed
qed (simp add: pattern_fill_def)

lemma store_pattern: "store16 m s v = pattern_fill m s 2 1 v" "store32 m s v = pattern_fill m s 4 1 v"
proof -
  have near: "(a = s + of_nat k) = (unat (a - s) = k)" if "k < 4" for a k
    using that by (auto simp: word_unat_eq_iff [of "a - s"] unat_of_nat simp flip: diff_eq_eq)
  have c: "unat d < 4 \<Longrightarrow> unat d = 0 \<or> unat d = 1 \<or> unat d = 2 \<or> unat d = 3"
    "unat d < 2 \<Longrightarrow> unat d = 0 \<or> unat d = 1" for d :: u32 by linarith+
  show "store16 m s v = pattern_fill m s 2 1 v"
    using near [of 0] near [of 1]
    by (auto simp: store16_def pattern_fill_def value_byte_def fun_eq_iff dest!: c(2))
  show "store32 m s v = pattern_fill m s 4 1 v"
    using near [of 0] near [of 1] near [of 2] near [of 3]
    by (auto simp: store32_def pattern_fill_def value_byte_def fun_eq_iff dest!: c(1))
qed

lemma rep_stos_pattern:
  "2 * n \<le> 2 ^ 32 \<Longrightarrow> snd (rep_stosw n v s m) = pattern_fill m s 2 n v"
  "4 * n \<le> 2 ^ 32 \<Longrightarrow> snd (rep_stosl n v s m) = pattern_fill m s 4 n v"
proof -
  show "2 * n \<le> 2 ^ 32 \<Longrightarrow> snd (rep_stosw n v s m) = pattern_fill m s 2 n v"
  proof (induction n arbitrary: s m)
    case (Suc n)
    then show ?case using pattern_fill_Suc [of 2 n m s v] by (simp add: store_pattern)
  qed (simp add: pattern_fill_def)
  show "4 * n \<le> 2 ^ 32 \<Longrightarrow> snd (rep_stosl n v s m) = pattern_fill m s 4 n v"
  proof (induction n arbitrary: s m)
    case (Suc n)
    then show ?case using pattern_fill_Suc [of 4 n m s v] by (simp add: store_pattern)
  qed (simp add: pattern_fill_def)
qed

lemma memset_wide:
  "2 * unat n \<le> 2 ^ 32 \<Longrightarrow> memset_word m s c n = pattern_fill m s 2 (unat n) c"
  "4 * unat n \<le> 2 ^ 32 \<Longrightarrow> memset_dword m s c n = pattern_fill m s 4 (unat n) c"
  by (simp_all only: memset_word_def memset_dword_def rep_stos_pattern)

section \<open>Copying\<close>

text \<open>
  Copying upwards keeps the source intact unless the destination starts strictly inside it;
  copying downwards unless the source starts strictly inside the destination.
\<close>

definition up_safe :: "u32 \<Rightarrow> u32 \<Rightarrow> nat \<Rightarrow> bool" where
  "up_safe src dest n \<longleftrightarrow> dest = src \<or> n \<le> unat (dest - src)"

definition down_safe :: "u32 \<Rightarrow> u32 \<Rightarrow> nat \<Rightarrow> bool" where
  "down_safe src dest n \<longleftrightarrow> dest = src \<or> n \<le> unat (src - dest)"

lemma copy_self [simp]: "copy m src src n = m"
  by (auto simp: copy_def)

lemma copy_append:
  assumes "k + l \<le> 2 ^ 32" and "up_safe src dest (k + l)"
  shows "copy (copy m src dest k) (src + of_nat k) (dest + of_nat k) l = copy m src dest (k + l)"
proof (cases "l = 0 \<or> dest = src")
  case False
  then have k: "k < 2 ^ 32" and far: "k + l \<le> unat (dest - src)"
    using assms by (auto simp: up_safe_def)
  show ?thesis
  proof
    fix a
    let ?o = "unat (a - dest)"
    have off: "unat (a - (dest + of_nat k)) = (if k \<le> ?o then ?o - k else 2 ^ 32 + ?o - k)"
      using unat_sub_of_nat [OF k, of "a - dest"] by (simp add: diff_diff_eq)
    have src: "\<not> unat (src + (a - dest) - dest) < k" if "k \<le> ?o" "?o < k + l"
    proof -
      have less: "?o < unat (dest - src)" using that far by linarith
      have eq: "src + (a - dest) - dest = (a - dest) - (dest - src)" by simp
      have "unat (src + (a - dest) - dest) = ?o + 2 ^ 32 - unat (dest - src)"
        unfolding eq by (rule unat_sub_wrap [OF less])
      moreover have "unat (dest - src) < 2 ^ 32" by (rule unat_u32_bound)
      ultimately show ?thesis using that by linarith
    qed
    have addr: "src + of_nat k + (a - (dest + of_nat k)) = src + (a - dest)" by simp
    show "copy (copy m src dest k) (src + of_nat k) (dest + of_nat k) l a = copy m src dest (k + l) a"
      using off src assms(1) unat_u32_bound [of "a - dest"] unfolding copy_def addr by auto
  qed
qed auto

lemma upd_eq_copy: "m(dest := m src) = copy m src dest 1"
  by (auto simp: copy_def unat_eq_0)

lemma up_safe_mono: "up_safe src dest n \<Longrightarrow> k \<le> n \<Longrightarrow> up_safe src dest k"
  by (auto simp: up_safe_def)

lemma up_safe_shift: "up_safe src dest n \<Longrightarrow> k \<le> n \<Longrightarrow> up_safe (src + x) (dest + x) k"
  by (auto simp: up_safe_def)

lemma copy_Suc:
  assumes "Suc l \<le> 2 ^ 32" and "up_safe src dest (Suc l)"
  shows "copy (m(dest := m src)) (src + 1) (dest + 1) l = copy m src dest (Suc l)"
  using copy_append [of 1 l src dest m] assms by (simp add: upd_eq_copy)

lemma unat_less_4_cases:
  fixes x :: u32
  shows "unat x < 4 \<longleftrightarrow> x = 0 \<or> x = 1 \<or> x = 2 \<or> x = 3"
  by (auto simp: word_unat_eq_iff)

lemma movsl_eq_copy: "movsl m src dest = copy m src dest 4"
proof
  fix a
  have "a - dest = k \<longleftrightarrow> a = dest + k" for k by (auto simp: algebra_simps)
  then show "movsl m src dest a = copy m src dest 4 a"
    by (auto simp: movsl_def copy_def unat_less_4_cases)
qed

lemma rep_movsl_eq:
  assumes "4 * n \<le> 2 ^ 32" and "up_safe src dest (4 * n)"
  shows "rep_movsl n src dest m =
    (src + of_nat (4 * n), dest + of_nat (4 * n), copy m src dest (4 * n))"
  using assms
proof (induction n arbitrary: src dest m)
  case (Suc n)
  then have "copy (copy m src dest 4) (src + 4) (dest + 4) (4 * n) = copy m src dest (4 + 4 * n)"
    using copy_append [of 4 "4 * n" src dest m] by simp
  moreover have "up_safe (src + 4) (dest + 4) (4 * n)"
    using Suc.prems(2) by (rule up_safe_shift) simp
  ultimately show ?case
    using Suc.IH [of "src + 4" "dest + 4"] Suc.prems by (simp add: movsl_eq_copy algebra_simps)
qed simp

lemma memcpy_bottom_eq:
  assumes "n \<le> 2 ^ 32" and "up_safe src dest n"
  shows "memcpy_bottom n src dest m = copy m src dest n"
  using assms
proof (induction n arbitrary: src dest m)
  case (Suc n)
  have "up_safe (src + 1) (dest + 1) n" using Suc.prems(2) by (rule up_safe_shift) simp
  then have "memcpy_bottom n (src + 1) (dest + 1) (m(dest := m src)) =
      copy (m(dest := m src)) (src + 1) (dest + 1) n"
    using Suc by simp
  also have "\<dots> = copy m src dest (Suc n)" using Suc.prems by (rule copy_Suc)
  finally show ?case by (simp only: memcpy_bottom.simps)
qed simp

lemma memcpy_top_eq:
  assumes "n \<le> 2 ^ 32" and "up_safe src dest n"
  shows "memcpy_top n src dest m = copy m src dest n"
  using assms
proof (induction n arbitrary: src dest m)
  case (Suc n)
  let ?q = "Suc n div 4" and ?r = "Suc n mod 4"
  have qr: "4 * ?q + ?r = Suc n" by (rule mult_div_mod_eq)
  then have le: "?r \<le> Suc n" "4 * ?q \<le> Suc n" by linarith+
  show ?case
  proof (cases "dest AND 3 = 0")
    case True
    let ?x = "of_nat (4 * ?q) :: u32"
    have "copy (copy m src dest (4 * ?q)) (src + ?x) (dest + ?x) ?r = copy m src dest (Suc n)"
      using copy_append [of "4 * ?q" ?r src dest m] Suc.prems unfolding qr by blast
    moreover have "memcpy_bottom ?r (src + ?x) (dest + ?x) (copy m src dest (4 * ?q)) =
        copy (copy m src dest (4 * ?q)) (src + ?x) (dest + ?x) ?r"
      using Suc.prems le by (intro memcpy_bottom_eq up_safe_shift [OF Suc.prems(2)]) linarith+
    moreover have "rep_movsl ?q src dest m = (src + ?x, dest + ?x, copy m src dest (4 * ?q))"
      using Suc.prems le by (intro rep_movsl_eq up_safe_mono [OF Suc.prems(2)]) linarith+
    ultimately show ?thesis
      using True by (simp only: memcpy_top.simps refl if_True Let_def prod.case)
  next
    case False
    have "up_safe (src + 1) (dest + 1) n" using Suc.prems(2) by (rule up_safe_shift) simp
    then have "memcpy_top n (src + 1) (dest + 1) (m(dest := m src)) =
        copy (m(dest := m src)) (src + 1) (dest + 1) n"
      using Suc by simp
    also have "\<dots> = copy m src dest (Suc n)" using Suc.prems by (rule copy_Suc)
    finally show ?thesis using False by (simp only: memcpy_top.simps if_False)
  qed
qed simp

lemma memcpy_copy:
  assumes "up_safe src dest (unat n)"
  shows "memcpy m dest src n = copy m src dest (unat n)"
  unfolding memcpy_def using assms unat_u32_bound [of n] by (intro memcpy_top_eq) auto

lemma rep_movsb_up_eq:
  assumes "n \<le> 2 ^ 32" and "up_safe src dest n"
  shows "rep_movsb_up n src dest m = copy m src dest n"
  using assms
proof (induction n arbitrary: src dest m)
  case (Suc n)
  have "up_safe (src + 1) (dest + 1) n" using Suc.prems(2) by (rule up_safe_shift) simp
  then have "rep_movsb_up n (src + 1) (dest + 1) (m(dest := m src)) =
      copy (m(dest := m src)) (src + 1) (dest + 1) n"
    using Suc by simp
  also have "\<dots> = copy m src dest (Suc n)" using Suc.prems by (rule copy_Suc)
  finally show ?case by (simp only: rep_movsb_up.simps)
qed simp

lemma copy_Suc_down:
  assumes "Suc n \<le> 2 ^ 32" and "down_safe src dest (Suc n)"
  shows "copy (m(dest + of_nat n := m (src + of_nat n))) src dest n = copy m src dest (Suc n)"
proof (cases "dest = src")
  case False
  then have far: "Suc n \<le> unat (src - dest)" using assms(2) by (simp add: down_safe_def)
  have n: "unat (of_nat n :: u32) = n" using assms(1) by (simp add: unat_of_nat)
  show ?thesis
  proof
    fix a
    have "src + (a - dest) \<noteq> dest + of_nat n" if "unat (a - dest) < n"
    proof
      assume "src + (a - dest) = dest + of_nat n"
      then have eq: "src - dest = of_nat n - (a - dest)" by (simp add: algebra_simps)
      have "a - dest \<le> (of_nat n :: u32)" using that n by (simp add: word_le_nat_alt)
      then have "unat (src - dest) = n - unat (a - dest)" unfolding eq by (simp only: unat_sub n)
      with far show False by linarith
    qed
    moreover have "a = dest + of_nat n \<longleftrightarrow> unat (a - dest) = n"
    proof -
      have "a = dest + of_nat n \<longleftrightarrow> a - dest = of_nat n" by (auto simp: algebra_simps)
      then show ?thesis using n by (simp add: word_unat_eq_iff)
    qed
    ultimately show "copy (m(dest + of_nat n := m (src + of_nat n))) src dest n a =
        copy m src dest (Suc n) a"
      by (auto simp: copy_def less_Suc_eq)
  qed
qed simp

lemma rep_movsb_down_eq:
  assumes "n \<le> 2 ^ 32" and "down_safe src dest n"
  shows "rep_movsb_down n (src + of_nat n - 1) (dest + of_nat n - 1) m = copy m src dest n"
  using assms
proof (induction n arbitrary: m)
  case (Suc n)
  have a: "x + of_nat (Suc n) - 1 = x + of_nat n" for x :: u32 by simp
  have "rep_movsb_down n (src + of_nat n - 1) (dest + of_nat n - 1)
        (m(dest + of_nat n := m (src + of_nat n))) =
      copy (m(dest + of_nat n := m (src + of_nat n))) src dest n"
    using Suc by (auto simp: down_safe_def)
  also have "\<dots> = copy m src dest (Suc n)" using Suc.prems by (rule copy_Suc_down)
  finally show ?case by (simp only: rep_movsb_down.simps a)
qed simp

text \<open>
  \<open>memmove\<close> leaves at the destination the bytes the source held before the call, for every
  overlap of the two blocks, as long as neither block wraps around the end of the address space.
  The second component says when the routine returns with the direction flag set.
\<close>

lemma memmove_copy:
  assumes "unat src + unat n \<le> 2 ^ 32" and "unat dest + unat n \<le> 2 ^ 32"
  shows "memmove m dest src n = (copy m src dest (unat n), src < dest)"
proof (cases "dest \<le> src")
  case True
  have "up_safe src dest (unat n)"
  proof (cases "dest = src")
    case False
    with True have "unat dest < unat src"
      by (metis order_le_imp_less_or_eq word_less_nat_alt)
    from unat_sub_wrap [OF this] assms(1) have "unat n \<le> unat (dest - src)" by linarith
    then show ?thesis by (simp add: up_safe_def)
  qed (simp add: up_safe_def)
  with True show ?thesis
    using unat_u32_bound [of n] by (simp add: memmove_def rep_movsb_up_eq)
next
  case False
  then have "unat src < unat dest" by (simp only: not_le word_less_nat_alt)
  from unat_sub_wrap [OF this] assms(2) have "unat n \<le> unat (src - dest)" by linarith
  then have "down_safe src dest (unat n)" by (simp add: down_safe_def)
  then have "rep_movsb_down (unat n) (src + n - 1) (dest + n - 1) m = copy m src dest (unat n)"
    using rep_movsb_down_eq [of "unat n" src dest m] unat_u32_bound [of n] by simp
  with False show ?thesis by (simp add: memmove_def)
qed

lemma memmove_copy_witness:
  "unat (1000 :: u32) + unat (100 :: u32) \<le> 2 ^ 32 \<and> unat (1010 :: u32) + unat (100 :: u32) \<le> 2 ^ 32
   \<and> memmove (\<lambda>a. ucast a) 1010 1000 100 =
     (copy (\<lambda>a. ucast a) 1000 1010 (unat (100 :: u32)), (1000 :: u32) < 1010)"
  using memmove_copy [of 1000 100 1010 "\<lambda>a. ucast a"] by simp

text \<open>
  C35: \<open>memcpy\<close> copies the original source bytes whenever the destination does not start
  strictly inside the source block; in particular for disjoint blocks, whatever the alignment.
\<close>

theorem memcpy_disjoint:
  assumes "unat n \<le> unat (dest - src)"
  shows "memcpy m dest src n = copy m src dest (unat n)"
  using assms by (intro memcpy_copy) (simp add: up_safe_def)

theorem memcpy_disjoint_witness:
  "memcpy (\<lambda>a. ucast a) 2001 1000 100 = copy (\<lambda>a. ucast a) 1000 2001 (unat (100 :: u32))"
  by (rule memcpy_disjoint) simp

end
