(* ===== verification/Screen.thy ===== *)
theory Screen
  imports Hardware Lib_Memory Lib_Strings "HOL-Library.Signed_Division"
begin

text \<open>
  The text screen: the video routines of \<^verbatim>\<open>student-distrib/lib.c\<close> and the cursor and output
  routines of \<^verbatim>\<open>terminal.c\<close>.

  Memory is the flat byte memory \<open>vid\<close>; \<open>video_mem\<close> is the address the routines write through
  (the display, or the page of a terminal in the background). \<open>screen_x\<close> and \<open>screen_y\<close> are C
  \<open>int\<close>s; C's \<open>/\<close> and \<open>%\<close> on them truncate (\<open>sdiv\<close>, \<open>smod\<close>). The specification is a terminal
  of 2000 cells with a position, and the routines are shown to implement it.
\<close>

section \<open>Video memory (lib.c)\<close>

definition VIDEO :: u32 where "VIDEO = 0xB8000"
definition VIDEO_1 :: u32 where "VIDEO_1 = 0xB9000"
definition NUM_COLS :: int where "NUM_COLS = 80"
definition NUM_ROWS :: int where "NUM_ROWS = 25"
definition ATTRIB :: u8 where "ATTRIB = 7"

lemmas screen_consts = NUM_COLS_def NUM_ROWS_def ATTRIB_def

record console = machine +
  vid :: memory
  video_mem :: u32
  screen_x :: int
  screen_y :: int
  key_flag :: int

text \<open>The two bytes of cell \<open>i\<close> from a base address.\<close>

definition put_cell_at :: "u32 \<Rightarrow> int \<Rightarrow> u8 \<Rightarrow> u8 \<Rightarrow> 'a console_scheme \<Rightarrow> 'a console_scheme" where
  "put_cell_at base i c a s =
     s\<lparr>vid := (vid s)(base + of_int (2 * i) := c, base + of_int (2 * i + 1) := a)\<rparr>"

definition put_cell :: "int \<Rightarrow> u8 \<Rightarrow> u8 \<Rightarrow> 'a console_scheme \<Rightarrow> 'a console_scheme" where
  "put_cell i c a s = put_cell_at (video_mem s) i c a s"

definition clear :: "'a console_scheme \<Rightarrow> 'a console_scheme" where
  "clear s = loop_up 0 (NUM_ROWS * NUM_COLS) (\<lambda>i. put_cell i 32 ATTRIB) s"

definition copy_cells :: "u32 \<Rightarrow> u32 \<Rightarrow> 'a console_scheme \<Rightarrow> 'a console_scheme" where
  "copy_cells dst src s = loop_up 0 (NUM_ROWS * NUM_COLS)
     (\<lambda>i s. let s1 = s\<lparr>vid := (vid s)(dst + of_int (2 * i) := vid s (src + of_int (2 * i)))\<rparr>
            in s1\<lparr>vid := (vid s1)(dst + of_int (2 * i + 1) := vid s1 (src + of_int (2 * i + 1)))\<rparr>) s"

definition act_vid_restore :: "u32 \<Rightarrow> 'a console_scheme \<Rightarrow> 'a console_scheme" where
  "act_vid_restore restore_arr s = copy_cells VIDEO restore_arr s"

definition restore_vid :: "u32 \<Rightarrow> 'a console_scheme \<Rightarrow> 'a console_scheme" where
  "restore_vid restore_arr s = copy_cells (video_mem s) restore_arr s"

definition save_vid :: "u32 \<Rightarrow> 'a console_scheme \<Rightarrow> 'a console_scheme" where
  "save_vid save_arr s = copy_cells save_arr (video_mem s) s"

definition scroll :: "'a console_scheme \<Rightarrow> 'a console_scheme" where
  "scroll s =
     (let s = loop_up 0 (NUM_ROWS * NUM_COLS - NUM_COLS)
            (\<lambda>i s. let s1 = s\<lparr>vid := (vid s)(video_mem s + of_int (2 * i) :=
                                vid s (video_mem s + of_int (2 * NUM_COLS + 2 * i)))\<rparr>
                   in s1\<lparr>vid := (vid s1)(video_mem s1 + of_int (2 * i + 1) :=
                                vid s1 (video_mem s1 + of_int (2 * NUM_COLS + 2 * i + 1)))\<rparr>) s;
          s = loop_up (NUM_ROWS * NUM_COLS - NUM_COLS) (NUM_ROWS * NUM_COLS)
            (\<lambda>i. put_cell i 32 ATTRIB) s
      in s\<lparr>screen_x := 0\<rparr>)"

text \<open>\<open>(pos << 1) - 2\<close> and \<open>(pos << 1) - 1\<close> are the two bytes of cell \<open>pos - 1\<close>.\<close>

definition backspace :: "'a console_scheme \<Rightarrow> 'a console_scheme" where
  "backspace s =
     (if screen_x s = 0 \<and> screen_y s = 0 then s
      else if screen_x s \<noteq> 0 then
        (put_cell (screen_y s * NUM_COLS + screen_x s - 1) 32 ATTRIB s)\<lparr>screen_x := screen_x s - 1\<rparr>
      else
        (put_cell (screen_y s * NUM_COLS + screen_x s - 1) 32 ATTRIB s)
          \<lparr>screen_y := screen_y s - 1, screen_x := NUM_COLS - 1\<rparr>)"

definition next_line :: "'a console_scheme \<Rightarrow> 'a console_scheme" where
  "next_line s =
     (if screen_y s \<ge> NUM_ROWS - 1 then scroll s
      else s\<lparr>screen_x := 0, screen_y := screen_y s + 1\<rparr>)"

definition putc_at :: "u32 \<Rightarrow> u8 \<Rightarrow> 'a console_scheme \<Rightarrow> 'a console_scheme" where
  "putc_at base c s =
     (if c = 10 \<or> c = 13 then s\<lparr>screen_y := screen_y s + 1, screen_x := 0\<rparr>
      else
        (let s = put_cell_at base (NUM_COLS * screen_y s + screen_x s) c ATTRIB s;
             s = s\<lparr>screen_x := screen_x s + 1\<rparr>;
             s = s\<lparr>screen_x := screen_x s smod NUM_COLS\<rparr>
         in s\<lparr>screen_y := (screen_y s + screen_x s sdiv NUM_COLS) smod NUM_ROWS\<rparr>))"

definition putc :: "u8 \<Rightarrow> 'a console_scheme \<Rightarrow> 'a console_scheme" where
  "putc c s = putc_at (video_mem s) c s"

definition force_putc :: "u8 \<Rightarrow> 'a console_scheme \<Rightarrow> 'a console_scheme" where
  "force_putc c s = putc_at VIDEO c s"

function puts_loop :: "u8 list \<Rightarrow> nat \<Rightarrow> 'a console_scheme \<Rightarrow> (nat \<times> 'a console_scheme) option" where
  "puts_loop str index s =
     (case aget str (int index) of None \<Rightarrow> None | Some c \<Rightarrow>
        if c \<noteq> 0 then puts_loop str (index + 1) (putc c s) else Some (index, s))"
  by pat_completeness auto
termination
  by (relation "measure (\<lambda>(str, index, s). length str - index)") (auto simp: aget_eq_Some_iff)

declare puts_loop.simps [simp del]

definition puts :: "u8 list \<Rightarrow> 'a console_scheme \<Rightarrow> (nat \<times> 'a console_scheme) option" where
  "puts str s = puts_loop str 0 s"

text \<open>\<open>video_mem[i << 1]++\<close> for every cell.\<close>

definition test_interrupts :: "'a console_scheme \<Rightarrow> 'a console_scheme" where
  "test_interrupts s = loop_up 0 (NUM_ROWS * NUM_COLS)
     (\<lambda>i s. s\<lparr>vid := (vid s)(video_mem s + of_int (2 * i) := vid s (video_mem s + of_int (2 * i)) + 1)\<rparr>) s"

section \<open>The hardware cursor (terminal.c)\<close>

definition cursor_enable_spec :: "device \<Rightarrow> u8 \<Rightarrow> u8 \<Rightarrow> 'a machine_scheme \<Rightarrow> 'a machine_scheme" where
  "cursor_enable_spec dev top_scanline bottom_scanline s =
     (let s = outb 0x0A 0x3D4 s;
          s = outb ((inb dev 0x3D5 s AND 0xC0) OR top_scanline) 0x3D5 s;
          s = outb 0x0B 0x3D4 s
      in outb ((inb dev 0x3D5 s AND 0xE0) OR bottom_scanline) 0x3D5 s)"

definition cursor_enable :: "'a machine_scheme \<Rightarrow> 'a machine_scheme" where
  "cursor_enable s =
     (let s = outb 0x0A 0x3D4 s; s = outb 0x00 0x3D5 s; s = outb 0x0B 0x3D4 s
      in outb (of_int NUM_ROWS) 0x3D5 s)"

definition cursor_disable :: "'a machine_scheme \<Rightarrow> 'a machine_scheme" where
  "cursor_disable s = (let s = outb 0x0A 0x3D4 s in outb 0x20 0x3D5 s)"

definition cursor_update_spec :: "int \<Rightarrow> int \<Rightarrow> 'a machine_scheme \<Rightarrow> 'a machine_scheme" where
  "cursor_update_spec x_position y_position s =
     (let screen_position = (of_int (y_position * NUM_COLS + x_position) :: u16);
          s = outb 0x0E 0x3D4 s;
          s = outb (ucast (drop_bit 8 screen_position AND 0xFF)) 0x3D5 s;
          s = outb 0x0F 0x3D4 s
      in outb (ucast (screen_position AND 0xFF)) 0x3D5 s)"

definition cursor_update :: "'a console_scheme \<Rightarrow> 'a console_scheme" where
  "cursor_update s = cursor_update_spec (screen_x s) (screen_y s) s"

definition cursor_update_left :: "int \<Rightarrow> 'a console_scheme \<Rightarrow> 'a console_scheme" where
  "cursor_update_left amount s = cursor_update (s\<lparr>screen_x := screen_x s - amount\<rparr>)"

definition cursor_update_right :: "int \<Rightarrow> 'a console_scheme \<Rightarrow> 'a console_scheme" where
  "cursor_update_right amount s = cursor_update (s\<lparr>screen_x := screen_x s + amount\<rparr>)"

definition cursor_position :: "device \<Rightarrow> 'a machine_scheme \<Rightarrow> u16 \<times> 'a machine_scheme" where
  "cursor_position dev s =
     (let s = outb 0x0F 0x3D4 s;
          screen_position = 0 OR ucast (inb dev 0x3D5 s);
          s = outb 0x0E 0x3D4 s
      in (screen_position OR push_bit 8 (ucast (inb dev 0x3D5 s)), s))"

section \<open>Terminal output (terminal.c)\<close>

definition IRQ1 :: u32 where "IRQ1 = 1"

text \<open>One turn of the loop of \<open>terminal_write\<close>, for the character \<open>c\<close>.\<close>

definition write_char :: "u8 \<Rightarrow> 'a console_scheme \<Rightarrow> 'a console_scheme" where
  "write_char c s =
     (let at_margin = (screen_x s = NUM_COLS - 1);
          call_next_line = (if c = 10 then True else at_margin);
          s = (if c = 10 then s
               else let s = putc c s in if key_flag s = 0 then s else s\<lparr>key_flag := 0\<rparr>)
      in if call_next_line then cli (next_line (sti s)) else s)"

function write_loop :: "u8 list \<Rightarrow> int \<Rightarrow> int \<Rightarrow> 'a console_scheme \<Rightarrow> 'a console_scheme option" where
  "write_loop output nbytes i s =
     (if i < nbytes then
        (case aget output i of None \<Rightarrow> None | Some c \<Rightarrow> write_loop output nbytes (i + 1) (write_char c s))
      else Some s)"
  by pat_completeness auto
termination
  by (relation "measure (\<lambda>(output, nbytes, i, s). nat (nbytes - i))") auto

declare write_loop.simps [simp del]

definition terminal_write :: "int \<Rightarrow> u8 list \<Rightarrow> int \<Rightarrow> 'a console_scheme \<Rightarrow> (int \<times> 'a console_scheme) option" where
  "terminal_write fd buf nbytes s =
     (if nbytes < 1 then Some (-1, s)
      else
        (case write_loop buf nbytes 0 (cli s) of None \<Rightarrow> None | Some s \<Rightarrow>
           Some (nbytes, sti (send_eoi IRQ1 (cursor_update s)))))"

definition terminal_print :: "u8 list \<Rightarrow> 'a console_scheme \<Rightarrow> 'a console_scheme option" where
  "terminal_print str s =
     (case strlen str of None \<Rightarrow> None | Some n \<Rightarrow> map_option snd (terminal_write 1 str (int n) s))"

definition terminal_backspace :: "'a console_scheme \<Rightarrow> 'a console_scheme" where
  "terminal_backspace s = cursor_update (backspace s)"

definition terminal_clear :: "'a console_scheme \<Rightarrow> 'a console_scheme" where
  "terminal_clear s = cursor_update ((clear s)\<lparr>screen_x := 0, screen_y := 0\<rparr>)"

definition reset_terminal_keyboard_input :: "int \<Rightarrow> int \<Rightarrow> 'a console_scheme \<Rightarrow> 'a console_scheme" where
  "reset_terminal_keyboard_input index sz s =
     loop_up 0 sz (\<lambda>_. terminal_backspace) (cursor_update_right (sz - index) s)"

section \<open>The screen as a sequence of cells\<close>

definition cell :: "'a console_scheme \<Rightarrow> nat \<Rightarrow> u8 \<times> u8" where
  "cell s i = (vid s (video_mem s + of_int (2 * int i)), vid s (video_mem s + of_int (2 * int i + 1)))"

definition cells :: "'a console_scheme \<Rightarrow> (u8 \<times> u8) list" where
  "cells s = map (cell s) [0..<2000]"

definition blank :: "u8 \<times> u8" where
  "blank = (32, 7)"

lemma length_cells [simp]: "length (cells s) = 2000"
  by (simp add: cells_def)

lemma nth_cells [simp]: "i < 2000 \<Longrightarrow> cells s ! i = cell s i"
  by (simp add: cells_def)

text \<open>\<open>drawn s t\<close>: from \<open>s\<close> to \<open>t\<close> only bytes of the 4000 from \<open>video_mem\<close> on have changed.\<close>

definition drawn :: "'a console_scheme \<Rightarrow> 'a console_scheme \<Rightarrow> bool" where
  "drawn s t \<longleftrightarrow> t = s\<lparr>vid := vid t\<rparr> \<and> (\<forall>a. 4000 \<le> unat (a - video_mem s) \<longrightarrow> vid t a = vid s a)"

lemma drawn_refl [simp]: "drawn s s"
  by (simp add: drawn_def)

lemma drawn_fields:
  assumes "drawn s t"
  shows "video_mem t = video_mem s" "screen_x t = screen_x s" "screen_y t = screen_y s"
    "key_flag t = key_flag s" "outs t = outs s" "iflag t = iflag s" "console.more t = console.more s"
    "master_mask t = master_mask s" "slave_mask t = slave_mask s"
proof -
  from assms have t: "t = s\<lparr>vid := vid t\<rparr>" by (simp add: drawn_def)
  show "video_mem t = video_mem s" "screen_x t = screen_x s" "screen_y t = screen_y s"
    "key_flag t = key_flag s" "outs t = outs s" "iflag t = iflag s" "console.more t = console.more s"
    "master_mask t = master_mask s" "slave_mask t = slave_mask s"
    by (subst t, simp)+
qed

lemma drawn_trans:
  assumes "drawn s t" and "drawn t u"
  shows "drawn s u"
proof -
  have t: "t = s\<lparr>vid := vid t\<rparr>" and "u = t\<lparr>vid := vid u\<rparr>" using assms by (simp_all add: drawn_def)
  then have "u = s\<lparr>vid := vid t\<rparr>\<lparr>vid := vid u\<rparr>" by metis
  then have "u = s\<lparr>vid := vid u\<rparr>" by simp
  moreover have "vid u a = vid s a" if "4000 \<le> unat (a - video_mem s)" for a
    using assms that drawn_fields(1) [OF assms(1)] by (simp add: drawn_def)
  ultimately show ?thesis by (simp add: drawn_def)
qed

lemma unat_offset:
  fixes b :: u32
  assumes "0 \<le> j" and "j < 4294967296"
  shows "unat (b + of_int j - b) = nat j"
proof -
  have "(of_int j :: u32) = of_nat (nat j)" using assms(1) by simp
  then have "unat (of_int j :: u32) = nat j mod 2 ^ 32" by (simp add: unat_of_nat)
  with assms show ?thesis by (simp add: nat_less_iff)
qed

lemma offset_eq_iff:
  fixes b :: u32
  assumes "0 \<le> i" and "i < 4000" and "0 \<le> j" and "j < 4000"
  shows "b + of_int i = b + of_int j \<longleftrightarrow> i = j"
  using assms by (intro addr_offset_eq_iff) auto

lemma put_cell_fields [simp]:
  "video_mem (put_cell i c a s) = video_mem s" "screen_x (put_cell i c a s) = screen_x s"
  "screen_y (put_cell i c a s) = screen_y s" "key_flag (put_cell i c a s) = key_flag s"
  by (simp_all add: put_cell_def put_cell_at_def)

lemma cell_put_cell:
  assumes "0 \<le> i" and "i < 2000" and "k < 2000"
  shows "cell (put_cell i c a s) k = (if int k = i then (c, a) else cell s k)"
proof -
  have k: "0 \<le> 2 * int k" "2 * int k < 4000" "0 \<le> 2 * int k + 1" "2 * int k + 1 < 4000"
    and i: "0 \<le> 2 * i" "2 * i < 4000" "0 \<le> 2 * i + 1" "2 * i + 1 < 4000"
    using assms by auto
  have "2 * int k \<noteq> 2 * i + 1" "2 * int k + 1 \<noteq> 2 * i" by presburger+
  then show ?thesis
    unfolding cell_def put_cell_def put_cell_at_def
    using offset_eq_iff [OF k(1,2) i(1,2)] offset_eq_iff [OF k(1,2) i(3,4)]
      offset_eq_iff [OF k(3,4) i(1,2)] offset_eq_iff [OF k(3,4) i(3,4)]
    by (auto simp del: of_int_add of_int_mult)
qed

lemma cells_put_cell:
  assumes "0 \<le> i" and "i < 2000"
  shows "cells (put_cell i c a s) = (cells s)[nat i := (c, a)]"
  by (rule nth_equalityI) (use assms in \<open>auto simp: cell_put_cell nth_list_update\<close>)

lemma drawn_put_cell:
  assumes "0 \<le> i" and "i < 2000"
  shows "drawn s (put_cell i c a s)"
proof -
  have "vid (put_cell i c a s) x = vid s x" if x: "4000 \<le> unat (x - video_mem s)" for x
  proof -
    have "x \<noteq> video_mem s + of_int (2 * i)"
      using unat_offset [of "2 * i" "video_mem s"] assms x by fastforce
    moreover have "x \<noteq> video_mem s + of_int (2 * i + 1)"
      using unat_offset [of "2 * i + 1" "video_mem s"] assms x by fastforce
    ultimately show ?thesis by (simp add: put_cell_def put_cell_at_def del: of_int_add of_int_mult)
  qed
  then show ?thesis by (simp add: drawn_def put_cell_def put_cell_at_def)
qed

lemma cell_update_outside:
  "drawn s t \<Longrightarrow> cells (t\<lparr>screen_x := x\<rparr>) = cells t \<and> cells (t\<lparr>screen_y := y\<rparr>) = cells t"
  by (simp add: cells_def cell_def)

text \<open>A run of \<open>put_cell\<close> over \<open>lo..<hi\<close> with one value.\<close>

lemma fill_loop:
  assumes "0 \<le> lo" and "lo \<le> hi" and "hi \<le> 2000"
  shows "drawn s (loop_up lo hi (\<lambda>i. put_cell i c a) s) \<and>
    (\<forall>k<2000. cell (loop_up lo hi (\<lambda>i. put_cell i c a) s) k =
      (if lo \<le> int k \<and> int k < hi then (c, a) else cell s k))"
proof -
  let ?P = "\<lambda>i t. drawn s t \<and>
    (\<forall>k<2000. cell t k = (if lo \<le> int k \<and> int k < i then (c, a) else cell s k))"
  have "?P hi (loop_up lo hi (\<lambda>i. put_cell i c a) s)"
  proof (rule loop_up_inv [OF assms(2)])
    show "?P lo s" by auto
  next
    fix i t assume i: "lo \<le> i" "i < hi" and P: "?P i t"
    have "drawn s (put_cell i c a t)"
      using P i assms by (intro drawn_trans [OF _ drawn_put_cell]) auto
    with P i assms show "?P (i + 1) (put_cell i c a t)" by (auto simp: cell_put_cell)
  qed
  then show ?thesis by blast
qed

lemma cells_eqI: "(\<And>k. k < 2000 \<Longrightarrow> cell s k = xs ! k) \<Longrightarrow> length xs = 2000 \<Longrightarrow> cells s = xs"
  by (rule nth_equalityI) auto

lemma clear_drawn: "drawn s (clear s)" and cells_clear: "cells (clear s) = replicate 2000 blank"
proof -
  have loop: "drawn s (clear s) \<and> (\<forall>k<2000. cell (clear s) k = blank)"
    using fill_loop [of 0 2000 s 32 7] by (simp add: clear_def screen_consts blank_def)
  then show "drawn s (clear s)" by blast
  show "cells (clear s) = replicate 2000 blank" by (rule cells_eqI) (use loop in auto)
qed

text \<open>The copy of one cell to the one 80 cells before it is a \<open>put_cell\<close> of that cell's bytes.\<close>

lemma scroll_step:
  assumes "0 \<le> i" and "i < 1920"
  shows "(let s1 = s\<lparr>vid := (vid s)(video_mem s + of_int (2 * i) := vid s (video_mem s + of_int (2 * NUM_COLS + 2 * i)))\<rparr>
      in s1\<lparr>vid := (vid s1)(video_mem s1 + of_int (2 * i + 1) := vid s1 (video_mem s1 + of_int (2 * NUM_COLS + 2 * i + 1)))\<rparr>) =
    put_cell i (fst (cell s (nat i + 80))) (snd (cell s (nat i + 80))) s"
proof -
  have j: "2 * NUM_COLS + 2 * i = 2 * int (nat i + 80)" "2 * NUM_COLS + 2 * i + 1 = 2 * int (nat i + 80) + 1"
    using assms by (simp_all add: NUM_COLS_def)
  have "video_mem s + of_int (2 * int (nat i + 80) + 1) \<noteq> video_mem s + of_int (2 * i)"
    by (subst offset_eq_iff) (use assms in presburger)+
  then show ?thesis
    unfolding j Let_def put_cell_def put_cell_at_def cell_def
    by (simp del: of_int_add of_int_mult)
qed

lemma scroll_loop:
  fixes s :: "'a console_scheme"
  defines "body \<equiv> \<lambda>i (s :: 'a console_scheme). let s1 = s\<lparr>vid := (vid s)(video_mem s + of_int (2 * i) :=
                          vid s (video_mem s + of_int (2 * NUM_COLS + 2 * i)))\<rparr>
                   in s1\<lparr>vid := (vid s1)(video_mem s1 + of_int (2 * i + 1) :=
                          vid s1 (video_mem s1 + of_int (2 * NUM_COLS + 2 * i + 1)))\<rparr>"
  shows "drawn s (loop_up 0 1920 body s) \<and> (\<forall>k<2000. cell (loop_up 0 1920 body s) k =
    (if k < 1920 then cell s (k + 80) else cell s k))"
proof -
  let ?P = "\<lambda>i t. drawn s t \<and> (\<forall>k<2000. cell t k = (if int k < i then cell s (k + 80) else cell s k))"
  have "?P 1920 (loop_up 0 1920 body s)"
  proof (rule loop_up_inv)
    fix i and t :: "'a console_scheme" assume i: "0 \<le> i" "i < 1920" and P: "?P i t"
    have body: "body i t = put_cell i (fst (cell t (nat i + 80))) (snd (cell t (nat i + 80))) t"
      unfolding body_def by (rule scroll_step [OF i])
    have src: "cell t (nat i + 80) = cell s (nat i + 80)" using P i by simp
    have "drawn s (body i t)"
      unfolding body using P i by (intro drawn_trans [OF _ drawn_put_cell]) auto
    then show "?P (i + 1) (body i t)"
      using P i unfolding body src by (auto simp: cell_put_cell)
  qed auto
  then show ?thesis by auto
qed

lemma scroll_drawn:
  obtains t where "scroll s = t\<lparr>screen_x := 0\<rparr>" "drawn s t"
    "cells t = drop 80 (cells s) @ replicate 80 blank"
proof -
  let ?body = "\<lambda>i (s :: 'a console_scheme). let s1 = s\<lparr>vid := (vid s)(video_mem s + of_int (2 * i) :=
                          vid s (video_mem s + of_int (2 * NUM_COLS + 2 * i)))\<rparr>
                   in s1\<lparr>vid := (vid s1)(video_mem s1 + of_int (2 * i + 1) :=
                          vid s1 (video_mem s1 + of_int (2 * NUM_COLS + 2 * i + 1)))\<rparr>"
  define u where "u = loop_up 0 1920 ?body s"
  define t where "t = loop_up 1920 2000 (\<lambda>i. put_cell i 32 ATTRIB) u"
  have "scroll s = t\<lparr>screen_x := 0\<rparr>"
    unfolding scroll_def t_def u_def by (simp add: NUM_COLS_def NUM_ROWS_def)
  moreover have u: "drawn s u" "\<And>k. k < 2000 \<Longrightarrow> cell u k = (if k < 1920 then cell s (k + 80) else cell s k)"
    using scroll_loop [of s] unfolding u_def by blast+
  have t: "drawn u t" "\<And>k. k < 2000 \<Longrightarrow> cell t k = (if 1920 \<le> k then blank else cell u k)"
    using fill_loop [of 1920 2000 u 32 ATTRIB] unfolding t_def by (simp_all add: blank_def ATTRIB_def)
  have "drawn s t" using u(1) t(1) by (rule drawn_trans)
  moreover have "cells t = drop 80 (cells s) @ replicate 80 blank"
    by (rule cells_eqI) (auto simp: t(2) u(2) nth_append add.commute)
  ultimately show ?thesis by (rule that)
qed

section \<open>The terminal the screen implements\<close>

record tty =
  tcells :: "(u8 \<times> u8) list"
  tx :: nat
  ty :: nat

definition tty_newline :: "tty \<Rightarrow> tty" where
  "tty_newline t =
     (if ty t = 24 then t\<lparr>tcells := drop 80 (tcells t) @ replicate 80 blank, tx := 0\<rparr>
      else t\<lparr>tx := 0, ty := ty t + 1\<rparr>)"

definition tty_char :: "u8 \<Rightarrow> tty \<Rightarrow> tty" where
  "tty_char c t =
     (if c = 10 then tty_newline t
      else
        (let t' = t\<lparr>tcells := (tcells t)[80 * ty t + tx t := (c, 7)], tx := tx t + 1\<rparr>
         in if tx t' = 80 then tty_newline t' else t'))"

definition tty_erase :: "tty \<Rightarrow> tty" where
  "tty_erase t =
     (if tx t = 0 \<and> ty t = 0 then t
      else
        (let p = 80 * ty t + tx t - 1
         in t\<lparr>tcells := (tcells t)[p := blank], tx := p mod 80, ty := p div 80\<rparr>))"

definition screen_abs :: "'a console_scheme \<Rightarrow> tty" where
  "screen_abs s = \<lparr>tcells = cells s, tx = nat (screen_x s), ty = nat (screen_y s)\<rparr>"

definition on_screen :: "'a console_scheme \<Rightarrow> bool" where
  "on_screen s \<longleftrightarrow> 0 \<le> screen_x s \<and> screen_x s < 80 \<and> 0 \<le> screen_y s \<and> screen_y s < 25"

declare on_screen_def [inv_simps]

text \<open>
  What no output routine changes: the page outside the 4000 bytes, the page address, and the
  state of the other components. The position, the interrupt flag, the ports and \<open>key_flag\<close> may
  change.
\<close>

definition kept :: "'a console_scheme \<Rightarrow> 'a console_scheme \<Rightarrow> bool" where
  "kept s t \<longleftrightarrow> video_mem t = video_mem s \<and> master_mask t = master_mask s \<and> slave_mask t = slave_mask s \<and>
     console.more t = console.more s \<and>
     (\<forall>a. 4000 \<le> unat (a - video_mem s) \<longrightarrow> vid t a = vid s a)"

lemma kept_refl [simp]: "kept s s"
  by (simp add: kept_def)

lemma kept_trans: "kept s t \<Longrightarrow> kept t u \<Longrightarrow> kept s u"
  by (simp add: kept_def)

lemma drawn_kept: "drawn s t \<Longrightarrow> kept s t"
  using drawn_fields [of s t] by (simp add: kept_def drawn_def)

lemma kept_updates [simp]:
  "kept s (t\<lparr>screen_x := x\<rparr>) = kept s t" "kept s (t\<lparr>screen_y := y\<rparr>) = kept s t"
  "kept s (t\<lparr>key_flag := k\<rparr>) = kept s t" "kept s (t\<lparr>outs := os\<rparr>) = kept s t"
  "kept s (t\<lparr>iflag := b\<rparr>) = kept s t"
  by (simp_all add: kept_def)

lemma cells_updates [simp]:
  "cells (t\<lparr>screen_x := x\<rparr>) = cells t" "cells (t\<lparr>screen_y := y\<rparr>) = cells t"
  "cells (t\<lparr>key_flag := k\<rparr>) = cells t" "cells (t\<lparr>outs := os\<rparr>) = cells t"
  "cells (t\<lparr>iflag := b\<rparr>) = cells t"
  by (simp_all add: cells_def cell_def)

lemma next_line_refines:
  assumes "on_screen s"
  shows "on_screen (next_line s) \<and> screen_abs (next_line s) = tty_newline (screen_abs s) \<and>
    kept s (next_line s)"
proof (cases "screen_y s = 24")
  case True
  obtain t where t: "scroll s = t\<lparr>screen_x := 0\<rparr>" "drawn s t"
    "cells t = drop 80 (cells s) @ replicate 80 blank" by (rule scroll_drawn)
  have "next_line s = t\<lparr>screen_x := 0\<rparr>" using True t(1) by (simp add: next_line_def NUM_ROWS_def)
  then show ?thesis
    using t(3) True assms drawn_fields(3) [OF t(2)] drawn_kept [OF t(2)]
    by (simp add: on_screen_def screen_abs_def tty_newline_def)
next
  case False
  then have "next_line s = s\<lparr>screen_x := 0, screen_y := screen_y s + 1\<rparr>"
    using assms by (simp add: next_line_def NUM_ROWS_def on_screen_def)
  with False assms show ?thesis
    by (auto simp: on_screen_def screen_abs_def tty_newline_def nat_add_distrib)
qed

lemma smod_small: "0 \<le> a \<Longrightarrow> a < m \<Longrightarrow> (a::int) smod m = a" "0 \<le> a \<Longrightarrow> a < m \<Longrightarrow> (a::int) sdiv m = 0"
  by (auto simp: signed_modulo_int_def signed_divide_int_def sgn_if)

lemma smod_80: "0 \<le> x \<Longrightarrow> x < 80 \<Longrightarrow> (x + 1 :: int) smod 80 = (if x = 79 then 0 else x + 1)"
  by (auto simp: smod_small signed_modulo_int_def)

lemma putc_plain:
  assumes "on_screen s" and "c \<noteq> 10" and "c \<noteq> 13"
  shows "putc c s = (put_cell (80 * screen_y s + screen_x s) c 7 s)
    \<lparr>screen_x := (if screen_x s = 79 then 0 else screen_x s + 1)\<rparr>"
proof -
  let ?x = "(screen_x s + 1) smod 80"
  have x: "?x = (if screen_x s = 79 then 0 else screen_x s + 1)"
    using assms(1) by (simp add: on_screen_def smod_80)
  then have "?x sdiv 80 = 0" using assms(1) by (auto simp: on_screen_def smod_small)
  moreover have "screen_y s smod 25 = screen_y s" using assms(1) by (simp add: on_screen_def smod_small)
  moreover have "putc c s = (put_cell (80 * screen_y s + screen_x s) c 7 s)
      \<lparr>screen_x := ?x, screen_y := (screen_y s + ?x sdiv 80) smod 25\<rparr>"
    using assms(2,3)
    by (simp add: putc_def putc_at_def screen_consts Let_def put_cell_def put_cell_at_def)
  ultimately show ?thesis
    unfolding x by (simp add: put_cell_def put_cell_at_def)
qed

lemma position_bounds:
  "on_screen s \<Longrightarrow> 0 \<le> 80 * screen_y s + screen_x s \<and> 80 * screen_y s + screen_x s < 2000"
  by (auto simp: on_screen_def)

text \<open>One character of output implements one character of the terminal.\<close>

lemma write_char_refines:
  assumes s: "on_screen s" and c: "c \<noteq> 13"
  shows "on_screen (write_char c s) \<and> screen_abs (write_char c s) = tty_char c (screen_abs s) \<and>
    kept s (write_char c s)"
proof (cases "c = 10")
  case True
  have "write_char c s = cli (next_line (sti s))" using True by (simp add: write_char_def)
  moreover have "on_screen (sti s)" "screen_abs (sti s) = screen_abs s"
    using s by (simp_all add: on_screen_def screen_abs_def sti_def)
  ultimately show ?thesis
    using next_line_refines [of "sti s"] True
    by (auto simp: tty_char_def on_screen_def screen_abs_def cli_def sti_def kept_def)
next
  case False
  let ?i = "80 * screen_y s + screen_x s"
  define u where "u = put_cell ?i c 7 s"
  define k where "k = (if key_flag s = 0 then key_flag s else 0)"
  define v where "v = u\<lparr>screen_x := (if screen_x s = 79 then 0 else screen_x s + 1), key_flag := k\<rparr>"
  have i: "0 \<le> ?i" "?i < 2000" using position_bounds [OF s] by auto
  have uf: "screen_x u = screen_x s" "screen_y u = screen_y s" "key_flag u = key_flag s"
    by (simp_all add: u_def)
  have cu: "cells u = (cells s)[80 * nat (screen_y s) + nat (screen_x s) := (c, 7)]"
    using cells_put_cell [OF i, of c 7 s] s
    by (simp add: u_def nat_add_distrib nat_mult_distrib on_screen_def)
  have ku: "kept s u" unfolding u_def by (rule drawn_kept [OF drawn_put_cell [OF i]])
  have pc: "(if key_flag (putc c s) = 0 then putc c s else (putc c s)\<lparr>key_flag := 0\<rparr>) = v"
    using putc_plain [OF s False c] uf by (simp add: v_def k_def u_def)
  have w: "write_char c s = (if screen_x s = 79 then cli (next_line (sti v)) else v)"
    using False pc by (simp add: write_char_def NUM_COLS_def)
  show ?thesis
  proof (cases "screen_x s = 79")
    case True
    have "on_screen (sti v)" using s uf True by (simp add: on_screen_def sti_def v_def)
    from next_line_refines [OF this] have n: "on_screen (next_line (sti v))"
      "screen_abs (next_line (sti v)) = tty_newline (screen_abs (sti v))" "kept (sti v) (next_line (sti v))"
      by auto
    have "tty_char c (screen_abs s) = tty_newline (screen_abs (sti v))"
      using False True cu uf s
      by (simp add: tty_char_def screen_abs_def sti_def v_def Let_def tty_newline_def)
    moreover have "kept s (next_line (sti v))"
      using ku n(3) by (auto simp: sti_def v_def kept_def)
    ultimately show ?thesis
      using n w True by (simp add: cli_def on_screen_def screen_abs_def)
  next
    case ne: False
    have "tty_char c (screen_abs s) = screen_abs v"
      using False ne cu uf s
      by (auto simp: tty_char_def screen_abs_def v_def Let_def on_screen_def nat_add_distrib)
    moreover have "on_screen v" using s uf ne by (auto simp: on_screen_def v_def)
    moreover have "kept s v" using ku by (simp add: v_def)
    ultimately show ?thesis using w ne by simp
  qed
qed

interpretation tty_sim: simulation on_screen screen_abs "\<lambda>c s. Some (write_char c s)" tty_char "\<lambda>c. c \<noteq> 13"
  by unfold_locales (simp add: write_char_refines)

lemma write_loop_refines:
  assumes "on_screen s" and "13 \<notin> set (drop i (take n buf))" and "i \<le> n" and "n \<le> length buf"
  shows "\<exists>t. write_loop buf (int n) (int i) s = Some t \<and> on_screen t \<and> kept s t \<and>
    screen_abs t = fold tty_char (drop i (take n buf)) (screen_abs s)"
  using assms
proof (induction "n - i" arbitrary: i s)
  case 0
  then show ?case by (simp add: write_loop.simps)
next
  case (Suc d)
  then have i: "i < n" "i < length buf" by auto
  have split: "drop i (take n buf) = buf ! i # drop (Suc i) (take n buf)"
    using i by (simp add: Cons_nth_drop_Suc [symmetric])
  then have c: "buf ! i \<noteq> 13" using Suc.prems(2) by auto
  from write_char_refines [OF Suc.prems(1) c]
  have w: "on_screen (write_char (buf ! i) s)" "kept s (write_char (buf ! i) s)"
    "screen_abs (write_char (buf ! i) s) = tty_char (buf ! i) (screen_abs s)" by auto
  obtain t where "write_loop buf (int n) (int (Suc i)) (write_char (buf ! i) s) = Some t" "on_screen t"
    "kept (write_char (buf ! i) s) t"
    "screen_abs t = fold tty_char (drop (Suc i) (take n buf)) (screen_abs (write_char (buf ! i) s))"
    using Suc.hyps(1) [of "Suc i"] Suc.hyps(2) Suc.prems split w(1) i by force
  with i split w show ?case
    by (intro exI [of _ t]) (simp add: write_loop.simps [of buf "int n" "int i"] aget_def add.commute kept_trans)
qed

lemma cursor_fields [simp]:
  "screen_x (cursor_update s) = screen_x s" "screen_y (cursor_update s) = screen_y s"
  "vid (cursor_update s) = vid s" "video_mem (cursor_update s) = video_mem s"
  "key_flag (cursor_update s) = key_flag s" "kept t (cursor_update s) = kept t s"
  "cells (cursor_update s) = cells s"
  by (simp_all add: cursor_update_def cursor_update_spec_def outb_def Let_def)

lemma terminal_write_run:
  assumes "on_screen s" and "1 \<le> n" and "n \<le> length buf" and "13 \<notin> set (take n buf)"
  shows "\<exists>t. terminal_write fd buf (int n) s = Some (int n, t) \<and>
    screen_abs t = fold tty_char (take n buf) (screen_abs s) \<and> on_screen t \<and> kept s t"
proof -
  have "on_screen (cli s)" "screen_abs (cli s) = screen_abs s" "kept s (cli s)"
    using assms(1) by (simp_all add: on_screen_def screen_abs_def cli_def)
  moreover from this write_loop_refines [of "cli s" 0 n buf] assms(3,4)
  obtain t where "write_loop buf (int n) 0 (cli s) = Some t" "on_screen t" "kept (cli s) t"
    "screen_abs t = fold tty_char (take n buf) (screen_abs s)" by auto
  ultimately show ?thesis
    using assms(2)
    by (intro exI [of _ "sti (send_eoi IRQ1 (cursor_update t))"])
      (auto simp: terminal_write_def IRQ1_def send_eoi_lines outb_def sti_def on_screen_def
        screen_abs_def intro: kept_trans)
qed

text \<open>
  C6: \<open>terminal_write\<close> of \<open>n\<close> bytes without carriage returns returns \<open>n\<close> and implements the
  terminal: the screen it leaves is the one that results from feeding the bytes one by one to a
  25 by 80 terminal that wraps at the margin, breaks at newlines and scrolls at the bottom. The
  position stays on the screen and no byte outside the 4000 of the page changes.
\<close>

theorem terminal_write_refines:
  assumes "on_screen s" and "1 \<le> n" and "n \<le> length buf" and "13 \<notin> set (take n buf)"
  shows "\<exists>t. terminal_write fd buf (int n) s = Some (int n, t) \<and>
    screen_abs t = fold tty_char (take n buf) (screen_abs s) \<and> on_screen t \<and> kept s t"
  by (rule terminal_write_run [OF assms])

definition blank_console :: console where
  "blank_console = \<lparr>outs = [], iflag = True, master_mask = 0, slave_mask = 0, vid = (\<lambda>_. 0),
     video_mem = VIDEO, screen_x = 0, screen_y = 0, key_flag = 0\<rparr>"

theorem terminal_write_refines_witness:
  "\<exists>t. terminal_write 1 [104, 105, 10] 3 blank_console = Some (3, t) \<and>
     tx (screen_abs t) = 0 \<and> ty (screen_abs t) = 1"
proof -
  have "on_screen blank_console" by (simp add: on_screen_def blank_console_def)
  from terminal_write_refines [OF this, of 3 "[104, 105, 10]" 1] show ?thesis
    by (auto simp: tty_char_def tty_newline_def screen_abs_def blank_console_def)
qed

text \<open>
  \<open>terminal_write\<close> hands a carriage return to \<open>putc\<close>, which moves to the next line without
  the bound that newlines have: from the last line the position leaves the screen, and the next
  character is stored beyond the 4000 bytes of the page.
\<close>

lemma terminal_write_cr_leaves_screen:
  assumes "on_screen s" and "screen_y s = 24" and "screen_x s \<noteq> 79" and "c \<noteq> 10" and "c \<noteq> 13"
  shows "\<exists>t. terminal_write fd [13, c] 2 s = Some (2, t) \<and>
    vid t (video_mem s + 4000) = c \<and> unat ((video_mem s + 4000) - video_mem s) = 4000"
proof -
  have cr: "write_char 13 (cli s) = s\<lparr>iflag := False, screen_x := 0, screen_y := 25, key_flag := 0\<rparr>"
    using assms(2,3) by (simp add: write_char_def putc_def putc_at_def cli_def screen_consts Let_def)
  have "vid (write_char c (write_char 13 (cli s))) (video_mem s + 4000) = c"
    unfolding cr using assms(4,5)
    by (simp add: write_char_def putc_def putc_at_def screen_consts Let_def put_cell_at_def smod_small)
  moreover have "write_loop [13, c] 2 0 (cli s) = Some (write_char c (write_char 13 (cli s)))"
    by (simp add: write_loop.simps aget_def)
  ultimately show ?thesis
    by (simp add: terminal_write_def IRQ1_def send_eoi_lines outb_def sti_def)
qed

lemma terminal_write_cr_leaves_screen_witness:
  "\<exists>t. terminal_write 1 [13, 65] 2 (blank_console\<lparr>screen_y := 24\<rparr>) = Some (2, t) \<and>
     vid t (VIDEO + 4000) = 65"
proof -
  have "on_screen (blank_console\<lparr>screen_y := 24\<rparr>)" by (simp add: on_screen_def blank_console_def)
  from terminal_write_cr_leaves_screen [OF this, of 65 1] show ?thesis
    by (auto simp: blank_console_def)
qed

text \<open>
  \<open>putc\<close> alone never moves down a line at the right margin: it reduces the column modulo 80
  before it divides it by 80, so the character after column 79 goes to column 0 of the same line.
\<close>

lemma putc_wraps_onto_same_line:
  assumes "on_screen s" and "screen_x s = 79" and "c \<noteq> 10" and "c \<noteq> 13"
  shows "screen_x (putc c s) = 0 \<and> screen_y (putc c s) = screen_y s"
  using putc_plain [OF assms(1,3,4)] assms(2) by simp

lemma putc_wraps_onto_same_line_witness:
  "screen_x (putc 65 (blank_console\<lparr>screen_x := 79\<rparr>)) = 0 \<and>
   screen_y (putc 65 (blank_console\<lparr>screen_x := 79\<rparr>)) = 0"
proof -
  have "on_screen (blank_console\<lparr>screen_x := 79\<rparr>)" by (simp add: on_screen_def blank_console_def)
  from putc_wraps_onto_same_line [OF this, of 65] show ?thesis by (simp add: blank_console_def)
qed

section \<open>What output leaves to the other components\<close>

text \<open>Wherever the position is, the routines change no variable of a higher layer.\<close>

lemma loop_up_keeps:
  assumes "\<And>i s. f (body i s) = f s"
  shows "f (loop_up lo hi body s) = f s"
proof (cases "lo \<le> hi")
  case True
  show ?thesis by (rule loop_up_inv [OF True, of "\<lambda>_ t. f t = f s"]) (simp_all add: assms)
qed simp

lemma more_put_cell [simp]:
  "console.more (put_cell_at b i c a s) = console.more s" "console.more (put_cell i c a s) = console.more s"
  by (simp_all add: put_cell_def put_cell_at_def)

lemma more_scroll [simp]: "console.more (scroll s) = console.more s"
  unfolding scroll_def Let_def by (simp add: loop_up_keeps [of console.more])

lemma more_clear [simp]: "console.more (clear s) = console.more s"
  unfolding clear_def by (simp add: loop_up_keeps [of console.more])

lemma more_cursor [simp]:
  "console.more (cursor_update s) = console.more s" "console.more (cursor_update_left n s) = console.more s"
  "console.more (cursor_update_right n s) = console.more s"
  by (simp_all add: cursor_update_left_def cursor_update_right_def cursor_update_def cursor_update_spec_def
      outb_def Let_def)

lemma more_next_line [simp]: "console.more (next_line s) = console.more s"
  by (simp add: next_line_def)

lemma more_write_char [simp]: "console.more (write_char c s) = console.more s"
  by (simp add: write_char_def putc_def putc_at_def Let_def cli_def sti_def)

lemma more_backspace [simp]:
  "console.more (backspace s) = console.more s" "console.more (terminal_backspace s) = console.more s"
  by (simp_all add: backspace_def terminal_backspace_def)

lemma more_terminal_clear [simp]: "console.more (terminal_clear s) = console.more s"
  by (simp add: terminal_clear_def)

lemma more_reset [simp]: "console.more (reset_terminal_keyboard_input i n s) = console.more s"
  by (simp add: reset_terminal_keyboard_input_def loop_up_keeps [of console.more])

lemma write_loop_total:
  assumes "i \<le> n" and "n \<le> length buf"
  shows "\<exists>t. write_loop buf (int n) (int i) s = Some t \<and> console.more t = console.more s"
  using assms
proof (induction "n - i" arbitrary: i s)
  case 0
  then show ?case by (simp add: write_loop.simps)
next
  case (Suc d)
  then have i: "i < n" "i < length buf" by auto
  obtain t where "write_loop buf (int n) (int (Suc i)) (write_char (buf ! i) s) = Some t"
    "console.more t = console.more (write_char (buf ! i) s)"
    using Suc.hyps(1) [of "Suc i"] Suc.hyps(2) Suc.prems i by force
  with i show ?case by (simp add: write_loop.simps [of buf "int n" "int i"] aget_def add.commute)
qed

lemma terminal_write_total:
  assumes "1 \<le> n" and "n \<le> length buf"
  shows "\<exists>t. terminal_write fd buf (int n) s = Some (int n, t) \<and> console.more t = console.more s"
  using write_loop_total [of 0 n buf "cli s"] assms
  by (auto simp: terminal_write_def IRQ1_def send_eoi_lines outb_def sti_def cli_def)

section \<open>Erasing\<close>

lemma erase_position:
  "x < 80 \<Longrightarrow> 0 < x \<Longrightarrow> (80 * y + x - 1) mod 80 = x - 1 \<and> (80 * y + x - 1) div 80 = (y::nat)"
  "0 < y \<Longrightarrow> (80 * y - 1) mod 80 = 79 \<and> (80 * y - 1) div 80 = (y::nat) - 1"
proof -
  show "(80 * y + x - 1) mod 80 = x - 1 \<and> (80 * y + x - 1) div 80 = y" if "x < 80" "0 < x"
  proof -
    from that obtain k where "x = Suc k" "k < 80" by (cases x) auto
    then show ?thesis by simp
  qed
  show "(80 * y - 1) mod 80 = 79 \<and> (80 * y - 1) div 80 = y - 1" if "0 < y"
  proof -
    from that obtain k where "y = Suc k" by (cases y) auto
    then have "80 * y - 1 = 80 * k + 79" by simp
    then show ?thesis using \<open>y = Suc k\<close> by simp
  qed
qed

lemma backspace_eq:
  assumes "on_screen s" and "\<not> (screen_x s = 0 \<and> screen_y s = 0)"
  shows "backspace s = (put_cell (80 * screen_y s + screen_x s - 1) 32 7 s)
    \<lparr>screen_x := (if screen_x s = 0 then 79 else screen_x s - 1),
     screen_y := (if screen_x s = 0 then screen_y s - 1 else screen_y s)\<rparr>"
  using assms by (simp add: backspace_def screen_consts mult.commute put_cell_def put_cell_at_def)

lemma backspace_refines:
  assumes s: "on_screen s"
  shows "on_screen (backspace s) \<and> screen_abs (backspace s) = tty_erase (screen_abs s) \<and> kept s (backspace s)"
proof (cases "screen_x s = 0 \<and> screen_y s = 0")
  case True
  with s show ?thesis by (simp add: backspace_def screen_abs_def tty_erase_def)
next
  case False
  let ?i = "80 * screen_y s + screen_x s - 1"
  have i: "0 \<le> ?i" "?i < 2000" using False position_bounds [OF s] s by (auto simp: on_screen_def)
  have n: "nat ?i = 80 * nat (screen_y s) + nat (screen_x s) - 1"
    using s i by (simp add: on_screen_def nat_diff_distrib nat_add_distrib nat_mult_distrib)
  have "kept s (backspace s)"
    using drawn_kept [OF drawn_put_cell [OF i, of s 32 7]] by (simp add: backspace_eq [OF s False])
  moreover have "on_screen (backspace s)"
    using s False by (auto simp: backspace_eq [OF s False] on_screen_def)
  moreover have "screen_abs (backspace s) = tty_erase (screen_abs s)"
  proof (cases "screen_x s = 0")
    case True
    with False s have "0 < nat (screen_y s)" by (simp add: on_screen_def)
    with True s False show ?thesis
      using erase_position(2) [of "nat (screen_y s)"] cells_put_cell [OF i, of 32 7 s] n
      by (simp add: backspace_eq [OF s False] screen_abs_def tty_erase_def blank_def Let_def on_screen_def
          nat_diff_distrib)
  next
    case ne: False
    with s have "0 < nat (screen_x s)" "nat (screen_x s) < 80" by (auto simp: on_screen_def)
    with ne s False show ?thesis
      using erase_position(1) [of "nat (screen_x s)" "nat (screen_y s)"] cells_put_cell [OF i, of 32 7 s] n
      by (simp add: backspace_eq [OF s False] screen_abs_def tty_erase_def blank_def Let_def on_screen_def
          nat_diff_distrib)
  qed
  ultimately show ?thesis by blast
qed

lemma tty_char_erase:
  assumes "tx t < 80" and "80 * ty t + tx t < 1999" and "c \<noteq> 10"
  shows "tty_erase (tty_char c t) = t\<lparr>tcells := (tcells t)[80 * ty t + tx t := blank]\<rparr>"
proof (cases "tx t = 79")
  case True
  with assms(2) have "ty t < 24" by simp
  with True assms(3) have "tty_char c t =
      t\<lparr>tcells := (tcells t)[80 * ty t + 79 := (c, 7)], tx := 0, ty := ty t + 1\<rparr>"
    by (simp add: tty_char_def tty_newline_def)
  moreover have "(80 * ty t + 79) mod 80 = 79" "(80 * ty t + 79) div 80 = ty t" by auto
  ultimately show ?thesis using True by (cases t) (simp add: tty_erase_def add.commute)
next
  case False
  with assms have "tty_char c t = t\<lparr>tcells := (tcells t)[80 * ty t + tx t := (c, 7)], tx := tx t + 1\<rparr>"
    by (simp add: tty_char_def)
  with assms(1) show ?thesis by (simp add: tty_erase_def)
qed

text \<open>
  A character typed and then erased leaves the screen as it was, with a blank where the
  character had been: \<open>terminal_backspace\<close> after \<open>terminal_write\<close> of one printable character
  returns to the position before it, also across a line break that did not scroll.
\<close>

lemma write_then_backspace:
  assumes s: "on_screen s" and c: "c \<noteq> 10" "c \<noteq> 13" and room: "80 * screen_y s + screen_x s < 1999"
  shows "\<exists>t. terminal_write fd [c] 1 s = Some (1, t) \<and>
    screen_x (terminal_backspace t) = screen_x s \<and> screen_y (terminal_backspace t) = screen_y s \<and>
    cells (terminal_backspace t) = (cells s)[nat (80 * screen_y s + screen_x s) := blank]"
proof -
  obtain t where t: "terminal_write fd [c] 1 s = Some (1, t)" "screen_abs t = tty_char c (screen_abs s)"
    "on_screen t" using terminal_write_run [OF s, of 1 "[c]" fd] c by auto
  have n: "nat (80 * screen_y s + screen_x s) = 80 * nat (screen_y s) + nat (screen_x s)"
    using s by (simp add: on_screen_def nat_add_distrib nat_mult_distrib)
  have b: "on_screen (backspace t)" "screen_abs (backspace t) = tty_erase (tty_char c (screen_abs s))"
    using backspace_refines [OF t(3)] t(2) by auto
  have "80 * nat (screen_y s) + nat (screen_x s) < 1999" using room n by linarith
  then have "screen_abs (backspace t) =
      (screen_abs s)\<lparr>tcells := (cells s)[nat (80 * screen_y s + screen_x s) := blank]\<rparr>"
    using b(2) tty_char_erase [of "screen_abs s" c] c s n by (auto simp: screen_abs_def on_screen_def)
  then have "cells (backspace t) = (cells s)[nat (80 * screen_y s + screen_x s) := blank]"
    "screen_x (backspace t) = screen_x s" "screen_y (backspace t) = screen_y s"
    using b(1) s by (auto simp: screen_abs_def on_screen_def eq_nat_nat_iff)
  with t(1) show ?thesis by (simp add: terminal_backspace_def)
qed

lemma write_then_backspace_witness:
  "\<exists>t. terminal_write 1 [65] 1 (blank_console\<lparr>screen_x := 79\<rparr>) = Some (1, t) \<and>
     screen_x (terminal_backspace t) = 79 \<and> screen_y (terminal_backspace t) = 0"
proof -
  have "on_screen (blank_console\<lparr>screen_x := 79\<rparr>)" by (simp add: on_screen_def blank_console_def)
  from write_then_backspace [OF this, of 65 1] show ?thesis by (auto simp: blank_console_def)
qed

section \<open>The hardware cursor\<close>

text \<open>
  What the code relies on in the display controller: a write to port \<open>0x3D4\<close> selects a register,
  a write to \<open>0x3D5\<close> sets the selected register, and a read of \<open>0x3D5\<close> returns it.
\<close>

fun crtc :: "u8 \<Rightarrow> (u8 \<Rightarrow> u8) \<Rightarrow> outputs \<Rightarrow> u8" where
  "crtc ix regs [] = regs ix"
| "crtc ix regs ((v, p) # tr) =
     (if p = 0x3D4 then crtc v regs tr
      else if p = 0x3D5 then crtc ix (regs(ix := v)) tr
      else crtc ix regs tr)"

definition crtc_device :: "device \<Rightarrow> bool" where
  "crtc_device dev \<longleftrightarrow> (\<exists>ix regs. \<forall>tr. dev tr 0x3D5 = crtc ix regs tr)"

lemma crtc_append:
  "\<exists>ix' regs'. \<forall>tr'. crtc ix regs (tr @ tr') = crtc ix' regs' tr'"
proof (induction tr arbitrary: ix regs)
  case Nil
  then show ?case by auto
next
  case (Cons a tr)
  obtain v p where a: "a = (v, p)" by (cases a)
  show ?case
    using Cons.IH [of v regs] Cons.IH [of ix "regs(ix := v)"] Cons.IH [of ix regs]
    by (cases "p = 0x3D4"; cases "p = 0x3D5") (simp_all add: a fun_upd_def)
qed

lemma split_u16: "(ucast (ucast (w AND 0xFF) :: u8) :: u16) OR push_bit 8 (ucast (ucast (drop_bit 8 w AND 0xFF) :: u8)) = w"
  for w :: u16
proof -
  have m: "(0xFF :: u16) = mask 8" by (simp add: mask_eq_exp_minus_1)
  show ?thesis
    unfolding m by (rule bit_word_eqI)
      (auto simp: bit_or_iff bit_ucast_iff bit_and_iff bit_push_bit_iff bit_drop_bit_eq bit_mask_iff)
qed

text \<open>
  On a display controller that works as documented, \<open>cursor_position\<close> after
  \<open>cursor_update\<close> reads back the row-major index of the screen position.
\<close>

lemma cursor_position_roundtrip:
  assumes "crtc_device dev"
  shows "fst (cursor_position dev (cursor_update s)) = of_int (screen_y s * 80 + screen_x s)"
proof -
  obtain ix regs where dev: "\<And>tr. dev tr 0x3D5 = crtc ix regs tr"
    using assms by (auto simp: crtc_device_def)
  obtain ix' regs' where "\<And>tr'. crtc ix regs (outs s @ tr') = crtc ix' regs' tr'"
    using crtc_append by metis
  then show ?thesis
    using split_u16 [of "of_int (screen_y s * 80 + screen_x s)"]
    by (simp add: cursor_position_def cursor_update_def cursor_update_spec_def outb_def inb_def Let_def
        NUM_COLS_def dev)
qed

lemma cursor_position_roundtrip_witness:
  "fst (cursor_position (\<lambda>tr p. crtc 0 (\<lambda>_. 0) tr) (cursor_update (blank_console\<lparr>screen_x := 7, screen_y := 3\<rparr>))) = 247"
proof -
  have "crtc_device (\<lambda>tr p. crtc 0 (\<lambda>_. 0) tr)" by (auto simp: crtc_device_def)
  from cursor_position_roundtrip [OF this, of "blank_console\<lparr>screen_x := 7, screen_y := 3\<rparr>"]
  show ?thesis by (simp add: blank_console_def)
qed

end
