(* ===== verification/Kernel_State.thy ===== *)
theory Kernel_State
  imports Screen Process
begin

text \<open>
  The global variables of the kernel above the console and the control blocks: those of the
  scheduler (\<^verbatim>\<open>syscalls.h\<close>, \<^verbatim>\<open>interrupts.h\<close>), of paging (\<^verbatim>\<open>process_control.h\<close>), of the terminals
  (\<^verbatim>\<open>terminal.c\<close>, \<^verbatim>\<open>terminal.h\<close>), of the keyboard (\<^verbatim>\<open>keyboard.c\<close>) and of the clock
  (\<^verbatim>\<open>interrupts.h\<close>). The records extend each other, so that a routine of a lower layer runs
  unchanged on the state of a higher one.
\<close>

record tss_t =
  ss0 :: u32
  esp0 :: u32

record sched = console +
  ps :: procs
  schedule_top :: "int list"
  schedule_stack :: "u8 list list"
  schedule_tss :: "tss_t list list"
  schedule_esp :: "u32 list list"
  schedule_ebp :: "u32 list list"
  tss :: tss_t
  last_esp :: u32
  last_ebp :: u32
  current_process :: int
  current_terminal :: int
  terminal_request :: int
  schedule_tick :: int
  terminal_running :: "int list"
  shell_pid :: "int list"
  process_pages :: "u32 list"
  process_tables :: "u32 list"

record switch_data =
  vid_data :: "u8 list"
  cursor_x :: u8
  cursor_y :: u8

record kernel = sched +
  switch_data_arr :: "switch_data list"
  return_switch :: "u8 list"
  read_buffer :: "u8 list list"
  shift_down :: int
  caps_lock :: int
  ctrl_down :: int
  alt_down :: int
  buffer :: "u8 list list"
  bufferIDX :: "u8 list"
  bufferSIZE :: "u8 list"
  history :: "u8 list list list"
  historyIDX :: "int list"
  historyBASE :: "int list"
  historySIZE :: "int list"
  rtc_running :: "int list"
  rtc_virtual_interupt :: "int list"

definition NUM_TERMINALS :: int where "NUM_TERMINALS = 3"
definition MAX_BUFFER_SIZE :: int where "MAX_BUFFER_SIZE = 128"
definition MAX_CHARACTERS :: u8 where "MAX_CHARACTERS = 127"
definition NUM_HISTORY_BUFFERS :: int where "NUM_HISTORY_BUFFERS = 20"

lemmas kernel_consts = NUM_TERMINALS_def MAX_BUFFER_SIZE_def MAX_CHARACTERS_def NUM_HISTORY_BUFFERS_def

text \<open>A kernel whose variables are all zero, with the arrays at their sizes; used by the witnesses.\<close>

definition idle_kernel :: kernel where
  "idle_kernel =
     \<lparr>outs = [], iflag = True, master_mask = 0, slave_mask = 0,
      vid = (\<lambda>_. 0), video_mem = VIDEO, screen_x = 0, screen_y = 0, key_flag = 0,
      ps = sample_procs, schedule_top = [1, 0, 0], schedule_stack = replicate 3 (replicate 7 1),
      schedule_tss = replicate 3 (replicate 7 \<lparr>ss0 = 0, esp0 = 0\<rparr>),
      schedule_esp = replicate 3 (replicate 7 0), schedule_ebp = replicate 3 (replicate 7 0),
      tss = \<lparr>ss0 = 0, esp0 = 0\<rparr>, last_esp = 0, last_ebp = 0, current_process = 0, current_terminal = 0,
      terminal_request = -1, schedule_tick = 0, terminal_running = [1, 0, 0], shell_pid = [0, 0, 0],
      process_pages = replicate 1024 2, process_tables = replicate 1024 2,
      switch_data_arr = replicate 3 \<lparr>vid_data = replicate 4000 0, cursor_x = 0, cursor_y = 0\<rparr>,
      return_switch = [0, 0, 0], read_buffer = replicate 3 (replicate 128 0),
      shift_down = 0, caps_lock = 0, ctrl_down = 0, alt_down = 0,
      buffer = replicate 3 (replicate 128 0), bufferIDX = [0, 0, 0], bufferSIZE = [0, 0, 0],
      history = replicate 7 (replicate 20 (replicate 128 0)),
      historyIDX = replicate 7 0, historyBASE = replicate 7 0, historySIZE = replicate 7 0,
      rtc_running = [2, 2, 2], rtc_virtual_interupt = [0, 0, 0]\<rparr>"

end
