(* ===== verification/Line_Editor.thy ===== *)
theory Line_Editor
  imports Kernel_State
begin

text \<open>
  The line editor of \<^verbatim>\<open>student-distrib/keyboard.c\<close>: the input buffer of each terminal with its
  cursor, insertion, erasure, the arrow keys, and the command history of each process.

  Every operation works on the buffer of the displayed terminal, \<open>current_terminal\<close>. The counters
  \<open>bufferIDX\<close> and \<open>bufferSIZE\<close> are bytes. A pointer into a buffer row is the rest of the row.
\<close>

section \<open>keyboard.c: buffers\<close>

definition cur_row :: "'a kernel_scheme \<Rightarrow> u8 list option" where
  "cur_row s = aget (buffer s) (current_terminal s)"

definition cur_idx :: "'a kernel_scheme \<Rightarrow> int option" where
  "cur_idx s = map_option uint (aget (bufferIDX s) (current_terminal s))"

definition cur_size :: "'a kernel_scheme \<Rightarrow> int option" where
  "cur_size s = map_option uint (aget (bufferSIZE s) (current_terminal s))"

definition put_row :: "u8 list \<Rightarrow> 'a kernel_scheme \<Rightarrow> 'a kernel_scheme option" where
  "put_row row s = do { b \<leftarrow> aset (buffer s) (current_terminal s) row; Some (s\<lparr>buffer := b\<rparr>) }"

text \<open>Adding \<open>i\<close> and \<open>n\<close> to the byte counters of the displayed terminal.\<close>

definition add_counters :: "u8 \<Rightarrow> u8 \<Rightarrow> 'a kernel_scheme \<Rightarrow> 'a kernel_scheme option" where
  "add_counters i n s = do {
     x \<leftarrow> aget (bufferIDX s) (current_terminal s);
     xs \<leftarrow> aset (bufferIDX s) (current_terminal s) (x + i);
     z \<leftarrow> aget (bufferSIZE s) (current_terminal s);
     zs \<leftarrow> aset (bufferSIZE s) (current_terminal s) (z + n);
     Some (s\<lparr>bufferIDX := xs, bufferSIZE := zs\<rparr>) }"

definition clear_keyboard_buffer :: "'a kernel_scheme \<Rightarrow> 'a kernel_scheme option" where
  "clear_keyboard_buffer s = do {
     row \<leftarrow> cur_row s;
     row \<leftarrow> loop_opt 0 MAX_BUFFER_SIZE (\<lambda>i row. aset row i 0) row;
     s \<leftarrow> put_row row s;
     xs \<leftarrow> aset (bufferIDX s) (current_terminal s) 0;
     zs \<leftarrow> aset (bufferSIZE s) (current_terminal s) 0;
     Some (s\<lparr>bufferIDX := xs, bufferSIZE := zs\<rparr>) }"

definition clear_all_keyboard_buffers :: "'a kernel_scheme \<Rightarrow> 'a kernel_scheme option" where
  "clear_all_keyboard_buffers s = do {
     s \<leftarrow> loop_opt 0 NUM_TERMINALS (\<lambda>j s. do {
       xs \<leftarrow> aset (bufferIDX s) j 0;
       zs \<leftarrow> aset (bufferSIZE s) j 0;
       row \<leftarrow> aget (buffer s) j;
       row \<leftarrow> loop_opt 0 MAX_BUFFER_SIZE (\<lambda>i row. aset row i 0) row;
       b \<leftarrow> aset (buffer s) j row;
       Some (s\<lparr>bufferIDX := xs, bufferSIZE := zs, buffer := b\<rparr>) }) s;
     loop_opt 0 TOTAL_PROCESSES (\<lambda>j s. do {
       xs \<leftarrow> aset (historyIDX s) j 0;
       bs \<leftarrow> aset (historyBASE s) j 0;
       zs \<leftarrow> aset (historySIZE s) j 0;
       hs \<leftarrow> aget (history s) j;
       hs \<leftarrow> loop_opt 0 NUM_HISTORY_BUFFERS (\<lambda>k hs. do {
         h \<leftarrow> aget hs k;
         h \<leftarrow> loop_opt 0 MAX_BUFFER_SIZE (\<lambda>i h. aset h i 0) h;
         aset hs k h }) hs;
       h \<leftarrow> aset (history s) j hs;
       Some (s\<lparr>historyIDX := xs, historyBASE := bs, historySIZE := zs, history := h\<rparr>) }) s }"

definition clear_history_buffer :: "int \<Rightarrow> 'a kernel_scheme \<Rightarrow> 'a kernel_scheme option" where
  "clear_history_buffer p s = do {
     hs \<leftarrow> aget (history s) p;
     hs \<leftarrow> loop_opt 0 NUM_HISTORY_BUFFERS (\<lambda>i hs. do {
       h \<leftarrow> aget hs i;
       h \<leftarrow> loop_opt 0 MAX_BUFFER_SIZE (\<lambda>j h. aset h j 0) h;
       aset hs i h }) hs;
     h \<leftarrow> aset (history s) p hs;
     xs \<leftarrow> aset (historyIDX s) p 0;
     bs \<leftarrow> aset (historyBASE s) p 0;
     zs \<leftarrow> aset (historySIZE s) p 0;
     Some (s\<lparr>history := h, historyIDX := xs, historyBASE := bs, historySIZE := zs\<rparr>) }"

definition keyboard_open :: "'a kernel_scheme \<Rightarrow> (int \<times> 'a kernel_scheme) option" where
  "keyboard_open s = do {
     s \<leftarrow> clear_all_keyboard_buffers s;
     Some (0, s\<lparr>key_flag := 0\<rparr>) }"

text \<open>\<open>keyboard_close\<close> indexes the control blocks with the terminal number.\<close>

definition keyboard_close :: "int \<Rightarrow> 'a kernel_scheme \<Rightarrow> (int \<times> 'a kernel_scheme) option" where
  "keyboard_close fd s = do {
     c \<leftarrow> get_cb (ps s) (current_terminal s);
     b \<leftarrow> aget (fd_table c) 0;
     t \<leftarrow> aset (fd_table c) 0 (freed b);
     p \<leftarrow> put_cb (ps s) (current_terminal s) (c\<lparr>fd_table := t\<rparr>);
     Some (0, s\<lparr>ps := p\<rparr>) }"

definition keyboard_write :: "int \<Rightarrow> int \<Rightarrow> int" where
  "keyboard_write fd nbytes = -1"

text \<open>The copy of the input buffer into \<open>output\<close>, an array of bytes.\<close>

function keyboard_read_loop :: "u8 list \<Rightarrow> int \<Rightarrow> int \<Rightarrow> u8 list \<Rightarrow> (int \<times> u8 list) option" where
  "keyboard_read_loop row nbytes i output =
     (if i < nbytes then
        (case aget row i of None \<Rightarrow> None | Some c \<Rightarrow>
         (case aset output i c of None \<Rightarrow> None | Some output1 \<Rightarrow>
            if c = 10 \<or> c = 0 then Some (i, output1)
            else if i + 1 = MAX_BUFFER_SIZE then
              (case aset output1 (i + 1) 10 of None \<Rightarrow> None | Some output2 \<Rightarrow> Some (i + 1, output2))
            else keyboard_read_loop row nbytes (i + 1) output1))
      else Some (i, output))"
  by pat_completeness auto
termination
  by (relation "measure (\<lambda>(row, nbytes, i, output). nat (nbytes - i))") auto

declare keyboard_read_loop.simps [simp del]

definition keyboard_read :: "int \<Rightarrow> u8 list \<Rightarrow> int \<Rightarrow> 'a kernel_scheme \<Rightarrow> (int \<times> u8 list) option" where
  "keyboard_read fd output nbytes s =
     (if nbytes < 1 then Some (-1, output)
      else do { row \<leftarrow> cur_row s; keyboard_read_loop row nbytes 0 output })"

section \<open>keyboard.c: editing\<close>

text \<open>\<open>for (i = size; i >= idx; i--) row[i + 1] = row[i]\<close>\<close>

function shift_right :: "int \<Rightarrow> int \<Rightarrow> u8 list \<Rightarrow> u8 list option" where
  "shift_right i idx row =
     (if i \<ge> idx then
        (case aget row i of None \<Rightarrow> None | Some c \<Rightarrow>
         (case aset row (i + 1) c of None \<Rightarrow> None | Some row' \<Rightarrow> shift_right (i - 1) idx row'))
      else Some row)"
  by pat_completeness auto
termination
  by (relation "measure (\<lambda>(i, idx, row). nat (i + 1 - idx))") auto

declare shift_right.simps [simp del]

definition keyboard_insert :: "u8 \<Rightarrow> 'a kernel_scheme \<Rightarrow> 'a kernel_scheme option" where
  "keyboard_insert c s = do {
     row \<leftarrow> cur_row s;
     idx \<leftarrow> cur_idx s;
     sz \<leftarrow> cur_size s;
     row \<leftarrow> shift_right sz idx row;
     row \<leftarrow> aset row idx c;
     s \<leftarrow> put_row row s;
     let num_chars = sz - idx + 1;
     (r, s) \<leftarrow> terminal_write 1 (drop (nat idx) row) num_chars (s\<lparr>key_flag := 1\<rparr>);
     let s = cursor_update_left (num_chars - 1) (s\<lparr>key_flag := 0\<rparr>);
     add_counters 1 1 s }"

definition keyboard_backspace :: "'a kernel_scheme \<Rightarrow> 'a kernel_scheme option" where
  "keyboard_backspace s = do {
     row \<leftarrow> cur_row s;
     idx \<leftarrow> cur_idx s;
     sz \<leftarrow> cur_size s;
     row \<leftarrow> loop_opt (idx - 1) sz (\<lambda>i row. do { c \<leftarrow> aget row (i + 1); aset row i c }) row;
     row \<leftarrow> aset row sz 0;
     s \<leftarrow> put_row row s;
     let num_chars = sz - idx + 1;
     let s = terminal_backspace s;
     (r, s) \<leftarrow> terminal_write 1 (drop (nat (idx - 1)) row) num_chars s;
     let s = cursor_update_left num_chars s;
     add_counters (-1) (-1) s }"

definition keyboard_left_arrow :: "'a kernel_scheme \<Rightarrow> 'a kernel_scheme option" where
  "keyboard_left_arrow s = do {
     idx \<leftarrow> cur_idx s;
     if idx = 0 then Some s
     else do { s \<leftarrow> add_counters (-1) 0 s; Some (cursor_update_left 1 s) } }"

definition keyboard_right_arrow :: "'a kernel_scheme \<Rightarrow> 'a kernel_scheme option" where
  "keyboard_right_arrow s = do {
     idx \<leftarrow> cur_idx s;
     sz \<leftarrow> cur_size s;
     if idx = sz then Some s
     else do { s \<leftarrow> add_counters 1 0 s; Some (cursor_update_right 1 s) } }"

section \<open>keyboard.c: history\<close>

definition displayed_pid :: "'a sched_scheme \<Rightarrow> int option" where
  "displayed_pid s = do {
     top \<leftarrow> aget (schedule_top s) (current_terminal s);
     p \<leftarrow> aget2 (schedule_stack s) (current_terminal s, top - 1);
     Some (uint p) }"

definition copy_to_history :: "'a kernel_scheme \<Rightarrow> 'a kernel_scheme option" where
  "copy_to_history s = do {
     p \<leftarrow> displayed_pid s;
     row \<leftarrow> cur_row s;
     base \<leftarrow> aget (historyBASE s) p;
     hs \<leftarrow> aget (history s) p;
     h \<leftarrow> aget hs base;
     h \<leftarrow> loop_opt 0 MAX_BUFFER_SIZE (\<lambda>i h. do {
       c \<leftarrow> aget row i;
       aset h i (if c = 10 \<or> c = 0 then 0 else c) }) h;
     hs \<leftarrow> aset hs base h;
     h \<leftarrow> aset (history s) p hs;
     Some (s\<lparr>history := h\<rparr>) }"

definition increment_history_indices :: "'a kernel_scheme \<Rightarrow> 'a kernel_scheme option" where
  "increment_history_indices s = do {
     p \<leftarrow> displayed_pid s;
     base \<leftarrow> aget (historyBASE s) p;
     bs \<leftarrow> aset (historyBASE s) p ((base + 1) smod NUM_HISTORY_BUFFERS);
     base \<leftarrow> aget bs p;
     xs \<leftarrow> aset (historyIDX s) p base;
     n \<leftarrow> aget (historySIZE s) p;
     ns \<leftarrow> (if n < NUM_HISTORY_BUFFERS then aset (historySIZE s) p (n + 1) else Some (historySIZE s));
     Some (s\<lparr>historyBASE := bs, historyIDX := xs, historySIZE := ns\<rparr>) }"

text \<open>The loop that copies a history entry to the input buffer, counting its characters.\<close>

function history_loop :: "u8 list \<Rightarrow> int \<Rightarrow> 'a kernel_scheme \<Rightarrow> 'a kernel_scheme option" where
  "history_loop h i s =
     (if i < MAX_BUFFER_SIZE then
        (case aget h i of None \<Rightarrow> None | Some c \<Rightarrow>
           if c = 0 \<or> c = 10 then Some s
           else
             (case do { row \<leftarrow> cur_row s; row \<leftarrow> aset row i c; s \<leftarrow> put_row row s; add_counters 1 1 s } of
                None \<Rightarrow> None | Some s' \<Rightarrow> history_loop h (i + 1) s'))
      else Some s)"
  by pat_completeness auto
termination
  by (relation "measure (\<lambda>(h, i, s). nat (MAX_BUFFER_SIZE - i))") auto

declare history_loop.simps [simp del]

text \<open>The common end of \<open>up_history\<close> and \<open>down_history\<close>.\<close>

definition show_history :: "int \<Rightarrow> 'a kernel_scheme \<Rightarrow> 'a kernel_scheme option" where
  "show_history p s = do {
     idx \<leftarrow> cur_idx s;
     sz \<leftarrow> cur_size s;
     let s = reset_terminal_keyboard_input idx sz s;
     s \<leftarrow> clear_keyboard_buffer s;
     k \<leftarrow> aget (historyIDX s) p;
     hs \<leftarrow> aget (history s) p;
     h \<leftarrow> aget hs k;
     s \<leftarrow> history_loop h 0 s;
     row \<leftarrow> cur_row s;
     sz \<leftarrow> cur_size s;
     (r, s) \<leftarrow> terminal_write 1 row sz s;
     Some s }"

definition up_history :: "'a kernel_scheme \<Rightarrow> 'a kernel_scheme option" where
  "up_history s = do {
     p \<leftarrow> displayed_pid s;
     n \<leftarrow> aget (historySIZE s) p;
     k \<leftarrow> aget (historyIDX s) p;
     base \<leftarrow> aget (historyBASE s) p;
     if n < NUM_HISTORY_BUFFERS \<and> k = 0 then Some s
     else do {
       s \<leftarrow> (if k = base then copy_to_history s else Some s);
       let i = (if k - 1 < 0 then NUM_HISTORY_BUFFERS - 1 else k - 1);
       if i = base then Some s
       else do {
         ks \<leftarrow> aset (historyIDX s) p i;
         show_history p (s\<lparr>historyIDX := ks\<rparr>) } } }"

definition down_history :: "'a kernel_scheme \<Rightarrow> 'a kernel_scheme option" where
  "down_history s = do {
     p \<leftarrow> displayed_pid s;
     n \<leftarrow> aget (historySIZE s) p;
     k \<leftarrow> aget (historyIDX s) p;
     base \<leftarrow> aget (historyBASE s) p;
     if n < NUM_HISTORY_BUFFERS \<and> k = base then Some s
     else if k = base then Some s
     else do {
       ks \<leftarrow> aset (historyIDX s) p ((k + 1) smod NUM_HISTORY_BUFFERS);
       show_history p (s\<lparr>historyIDX := ks\<rparr>) } }"

section \<open>Shifting a row\<close>

lemma shift_right_nth:
  assumes "0 \<le> idx" and "idx \<le> i + 1" and "i + 1 < int (length row)"
  shows "\<exists>row'. shift_right i idx row = Some row' \<and> length row' = length row \<and>
    (\<forall>k<length row. row' ! k = (if idx < int k \<and> int k \<le> i + 1 then row ! (k - 1) else row ! k))"
  using assms
proof (induction i idx row rule: shift_right.induct)
  case (1 i idx row)
  show ?case
  proof (cases "idx \<le> i")
    case False
    with 1 show ?thesis by (auto simp: shift_right.simps)
  next
    case True
    let ?row = "row[nat (i + 1) := row ! nat i]"
    have c: "aget row i = Some (row ! nat i)" "aset row (i + 1) (row ! nat i) = Some ?row"
      using "1.prems" True by (auto simp: aget_def aset_def)
    obtain row' where r: "shift_right (i - 1) idx ?row = Some row'" "length row' = length row"
      "\<And>k. k < length row \<Longrightarrow> row' ! k = (if idx < int k \<and> int k \<le> i then ?row ! (k - 1) else ?row ! k)"
      using "1.IH" [OF True c] "1.prems" True by auto
    have "row' ! k = (if idx < int k \<and> int k \<le> i + 1 then row ! (k - 1) else row ! k)" if k: "k < length row" for k
    proof (cases "int k = i + 1")
      case eq: True
      then have "nat (i + 1) = k" "nat i = k - 1" by auto
      with eq r(3) [OF k] k True show ?thesis by simp
    next
      case False
      then have "nat (i + 1) \<noteq> k" "int k \<le> i \<Longrightarrow> nat (i + 1) \<noteq> k - 1"
        using "1.prems"(1) \<open>idx \<le> i\<close> by auto
      with False r(3) [OF k] show ?thesis by (auto simp: nth_list_update)
    qed
    with r c True show ?thesis by (auto simp: shift_right.simps [of i idx row])
  qed
qed

lemma close_gap_nth:
  assumes "0 \<le> lo" and "lo \<le> hi" and "hi < int (length row)"
  shows "\<exists>row'. loop_opt lo hi (\<lambda>i row. do { c \<leftarrow> aget row (i + 1); aset row i c }) row = Some row' \<and>
    length row' = length row \<and>
    (\<forall>k<length row. row' ! k = (if lo \<le> int k \<and> int k < hi then row ! Suc k else row ! k))"
proof -
  let ?P = "\<lambda>i row'. length row' = length row \<and>
    (\<forall>k<length row. row' ! k = (if lo \<le> int k \<and> int k < i then row ! Suc k else row ! k))"
  have "\<exists>t. loop_opt lo hi (\<lambda>i row. do { c \<leftarrow> aget row (i + 1); aset row i c }) row = Some t \<and> ?P hi t"
  proof (rule loop_opt_inv [OF assms(2)])
    show "?P lo row" by auto
  next
    fix i r assume i: "lo \<le> i" "i < hi" and P: "?P i r"
    have n: "nat (i + 1) < length row" "nat i < length row" "nat (i + 1) = Suc (nat i)"
      using i assms by auto
    have "r ! nat (i + 1) = row ! Suc (nat i)" using P n i by auto
    then have "do { c \<leftarrow> aget r (i + 1); aset r i c } = Some (r[nat i := row ! Suc (nat i)])"
      using P i assms by (simp add: aget_def aset_def)
    moreover have "?P (i + 1) (r[nat i := row ! Suc (nat i)])"
      using P i assms n by (auto simp: nth_list_update)
    ultimately show "\<exists>s'. do { c \<leftarrow> aget r (i + 1); aset r i c } = Some s' \<and> ?P (i + 1) s'" by blast
  qed
  then show ?thesis by auto
qed

section \<open>The edited line\<close>

text \<open>
  The invariant of the input buffers: one row of 128 bytes per terminal, the cursor inside the
  text, room for the newline that ends it, and zero bytes after the text.
\<close>

definition zero_from :: "nat \<Rightarrow> u8 list \<Rightarrow> bool" where
  "zero_from n row \<longleftrightarrow> (\<forall>k<128. n \<le> k \<longrightarrow> row ! k = 0)"

definition editor_wf :: "'a kernel_scheme \<Rightarrow> bool" where
  "editor_wf s \<longleftrightarrow> 0 \<le> current_terminal s \<and> current_terminal s < 3 \<and>
     length (buffer s) = 3 \<and> (\<forall>r \<in> set (buffer s). length r = 128) \<and>
     length (bufferIDX s) = 3 \<and> length (bufferSIZE s) = 3 \<and>
     (\<forall>t<3. bufferIDX s ! t \<le> bufferSIZE s ! t \<and> bufferSIZE s ! t \<le> 127 \<and>
       zero_from (unat (bufferSIZE s ! t)) (buffer s ! t))"

declare editor_wf_def [inv_simps]

text \<open>The displayed line as the text left and right of the cursor.\<close>

definition row_of :: "'a kernel_scheme \<Rightarrow> u8 list" where
  "row_of s = buffer s ! nat (current_terminal s)"

definition idx_of :: "'a kernel_scheme \<Rightarrow> nat" where
  "idx_of s = unat (bufferIDX s ! nat (current_terminal s))"

definition size_of :: "'a kernel_scheme \<Rightarrow> nat" where
  "size_of s = unat (bufferSIZE s ! nat (current_terminal s))"

definition edited :: "'a kernel_scheme \<Rightarrow> u8 list \<times> u8 list" where
  "edited s = (take (idx_of s) (row_of s), drop (idx_of s) (take (size_of s) (row_of s)))"

lemma editor_wf_row:
  assumes "editor_wf s"
  shows "cur_row s = Some (row_of s)" "length (row_of s) = 128"
    "cur_idx s = Some (int (idx_of s))" "cur_size s = Some (int (size_of s))"
    "idx_of s \<le> size_of s" "size_of s \<le> 127"
    "zero_from (size_of s) (row_of s)"
proof -
  let ?t = "nat (current_terminal s)"
  have t: "?t < 3" using assms by (auto simp: editor_wf_def)
  show "cur_row s = Some (row_of s)" "cur_idx s = Some (int (idx_of s))" "cur_size s = Some (int (size_of s))"
    using assms
    by (auto simp: editor_wf_def cur_row_def cur_idx_def cur_size_def row_of_def idx_of_def size_of_def aget_def)
  show "length (row_of s) = 128" using assms t by (auto simp: editor_wf_def row_of_def)
  have w: "bufferIDX s ! ?t \<le> bufferSIZE s ! ?t" "bufferSIZE s ! ?t \<le> 127"
    using assms t by (auto simp: editor_wf_def)
  show "idx_of s \<le> size_of s" using w(1) by (simp add: idx_of_def size_of_def word_le_nat_alt)
  show "size_of s \<le> 127" using w(2) by (simp add: size_of_def word_le_nat_alt)
  show "zero_from (size_of s) (row_of s)"
    using assms t by (auto simp: editor_wf_def row_of_def size_of_def)
qed

text \<open>Routines of the console leave the editor alone.\<close>

lemma more_kernel:
  fixes s t :: "'a kernel_scheme"
  assumes "console.more t = console.more s"
  shows "buffer t = buffer s" "bufferIDX t = bufferIDX s" "bufferSIZE t = bufferSIZE s"
    "current_terminal t = current_terminal s" "history t = history s" "historyIDX t = historyIDX s"
    "historyBASE t = historyBASE s" "historySIZE t = historySIZE s" "schedule_top t = schedule_top s"
    "schedule_stack t = schedule_stack s" "return_switch t = return_switch s"
    "read_buffer t = read_buffer s" "current_process t = current_process s" "ps t = ps s"
    "shift_down t = shift_down s" "caps_lock t = caps_lock s" "ctrl_down t = ctrl_down s"
    "alt_down t = alt_down s" "switch_data_arr t = switch_data_arr s"
    "terminal_running t = terminal_running s" "terminal_request t = terminal_request s"
  using assms by (cases s; cases t; simp)+

lemmas cursor_kernel [simp] = more_kernel [OF more_cursor(1)]

text \<open>Replacing the row and the counters of the displayed terminal.\<close>

definition retyped :: "'a kernel_scheme \<Rightarrow> u8 list \<Rightarrow> u8 \<Rightarrow> u8 \<Rightarrow> 'a kernel_scheme \<Rightarrow> bool" where
  "retyped s row x z t \<longleftrightarrow> current_terminal t = current_terminal s \<and>
     buffer t = (buffer s)[nat (current_terminal s) := row] \<and>
     bufferIDX t = (bufferIDX s)[nat (current_terminal s) := x] \<and>
     bufferSIZE t = (bufferSIZE s)[nat (current_terminal s) := z]"

lemma retyped_wf:
  assumes "editor_wf s" and "retyped s row x z t" and "length row = 128" and "x \<le> z" and "z \<le> 127"
    and "zero_from (unat z) row"
  shows "editor_wf t" "row_of t = row" "idx_of t = unat x" "size_of t = unat z"
proof -
  have t: "nat (current_terminal s) < 3" using assms(1) by (auto simp: editor_wf_def)
  have rows: "set ((buffer s)[nat (current_terminal s) := row]) \<subseteq> insert row (set (buffer s))"
    by (rule set_update_subset_insert)
  then have "\<forall>r \<in> set (buffer t). length r = 128"
    using assms(1-3) by (auto simp: editor_wf_def retyped_def)
  then show "editor_wf t"
    using assms t by (auto simp: editor_wf_def retyped_def nth_list_update)
  show "row_of t = row" "idx_of t = unat x" "size_of t = unat z"
    using assms(1,2) t by (auto simp: row_of_def idx_of_def size_of_def retyped_def editor_wf_def)
qed

lemma put_row_eq:
  assumes "editor_wf s"
  shows "put_row row s = Some (s\<lparr>buffer := (buffer s)[nat (current_terminal s) := row]\<rparr>)"
  using assms by (simp add: put_row_def editor_wf_def aset_def)

lemma add_counters_eq:
  assumes "0 \<le> current_terminal s" and "current_terminal s < 3" and "length (bufferIDX s) = 3"
    and "length (bufferSIZE s) = 3"
  shows "add_counters i n s = Some (s\<lparr>
    bufferIDX := (bufferIDX s)[nat (current_terminal s) := bufferIDX s ! nat (current_terminal s) + i],
    bufferSIZE := (bufferSIZE s)[nat (current_terminal s) := bufferSIZE s ! nat (current_terminal s) + n]\<rparr>)"
  using assms by (simp add: add_counters_def aget_def aset_def)

section \<open>The editing keys\<close>

lemma insert_row:
  assumes "length row = 128" and "i \<le> n" and "n < 127"
    and "zero_from n row"
  obtains row1 where "shift_right (int n) (int i) row = Some row1" "length row1 = 128"
    "take i (row1[i := c]) = take i row"
    "take (Suc i) (row1[i := c]) = take i row @ [c]"
    "drop (Suc i) (take (Suc n) (row1[i := c])) = drop i (take n row)"
    "zero_from (Suc n) (row1[i := c])"
proof -
  obtain row1 where r: "shift_right (int n) (int i) row = Some row1" "length row1 = 128"
    "\<And>k. k < 128 \<Longrightarrow> row1 ! k = (if int i < int k \<and> int k \<le> int n + 1 then row ! (k - 1) else row ! k)"
    using shift_right_nth [of "int i" "int n" row] assms by auto
  have "take i (row1[i := c]) = take i row"
    by (rule nth_equalityI) (use assms r in auto)
  moreover have "take (Suc i) (row1[i := c]) = take i (row1[i := c]) @ [c]"
    using assms r(2) by (simp add: take_Suc_conv_app_nth)
  moreover have "drop (Suc i) (take (Suc n) (row1[i := c])) = drop i (take n row)"
    by (rule nth_equalityI) (use assms r in auto)
  moreover have "zero_from (Suc n) (row1[i := c])"
    using assms r by (auto simp: zero_from_def)
  ultimately show ?thesis using that r(1,2) by simp
qed

lemma erase_row:
  assumes "length row = 128" and "0 < i" and "i \<le> n" and "n \<le> 127"
    and "zero_from n row"
  obtains row1 where
    "loop_opt (int i - 1) (int n) (\<lambda>i row. do { c \<leftarrow> aget row (i + 1); aset row i c }) row = Some row1"
    "length row1 = 128" "take (i - 1) (row1[n := 0]) = take (i - 1) row"
    "drop (i - 1) (take (n - 1) (row1[n := 0])) = drop i (take n row)"
    "zero_from (n - 1) (row1[n := 0])"
proof -
  obtain row1 where r: "loop_opt (int i - 1) (int n) (\<lambda>i row. do { c \<leftarrow> aget row (i + 1); aset row i c }) row = Some row1"
    "length row1 = 128"
    "\<And>k. k < 128 \<Longrightarrow> row1 ! k = (if int i - 1 \<le> int k \<and> int k < int n then row ! Suc k else row ! k)"
    using close_gap_nth [of "int i - 1" "int n" row] assms by auto
  have "take (i - 1) (row1[n := 0]) = take (i - 1) row"
    by (rule nth_equalityI) (use assms r in auto)
  moreover have "drop (i - 1) (take (n - 1) (row1[n := 0])) = drop i (take n row)"
    by (rule nth_equalityI) (use assms r in auto)
  moreover have "zero_from (n - 1) (row1[n := 0])"
  proof -
    have "row1[n := 0] ! k = 0" if k: "k < 128" "n - 1 \<le> k" for k
    proof (cases "k = n")
      case True
      with r(2) k show ?thesis by simp
    next
      case False
      with k assms(2,3) have "int i - 1 \<le> int k" "int k < int n \<Longrightarrow> Suc k = n" "\<not> int k < int n \<Longrightarrow> n \<le> k"
        by auto
      with r(3) [OF k(1)] assms(4,5) k(1) False show ?thesis by (cases "int k < int n") (auto simp: zero_from_def)
    qed
    then show ?thesis by (simp add: zero_from_def)
  qed
  ultimately show ?thesis using that r(1,2) by blast
qed

lemma byte_plus_one: "x \<le> z \<Longrightarrow> z < 127 \<Longrightarrow> unat (x + 1) = Suc (unat x) \<and> x + 1 \<le> z + 1 \<and> z + 1 \<le> (127::u8)"
proof -
  assume a: "x \<le> z" "z < (127::u8)"
  then have n: "unat x \<le> unat z" "unat z < 127" by (simp_all add: word_le_nat_alt word_less_nat_alt)
  then have "unat (x + 1) = unat x + 1" "unat (z + 1) = unat z + 1"
    by (auto simp: unat_word_ariths)
  with n show ?thesis by (simp add: word_le_nat_alt)
qed

lemma byte_minus_one: "x \<noteq> 0 \<Longrightarrow> unat (x - 1) = unat x - 1" for x :: u8
  by (simp add: unat_minus_one)

lemma byte_minus_le:
  assumes "x \<noteq> 0" and "x \<le> z" and "z \<le> (127::u8)"
  shows "x - 1 \<le> z - 1" "z - 1 \<le> 127" "x - 1 \<le> z"
proof -
  have n: "unat x \<le> unat z" "unat z \<le> 127" using assms by (simp_all add: word_le_nat_alt)
  have "z \<noteq> 0" using assms by auto
  note m = byte_minus_one [OF assms(1)] byte_minus_one [OF this]
  show "x - 1 \<le> z - 1" using m n by (simp add: word_le_nat_alt diff_le_mono)
  have "unat z - 1 \<le> 127" "unat x - 1 \<le> unat z" using n by linarith+
  then show "z - 1 \<le> 127" "x - 1 \<le> z" using m by (simp_all add: word_le_nat_alt)
qed

lemma editor_wf_bytes:
  assumes "editor_wf s"
  shows "bufferIDX s ! nat (current_terminal s) \<le> bufferSIZE s ! nat (current_terminal s)"
    "bufferSIZE s ! nat (current_terminal s) \<le> 127"
  using assms by (auto simp: editor_wf_def)

lemma keyboard_insert_run:
  assumes wf: "editor_wf s" and room: "size_of s < 127"
  shows "\<exists>t. keyboard_insert c s = Some t \<and> editor_wf t \<and>
    edited t = (fst (edited s) @ [c], snd (edited s))"
proof -
  note w = editor_wf_row [OF wf]
  let ?ct = "nat (current_terminal s)"
  let ?x = "bufferIDX s ! ?ct" and ?z = "bufferSIZE s ! ?ct"
  obtain row1 where r: "shift_right (int (size_of s)) (int (idx_of s)) (row_of s) = Some row1"
    "length row1 = 128" "take (Suc (idx_of s)) (row1[idx_of s := c]) = take (idx_of s) (row_of s) @ [c]"
    "drop (Suc (idx_of s)) (take (Suc (size_of s)) (row1[idx_of s := c])) = drop (idx_of s) (take (size_of s) (row_of s))"
    "zero_from (Suc (size_of s)) (row1[idx_of s := c])"
    by (rule insert_row [OF w(2,5) room w(7), of c]) (rule that; assumption)
  let ?row = "row1[idx_of s := c]"
  let ?s1 = "s\<lparr>buffer := (buffer s)[?ct := ?row], key_flag := 1\<rparr>"
  let ?n = "Suc (size_of s - idx_of s)"
  have "1 \<le> ?n" "?n \<le> length (drop (idx_of s) ?row)" using r(2) w(5) room by auto
  from terminal_write_total [OF this, of 1 ?s1]
  obtain u where u: "terminal_write 1 (drop (idx_of s) ?row) (int ?n) ?s1 = Some (int ?n, u)"
    "console.more u = console.more ?s1" by blast
  let ?v = "cursor_update_left (int (size_of s - idx_of s)) (u\<lparr>key_flag := 0\<rparr>)"
  have "console.more ?v = console.more ?s1" using u(2) by simp
  note mv = more_kernel [OF this]
  define t where "t = ?v\<lparr>bufferIDX := (bufferIDX s)[?ct := ?x + 1], bufferSIZE := (bufferSIZE s)[?ct := ?z + 1]\<rparr>"
  have cnt: "add_counters 1 1 ?v = Some t"
    using wf mv by (subst add_counters_eq) (auto simp: editor_wf_def t_def)
  have "keyboard_insert c s = Some t"
    using w(1,3,4,5) r(1,2) room put_row_eq [OF wf, of ?row] u(1) cnt
    by (simp add: keyboard_insert_def aset_def Let_def of_nat_diff nat_add_distrib algebra_simps)
  moreover have ret: "retyped s ?row (?x + 1) (?z + 1) t"
    using mv by (simp add: retyped_def t_def)
  have z: "?x \<le> ?z" "?z < 127"
    using w(5) room by (simp_all add: idx_of_def size_of_def word_le_nat_alt word_less_nat_alt)
  note b = byte_plus_one [OF z] byte_plus_one [OF order_refl z(2)]
  have len: "length ?row = 128" using r(2) by simp
  have uz: "unat (?z + 1) = Suc (size_of s)" using b by (simp add: size_of_def)
  note t = retyped_wf [OF wf ret len _ _ r(5) [folded uz]]
  have "editor_wf t" "row_of t = ?row" "idx_of t = Suc (idx_of s)" "size_of t = Suc (size_of s)"
    using t b by (auto simp: idx_of_def size_of_def)
  ultimately show ?thesis using r(3,4) by (simp add: edited_def)
qed

lemma keyboard_backspace_run:
  assumes wf: "editor_wf s" and left: "0 < idx_of s"
  shows "\<exists>t. keyboard_backspace s = Some t \<and> editor_wf t \<and>
    edited t = (butlast (fst (edited s)), snd (edited s))"
proof -
  note w = editor_wf_row [OF wf]
  let ?ct = "nat (current_terminal s)"
  let ?x = "bufferIDX s ! ?ct" and ?z = "bufferSIZE s ! ?ct"
  obtain row1 where r: "loop_opt (int (idx_of s) - 1) (int (size_of s))
        (\<lambda>i row. do { c \<leftarrow> aget row (i + 1); aset row i c }) (row_of s) = Some row1"
    "length row1 = 128" "take (idx_of s - 1) (row1[size_of s := 0]) = take (idx_of s - 1) (row_of s)"
    "drop (idx_of s - 1) (take (size_of s - 1) (row1[size_of s := 0])) = drop (idx_of s) (take (size_of s) (row_of s))"
    "zero_from (size_of s - 1) (row1[size_of s := 0])"
    by (rule erase_row [OF w(2) left w(5,6,7)]) (rule that; assumption)
  let ?row = "row1[size_of s := 0]"
  let ?s1 = "s\<lparr>buffer := (buffer s)[?ct := ?row]\<rparr>"
  let ?n = "Suc (size_of s - idx_of s)"
  have "1 \<le> ?n" "?n \<le> length (drop (idx_of s - 1) ?row)" using r(2) w(5,6) left by auto
  from terminal_write_total [OF this, of 1 "terminal_backspace ?s1"]
  obtain u where u: "terminal_write 1 (drop (idx_of s - 1) ?row) (int ?n) (terminal_backspace ?s1) = Some (int ?n, u)"
    "console.more u = console.more ?s1" by auto
  let ?v = "cursor_update_left (int ?n) u"
  have "console.more ?v = console.more ?s1" using u(2) by simp
  note mv = more_kernel [OF this]
  define t where "t = ?v\<lparr>bufferIDX := (bufferIDX s)[?ct := ?x - 1], bufferSIZE := (bufferSIZE s)[?ct := ?z - 1]\<rparr>"
  have cnt: "add_counters (-1) (-1) ?v = Some t"
    using wf mv by (subst add_counters_eq) (auto simp: editor_wf_def t_def)
  have n: "int (size_of s) - int (idx_of s) + 1 = int ?n" "nat (int (idx_of s) - 1) = idx_of s - 1"
    using w(5) by auto
  have "keyboard_backspace s = Some t"
    unfolding keyboard_backspace_def w(1,3,4) Option.bind.simps r(1) n
    using r(2) w(6) put_row_eq [OF wf, of ?row] u(1) cnt by (simp add: aset_def Let_def)
  moreover have ret: "retyped s ?row (?x - 1) (?z - 1) t"
    using mv by (simp add: retyped_def t_def)
  have nz: "?x \<noteq> 0" "?z \<noteq> 0"
    using left w(5) by (auto simp: idx_of_def size_of_def)
  have len: "length ?row = 128" using r(2) by simp
  have uz: "unat (?z - 1) = size_of s - 1" using byte_minus_one [OF nz(2)] by (simp add: size_of_def)
  note t = retyped_wf [OF wf ret len byte_minus_le(1,2) [OF nz(1) editor_wf_bytes [OF wf]] r(5) [folded uz]]
  have "editor_wf t" "row_of t = ?row" "idx_of t = idx_of s - 1" "size_of t = size_of s - 1"
    using t byte_minus_one [OF nz(1)] byte_minus_one [OF nz(2)] by (auto simp: idx_of_def size_of_def)
  moreover have "butlast (take (idx_of s) (row_of s)) = take (idx_of s - 1) (row_of s)"
    using w(2,5,6) left by (simp add: butlast_take)
  ultimately show ?thesis using r(3,4) by (simp add: edited_def)
qed

lemma arrow_edited:
  assumes "length row = (128::nat)" and "i < n" and "n \<le> 127"
  shows "drop i (take n row) = row ! i # drop (Suc i) (take n row)" "take (Suc i) row = take i row @ [row ! i]"
  using assms by (simp_all add: take_Suc_conv_app_nth Cons_nth_drop_Suc [symmetric])

lemma arrow_keeps:
  assumes wf: "editor_wf s" and "x \<le> bufferSIZE s ! nat (current_terminal s)"
    and "console.more t = console.more (s\<lparr>bufferIDX := (bufferIDX s)[nat (current_terminal s) := x]\<rparr>)"
  shows "editor_wf t" "row_of t = row_of s" "idx_of t = unat x" "size_of t = size_of s"
proof -
  let ?ct = "nat (current_terminal s)"
  note m = more_kernel [OF assms(3)]
  have ct: "?ct < 3" using wf by (auto simp: editor_wf_def)
  have "retyped s (row_of s) x (bufferSIZE s ! ?ct) t"
    using m wf ct by (simp add: retyped_def row_of_def)
  from retyped_wf [OF wf this editor_wf_row(2) [OF wf] assms(2) editor_wf_bytes(2) [OF wf]
      editor_wf_row(7) [OF wf, unfolded size_of_def]] wf ct
  show "editor_wf t" "row_of t = row_of s" "idx_of t = unat x" "size_of t = size_of s"
    by (auto simp: editor_wf_def size_of_def)
qed

lemma keyboard_left_arrow_run:
  assumes wf: "editor_wf s"
  shows "\<exists>t. keyboard_left_arrow s = Some t \<and> editor_wf t \<and>
    edited t = (if fst (edited s) = [] then edited s
      else (butlast (fst (edited s)), last (fst (edited s)) # snd (edited s)))"
proof (cases "idx_of s = 0")
  case True
  then show ?thesis
    using wf editor_wf_row(3) [OF wf] by (simp add: keyboard_left_arrow_def edited_def)
next
  case False
  note w = editor_wf_row [OF wf]
  let ?ct = "nat (current_terminal s)"
  let ?x = "bufferIDX s ! ?ct"
  let ?s1 = "s\<lparr>bufferIDX := (bufferIDX s)[?ct := ?x - 1]\<rparr>"
  have nz: "?x \<noteq> 0" using False by (auto simp: idx_of_def)
  have res: "keyboard_left_arrow s = Some (cursor_update_left 1 ?s1)"
    using w(3) False wf add_counters_eq [of s "-1" 0]
    by (simp add: keyboard_left_arrow_def editor_wf_def list_update_id)
  note le = byte_minus_le(3) [OF nz editor_wf_bytes [OF wf]]
  note t = arrow_keeps [OF wf le, of "cursor_update_left 1 ?s1", simplified]
  obtain j where j: "idx_of s = Suc j" using False by (cases "idx_of s") auto
  have "edited (cursor_update_left 1 ?s1) = (take j (row_of s), row_of s ! j # drop (Suc j) (take (size_of s) (row_of s)))"
    using t(2-4) byte_minus_one [OF nz] j arrow_edited(1) [OF w(2), of j "size_of s"] w(5,6)
    by (simp add: edited_def idx_of_def)
  then show ?thesis
    using res t(1) j arrow_edited(2) [OF w(2), of j "size_of s"] w(5,6) by (simp add: edited_def)
qed

lemma keyboard_right_arrow_run:
  assumes wf: "editor_wf s"
  shows "\<exists>t. keyboard_right_arrow s = Some t \<and> editor_wf t \<and>
    edited t = (if snd (edited s) = [] then edited s
      else (fst (edited s) @ [hd (snd (edited s))], tl (snd (edited s))))"
proof (cases "idx_of s = size_of s")
  case True
  then show ?thesis
    using wf editor_wf_row [OF wf] by (simp add: keyboard_right_arrow_def edited_def)
next
  case False
  note w = editor_wf_row [OF wf]
  then have lt: "idx_of s < size_of s" using False by simp
  let ?ct = "nat (current_terminal s)"
  let ?x = "bufferIDX s ! ?ct"
  let ?s1 = "s\<lparr>bufferIDX := (bufferIDX s)[?ct := ?x + 1]\<rparr>"
  have res: "keyboard_right_arrow s = Some (cursor_update_right 1 ?s1)"
    using w(3,4) False wf add_counters_eq [of s 1 0]
    by (simp add: keyboard_right_arrow_def editor_wf_def list_update_id)
  have u: "unat (?x + 1) = Suc (idx_of s)"
    using lt w(6) by (simp add: idx_of_def unat_word_ariths)
  have le: "?x + 1 \<le> bufferSIZE s ! ?ct"
    using u lt by (simp add: word_le_nat_alt size_of_def)
  note t = arrow_keeps [OF wf le, of "cursor_update_right 1 ?s1", simplified]
  have "edited (cursor_update_right 1 ?s1) = (take (Suc (idx_of s)) (row_of s), drop (Suc (idx_of s)) (take (size_of s) (row_of s)))"
    using t(2-4) u by (simp add: edited_def)
  then show ?thesis
    using res t(1) arrow_edited [OF w(2) lt w(6)] lt w(2,6) by (simp add: edited_def)
qed

section \<open>Clearing, reading and recalling the line\<close>

lemma zero_row: "length row = 128 \<Longrightarrow> loop_opt 0 MAX_BUFFER_SIZE (\<lambda>i row. aset row i 0) row = Some (replicate 128 0)"
  using loop_write [of row 128 "\<lambda>i row. aset row i 0" "\<lambda>_. 0"]
  by (simp add: MAX_BUFFER_SIZE_def map_replicate_const)

text \<open>\<open>s\<close> may differ from a well-formed state in the displayed row and its counters.\<close>

lemma retyped_self: "editor_wf s \<Longrightarrow> retyped s (row_of s) (bufferIDX s ! nat (current_terminal s))
    (bufferSIZE s ! nat (current_terminal s)) s"
  by (simp add: retyped_def row_of_def)

lemma clear_keyboard_buffer_run:
  assumes wf: "editor_wf s0" and s: "retyped s0 row x z s" and len: "length row = 128"
  obtains t where "clear_keyboard_buffer s = Some t" "editor_wf t" "edited t = ([], [])"
    "row_of t = replicate 128 0" "idx_of t = 0" "size_of t = 0"
    "t = s\<lparr>buffer := buffer t, bufferIDX := bufferIDX t, bufferSIZE := bufferSIZE t\<rparr>"
proof -
  let ?ct = "nat (current_terminal s)"
  have ct: "0 \<le> current_terminal s" "current_terminal s < 3" "length (buffer s) = 3"
    "length (bufferIDX s) = 3" "length (bufferSIZE s) = 3" "buffer s ! ?ct = row" "current_terminal s = current_terminal s0"
    using wf s by (auto simp: editor_wf_def retyped_def)
  define t where "t = s\<lparr>buffer := (buffer s)[?ct := replicate 128 0], bufferIDX := (bufferIDX s)[?ct := 0],
    bufferSIZE := (bufferSIZE s)[?ct := 0]\<rparr>"
  have res: "clear_keyboard_buffer s = Some t"
    using ct zero_row [OF len]
    by (simp add: clear_keyboard_buffer_def cur_row_def put_row_def aget_def aset_def t_def)
  have "retyped s0 (replicate 128 0) 0 0 t" using s ct(7) by (simp add: retyped_def t_def)
  note r = retyped_wf [OF wf this]
  have "t = s\<lparr>buffer := buffer t, bufferIDX := bufferIDX t, bufferSIZE := bufferSIZE t\<rparr>"
    by (simp add: t_def)
  with that [OF res] r show ?thesis by (simp add: edited_def zero_from_def)
qed

text \<open>\<open>keyboard_read\<close> copies the line up to and with its newline.\<close>

lemma keyboard_read_loop_run:
  assumes row: "row = xs @ 10 # ys" "length row = 128" and xs: "10 \<notin> set xs" "0 \<notin> set xs"
    and out: "length out = 128" and i: "i \<le> length xs"
  shows "keyboard_read_loop row 128 (int i) (take i xs @ drop i out) =
    Some (int (length xs), xs @ 10 # drop (Suc (length xs)) out)"
  using i
proof (induction "length xs - i" arbitrary: i)
  case 0
  then have "i = length xs" by simp
  moreover have "length xs < 128" using row by auto
  moreover have "(xs @ drop (length xs) out)[length xs := 10] = xs @ 10 # drop (Suc (length xs)) out"
    using \<open>length xs < 128\<close> out by (simp add: Cons_nth_drop_Suc [symmetric])
  ultimately show ?case
    using row out by (simp add: keyboard_read_loop.simps aget_def aset_def)
next
  case (Suc d)
  then have i: "i < length xs" "i < 127" using row by auto
  have "xs ! i \<in> set xs" using i(1) by (rule nth_mem)
  with xs have c: "row ! i = xs ! i" "xs ! i \<noteq> 10" "xs ! i \<noteq> 0"
    using row i by (metis nth_append)+
  have upd: "(take i xs @ drop i out)[i := xs ! i] = take (Suc i) xs @ drop (Suc i) out"
    using i out by (simp add: Cons_nth_drop_Suc [symmetric] list_update_append take_Suc_conv_app_nth)
  have "keyboard_read_loop row 128 (int i) (take i xs @ drop i out) =
      keyboard_read_loop row 128 (int (Suc i)) (take (Suc i) xs @ drop (Suc i) out)"
    using i c upd out row(2)
    by (subst keyboard_read_loop.simps) (simp add: aget_def aset_def MAX_BUFFER_SIZE_def add.commute)
  then show ?case using Suc.hyps(1) [of "Suc i"] Suc.hyps(2) i by simp
qed

text \<open>The history of the process displayed on the current terminal.\<close>

definition history_wf :: "'a kernel_scheme \<Rightarrow> int \<Rightarrow> bool" where
  "history_wf s p \<longleftrightarrow> displayed_pid s = Some p \<and> 0 \<le> p \<and> p < 7 \<and>
     length (history s) = 7 \<and> (\<forall>hs \<in> set (history s). length hs = 20 \<and> (\<forall>h \<in> set hs. length h = 128)) \<and>
     length (historyIDX s) = 7 \<and> length (historyBASE s) = 7 \<and> length (historySIZE s) = 7 \<and>
     0 \<le> historyBASE s ! nat p \<and> historyBASE s ! nat p < 20 \<and>
     0 \<le> historyIDX s ! nat p \<and> historyIDX s ! nat p < 20 \<and>
     0 \<le> historySIZE s ! nat p \<and> historySIZE s ! nat p \<le> 20 \<and>
     (historySIZE s ! nat p < 20 \<longrightarrow> historyBASE s ! nat p = historySIZE s ! nat p)"

definition saved_row :: "u8 list \<Rightarrow> u8 list" where
  "saved_row row = map (\<lambda>c. if c = 10 \<or> c = 0 then 0 else c) row"

lemma copy_to_history_run:
  assumes wf: "editor_wf s" and h: "history_wf s p"
  obtains t hs where "copy_to_history s = Some t" "t = s\<lparr>history := history t\<rparr>"
    "history t = (history s)[nat p := (history s ! nat p)[nat (historyBASE s ! nat p) := saved_row (row_of s)]]"
    "history_wf t p"
proof -
  note w = editor_wf_row [OF wf]
  note hw = h [unfolded history_wf_def]
  let ?hs = "history s ! nat p" and ?b = "historyBASE s ! nat p"
  have hs: "?hs \<in> set (history s)" using hw by (intro nth_mem) auto
  then have len: "length ?hs = 20" "length (?hs ! nat ?b) = 128" using hw by (auto intro: nth_mem)
  have loop: "loop_opt 0 MAX_BUFFER_SIZE (\<lambda>i h. do {
       c \<leftarrow> aget (row_of s) i;
       aset h i (if c = 10 \<or> c = 0 then 0 else c) }) (?hs ! nat ?b) = Some (saved_row (row_of s))"
  proof -
    have "saved_row (row_of s) = map (\<lambda>i. if row_of s ! i = 10 \<or> row_of s ! i = 0 then 0 else row_of s ! i) [0..<128]"
      unfolding saved_row_def by (rule nth_equalityI) (use w(2) in auto)
    moreover have "loop_opt 0 (int 128) (\<lambda>i h. do {
       c \<leftarrow> aget (row_of s) i;
       aset h i (if c = 10 \<or> c = 0 then 0 else c) }) (?hs ! nat ?b) =
       Some (map (\<lambda>i. if row_of s ! i = 10 \<or> row_of s ! i = 0 then 0 else row_of s ! i) [0..<128])"
      by (rule loop_write) (use w(2) len in \<open>auto simp: aget_def\<close>)
    ultimately show ?thesis by (simp add: MAX_BUFFER_SIZE_def)
  qed
  define t where "t = s\<lparr>history := (history s)[nat p := ?hs[nat ?b := saved_row (row_of s)]]\<rparr>"
  have "copy_to_history s = Some t"
    using hw w(1) len loop
    by (simp add: copy_to_history_def aget_def aset_def t_def)
  moreover have "history_wf t p"
  proof -
    have "displayed_pid t = displayed_pid s" by (simp add: displayed_pid_def t_def)
    moreover have "\<forall>x \<in> set (?hs[nat ?b := saved_row (row_of s)]). length x = 128"
      using hs hw w(2) by (intro all_list_update) (auto simp: saved_row_def)
    then have "\<forall>hs \<in> set (history t). length hs = 20 \<and> (\<forall>h \<in> set hs. length h = 128)"
      unfolding t_def using hw len(1) by (simp, intro all_list_update) auto
    ultimately show ?thesis using hw unfolding history_wf_def by (auto simp: t_def)
  qed
  ultimately show ?thesis by (intro that [of t]) (simp_all add: t_def)
qed

section \<open>Any sequence of editing keys\<close>

datatype edit_key = Type_char u8 | Erase_char | Move_left | Move_right

text \<open>What \<open>handle_keyboard_input\<close> does for an editing key, with its tests for a full and an empty line.\<close>

definition edit_step :: "edit_key \<Rightarrow> 'a kernel_scheme \<Rightarrow> 'a kernel_scheme option" where
  "edit_step e s = (case e of
     Type_char c \<Rightarrow> do {
       z \<leftarrow> aget (bufferSIZE s) (current_terminal s);
       if z = MAX_CHARACTERS then Some s else keyboard_insert c s }
   | Erase_char \<Rightarrow> do {
       x \<leftarrow> aget (bufferIDX s) (current_terminal s);
       if x = 0 then Some s else keyboard_backspace s }
   | Move_left \<Rightarrow> keyboard_left_arrow s
   | Move_right \<Rightarrow> keyboard_right_arrow s)"

text \<open>The line a user expects: the text left and right of the cursor, at most 127 characters.\<close>

fun line_spec :: "edit_key \<Rightarrow> u8 list \<times> u8 list \<Rightarrow> u8 list \<times> u8 list" where
  "line_spec (Type_char c) (l, r) = (if length l + length r < 127 then (l @ [c], r) else (l, r))"
| "line_spec Erase_char (l, r) = (butlast l, r)"
| "line_spec Move_left (l, r) = (if l = [] then (l, r) else (butlast l, last l # r))"
| "line_spec Move_right (l, r) = (if r = [] then (l, r) else (l @ [hd r], tl r))"

lemma edited_lengths:
  assumes "editor_wf s"
  shows "length (fst (edited s)) = idx_of s" "length (fst (edited s)) + length (snd (edited s)) = size_of s"
  using editor_wf_row [OF assms] by (auto simp: edited_def)

lemma editor_wf_counters:
  assumes "editor_wf s"
  shows "aget (bufferIDX s) (current_terminal s) = Some (bufferIDX s ! nat (current_terminal s))"
    "aget (bufferSIZE s) (current_terminal s) = Some (bufferSIZE s ! nat (current_terminal s))"
    "bufferIDX s ! nat (current_terminal s) = 0 \<longleftrightarrow> idx_of s = 0"
    "bufferSIZE s ! nat (current_terminal s) = 127 \<longleftrightarrow> size_of s = 127"
proof -
  show "aget (bufferIDX s) (current_terminal s) = Some (bufferIDX s ! nat (current_terminal s))"
    "aget (bufferSIZE s) (current_terminal s) = Some (bufferSIZE s ! nat (current_terminal s))"
    using assms by (auto simp: editor_wf_def aget_def)
  show "bufferIDX s ! nat (current_terminal s) = 0 \<longleftrightarrow> idx_of s = 0" by (simp add: idx_of_def unat_eq_0)
  show "bufferSIZE s ! nat (current_terminal s) = 127 \<longleftrightarrow> size_of s = 127"
  proof -
    have "unat (127::u8) = 127" by simp
    then show ?thesis unfolding size_of_def by (metis unsigned_word_eqI)
  qed
qed

lemma edit_step_simulates:
  assumes wf: "editor_wf s"
  shows "\<exists>t. edit_step e s = Some t \<and> editor_wf t \<and> edited t = line_spec e (edited s)"
proof (cases e)
  case (Type_char c)
  show ?thesis
  proof (cases "size_of s = 127")
    case True
    then show ?thesis
      using wf editor_wf_counters [OF wf] edited_lengths [OF wf] Type_char
      by (cases "edited s") (simp add: edit_step_def MAX_CHARACTERS_def)
  next
    case False
    then have "size_of s < 127" using editor_wf_row(6) [OF wf] by simp
    with False show ?thesis
      using keyboard_insert_run [OF wf, of c] editor_wf_counters [OF wf] edited_lengths [OF wf] Type_char
      by (cases "edited s") (simp add: edit_step_def MAX_CHARACTERS_def)
  qed
next
  case Erase_char
  then show ?thesis
    using keyboard_backspace_run [OF wf] editor_wf_counters [OF wf] edited_lengths [OF wf] wf
    by (cases "edited s"; cases "idx_of s = 0") (auto simp: edit_step_def)
next
  case Move_left
  then show ?thesis
    using keyboard_left_arrow_run [OF wf] by (cases "edited s") (auto simp: edit_step_def)
next
  case Move_right
  then show ?thesis
    using keyboard_right_arrow_run [OF wf] by (cases "edited s") (auto simp: edit_step_def)
qed

interpretation editor_sim: simulation editor_wf edited edit_step line_spec "\<lambda>_. True"
  by unfold_locales (rule edit_step_simulates)

text \<open>
  C7: whatever sequence of characters, backspaces and arrow keys is typed, every key is handled
  without leaving the buffer, the buffer invariant holds afterwards, and the text left and right
  of the cursor is what an ideal line editor of 127 characters gives.
\<close>

theorem line_editor_refines:
  assumes "editor_wf s"
  shows "\<exists>t. run_steps edit_step keys s = Some t \<and> editor_wf t \<and> edited t = fold line_spec keys (edited s)"
  using editor_sim.run_simulates [OF assms] by simp

lemma editor_wf_idle: "editor_wf idle_kernel"
  by (auto simp: editor_wf_def idle_kernel_def nth_Cons' zero_from_def)

theorem line_editor_refines_witness:
  "\<exists>t. run_steps edit_step [Type_char 97, Type_char 99, Move_left, Type_char 98] idle_kernel = Some t \<and>
     edited t = ([97, 98], [99])"
proof -
  have "edited idle_kernel = ([], [])"
    by (simp add: edited_def idx_of_def size_of_def row_of_def idle_kernel_def)
  then show ?thesis
    using line_editor_refines [OF editor_wf_idle, of "[Type_char 97, Type_char 99, Move_left, Type_char 98]"] by auto
qed

end
