(* ===== verification/Terminal.thy ===== *)
theory Terminal
  imports Line_Editor
begin

text \<open>
  The rest of \<^verbatim>\<open>student-distrib/terminal.c\<close>: the return switch of each terminal, the read
  buffers, opening and closing, and the switch of the displayed terminal.

  \<open>terminal_switch\<close> either returns, or spins until the scheduler ticks, or runs a new shell with
  a system call: the outcome says which, with the state at that point.
\<close>

definition SWITCH_OFF :: u8 where "SWITCH_OFF = 0"
definition SWITCH_ON :: u8 where "SWITCH_ON = 1"
definition SWITCH_HOLD :: u8 where "SWITCH_HOLD = 2"

lemmas switch_consts = SWITCH_OFF_def SWITCH_ON_def SWITCH_HOLD_def

section \<open>terminal.c\<close>

definition get_return_switch :: "'a kernel_scheme \<Rightarrow> u8 option" where
  "get_return_switch s = aget (return_switch s) (current_process s)"

definition flip_return_switch :: "'a kernel_scheme \<Rightarrow> 'a kernel_scheme option" where
  "flip_return_switch s = do {
     v \<leftarrow> aget (return_switch s) (current_terminal s);
     rs \<leftarrow> aset (return_switch s) (current_terminal s) (if v = 0 then 1 else 0);
     Some (s\<lparr>return_switch := rs\<rparr>) }"

definition set_return_switch :: "u8 \<Rightarrow> 'a kernel_scheme \<Rightarrow> 'a kernel_scheme option" where
  "set_return_switch v s =
     (if v = 0 \<or> v = 1 then do {
        rs \<leftarrow> aset (return_switch s) (current_terminal s) v;
        Some (s\<lparr>return_switch := rs\<rparr>) }
      else Some s)"

definition set_return_switch_spec :: "u8 \<Rightarrow> u8 \<Rightarrow> 'a kernel_scheme \<Rightarrow> 'a kernel_scheme option" where
  "set_return_switch_spec terminal v s =
     (if uint terminal < NUM_TERMINALS then
        if v = SWITCH_OFF \<or> v = SWITCH_ON \<or> v = SWITCH_HOLD then do {
          rs \<leftarrow> aset (return_switch s) (uint terminal) v;
          Some (s\<lparr>return_switch := rs\<rparr>) }
        else Some s
      else Some s)"

definition clear_read_buffer :: "'a kernel_scheme \<Rightarrow> 'a kernel_scheme option" where
  "clear_read_buffer s = do {
     row \<leftarrow> aget (read_buffer s) (current_terminal s);
     row \<leftarrow> loop_opt 0 MAX_BUFFER_SIZE (\<lambda>i row. aset row i 0) row;
     rb \<leftarrow> aset (read_buffer s) (current_terminal s) row;
     Some (s\<lparr>read_buffer := rb\<rparr>) }"

text \<open>\<open>clear_all_read_buffers\<close> runs over the terminals but clears the current one each time.\<close>

definition clear_all_read_buffers :: "'a kernel_scheme \<Rightarrow> 'a kernel_scheme option" where
  "clear_all_read_buffers s = loop_opt 0 NUM_TERMINALS (\<lambda>j. clear_read_buffer) s"

definition terminal_open :: "'a kernel_scheme \<Rightarrow> (int \<times> 'a kernel_scheme) option" where
  "terminal_open s = do {
     s \<leftarrow> clear_all_read_buffers s;
     let s = s\<lparr>current_terminal := 0\<rparr>;
     s \<leftarrow> loop_opt 0 NUM_TERMINALS (\<lambda>i s. do {
       rs \<leftarrow> aset (return_switch s) i 0;
       tr \<leftarrow> aset (terminal_running s) i 0;
       sd \<leftarrow> aget (switch_data_arr s) i;
       top \<leftarrow> aset (schedule_top s) i 0;
       let s = s\<lparr>return_switch := rs, terminal_running := tr, schedule_top := top\<rparr>;
       s \<leftarrow> loop_opt 0 7 (\<lambda>j s. do {
         st \<leftarrow> aset2 (schedule_stack s) (i, j) 0;
         eb \<leftarrow> aset2 (schedule_ebp s) (i, j) 0;
         es \<leftarrow> aset2 (schedule_esp s) (i, j) 0;
         Some (s\<lparr>schedule_stack := st, schedule_ebp := eb, schedule_esp := es\<rparr>) }) s;
       v \<leftarrow> loop_opt 0 (NUM_ROWS * NUM_COLS) (\<lambda>m v. do {
         v \<leftarrow> aset v (2 * m) 32;
         aset v (2 * m + 1) 7 }) (vid_data sd);
       arr \<leftarrow> aset (switch_data_arr s) i \<lparr>vid_data = v, cursor_x = 0, cursor_y = 0\<rparr>;
       Some (s\<lparr>switch_data_arr := arr\<rparr>) }) s;
     Some (0, s) }"

definition terminal_close :: "int \<Rightarrow> 'a sched_scheme \<Rightarrow> (int \<times> 'a sched_scheme) option" where
  "terminal_close fd s = do {
     b \<leftarrow> get_fd (ps s) 1;
     p \<leftarrow> put_fd (ps s) 1 (freed b);
     Some (0, s\<lparr>ps := p\<rparr>) }"

definition terminal_read_fail :: "int \<Rightarrow> int \<Rightarrow> int" where
  "terminal_read_fail fd nbytes = -1"

definition terminal_return :: "'a kernel_scheme \<Rightarrow> 'a kernel_scheme option" where
  "terminal_return s = do {
     v \<leftarrow> aget (return_switch s) (current_terminal s);
     if v = SWITCH_ON then do {
       out \<leftarrow> aget (read_buffer s) (current_terminal s);
       (n, out) \<leftarrow> keyboard_read 1 out MAX_BUFFER_SIZE s;
       rb \<leftarrow> aset (read_buffer s) (current_terminal s) out;
       set_return_switch 0 (s\<lparr>read_buffer := rb\<rparr>) }
     else if v = SWITCH_OFF then Some (cursor_update (next_line s))
     else Some s }"

datatype 's outcome = Returned int 's | Wait_tick 's | Exec_shell 's

definition page_of :: "int \<Rightarrow> u32" where
  "page_of t = VIDEO_1 + 0x1000 * of_int t"

definition terminal_switch :: "u8 \<Rightarrow> 'a kernel_scheme \<Rightarrow> 'a kernel_scheme outcome option" where
  "terminal_switch num s =
     (if uint num > NUM_TERMINALS then Some (Returned (-1) s)
      else if uint num = current_terminal s then Some (Returned 0 s)
      else do {
        running \<leftarrow> (if num_active_processes (ps s) \<ge> MAX_PROCESSES
                    then aget (terminal_running s) (uint num) else Some 1);
        if running = 0 then Some (Returned 0 s)
        else do {
          let s = cli s;
          sd \<leftarrow> aget (switch_data_arr s) (current_terminal s);
          arr \<leftarrow> aset (switch_data_arr s) (current_terminal s)
                  (sd\<lparr>cursor_x := of_int (screen_x s), cursor_y := of_int (screen_y s)\<rparr>);
          let previous_terminal = current_terminal s;
          let s = s\<lparr>switch_data_arr := arr, current_terminal := uint num\<rparr>;
          running \<leftarrow> aget (terminal_running s) (current_terminal s);
          let s = s\<lparr>vid := memcpy (vid s) (page_of previous_terminal) VIDEO 0x1000\<rparr>;
          let s = s\<lparr>vid := memcpy (vid s) VIDEO (page_of (current_terminal s)) 0x1000\<rparr>;
          if running = 1 then do {
            sd \<leftarrow> aget (switch_data_arr s) (current_terminal s);
            let s = s\<lparr>screen_x := uint (cursor_x sd), screen_y := uint (cursor_y sd)\<rparr>;
            let s = cursor_update s;
            let s = s\<lparr>terminal_request := current_terminal s\<rparr>;
            Some (Wait_tick (sti (send_eoi IRQ1 s))) }
          else do {
            let s = send_eoi IRQ1 (terminal_clear s);
            let s = s\<lparr>ps := (ps s)\<lparr>current_pid := SENTINEL_PROCESS\<rparr>,
                       current_process := current_terminal s\<rparr>;
            Some (Exec_shell s) } } })"

section \<open>Switching terminals\<close>

lemma page_of_offsets:
  assumes "0 \<le> t" and "t < 3" and "0 \<le> u" and "u < 3"
  shows "4096 \<le> unat (page_of t - VIDEO)" "4096 \<le> unat (VIDEO - page_of t)"
    "t \<noteq> u \<Longrightarrow> 4096 \<le> unat (page_of t - page_of u)"
proof -
  have "t \<in> {0, 1, 2}" "u \<in> {0, 1, 2}" using assms by auto
  then show "4096 \<le> unat (page_of t - VIDEO)" "4096 \<le> unat (VIDEO - page_of t)"
    "t \<noteq> u \<Longrightarrow> 4096 \<le> unat (page_of t - page_of u)"
    by (auto simp: page_of_def VIDEO_1_def VIDEO_def)
qed

lemma page_copy:
  assumes "4096 \<le> unat (dest - src)"
  shows "memcpy m dest src 0x1000 = copy m src dest 4096"
  using memcpy_copy [of src dest "0x1000" m] assms by (simp add: up_safe_def)

text \<open>Addresses of two pages at least a page apart in both directions.\<close>

lemma page_disjoint:
  fixes p q :: u32
  assumes "4096 \<le> unat (p - q)" and "4096 \<le> unat (q - p)" and "unat (a - p) < 4096"
  shows "4096 \<le> unat (a - q)"
proof (rule ccontr)
  assume "\<not> 4096 \<le> unat (a - q)"
  then have a: "unat (a - q) < 4096" by simp
  show False
  proof (cases "a - q \<le> a - p")
    case True
    then have "unat ((a - p) - (a - q)) = unat (a - p) - unat (a - q)" by (rule unat_sub)
    then have "unat (q - p) < 4096" using assms(3) by (simp add: algebra_simps)
    with assms(2) show False by simp
  next
    case False
    then have "a - p \<le> a - q" by simp
    then have "unat ((a - q) - (a - p)) = unat (a - q) - unat (a - p)" by (rule unat_sub)
    then have "unat (p - q) < 4096" using a by (simp add: algebra_simps)
    with assms(1) show False by simp
  qed
qed

definition terminals_wf :: "'a kernel_scheme \<Rightarrow> bool" where
  "terminals_wf s \<longleftrightarrow> length (switch_data_arr s) = 3 \<and> length (terminal_running s) = 3 \<and>
     0 \<le> current_terminal s \<and> current_terminal s < 3"

text \<open>The display page of a terminal: the screen when it is displayed, else its own page.\<close>

definition shown_at :: "'a kernel_scheme \<Rightarrow> int \<Rightarrow> nat \<Rightarrow> u8" where
  "shown_at s t k = vid s ((if t = current_terminal s then VIDEO else page_of t) + of_nat k)"

lemma terminal_switch_running:
  assumes wf: "terminals_wf s" and n: "uint t = n" "n < 3" "n \<noteq> current_terminal s"
    and run: "terminal_running s ! nat n = 1"
  obtains s' where "terminal_switch t s = Some (Wait_tick s')" "terminals_wf s'"
    "vid s' = copy (copy (vid s) VIDEO (page_of (current_terminal s)) 4096) (page_of n) VIDEO 4096"
    "current_terminal s' = n" "terminal_request s' = n" "terminal_running s' = terminal_running s"
    "switch_data_arr s' = (switch_data_arr s)[nat (current_terminal s) :=
       (switch_data_arr s ! nat (current_terminal s))\<lparr>cursor_x := of_int (screen_x s), cursor_y := of_int (screen_y s)\<rparr>]"
    "screen_x s' = uint (cursor_x (switch_data_arr s ! nat n))"
    "screen_y s' = uint (cursor_y (switch_data_arr s ! nat n))"
proof -
  note w = wf [unfolded terminals_wf_def]
  let ?ct = "current_terminal s"
  have n0: "0 \<le> n" using n(1) by (metis uint_ge_0)
  have nat_ne: "nat ?ct \<noteq> nat n" using w n(2,3) n0 by auto
  let ?arr = "(switch_data_arr s)[nat ?ct := (switch_data_arr s ! nat ?ct)\<lparr>cursor_x := of_int (screen_x s), cursor_y := of_int (screen_y s)\<rparr>]"
  let ?m = "memcpy (memcpy (vid s) (page_of ?ct) VIDEO 0x1000) VIDEO (page_of n) 0x1000"
  have mem: "?m = copy (copy (vid s) VIDEO (page_of ?ct) 4096) (page_of n) VIDEO 4096"
    using page_of_offsets(1,2) [of ?ct 0] page_of_offsets(1,2) [of n 0] w n(2,3) n0 by (simp add: page_copy)
  let ?s = "s\<lparr>iflag := False, switch_data_arr := ?arr, current_terminal := n, vid := ?m,
    screen_x := uint (cursor_x (switch_data_arr s ! nat n)),
    screen_y := uint (cursor_y (switch_data_arr s ! nat n))\<rparr>"
  define s' where "s' = sti (send_eoi IRQ1 ((cursor_update ?s)\<lparr>terminal_request := n\<rparr>))"
  have res: "terminal_switch t s = Some (Wait_tick s')"
    unfolding terminal_switch_def n(1) s'_def
    using w n(2,3) n0 run nat_ne
    by (simp add: NUM_TERMINALS_def aget_def aset_def cli_def Let_def)
  have arr: "switch_data_arr s' = ?arr" "terminal_running s' = terminal_running s" "terminal_request s' = n"
    "current_terminal s' = n"
    by (simp_all add: s'_def IRQ1_def send_eoi_lines outb_def sti_def)
  have con: "vid s' = ?m" "screen_x s' = uint (cursor_x (switch_data_arr s ! nat n))"
    "screen_y s' = uint (cursor_y (switch_data_arr s ! nat n))"
    by (simp_all add: s'_def IRQ1_def send_eoi_lines outb_def sti_def)
  have "terminals_wf s'"
    unfolding terminals_wf_def arr using w n(2) n0 by simp
  from that [OF res this con(1) [unfolded mem] arr(4,3,2,1) con(2,3)] show ?thesis .
qed

text \<open>
  C23: switching from a running terminal to another and back restores what was displayed: while
  the other terminal is displayed the screen holds its saved page and the first terminal's
  screen is in its own page; after switching back the 4096 bytes of the display, the position and
  the other terminal's page are what they were.
\<close>

theorem terminal_switch_roundtrip:
  assumes wf: "terminals_wf s" and on: "on_screen s"
    and n: "uint t = n" "n < 3" "n \<noteq> current_terminal s" "uint u = current_terminal s"
    and run: "terminal_running s ! nat n = 1" "terminal_running s ! nat (current_terminal s) = 1"
    and k: "k < 4096"
  shows "\<exists>s1 s2. terminal_switch t s = Some (Wait_tick s1) \<and> terminal_switch u s1 = Some (Wait_tick s2) \<and>
    vid s1 (VIDEO + of_nat k) = vid s (page_of n + of_nat k) \<and>
    vid s1 (page_of (current_terminal s) + of_nat k) = vid s (VIDEO + of_nat k) \<and>
    current_terminal s1 = n \<and> current_terminal s2 = current_terminal s \<and>
    vid s2 (VIDEO + of_nat k) = vid s (VIDEO + of_nat k) \<and>
    vid s2 (page_of n + of_nat k) = vid s (page_of n + of_nat k) \<and>
    screen_x s2 = screen_x s \<and> screen_y s2 = screen_y s"
proof -
  let ?ct = "current_terminal s"
  have ct: "0 \<le> ?ct" "?ct < 3" "length (switch_data_arr s) = 3" "0 \<le> n"
    using wf n(1) by (auto simp: terminals_wf_def)
  obtain s1 where s1: "terminal_switch t s = Some (Wait_tick s1)" "terminals_wf s1"
    "vid s1 = copy (copy (vid s) VIDEO (page_of ?ct) 4096) (page_of n) VIDEO 4096"
    "current_terminal s1 = n" "terminal_running s1 = terminal_running s"
    "switch_data_arr s1 = (switch_data_arr s)[nat ?ct := (switch_data_arr s ! nat ?ct)\<lparr>cursor_x := of_int (screen_x s), cursor_y := of_int (screen_y s)\<rparr>]"
    by (rule terminal_switch_running [OF wf n(1-3) run(1)]) (rule that; assumption)
  have bk: "?ct \<noteq> current_terminal s1" "terminal_running s1 ! nat ?ct = 1" using s1 n run by auto
  obtain s2 where s2: "terminal_switch u s1 = Some (Wait_tick s2)"
    "vid s2 = copy (copy (vid s1) VIDEO (page_of (current_terminal s1)) 4096) (page_of ?ct) VIDEO 4096"
    "current_terminal s2 = ?ct"
    "screen_x s2 = uint (cursor_x (switch_data_arr s1 ! nat ?ct))"
    "screen_y s2 = uint (cursor_y (switch_data_arr s1 ! nat ?ct))"
    by (rule terminal_switch_running [OF s1(2) n(4) ct(2) bk]) (rule that; assumption)
  have pos: "screen_x s2 = screen_x s" "screen_y s2 = screen_y s"
    using s2(4,5) s1(6) ct on by (simp_all add: on_screen_def uint_word_of_int_eq take_bit_int_eq_self)
  have kk: "unat (of_nat k :: u32) = k" using k by (simp add: unat_of_nat)
  have off: "unat (x + of_nat k - x) < 4096" for x :: u32 using kk k by simp
  note d = page_of_offsets [OF ct(1,2) ct(4) n(2)] page_of_offsets [OF ct(4) n(2) ct(1,2)]
  have sep: "4096 \<le> unat (VIDEO + of_nat k - page_of ?ct)" "4096 \<le> unat (VIDEO + of_nat k - page_of n)"
    "4096 \<le> unat (page_of ?ct + of_nat k - VIDEO)" "4096 \<le> unat (page_of n + of_nat k - VIDEO)"
    "4096 \<le> unat (page_of ?ct + of_nat k - page_of n)" "4096 \<le> unat (page_of n + of_nat k - page_of ?ct)"
    using page_disjoint [OF _ _ off] d n(3) by metis+
  have v1: "vid s1 (VIDEO + of_nat k) = vid s (page_of n + of_nat k)"
    "vid s1 (page_of ?ct + of_nat k) = vid s (VIDEO + of_nat k)"
    using sep kk k unfolding s1(3) copy_def by auto
  have "vid s2 (VIDEO + of_nat k) = vid s (VIDEO + of_nat k)"
    "vid s2 (page_of n + of_nat k) = vid s (page_of n + of_nat k)"
    using sep kk k v1 unfolding s2(2) s1(4) copy_def by auto
  with s1 s2 v1 pos show ?thesis by blast
qed

theorem terminal_switch_roundtrip_witness:
  "\<exists>s1 s2. terminal_switch 1 (idle_kernel\<lparr>terminal_running := [1, 1, 0]\<rparr>) = Some (Wait_tick s1) \<and>
     terminal_switch 0 s1 = Some (Wait_tick s2) \<and> current_terminal s1 = 1 \<and> current_terminal s2 = 0"
proof -
  let ?s = "idle_kernel\<lparr>terminal_running := [1, 1, 0]\<rparr>"
  have "terminals_wf ?s" "on_screen ?s"
    by (simp_all add: terminals_wf_def on_screen_def idle_kernel_def)
  from terminal_switch_roundtrip [OF this, of 1 1 0 0] show ?thesis by (auto simp: idle_kernel_def)
qed

end
