(* ===== verification/Keyboard.thy ===== *)
theory Keyboard
  imports Terminal
begin

text \<open>
  The keyboard interrupt: \<open>handle_keyboard_input\<close> of \<^verbatim>\<open>student-distrib/keyboard.c\<close> with the
  translation tables of \<^verbatim>\<open>keyboard.h\<close>, and \<open>handle_keyboard\<close> of \<^verbatim>\<open>interrupts.c\<close>.

  Besides its effect on the state, a key may ask for another terminal; the outcome is that of
  \<open>terminal_switch\<close> then, and \<open>Returned\<close> otherwise.
\<close>

section \<open>Translation tables (keyboard.h)\<close>

definition scancode :: "u8 list" where
  "scancode =
     [0, 0, 49, 50, 51, 52, 53, 54, 55, 56, 57, 48, 45, 61, 8, 0, 113, 119, 101, 114, 116,
      121, 117, 105, 111, 112, 91, 93, 10, 99, 97, 115, 100, 102, 103, 104, 106, 107, 108,
      59, 39, 96, 0, 92, 122, 120, 99, 118, 98, 110, 109, 44, 46, 47, 0, 42, 0, 32, 0, 0,
      0, 0, 0, 0, 0, 0, 0, 0, 0, 0, 0, 0, 0, 0, 45, 0, 0, 0, 43, 0, 0, 0, 0, 0, 0, 0, 60,
      0, 0, 0, 0, 0, 33, 64, 35, 36, 37, 94, 38, 42, 40, 41, 95, 43, 8, 0, 81, 87, 69, 82,
      84, 89, 85, 73, 79, 80, 123, 125, 10, 0, 65, 83, 68, 70, 71, 72, 74, 75, 76, 58, 34,
      126, 0, 124, 90, 88, 67, 86, 66, 78, 77, 60, 62, 63, 0, 42, 0, 32, 0, 0, 0, 0, 0, 0,
      0, 0, 0, 0, 0, 0, 0, 0, 0, 0, 45, 0, 0, 0, 43, 0, 0, 0, 0, 0, 0, 0, 62, 0, 0, 0] @ replicate 76 0"

definition CAPScode :: "u8 list" where
  "CAPScode =
     [0, 0, 49, 50, 51, 52, 53, 54, 55, 56, 57, 48, 45, 61, 8, 0, 81, 87, 69, 82, 84, 89,
      85, 73, 79, 80, 91, 93, 10, 67, 65, 83, 68, 70, 71, 72, 74, 75, 76, 59, 39, 96, 0,
      92, 90, 88, 67, 86, 66, 78, 77, 44, 46, 47, 0, 42, 0, 32, 0, 0, 0, 0, 0, 0, 0, 0, 0,
      0, 0, 0, 0, 0, 0, 0, 45, 0, 0, 0, 43, 0, 0, 0, 0, 0, 0, 0, 60, 0, 0, 0, 0, 0, 33,
      64, 35, 36, 37, 94, 38, 42, 40, 41, 95, 43, 8, 0, 113, 119, 101, 114, 116, 121, 117,
      105, 111, 112, 123, 125, 10, 0, 97, 115, 100, 102, 103, 104, 106, 107, 108, 58, 34,
      126, 0, 124, 122, 120, 99, 118, 98, 110, 109, 60, 62, 63, 0, 42, 0, 32, 0, 0, 0, 0,
      0, 0, 0, 0, 0, 0, 0, 0, 0, 0, 0, 0, 45, 0, 0, 0, 43, 0, 0, 0, 0, 0, 0, 0, 62, 0, 0, 0] @ replicate 76 0"

definition altcode :: "u8 list" where
  "altcode =
     [0, 0, 49, 50, 51, 52, 53, 54, 55, 56, 57, 48, 45, 61, 8, 0, 81, 87, 69, 82, 84, 89,
      85, 73, 79, 80, 91, 93, 10, 67, 65, 83, 68, 70, 71, 72, 74, 75, 76, 59, 39, 96, 0,
      92, 90, 88, 67, 86, 66, 78, 77, 44, 46, 47, 0, 42, 0, 32, 0, 0, 0, 0, 0, 0, 0, 0, 0,
      0, 0, 0, 0, 0, 0, 0, 45, 0, 0, 0, 43, 0, 0, 0, 0, 0, 0, 0, 60, 0, 0, 0, 0, 0, 33,
      64, 35, 36, 37, 94, 38, 42, 40, 41, 95, 43, 8, 0, 113, 119, 101, 114, 116, 121, 117,
      105, 111, 112, 123, 125, 10, 0, 97, 115, 100, 102, 103, 104, 106, 107, 108, 58, 34,
      126, 0, 124, 122, 120, 99, 118, 98, 110, 109, 60, 62, 63, 0, 42, 0, 32, 0, 241, 242,
      243, 244, 0, 0, 0, 0, 0, 0, 0, 0, 0, 0, 0, 45, 0, 0, 0, 43, 0, 0, 0, 0, 0, 0, 0, 62,
      0, 0, 0] @ replicate 76 0"

definition LSHIFTPRESS :: u16 where "LSHIFTPRESS = 0x36"
definition RSHIFTPRESS :: u16 where "RSHIFTPRESS = 0x2A"
definition LSHIFTRELEASE :: u16 where "LSHIFTRELEASE = 0xB6"
definition RSHIFTRELEASE :: u16 where "RSHIFTRELEASE = 0xAA"
definition CAPSLOCK :: u16 where "CAPSLOCK = 0x3A"
definition RELEASE :: u16 where "RELEASE = 0x80"
definition SHIFT :: u16 where "SHIFT = 90"
definition ENTER :: u16 where "ENTER = 0x1C"
definition CTRLPRESS :: u16 where "CTRLPRESS = 0x1D"
definition CTRLRELEASE :: u16 where "CTRLRELEASE = 0x9D"
definition ALTPRESS :: u16 where "ALTPRESS = 0x38"
definition ALTRELEASE :: u16 where "ALTRELEASE = 0xB8"
definition KEY_L :: u16 where "KEY_L = 0x26"
definition BACKSPACE :: u16 where "BACKSPACE = 0x0E"
definition UP_ARROW :: u16 where "UP_ARROW = 0x48"
definition DOWN_ARROW :: u16 where "DOWN_ARROW = 0x50"
definition LEFT_ARROW :: u16 where "LEFT_ARROW = 0x4B"
definition RIGHT_ARROW :: u16 where "RIGHT_ARROW = 0x4D"
definition ALT_F1 :: u8 where "ALT_F1 = 0xF1"
definition ALT_F2 :: u8 where "ALT_F2 = 0xF2"
definition ALT_F3 :: u8 where "ALT_F3 = 0xF3"
definition INVALID_SCANCODE :: u8 where "INVALID_SCANCODE = 0"

lemmas key_consts = LSHIFTPRESS_def RSHIFTPRESS_def LSHIFTRELEASE_def RSHIFTRELEASE_def CAPSLOCK_def
  RELEASE_def SHIFT_def ENTER_def CTRLPRESS_def CTRLRELEASE_def ALTPRESS_def ALTRELEASE_def KEY_L_def
  BACKSPACE_def UP_ARROW_def DOWN_ARROW_def LEFT_ARROW_def RIGHT_ARROW_def ALT_F1_def ALT_F2_def
  ALT_F3_def INVALID_SCANCODE_def

section \<open>keyboard.c\<close>

text \<open>The choice of table: shift, caps lock and alt; any other combination is the plain table.\<close>

definition translate :: "u16 \<Rightarrow> 'a kernel_scheme \<Rightarrow> u8 option" where
  "translate key s =
     (if shift_down s = 1 \<and> caps_lock s \<noteq> 1 \<and> alt_down s \<noteq> 1 then aget scancode (uint (key + SHIFT))
      else if shift_down s \<noteq> 1 \<and> caps_lock s = 1 \<and> alt_down s \<noteq> 1 then aget CAPScode (uint key)
      else if shift_down s = 1 \<and> caps_lock s = 1 \<and> alt_down s \<noteq> 1 then aget CAPScode (uint (key + SHIFT))
      else if shift_down s \<noteq> 1 \<and> caps_lock s \<noteq> 1 \<and> alt_down s = 1 then aget altcode (uint (key + SHIFT))
      else aget scancode (uint key))"

definition stay :: "'a kernel_scheme \<Rightarrow> 'a kernel_scheme outcome" where
  "stay s = Returned 0 s"

definition enter_key :: "'a kernel_scheme \<Rightarrow> 'a kernel_scheme option" where
  "enter_key s = do {
     row \<leftarrow> cur_row s;
     c \<leftarrow> aget row 0;
     s \<leftarrow> (if c \<noteq> 0 then do { s \<leftarrow> copy_to_history s; increment_history_indices s } else Some s);
     row \<leftarrow> cur_row s;
     sz \<leftarrow> cur_size s;
     row \<leftarrow> aset row sz 10;
     s \<leftarrow> put_row row s;
     s \<leftarrow> terminal_return s;
     clear_keyboard_buffer s }"

definition handle_keyboard_input :: "u16 \<Rightarrow> 'a kernel_scheme \<Rightarrow> 'a kernel_scheme outcome option" where
  "handle_keyboard_input key s =
     (let pressed = (key AND RELEASE = 0)
      in if key = CAPSLOCK then Some (stay (s\<lparr>caps_lock := (if caps_lock s \<noteq> 1 then 1 else 0)\<rparr>))
      else if key = CTRLPRESS then Some (stay (s\<lparr>ctrl_down := 1\<rparr>))
      else if key = CTRLRELEASE then Some (stay (s\<lparr>ctrl_down := 0\<rparr>))
      else if key = ALTPRESS then Some (stay (s\<lparr>alt_down := 1\<rparr>))
      else if key = ALTRELEASE then Some (stay (s\<lparr>alt_down := 0\<rparr>))
      else if key = LSHIFTPRESS then Some (stay (s\<lparr>shift_down := (if shift_down s \<noteq> 1 then 1 else 0)\<rparr>))
      else if key = RSHIFTPRESS then Some (stay (s\<lparr>shift_down := (if shift_down s \<noteq> 1 then 1 else 0)\<rparr>))
      else if key = LSHIFTRELEASE then Some (stay (s\<lparr>shift_down := (if shift_down s = 1 then 0 else 1)\<rparr>))
      else if key = RSHIFTRELEASE then Some (stay (s\<lparr>shift_down := (if shift_down s = 1 then 0 else 1)\<rparr>))
      else if pressed \<and> key = UP_ARROW then map_option stay (up_history s)
      else if pressed \<and> key = DOWN_ARROW then map_option stay (down_history s)
      else if pressed \<and> key = LEFT_ARROW then map_option stay (keyboard_left_arrow s)
      else if pressed \<and> key = RIGHT_ARROW then map_option stay (keyboard_right_arrow s)
      else if pressed \<and> key = BACKSPACE then do {
        x \<leftarrow> aget (bufferIDX s) (current_terminal s);
        if x = 0 then Some (stay s) else map_option stay (keyboard_backspace s) }
      else if pressed \<and> key = ENTER then map_option stay (enter_key s)
      else if pressed \<and> ctrl_down s \<noteq> 1 then do {
        z \<leftarrow> aget (bufferSIZE s) (current_terminal s);
        if z = MAX_CHARACTERS then Some (stay s)
        else do {
          c \<leftarrow> translate key s;
          if c = INVALID_SCANCODE then Some (stay s)
          else if c = ALT_F1 then terminal_switch 0 s
          else if c = ALT_F2 then terminal_switch 1 s
          else if c = ALT_F3 then terminal_switch 2 s
          else map_option stay (keyboard_insert c s) } }
      else if pressed \<and> ctrl_down s = 1 then
        if key = KEY_L then do { s \<leftarrow> clear_keyboard_buffer s; Some (stay (terminal_clear s)) }
        else Some (stay s)
      else Some (stay s))"

section \<open>interrupts.c: handle_keyboard\<close>

text \<open>
  \<open>key\<close> is the byte read from the keyboard port. The page the interrupted process writes to is
  put back, the end of interrupt sent and the flags restored when the key's handling returns;
  when it waits or runs a shell, that has not happened yet.
\<close>

definition handle_keyboard :: "u8 \<Rightarrow> 'a kernel_scheme \<Rightarrow> 'a kernel_scheme outcome option" where
  "handle_keyboard key s = do {
     let fl = iflag s;
     let video_past = video_mem s;
     r \<leftarrow> handle_keyboard_input (ucast key) ((cli s)\<lparr>video_mem := VIDEO\<rparr>);
     Some (case r of
       Returned v s \<Rightarrow> Returned v (restore_flags fl (send_eoi IRQ1 (s\<lparr>video_mem := video_past\<rparr>)))
     | Wait_tick s \<Rightarrow> Wait_tick s
     | Exec_shell s \<Rightarrow> Exec_shell s) }"

section \<open>The Enter key\<close>

text \<open>Equality of the variables of the line editor and its history.\<close>

definition same_input :: "'a kernel_scheme \<Rightarrow> 'a kernel_scheme \<Rightarrow> bool" where
  "same_input s t \<longleftrightarrow> current_terminal t = current_terminal s \<and> buffer t = buffer s \<and>
     bufferIDX t = bufferIDX s \<and> bufferSIZE t = bufferSIZE s \<and> history t = history s \<and>
     historyIDX t = historyIDX s \<and> historyBASE t = historyBASE s \<and> historySIZE t = historySIZE s \<and>
     schedule_top t = schedule_top s \<and> schedule_stack t = schedule_stack s"

lemma same_input_more: "console.more t = console.more s \<Longrightarrow> same_input s t"
  using more_kernel [of t s] by (simp add: same_input_def)

lemma same_input_facts:
  assumes "same_input s t"
  shows "editor_wf t = editor_wf s" "history_wf t p = history_wf s p" "edited t = edited s" "row_of t = row_of s"
    "retyped u row x z t = retyped u row x z s"
  using assms by (simp_all add: same_input_def editor_wf_def history_wf_def displayed_pid_def edited_def
      row_of_def idx_of_def size_of_def retyped_def)

lemma increment_run:
  assumes h: "history_wf s p"
  obtains t where "increment_history_indices s = Some t"
    "t = s\<lparr>historyBASE := historyBASE t, historyIDX := historyIDX t, historySIZE := historySIZE t\<rparr>"
    "history_wf t p" "0 < historySIZE t ! nat p" "historyIDX t ! nat p = historyBASE t ! nat p"
    "historyBASE t ! nat p = (if historyBASE s ! nat p = 19 then 0 else historyBASE s ! nat p + 1)"
proof -
  note hw = h [unfolded history_wf_def]
  let ?b = "historyBASE s ! nat p" and ?n = "historySIZE s ! nat p"
  let ?b' = "(?b + 1) smod 20"
  have b': "?b' = (if ?b = 19 then 0 else ?b + 1)" using hw by (auto simp: smod_small signed_modulo_int_def)
  define t where "t = s\<lparr>historyBASE := (historyBASE s)[nat p := ?b'], historyIDX := (historyIDX s)[nat p := ?b'],
    historySIZE := (if ?n < 20 then (historySIZE s)[nat p := ?n + 1] else historySIZE s)\<rparr>"
  have np: "nat p < 7" using hw by auto
  have g: "displayed_pid s = Some p" "aget (historyBASE s) p = Some ?b" "aget (historySIZE s) p = Some ?n"
    "aset (historyBASE s) p ?b' = Some ((historyBASE s)[nat p := ?b'])"
    "aget ((historyBASE s)[nat p := ?b']) p = Some ?b'"
    "aset (historyIDX s) p ?b' = Some ((historyIDX s)[nat p := ?b'])"
    "aset (historySIZE s) p (?n + 1) = Some ((historySIZE s)[nat p := ?n + 1])"
    using hw np by (simp_all add: aget_def aset_def)
  have res: "increment_history_indices s = Some t"
    unfolding increment_history_indices_def NUM_HISTORY_BUFFERS_def t_def
    by (cases "?n < 20") (simp_all add: g)
  have e: "displayed_pid t = displayed_pid s" "history t = history s" "length (historyBASE t) = 7"
    "length (historyIDX t) = 7" "length (historySIZE t) = 7" "historyBASE t ! nat p = ?b'"
    "historyIDX t ! nat p = ?b'" "historySIZE t ! nat p = (if ?n < 20 then ?n + 1 else ?n)"
    using hw np by (simp_all add: displayed_pid_def t_def)
  have b: "0 \<le> ?b'" "?b' < 20" "?n < 20 \<longrightarrow> (?n + 1 < 20 \<longrightarrow> ?b' = ?n + 1)" "0 \<le> ?n" "?n \<le> 20"
    using hw unfolding b' by auto
  have "history_wf t p"
    unfolding history_wf_def e using hw b by (auto split: if_splits)
  moreover have "0 < historySIZE t ! nat p" unfolding e using b(4) by simp
  moreover have "t = s\<lparr>historyBASE := historyBASE t, historyIDX := historyIDX t, historySIZE := historySIZE t\<rparr>"
    by (simp add: t_def)
  ultimately show ?thesis using that [OF res] e(6,7) b' by simp
qed

text \<open>The line as it is displayed, without regard to the cursor.\<close>

definition whole_line :: "'a kernel_scheme \<Rightarrow> u8 list" where
  "whole_line s = fst (edited s) @ snd (edited s)"

lemma whole_line_row:
  assumes "editor_wf s"
  shows "whole_line s = take (size_of s) (row_of s)" "row_of s = whole_line s @ replicate (128 - size_of s) 0"
    "length (whole_line s) = size_of s"
proof -
  note w = editor_wf_row [OF assms]
  show l: "whole_line s = take (size_of s) (row_of s)"
    using w(5) append_take_drop_id [of "idx_of s" "take (size_of s) (row_of s)"]
    by (simp add: whole_line_def edited_def min_absorb1)
  show "length (whole_line s) = size_of s" using w(2,6) by (simp add: l)
  have "drop (size_of s) (row_of s) = replicate (128 - size_of s) 0"
    by (rule nth_equalityI) (use w(2,7) in \<open>auto simp: zero_from_def\<close>)
  then show "row_of s = whole_line s @ replicate (128 - size_of s) 0"
    using append_take_drop_id [of "size_of s" "row_of s"] by (simp add: l)
qed

definition readers_wf :: "'a kernel_scheme \<Rightarrow> bool" where
  "readers_wf s \<longleftrightarrow> length (return_switch s) = 3 \<and> length (read_buffer s) = 3 \<and>
     (\<forall>r \<in> set (read_buffer s). length r = 128)"

end
