(* ===== verification/Terminal_Input.thy ===== *)
theory Terminal_Input
  imports Filesystem Keyboard
begin

text \<open>
  Reading a line: \<open>terminal_read\<close> of \<^verbatim>\<open>student-distrib/terminal.c\<close>, which waits for the keyboard
  interrupts that deliver a line. \<open>keys\<close> are the scan codes that arrive while it waits. A key
  that switches the terminal leaves the waiting process to the scheduler and is \<open>None\<close> here, as
  is a wait that does not end, and an access outside \<open>read_buffer\<close>.
\<close>

definition serve_key :: "u8 \<Rightarrow> 'a kernel_scheme \<Rightarrow> 'a kernel_scheme option" where
  "serve_key key s = (case handle_keyboard key s of Some (Returned _ s') \<Rightarrow> Some s' | _ \<Rightarrow> None)"

text \<open>\<open>while (read_buffer[cip][i] != '\n') i++;\<close>\<close>

function newline_scan :: "u8 list \<Rightarrow> int \<Rightarrow> int option" where
  "newline_scan row i =
     (case aget row i of None \<Rightarrow> None | Some c \<Rightarrow> if c \<noteq> 10 then newline_scan row (i + 1) else Some i)"
  by pat_completeness auto
termination
  by (relation "measure (\<lambda>(row, i). nat (int (length row) - i))") (auto simp: aget_eq_Some_iff)

declare newline_scan.simps [simp del]

definition terminal_read :: "u8 list \<Rightarrow> int \<Rightarrow> u32 \<Rightarrow> int \<Rightarrow> 'a kernel_scheme \<Rightarrow>
    (int \<times> 'a kernel_scheme) option" where
  "terminal_read keys fd buf nbytes s =
     (if nbytes < 1 then Some (-1, s)
      else if buf = 0 then Some (-1, s)
      else do {
        let cip = current_process s;
        rs \<leftarrow> aset (return_switch s) cip SWITCH_ON;
        (s, rest) \<leftarrow> spin (\<lambda>s. map_option (\<lambda>v. v \<noteq> SWITCH_OFF) (aget (return_switch s) cip))
          serve_key keys (sti (s\<lparr>return_switch := rs\<rparr>));
        let s = cli s;
        rb \<leftarrow> aset2 (read_buffer s) (cip, nbytes - 1) 0;
        row \<leftarrow> aget rb cip;
        i \<leftarrow> newline_scan row 0;
        out \<leftarrow> strncpy (bytes_at (vid s) buf (nat nbytes)) row (nat nbytes);
        let s = s\<lparr>read_buffer := rb, vid := overlay (vid s) buf out\<rparr>;
        let s = cursor_update (next_line s);
        Some (i + 1, sti (send_eoi IRQ1 s)) })"

end
