(* ===== verification/Paging.thy ===== *)
theory Paging
  imports Kernel_State
begin

text \<open>
  The page directory and the page table of the kernel: \<open>paging_init\<close> of
  \<^verbatim>\<open>student-distrib/interrupts.c\<close> and the part of \<open>execute\<close> (\<^verbatim>\<open>syscalls.c\<close>) that sets up the
  address space of a program.

  There is one directory, \<open>process_pages\<close>, and one table, \<open>process_tables\<close>; \<open>pt\<close> is the address
  the linker gives the table, a multiple of 4096. \<open>flush_tlb\<close> reloads \<open>cr3\<close> and changes no
  variable. What the processor does with the two arrays is \<open>page_walk\<close>, the two-level walk of
  the Intel manual with 4 MB pages enabled (\<^verbatim>\<open>paging.S\<close>); \<open>address_space\<close> is the mapping the
  kernel means to set up, and the routines are shown to implement it.
\<close>

definition PAGE_SIZE :: int where "PAGE_SIZE = 1024"
definition VIDEOMEM :: int where "VIDEOMEM = 184"
definition VID_IDX :: int where "VID_IDX = 33"
definition VIRTUAL_PROGRAM :: int where "VIRTUAL_PROGRAM = 32"
definition KERNEL :: u32 where "KERNEL = 0x00400083"
definition KERNEL_USER :: u32 where "KERNEL_USER = 0x00400087"
definition PRESENT_MASK :: u32 where "PRESENT_MASK = 1"
definition READWRITE_MASK :: u32 where "READWRITE_MASK = 2"
definition USER_MASK :: u32 where "USER_MASK = 4"
definition PAGE_ARGS :: u32 where "PAGE_ARGS = 0x87"
definition M_4 :: u32 where "M_4 = 0x400000"
definition K_4 :: u32 where "K_4 = 0x4000"
definition KERNEL_ADDR :: u32 where "KERNEL_ADDR = 0x400000"
definition VIDMAP :: u32 where "VIDMAP = 0x8421000"

lemmas paging_consts = PAGE_SIZE_def VIDEOMEM_def VID_IDX_def VIRTUAL_PROGRAM_def KERNEL_def
  KERNEL_USER_def PRESENT_MASK_def READWRITE_MASK_def USER_MASK_def PAGE_ARGS_def M_4_def VIDMAP_def

section \<open>The routines\<close>

definition fill_pages :: "u32 \<Rightarrow> u32 list \<Rightarrow> u32 list option" where
  "fill_pages v pages = loop_opt 0 PAGE_SIZE (\<lambda>i pages. aset pages i v) pages"

text \<open>\<open>paging_init\<close> fills the directory twice; its second loop is the one meant for the table.\<close>

definition paging_init :: "u32 \<Rightarrow> 'a sched_scheme \<Rightarrow> 'a sched_scheme option" where
  "paging_init pt s = do {
     pages \<leftarrow> fill_pages 2 (process_pages s);
     pages \<leftarrow> fill_pages 2 pages;
     pages \<leftarrow> aset pages 1 KERNEL;
     tabs \<leftarrow> aset (process_tables s) VIDEOMEM (VIDEO OR PRESENT_MASK);
     pages \<leftarrow> aset pages 0 (pt OR PRESENT_MASK OR READWRITE_MASK);
     Some (s\<lparr>process_pages := pages, process_tables := tabs\<rparr>) }"

text \<open>The entry of the program page, \<open>(M_4 * (current_pid + 1)) | PAGE_ARGS\<close>.\<close>

definition program_entry :: "int \<Rightarrow> u32" where
  "program_entry p = (M_4 * (of_int p + 1)) OR PAGE_ARGS"

definition set_program_page :: "'a sched_scheme \<Rightarrow> 'a sched_scheme option" where
  "set_program_page s = do {
     pages \<leftarrow> aset (process_pages s) VIRTUAL_PROGRAM (program_entry (current_pid (ps s)));
     Some (s\<lparr>process_pages := pages\<rparr>) }"

definition user_entry :: "u32 \<Rightarrow> u32" where
  "user_entry a = a OR USER_MASK OR READWRITE_MASK OR PRESENT_MASK"

text \<open>\<open>process_pages[VID_IDX] = ((addr >> 12) << 12) | 0x7\<close> with \<open>addr = &process_tables[VID_IDX]\<close>;
  the shift to the right is arithmetic.\<close>

definition link_video_table :: "u32 \<Rightarrow> 'a sched_scheme \<Rightarrow> 'a sched_scheme option" where
  "link_video_table pt s = do {
     let addr = pt + of_int (4 * VID_IDX);
     pages \<leftarrow> aset (process_pages s) VID_IDX (push_bit 12 (signed_drop_bit 12 addr) OR 0x7);
     Some (s\<lparr>process_pages := pages\<rparr>) }"

definition set_video_page :: "u32 \<Rightarrow> u32 \<Rightarrow> 'a sched_scheme \<Rightarrow> 'a sched_scheme option" where
  "set_video_page pt a s = do {
     tabs \<leftarrow> aset (process_tables s) VID_IDX (user_entry a);
     link_video_table pt (s\<lparr>process_tables := tabs\<rparr>) }"

text \<open>The two arrays as \<open>execute\<close> builds them for the running process.\<close>

definition execute_paging :: "u32 \<Rightarrow> 'a sched_scheme \<Rightarrow> 'a sched_scheme option" where
  "execute_paging pt s = do {
     s \<leftarrow> loop_opt 0 PAGE_SIZE (\<lambda>i s. do {
       pages \<leftarrow> aset (process_pages s) i READWRITE_MASK;
       tabs \<leftarrow> aset (process_tables s) i READWRITE_MASK;
       Some (s\<lparr>process_pages := pages, process_tables := tabs\<rparr>) }) s;
     pages \<leftarrow> aset (process_pages s) 1 KERNEL_USER;
     tabs \<leftarrow> aset (process_tables s) VIDEOMEM (VIDEO OR READWRITE_MASK OR PRESENT_MASK);
     tabs \<leftarrow> aset tabs 0xB9 (user_entry VIDEO_1);
     tabs \<leftarrow> aset tabs 0xBA (user_entry (VIDEO_1 + 0x1000));
     tabs \<leftarrow> aset tabs 0xBB (user_entry (VIDEO_1 + (0x1000 * 2)));
     pages \<leftarrow> aset pages 0 (user_entry pt);
     s \<leftarrow> set_program_page (s\<lparr>process_pages := pages, process_tables := tabs\<rparr>);
     set_video_page pt VIDEO s }"

text \<open>The kernel stack of a process: \<open>KERNEL_ADDR + (M_4 - 0xF) - (2 * K_4 * current_pid)\<close>.\<close>

definition kernel_stack :: "int \<Rightarrow> u32" where
  "kernel_stack p = KERNEL_ADDR + (M_4 - 0xF) - (2 * K_4 * of_int p)"

section \<open>The walk of the processor\<close>

text \<open>
  The result is the physical address, \<open>None\<close> a page fault; \<open>user\<close> says whether the access is
  made in user mode. The only table is the one at \<open>pt\<close>.
\<close>

definition page_walk :: "u32 \<Rightarrow> u32 list \<Rightarrow> u32 list \<Rightarrow> bool \<Rightarrow> u32 \<Rightarrow> u32 option" where
  "page_walk pt pages tabs user v =
     (let pde = pages ! unat (drop_bit 22 v)
      in if pde AND 1 = 0 \<or> user \<and> pde AND 4 = 0 then None
         else if pde AND 0x80 \<noteq> 0 then Some ((pde AND 0xFFC00000) OR (v AND 0x3FFFFF))
         else if pde AND 0xFFFFF000 \<noteq> pt then None
         else
           (let pte = tabs ! unat (drop_bit 12 v AND 0x3FF)
            in if pte AND 1 = 0 \<or> user \<and> pte AND 4 = 0 then None
               else Some ((pte AND 0xFFFFF000) OR (v AND 0xFFF))))"

definition walk :: "u32 \<Rightarrow> 'a sched_scheme \<Rightarrow> bool \<Rightarrow> u32 \<Rightarrow> u32 option" where
  "walk pt s user v = page_walk pt (process_pages s) (process_tables s) user v"

section \<open>The address space of a program\<close>

text \<open>
  The mapping \<open>execute\<close> means to give process \<open>p\<close> with its screen at the physical page
  \<open>video\<close>: the kernel's 4 MB at their own address, the program's 4 MB frame at 128 MB, and the
  one page table seen at 0 and again at 132 MB, in which page 33 is the screen of the process,
  page 184 the display and pages 185 to 187 the saved screens of the terminals.
\<close>

definition table_space :: "u32 \<Rightarrow> bool \<Rightarrow> u32 \<Rightarrow> u32 option" where
  "table_space video user t =
     (if t = 33 then Some video
      else if t = 184 then if user then None else Some 0xB8000
      else if t = 185 \<or> t = 186 \<or> t = 187 then Some (t * 0x1000)
      else None)"

definition address_space :: "int \<Rightarrow> u32 \<Rightarrow> bool \<Rightarrow> u32 \<Rightarrow> u32 option" where
  "address_space p video user v =
     (let d = drop_bit 22 v
      in if d = 32 then Some (0x400000 * (of_int p + 1) + (v AND 0x3FFFFF))
         else if d = 1 then Some v
         else if d = 0 \<or> d = 33 then
           map_option (\<lambda>a. a + (v AND 0xFFF)) (table_space video user (drop_bit 12 v AND 0x3FF))
         else None)"

text \<open>The contents of the two arrays that describe it.\<close>

definition page_dir :: "u32 \<Rightarrow> int \<Rightarrow> u32 list" where
  "page_dir pt p = (replicate 1024 2)[1 := KERNEL_USER, 0 := user_entry pt,
     32 := program_entry p, 33 := pt OR 7]"

definition page_tab :: "u32 \<Rightarrow> u32 list" where
  "page_tab video = (replicate 1024 2)[184 := 0xB8003, 185 := 0xB9007, 186 := 0xBA007,
     187 := 0xBB007, 33 := user_entry video]"

definition in_space :: "u32 \<Rightarrow> int \<Rightarrow> u32 \<Rightarrow> 'a sched_scheme \<Rightarrow> bool" where
  "in_space pt p video s \<longleftrightarrow> process_pages s = page_dir pt p \<and> process_tables s = page_tab video"

definition page_aligned :: "u32 \<Rightarrow> bool" where
  "page_aligned a \<longleftrightarrow> a AND 0xFFF = 0"

section \<open>Entries\<close>

lemma and_or_distrib: "(a OR b) AND c = (a AND c) OR (b AND c)" for a b c :: "'a::len word"
  by (rule bit.conj_disj_distrib2)

lemma page_aligned_keep: "page_aligned a \<Longrightarrow> a AND 0xFFFFF000 = a"
proof -
  assume "page_aligned a"
  have "(0xFFFFF000 OR 0xFFF :: u32) = - 1" by simp
  then have "a = a AND (0xFFFFF000 OR 0xFFF)" by (simp only: and.right_neutral)
  also have "\<dots> = (a AND 0xFFFFF000) OR (a AND 0xFFF)" by (rule bit.conj_disj_distrib)
  finally show ?thesis using \<open>page_aligned a\<close> by (simp add: page_aligned_def)
qed

lemma page_aligned_small: "page_aligned a \<Longrightarrow> b AND 0xFFF = b \<Longrightarrow> a AND b = 0"
proof -
  assume a: "page_aligned a" and b: "b AND 0xFFF = b"
  have "a AND b = (a AND 0xFFF) AND b" by (subst b [symmetric]) (simp only: ac_simps)
  with a show ?thesis by (simp add: page_aligned_def)
qed

lemma entry_fields:
  assumes "page_aligned a"
  shows "(a OR 7) AND 1 \<noteq> 0" "(a OR 7) AND 4 \<noteq> 0" "(a OR 7) AND 0x80 = 0" "(a OR 7) AND 0xFFFFF000 = a"
  using page_aligned_keep [OF assms] page_aligned_small [OF assms]
  by (simp_all add: and_or_distrib)

lemma user_entry_eq: "user_entry a = a OR 7"
  by (simp add: user_entry_def USER_MASK_def READWRITE_MASK_def PRESENT_MASK_def or.assoc)

lemma link_value:
  assumes "page_aligned pt"
  shows "push_bit 12 (signed_drop_bit 12 (pt + 132)) OR 7 = pt OR 7"
proof -
  have "pt + 132 = pt OR 132"
    using page_aligned_small [OF assms, of 132] by (simp add: disjunctive_add_eq_or)
  moreover have "push_bit 12 (signed_drop_bit 12 w) = w AND NOT (mask 12)" for w :: u32
    by (rule bit_word_eqI) (auto simp: bit_simps)
  moreover have "NOT (mask 12) = (0xFFFFF000 :: u32)" by (simp add: mask_eq_exp_minus_1)
  ultimately have "push_bit 12 (signed_drop_bit 12 (pt + 132)) = (pt OR 132) AND 0xFFFFF000"
    by (simp only:)
  with page_aligned_keep [OF assms] show ?thesis by (simp add: and_or_distrib)
qed

lemma drop_bit_22_bound: "unat (drop_bit 22 (v :: u32)) < 1024"
  using less_mult_imp_div_less [of "unat v" 1024 "2 ^ 22"] unat_u32_bound [of v]
  by (simp add: drop_bit_eq_div unat_div)

lemma table_index_bound: "unat (drop_bit 12 v AND 0x3FF :: u32) < 1024"
  using word_and_le1 [of "drop_bit 12 v" "0x3FF"] by (simp add: word_le_nat_alt)

lemma page_dir_nth:
  "n < 1024 \<Longrightarrow> page_dir pt p ! n =
     (if n = 33 then pt OR 7 else if n = 32 then program_entry p else if n = 0 then user_entry pt
      else if n = 1 then KERNEL_USER else 2)"
  by (simp add: page_dir_def nth_list_update)

lemma page_tab_nth:
  "n < 1024 \<Longrightarrow> page_tab video ! n =
     (if n = 33 then user_entry video else if n = 187 then 0xBB007 else if n = 186 then 0xBA007
      else if n = 185 then 0xB9007 else if n = 184 then 0xB8003 else 2)"
  by (simp add: page_tab_def nth_list_update)

lemma or_is_plus: "a AND b = 0 \<Longrightarrow> a OR b = a + b" for a b :: u32
  by (simp add: disjunctive_add_eq_or)

lemma and_and_zero: "a AND c = 0 \<Longrightarrow> a AND (v AND c) = 0" for a b c v :: u32
  by (simp add: and.left_commute [of a v c])

lemma big_page_identity:
  fixes v :: u32
  assumes "drop_bit 22 v = 1"
  shows "0x400000 + (v AND 0x3FFFFF) = v"
proof -
  have "push_bit 22 (drop_bit 22 v) + take_bit 22 v = v" by (rule bits_ident)
  with assms show ?thesis by (simp add: take_bit_eq_mask mask_eq_exp_minus_1)
qed

lemma program_entry_fields:
  assumes "0 \<le> p" "p < 7"
  shows "program_entry p AND 1 \<noteq> 0" "program_entry p AND 4 \<noteq> 0" "program_entry p AND 0x80 \<noteq> 0"
    "program_entry p AND 0xFFC00000 = 0x400000 * (of_int p + 1)"
    "(0x400000 * (of_int p + 1)) AND (0x3FFFFF :: u32) = 0"
proof -
  have "p \<in> {0, 1, 2, 3, 4, 5, 6}" using assms by auto
  then show "program_entry p AND 1 \<noteq> 0" "program_entry p AND 4 \<noteq> 0" "program_entry p AND 0x80 \<noteq> 0"
    "program_entry p AND 0xFFC00000 = 0x400000 * (of_int p + 1)"
    "(0x400000 * (of_int p + 1)) AND (0x3FFFFF :: u32) = 0"
    by (auto simp: program_entry_def M_4_def PAGE_ARGS_def)
qed

lemma unat_eq_numerals:
  fixes d :: u32
  shows "unat d = 33 \<longleftrightarrow> d = 33" "unat d = 32 \<longleftrightarrow> d = 32" "unat d = 0 \<longleftrightarrow> d = 0" "unat d = 1 \<longleftrightarrow> d = 1"
    "unat d = 184 \<longleftrightarrow> d = 184" "unat d = 185 \<longleftrightarrow> d = 185" "unat d = 186 \<longleftrightarrow> d = 186" "unat d = 187 \<longleftrightarrow> d = 187"
    "unat d = Suc 0 \<longleftrightarrow> d = 1"
  by (simp_all add: word_unat_eq_iff)

lemma small_page_walk:
  fixes v :: u32
  assumes "page_aligned video"
  defines "t \<equiv> drop_bit 12 v AND 0x3FF"
  shows "(let pte = page_tab video ! unat t
      in if pte AND 1 = 0 \<or> user \<and> pte AND 4 = 0 then None
         else Some ((pte AND 0xFFFFF000) OR (v AND 0xFFF))) =
    map_option (\<lambda>a. a + (v AND 0xFFF)) (table_space video user t)"
proof -
  have video: "video AND (v AND 0xFFF) = 0"
    using assms(1) by (intro and_and_zero) (simp add: page_aligned_def)
  have num: "(k AND 0xFFF = 0) \<Longrightarrow> k OR (v AND 0xFFF) = k + (v AND 0xFFF)" for k :: u32
    by (intro or_is_plus and_and_zero)
  show ?thesis
    using table_index_bound [of v] entry_fields [OF assms(1)] or_is_plus [OF video]
    by (simp add: t_def [symmetric] page_tab_nth unat_eq_numerals table_space_def user_entry_eq Let_def num)
qed

lemma page_walk_space:
  assumes "page_aligned pt" and "page_aligned video" and p: "0 \<le> p" "p < 7"
  shows "page_walk pt (page_dir pt p) (page_tab video) user v = address_space p video user v"
proof -
  let ?d = "drop_bit 22 v"
  note small = small_page_walk [OF assms(2), of v user]
  have prog: "(0x400000 * (of_int p + 1)) OR (v AND 0x3FFFFF) = 0x400000 * (of_int p + 1) + (v AND 0x3FFFFF)"
    by (intro or_is_plus and_and_zero program_entry_fields [OF p])
  have kern: "0x400000 OR (v AND 0x3FFFFF) = 0x400000 + (v AND 0x3FFFFF)"
    by (intro or_is_plus and_and_zero) simp
  consider "?d = 32" | "?d = 1" | "?d = 0 \<or> ?d = 33" | "?d \<notin> {0, 1, 32, 33}" by auto
  then show ?thesis
  proof cases
    case 1
    then show ?thesis
      using program_entry_fields [OF p] prog by (simp add: page_walk_def page_dir_nth address_space_def)
  next
    case 2
    then show ?thesis
      using big_page_identity [OF 2] kern
      by (simp add: page_walk_def page_dir_nth address_space_def KERNEL_USER_def)
  next
    case 3
    then have "page_dir pt p ! unat ?d = pt OR 7" by (auto simp: page_dir_nth user_entry_eq)
    with 3 entry_fields [OF assms(1)] small show ?thesis
      by (auto simp: page_walk_def address_space_def Let_def)
  next
    case 4
    then have "page_dir pt p ! unat ?d = 2"
      using drop_bit_22_bound [of v] by (simp add: page_dir_nth unat_eq_numerals)
    with 4 show ?thesis by (simp add: page_walk_def address_space_def)
  qed
qed

section \<open>What the routines leave in the two arrays\<close>

definition paging_sized :: "'a sched_scheme \<Rightarrow> bool" where
  "paging_sized s \<longleftrightarrow> length (process_pages s) = 1024 \<and> length (process_tables s) = 1024"

lemma page_arrays [simp]: "length (page_dir pt p) = 1024" "length (page_tab video) = 1024"
  by (simp_all add: page_dir_def page_tab_def)

lemma page_updates [simp]:
  "(page_dir pt p)[32 := program_entry q] = page_dir pt q"
  "(page_dir pt p)[33 := pt OR 7] = page_dir pt p"
  "(page_tab video)[33 := user_entry a] = page_tab a"
  by (rule nth_equalityI; simp add: nth_list_update page_dir_nth page_tab_nth)+

lemma set_program_page_run:
  assumes "in_space pt q video s"
  shows "set_program_page s = Some (s\<lparr>process_pages := page_dir pt (current_pid (ps s))\<rparr>)"
  using assms by (simp add: set_program_page_def in_space_def VIRTUAL_PROGRAM_def aset_def)

lemma set_video_page_run:
  assumes "in_space pt q video s" and "page_aligned pt"
  shows "set_video_page pt a s = Some (s\<lparr>process_tables := page_tab a\<rparr>)"
  using assms(1) link_value [OF assms(2)]
  by (simp add: set_video_page_def link_video_table_def in_space_def VID_IDX_def aset_def)

lemma walk_in_space:
  assumes "in_space pt p video s" "page_aligned pt" "page_aligned video" "0 \<le> p" "p < 7"
  shows "walk pt s user v = address_space p video user v"
  using page_walk_space [OF assms(2-5)] assms(1) by (simp add: walk_def in_space_def)

lemma clear_loop:
  assumes "paging_sized s"
  shows "loop_opt 0 PAGE_SIZE (\<lambda>i s. do {
       pages \<leftarrow> aset (process_pages s) i READWRITE_MASK;
       tabs \<leftarrow> aset (process_tables s) i READWRITE_MASK;
       Some (s\<lparr>process_pages := pages, process_tables := tabs\<rparr>) }) s =
     Some (s\<lparr>process_pages := replicate 1024 2, process_tables := replicate 1024 2\<rparr>)"
    (is "loop_opt 0 _ ?body s = _")
proof -
  let ?filled = "\<lambda>i xs. replicate (nat i) 2 @ drop (nat i) xs"
  let ?P = "\<lambda>i t. t = s\<lparr>process_pages := ?filled i (process_pages s), process_tables := ?filled i (process_tables s)\<rparr>"
  have len: "length (process_pages s) = 1024" "length (process_tables s) = 1024"
    using assms by (simp_all add: paging_sized_def)
  have "\<exists>t. loop_opt 0 PAGE_SIZE ?body s = Some t \<and> ?P PAGE_SIZE t"
  proof (rule loop_opt_inv)
    fix i t assume i: "0 \<le> i" "i < PAGE_SIZE" and P: "?P i t"
    then have n: "nat i < 1024" "nat (i + 1) = Suc (nat i)" by (auto simp: PAGE_SIZE_def)
    show "\<exists>t'. ?body i t = Some t' \<and> ?P (i + 1) t'"
      using i n len P replicate_prefix_step [of "nat i" "process_pages s" 2]
        replicate_prefix_step [of "nat i" "process_tables s" 2]
      by (simp add: aset_def READWRITE_MASK_def)
  qed (simp_all add: PAGE_SIZE_def)
  with len show ?thesis by (simp add: PAGE_SIZE_def)
qed

lemma execute_paging_run:
  assumes "paging_sized s" and "page_aligned pt"
  shows "execute_paging pt s =
    Some (s\<lparr>process_pages := page_dir pt (current_pid (ps s)), process_tables := page_tab VIDEO\<rparr>)"
proof -
  let ?p = "current_pid (ps s)"
  have dir: "(replicate 1024 2)[1 := KERNEL_USER, 0 := user_entry pt, 32 := program_entry ?p, 33 := pt OR 7]
      = page_dir pt ?p" by (simp add: page_dir_def)
  have tab: "(replicate 1024 2)[184 := 0xB8003, 185 := 0xB9007, 186 := 0xBA007, 187 := 0xBB007, 33 := user_entry VIDEO]
      = page_tab VIDEO" by (simp add: page_tab_def)
  have vals: "VIDEO OR 3 = 0xB8003" "user_entry VIDEO_1 = 0xB9007" "user_entry (VIDEO_1 + 0x1000) = 0xBA007"
    "user_entry (VIDEO_1 + 0x2000) = 0xBB007"
    by (simp_all add: VIDEO_def VIDEO_1_def user_entry_eq)
  show ?thesis
    unfolding execute_paging_def clear_loop [OF assms(1)]
    using link_value [OF assms(2)] dir tab vals
    by (simp add: aset_def set_program_page_def set_video_page_def link_video_table_def VIDEOMEM_def
        VID_IDX_def VIRTUAL_PROGRAM_def READWRITE_MASK_def PRESENT_MASK_def)
qed

section \<open>Address spaces\<close>

lemma page_aligned_VIDEO: "page_aligned VIDEO"
  by (simp add: page_aligned_def VIDEO_def)

text \<open>
  C16: whatever the two arrays held, the set-up of \<open>execute\<close> leaves the processor translating
  exactly the address space meant for the running process: its own 4 MB frame at 128 MB, its
  screen at \<open>VIDMAP\<close>, the kernel at its own address, the terminal pages, and a fault everywhere
  else. No other variable changes.
\<close>

theorem execute_address_space:
  assumes "paging_sized s" and "page_aligned pt" and "0 \<le> current_pid (ps s)" and "current_pid (ps s) < 7"
  shows "\<exists>s'. execute_paging pt s = Some s' \<and>
    (\<forall>user v. walk pt s' user v = address_space (current_pid (ps s)) VIDEO user v) \<and>
    s' = s\<lparr>process_pages := process_pages s', process_tables := process_tables s'\<rparr>"
proof -
  let ?s = "s\<lparr>process_pages := page_dir pt (current_pid (ps s)), process_tables := page_tab VIDEO\<rparr>"
  have "in_space pt (current_pid (ps s)) VIDEO ?s" by (simp add: in_space_def)
  then have "walk pt ?s user v = address_space (current_pid (ps s)) VIDEO user v" for user v
    by (rule walk_in_space [OF _ assms(2) page_aligned_VIDEO assms(3,4)])
  then show ?thesis
    using execute_paging_run [OF assms(1,2)] by (intro exI [of _ ?s]) simp
qed

theorem execute_address_space_witness:
  "\<exists>s'. execute_paging 0x480000 idle_kernel = Some s' \<and>
     walk 0x480000 s' True 0x8048018 = Some 0x448018 \<and> walk 0x480000 s' True 0x8421004 = Some 0xB8004"
proof -
  have "current_pid (ps idle_kernel) = 0" by (simp add: idle_kernel_def sample_procs_def)
  moreover have "paging_sized idle_kernel" by (simp add: paging_sized_def idle_kernel_def)
  ultimately obtain s' where s': "execute_paging 0x480000 idle_kernel = Some s'"
      "\<forall>user v. walk 0x480000 s' user v = address_space 0 VIDEO user v"
    using execute_address_space [of idle_kernel "0x480000"] by (auto simp: page_aligned_def)
  show ?thesis
    using s' by (simp add: address_space_def table_space_def VIDEO_def drop_bit_eq_div)
qed

lemma low_bits_bound: "v AND 0x3FFFFF \<le> (0x3FFFFF :: u32)" "v AND 0xFFF \<le> (0xFFF :: u32)"
  by (rule word_and_le1)+

text \<open>The 4 MB frame of process \<open>p\<close>; frame 0 is the kernel's.\<close>

definition frame_of :: "int \<Rightarrow> u32 \<Rightarrow> bool" where
  "frame_of p a \<longleftrightarrow> drop_bit 22 a = of_int p + 1"

lemma frame_of_big_page:
  assumes "0 \<le> p" "p < 7"
  shows "frame_of p (0x400000 * (of_int p + 1) + (v AND 0x3FFFFF))"
proof -
  let ?k = "of_int p + 1 :: u32"
  have "(0x400000 * ?k) AND (v AND 0x3FFFFF) = 0" by (intro and_and_zero program_entry_fields [OF assms])
  then have "0x400000 * ?k + (v AND 0x3FFFFF) = (0x400000 * ?k) OR (v AND 0x3FFFFF)"
    by (simp add: or_is_plus)
  moreover have "drop_bit 22 (v AND 0x3FFFFF) = (0 :: u32)"
  proof -
    have "v AND 0x3FFFFF = take_bit 22 v" by (simp add: take_bit_eq_mask mask_eq_exp_minus_1)
    then show ?thesis by (simp add: drop_bit_take_bit)
  qed
  moreover have "drop_bit 22 (0x400000 * ?k) = ?k"
  proof -
    have "p \<in> {0, 1, 2, 3, 4, 5, 6}" using assms by auto
    then show ?thesis by (auto simp: drop_bit_eq_div)
  qed
  ultimately show ?thesis by (simp add: frame_of_def)
qed

lemma frame_of_low:
  fixes a :: u32
  assumes "a < 0x400000"
  shows "0 \<le> q \<Longrightarrow> q < 7 \<Longrightarrow> \<not> frame_of q a"
proof -
  assume "0 \<le> q" "q < 7"
  then have "q \<in> {0, 1, 2, 3, 4, 5, 6}" by auto
  moreover have "drop_bit 22 a = 0"
    using assms by (simp add: drop_bit_eq_div word_div_def word_less_def)
  ultimately show ?thesis by (auto simp: frame_of_def)
qed

lemma frame_of_inj:
  assumes "frame_of p a" "frame_of q a" "0 \<le> p" "p < 7" "0 \<le> q" "q < 7"
  shows "p = q"
proof -
  have "p \<in> {0, 1, 2, 3, 4, 5, 6}" "q \<in> {0, 1, 2, 3, 4, 5, 6}" using assms by auto
  with assms(1,2) show ?thesis by (auto simp: frame_of_def)
qed

lemma table_space_low:
  assumes "table_space video user t = Some a" and "video < 0x300000"
  shows "a + (v AND 0xFFF) < 0x400000"
proof -
  have a: "a < 0x300000" using assms by (auto simp: table_space_def split: if_splits)
  have "unat (v AND 0xFFF) \<le> 0xFFF" using low_bits_bound(2) [of v] by (simp add: word_le_nat_alt)
  moreover from this have "unat (a + (v AND 0xFFF)) = unat a + unat (v AND 0xFFF)"
    using a by (intro unat_add_lem [THEN iffD1]) (simp add: word_less_nat_alt)
  ultimately show ?thesis using a by (simp add: word_less_nat_alt)
qed

lemma address_space_frames:
  assumes "address_space p video user v = Some a" and "video < 0x300000"
    and p: "0 \<le> p" "p < 7" and q: "0 \<le> q" "q < 7"
  shows "frame_of q a \<Longrightarrow> q = p \<or> q = 0 \<and> a = v"
proof -
  assume fr: "frame_of q a"
  let ?d = "drop_bit 22 v"
  consider "?d = 32" | "?d = 1" | "?d = 0 \<or> ?d = 33" | "?d \<notin> {0, 1, 32, 33}" by auto
  then show ?thesis
  proof cases
    case 1
    then have "frame_of p a" using assms(1) frame_of_big_page [OF p] by (auto simp: address_space_def)
    with fr p q show ?thesis using frame_of_inj by blast
  next
    case 2
    then have "a = v" using assms(1) by (simp add: address_space_def)
    with 2 have "frame_of 0 a" by (simp add: frame_of_def)
    with fr q \<open>a = v\<close> show ?thesis using frame_of_inj by force
  next
    case 3
    then have "a < 0x400000"
      using assms(1) table_space_low [OF _ assms(2)] by (auto simp: address_space_def)
    with fr q frame_of_low show ?thesis by blast
  qed (use assms(1) in \<open>simp add: address_space_def\<close>)
qed

text \<open>
  C15: isolation of programs. In the address space \<open>execute\<close> sets up for process \<open>p\<close>, no
  access, in user or in kernel mode, reaches the frame of another process \<open>q\<close>.
\<close>

theorem programs_isolated:
  assumes "paging_sized s" and "page_aligned pt" and p: "current_pid (ps s) = p" "1 \<le> p" "p < 7"
    and q: "1 \<le> q" "q < 7" "q \<noteq> p"
  shows "\<exists>s'. execute_paging pt s = Some s' \<and> (\<forall>user v a. walk pt s' user v = Some a \<longrightarrow> \<not> frame_of q a)"
proof -
  let ?s = "s\<lparr>process_pages := page_dir pt p, process_tables := page_tab VIDEO\<rparr>"
  have run: "execute_paging pt s = Some ?s" using execute_paging_run [OF assms(1,2)] p(1) by simp
  have "in_space pt p VIDEO ?s" by (simp add: in_space_def)
  then have w: "walk pt ?s user v = address_space p VIDEO user v" for user v
    by (rule walk_in_space [OF _ assms(2) page_aligned_VIDEO]) (use p in simp_all)
  have "\<not> frame_of q a" if "walk pt ?s user v = Some a" for user v a
    using address_space_frames [of p VIDEO user v a q] that w p q by (auto simp: VIDEO_def)
  with run show ?thesis by blast
qed

definition second_kernel :: kernel where
  "second_kernel = idle_kernel\<lparr>ps := sample_procs\<lparr>current_pid := 2\<rparr>\<rparr>"

lemma second_kernel_facts: "paging_sized second_kernel" "current_pid (ps second_kernel) = 2" "page_aligned 0x480000"
  by (simp_all add: second_kernel_def idle_kernel_def paging_sized_def page_aligned_def)

theorem programs_isolated_witness:
  "\<exists>s'. execute_paging 0x480000 second_kernel = Some s' \<and>
     (\<forall>user v a. walk 0x480000 s' user v = Some a \<longrightarrow> \<not> frame_of 3 a)"
  using programs_isolated [OF second_kernel_facts(1,3,2), of 3] by simp

text \<open>
  C39: the kernel is not protected. In the address space \<open>execute\<close> sets up, a program in user
  mode reaches every byte of the kernel's 4 MB, at their own addresses: the entry
  \<open>KERNEL_USER\<close> has the user bit set.
\<close>

theorem kernel_open_to_programs:
  assumes "paging_sized s" and "page_aligned pt" and "0 \<le> current_pid (ps s)" and "current_pid (ps s) < 7"
    and v: "0x400000 \<le> v" "v < 0x800000"
  shows "\<exists>s'. execute_paging pt s = Some s' \<and> walk pt s' True v = Some v \<and> frame_of 0 v"
proof -
  let ?s = "s\<lparr>process_pages := page_dir pt (current_pid (ps s)), process_tables := page_tab VIDEO\<rparr>"
  have "in_space pt (current_pid (ps s)) VIDEO ?s" by (simp add: in_space_def)
  then have w: "walk pt ?s True v = address_space (current_pid (ps s)) VIDEO True v"
    by (rule walk_in_space [OF _ assms(2) page_aligned_VIDEO assms(3,4)])
  have "uint v div 0x400000 = 1"
    using v by (simp add: word_le_def word_less_def int_div_pos_eq [of _ _ 1 "uint v - 0x400000"])
  then have "drop_bit 22 v = 1"
    by (simp add: drop_bit_eq_div word_div_def)
  then show ?thesis
    using execute_paging_run [OF assms(1,2)] w
    by (intro exI [of _ ?s]) (simp add: address_space_def frame_of_def)
qed

theorem kernel_open_to_programs_witness:
  "\<exists>s'. execute_paging 0x480000 second_kernel = Some s' \<and> walk 0x480000 s' True 0x400010 = Some 0x400010"
  using kernel_open_to_programs [OF second_kernel_facts(1,3), of "0x400010"]
  by (auto simp: second_kernel_facts(2))



end
