(* ===== verification/Scheduler.thy ===== *)
theory Scheduler
  imports Paging
begin

text \<open>
  The scheduler: \<open>schedule\<close> and \<open>deschedule\<close> of \<^verbatim>\<open>student-distrib/syscalls.c\<close>, \<open>PIT_init\<close> and
  \<open>timer_handler\<close> of \<^verbatim>\<open>interrupts.c\<close>, and the wrapper of \<^verbatim>\<open>schedule_wrapper.S\<close>.

  Each terminal has a stack of at most seven processes, the running one on top;
  \<open>schedule_top[t]\<close> is its height and the arrays \<open>schedule_tss\<close>, \<open>schedule_esp\<close> and
  \<open>schedule_ebp\<close> hold the contexts. Of the task state segment the two fields the kernel changes
  after the boot are kept. The variable \<open>next_process\<close> of \<open>timer_handler\<close> is not initialised
  when \<open>terminal_request\<close> is none of -1, 0, 1, 2; its value is then a parameter \<open>junk\<close>.
  \<open>sanity_check\<close>, \<open>timer_ticks\<close>, \<open>strand_type_lock\<close> and \<open>schedule_info_arr\<close> are written and
  never read.
\<close>

definition IRQ0 :: u32 where "IRQ0 = 0"
definition COMMAND_REGISTER :: u16 where "COMMAND_REGISTER = 0x43"
definition CHANNEL_0_DATA_REGISTER :: u16 where "CHANNEL_0_DATA_REGISTER = 0x40"

section \<open>syscalls.c\<close>

definition schedule :: "'a sched_scheme \<Rightarrow> 'a sched_scheme option" where
  "schedule s = do {
     t \<leftarrow> aget (schedule_top s) (current_terminal s);
     tops \<leftarrow> aset (schedule_top s) (current_terminal s) (t + 1);
     let tp = (t + 1) - 1;
     st \<leftarrow> aset2 (schedule_stack s) (current_terminal s, tp) (of_int (current_pid (ps s)));
     Some (s\<lparr>schedule_top := tops, schedule_stack := st\<rparr>) }"

definition deschedule :: "'a sched_scheme \<Rightarrow> 'a sched_scheme option" where
  "deschedule s = do {
     t \<leftarrow> aget (schedule_top s) (current_process s);
     let tp = t - 1;
     st \<leftarrow> aset2 (schedule_stack s) (current_process s, tp) 0;
     eb \<leftarrow> aset2 (schedule_ebp s) (current_process s, tp) 0;
     es \<leftarrow> aset2 (schedule_esp s) (current_process s, tp) 0;
     tops \<leftarrow> aset (schedule_top s) (current_process s) (t - 1);
     Some (s\<lparr>schedule_stack := st, schedule_ebp := eb, schedule_esp := es, schedule_top := tops\<rparr>) }"

section \<open>interrupts.c\<close>

definition PIT_init :: "device \<Rightarrow> 'a sched_scheme \<Rightarrow> 'a sched_scheme" where
  "PIT_init dev s =
     (let divisor = (1193180 div 100 :: u32);
          s = outb 0x36 COMMAND_REGISTER s;
          s = outb (ucast (divisor AND 0xFF)) CHANNEL_0_DATA_REGISTER s;
          s = outb (ucast (drop_bit 8 divisor)) CHANNEL_0_DATA_REGISTER s;
          s = s\<lparr>current_process := 0, terminal_request := -1, schedule_tick := 0\<rparr>
      in enable_irq dev IRQ0 s)"

text \<open>The context of the process on top of the stack of the current terminal: saved, and restored.\<close>

definition save_context :: "int \<Rightarrow> 'a sched_scheme \<Rightarrow> 'a sched_scheme option" where
  "save_context tp s = do {
     ts \<leftarrow> aset2 (schedule_tss s) (current_process s, tp - 1) (tss s);
     es \<leftarrow> aset2 (schedule_esp s) (current_process s, tp - 1) (last_esp s);
     eb \<leftarrow> aset2 (schedule_ebp s) (current_process s, tp - 1) (last_ebp s);
     Some (s\<lparr>schedule_tss := ts, schedule_esp := es, schedule_ebp := eb\<rparr>) }"

definition restore_context :: "u32 \<Rightarrow> int \<Rightarrow> 'a sched_scheme \<Rightarrow> 'a sched_scheme option" where
  "restore_context pt tp s = do {
     eb \<leftarrow> aget2 (schedule_ebp s) (current_process s, tp - 1);
     if eb = 0 then Some s
     else do {
       st \<leftarrow> aget2 (schedule_stack s) (current_process s, tp - 1);
       es \<leftarrow> aget2 (schedule_esp s) (current_process s, tp - 1);
       ts \<leftarrow> aget2 (schedule_tss s) (current_process s, tp - 1);
       let s = s\<lparr>ps := (ps s)\<lparr>current_pid := uint st\<rparr>, last_esp := es, last_ebp := eb, tss := ts\<rparr>;
       s \<leftarrow> set_program_page s;
       let page = VIDEO_1 + 0x1000 * of_int (current_process s);
       tabs \<leftarrow> aset (process_tables s) VID_IDX
         (user_entry (if current_process s \<noteq> current_terminal s then page else VIDEO));
       let s = s\<lparr>process_tables := tabs,
                 video_mem := (if current_process s \<noteq> current_terminal s then page else VIDMAP)\<rparr>;
       s \<leftarrow> link_video_table pt s;
       Some (s\<lparr>tss := (tss s)\<lparr>esp0 := kernel_stack (current_pid (ps s))\<rparr>\<rparr>) } }"

text \<open>
  The search for a terminal with a process: it runs forever when there is none, which is \<open>None\<close>.
\<close>

partial_function (option) next_running :: "int list \<Rightarrow> int \<Rightarrow> int option" where
  "next_running tops n =
     (case aget tops n of None \<Rightarrow> None | Some t \<Rightarrow>
        if t = 0 then next_running tops ((n + 1) smod NUM_TERMINALS) else Some n)"

declare next_running.simps [code]

definition next_terminal :: "int \<Rightarrow> 'a sched_scheme \<Rightarrow> int option" where
  "next_terminal junk s =
     (if terminal_request s = -1
      then next_running (schedule_top s) ((current_process s + 1) smod NUM_TERMINALS)
      else if terminal_request s = 0 then Some 0
      else if terminal_request s = 1 then Some 1
      else if terminal_request s = 2 then Some 2
      else Some junk)"

definition timer_handler :: "u32 \<Rightarrow> int \<Rightarrow> 'a sched_scheme \<Rightarrow> 'a sched_scheme option" where
  "timer_handler pt junk s = do {
     let s = cli (send_eoi IRQ0 s);
     tp \<leftarrow> aget (schedule_top s) (current_process s);
     s \<leftarrow> (if tp \<noteq> 0 then save_context tp s else Some s);
     next_process \<leftarrow> next_terminal junk s;
     let s = s\<lparr>current_process := next_process, terminal_request := -1\<rparr>;
     tp \<leftarrow> aget (schedule_top s) (current_process s);
     s \<leftarrow> (if tp \<noteq> 0 then restore_context pt tp s else Some s);
     Some (s\<lparr>schedule_tick := (if schedule_tick s = 0 then 1 else 0)\<rparr>) }"

text \<open>The wrapper stores the stack registers of the interrupted process and loads the new ones.\<close>

definition schedule_wrapper :: "u32 \<Rightarrow> int \<Rightarrow> u32 \<times> u32 \<Rightarrow> 'a sched_scheme \<Rightarrow>
    ((u32 \<times> u32) \<times> 'a sched_scheme) option" where
  "schedule_wrapper pt junk regs s = do {
     s \<leftarrow> timer_handler pt junk ((cli s)\<lparr>last_esp := fst regs, last_ebp := snd regs\<rparr>);
     Some ((last_esp s, last_ebp s), s) }"

section \<open>The search for the next terminal\<close>

text \<open>The terminal after \<open>c\<close>, going round, that is in \<open>D\<close>.\<close>

definition round_robin :: "int set \<Rightarrow> int \<Rightarrow> int" where
  "round_robin D c =
     (if (c + 1) mod 3 \<in> D then (c + 1) mod 3 else if (c + 2) mod 3 \<in> D then (c + 2) mod 3 else c)"

lemma smod_3: "0 \<le> n \<Longrightarrow> n smod (3 :: int) = n mod 3"
  by (cases "n = 0") (simp_all add: signed_modulo_int_def)

lemma next_running_step:
  assumes "length tops = 3" and "0 \<le> n" "n < 3"
  shows "tops ! nat n = 0 \<Longrightarrow> next_running tops n = next_running tops ((n + 1) mod 3)"
    "tops ! nat n \<noteq> 0 \<Longrightarrow> next_running tops n = Some n"
  using assms by (subst next_running.simps; simp add: aget_def NUM_TERMINALS_def smod_3)+

lemma next_running_from:
  assumes "length tops = 3"
  shows "tops ! 0 \<noteq> 0 \<Longrightarrow> next_running tops 0 = Some 0"
    "tops ! 1 \<noteq> 0 \<Longrightarrow> next_running tops 1 = Some 1"
    "tops ! 2 \<noteq> 0 \<Longrightarrow> next_running tops 2 = Some 2"
    "tops ! 0 = 0 \<Longrightarrow> next_running tops 0 = next_running tops 1"
    "tops ! 1 = 0 \<Longrightarrow> next_running tops 1 = next_running tops 2"
    "tops ! 2 = 0 \<Longrightarrow> next_running tops 2 = next_running tops 0"
  using next_running_step [OF assms, of 0] next_running_step [OF assms, of 1] next_running_step [OF assms, of 2]
  by simp_all

definition runnable_set :: "int list \<Rightarrow> int set" where
  "runnable_set tops = {t. 0 \<le> t \<and> t < 3 \<and> tops ! nat t \<noteq> 0}"

lemma next_running_round_robin:
  assumes len: "length tops = 3" and c: "0 \<le> c" "c < 3" and ne: "c \<in> runnable_set tops"
  shows "next_running tops ((c + 1) mod 3) = Some (round_robin (runnable_set tops) c)"
proof -
  note nr = next_running_from [OF len]
  consider "c = 0" | "c = 1" | "c = 2" using c by linarith
  then show ?thesis
  proof cases
    case 1
    with ne have "tops ! 0 \<noteq> 0" by (simp add: runnable_set_def)
    then show ?thesis using 1 nr(1,2,3,5,6)
      by (cases "tops ! 1 = 0"; cases "tops ! 2 = 0") (simp_all add: round_robin_def runnable_set_def)
  next
    case 2
    with ne have "tops ! 1 \<noteq> 0" by (simp add: runnable_set_def)
    then show ?thesis using 2 nr(1-4,6)
      by (cases "tops ! 2 = 0"; cases "tops ! 0 = 0") (simp_all add: round_robin_def runnable_set_def)
  next
    case 3
    with ne have "tops ! 2 \<noteq> 0" by (simp add: runnable_set_def)
    then show ?thesis using 3 nr(1-5)
      by (cases "tops ! 0 = 0"; cases "tops ! 1 = 0") (simp_all add: round_robin_def runnable_set_def)
  qed
qed

lemma next_running_runnable:
  assumes "next_running tops n = Some m"
  shows "aget tops m \<noteq> None \<and> aget tops m \<noteq> Some 0"
  by (rule next_running.raw_induct [OF _ assms, of "\<lambda>tops n m. aget tops m \<noteq> None \<and> aget tops m \<noteq> Some 0"])
    (auto split: option.splits if_splits)

text \<open>
  The search of \<open>timer_handler\<close> for the next terminal returns exactly when some terminal has
  a process; with three empty stacks it runs forever, with the interrupts off.
\<close>

lemma next_running_returns:
  assumes "length tops = 3" and "0 \<le> n" "n < 3"
  shows "(\<exists>m. next_running tops n = Some m) \<longleftrightarrow> runnable_set tops \<noteq> {}"
proof
  assume "\<exists>m. next_running tops n = Some m"
  then obtain m where "aget tops m \<noteq> None \<and> aget tops m \<noteq> Some 0" using next_running_runnable by blast
  with assms(1) have "m \<in> runnable_set tops" by (auto simp: runnable_set_def aget_def split: if_splits)
  then show "runnable_set tops \<noteq> {}" by blast
next
  assume "runnable_set tops \<noteq> {}"
  then obtain t where t: "0 \<le> t" "t < 3" "tops ! nat t \<noteq> 0" by (auto simp: runnable_set_def)
  note nr = next_running_from [OF assms(1)]
  have "t = 0 \<or> t = 1 \<or> t = 2" using t by linarith
  then have "tops ! 0 \<noteq> 0 \<or> tops ! 1 \<noteq> 0 \<or> tops ! 2 \<noteq> 0" using t(3) by auto
  moreover have "n = 0 \<or> n = 1 \<or> n = 2" using assms by linarith
  ultimately show "\<exists>m. next_running tops n = Some m" using nr by metis
qed

section \<open>The invariant\<close>

definition grid37 :: "'a list list \<Rightarrow> bool" where
  "grid37 g \<longleftrightarrow> length g = 3 \<and> (\<forall>r \<in> set g. length r = 7)"

definition gat :: "'a list list \<Rightarrow> int \<Rightarrow> int \<Rightarrow> 'a" where
  "gat g t k = g ! nat t ! nat k"

definition gput :: "'a list list \<Rightarrow> int \<Rightarrow> int \<Rightarrow> 'a \<Rightarrow> 'a list list" where
  "gput g t k v = g[nat t := (g ! nat t)[nat k := v]]"

lemma grid37_row: "grid37 g \<Longrightarrow> 0 \<le> t \<Longrightarrow> t < 3 \<Longrightarrow> length (g ! nat t) = 7"
  by (simp add: grid37_def)

lemma grid_access:
  assumes "grid37 g" "0 \<le> t" "t < 3" "0 \<le> k" "k < 7"
  shows "aget2 g (t, k) = Some (gat g t k)" "aset2 g (t, k) v = Some (gput g t k v)" "grid37 (gput g t k v)"
proof -
  have row: "length (g ! nat t) = 7" by (rule grid37_row [OF assms(1-3)])
  have len: "length g = 3" and rows: "\<forall>r \<in> set g. length r = 7" using assms(1) by (simp_all add: grid37_def)
  show "aget2 g (t, k) = Some (gat g t k)" "aset2 g (t, k) v = Some (gput g t k v)"
    using assms(2-5) row len by (simp_all add: aget2_def aset2_def aget_def aset_def gat_def gput_def)
  have "\<forall>r \<in> set (gput g t k v). length r = 7"
    unfolding gput_def by (rule all_list_update [OF rows]) (simp add: row)
  then show "grid37 (gput g t k v)" using len by (simp add: grid37_def gput_def)
qed

lemma gat_gput:
  assumes "grid37 g" "0 \<le> t" "t < 3" "0 \<le> k" "k < 7" "0 \<le> t'" "0 \<le> k'"
  shows "gat (gput g t k v) t' k' = (if t' = t \<and> k' = k then v else gat g t' k')"
proof -
  have "nat t < length g" "nat k < length (g ! nat t)" using assms grid37_row [OF assms(1-3)] by (auto simp: grid37_def)
  moreover have "nat t = nat t' \<longleftrightarrow> t' = t" "nat k = nat k' \<longleftrightarrow> k' = k" using assms by auto
  ultimately show ?thesis by (simp add: gat_def gput_def nth_list_update)
qed

text \<open>The height of a stack, and the entry of an array for its topmost process.\<close>

definition height :: "'a sched_scheme \<Rightarrow> int \<Rightarrow> int" where
  "height s t = schedule_top s ! nat t"

definition topmost :: "'b list list \<Rightarrow> 'a sched_scheme \<Rightarrow> int \<Rightarrow> 'b" where
  "topmost g s t = gat g t (height s t - 1)"

definition runnable :: "'a sched_scheme \<Rightarrow> int set" where
  "runnable s = runnable_set (schedule_top s)"

definition sched_sized :: "'a sched_scheme \<Rightarrow> bool" where
  "sched_sized s \<longleftrightarrow> length (schedule_top s) = 3 \<and> grid37 (schedule_stack s) \<and> grid37 (schedule_tss s) \<and>
     grid37 (schedule_esp s) \<and> grid37 (schedule_ebp s) \<and>
     (\<forall>t. 0 \<le> t \<and> t < 3 \<longrightarrow> 0 \<le> height s t \<and> height s t \<le> 7)"

text \<open>
  Between interrupts: the running process is the topmost one of the current terminal, every
  other terminal with a process has a saved context, and the page arrays describe an address
  space.
\<close>

definition sched_inv :: "u32 \<Rightarrow> 'a sched_scheme \<Rightarrow> bool" where
  "sched_inv pt s \<longleftrightarrow> sched_sized s \<and> current_process s \<in> runnable s \<and>
     current_pid (ps s) = uint (topmost (schedule_stack s) s (current_process s)) \<and>
     (\<forall>t \<in> runnable s. uint (topmost (schedule_stack s) s t) < 7) \<and>
     (\<forall>t \<in> runnable s. t \<noteq> current_process s \<longrightarrow> topmost (schedule_ebp s) s t \<noteq> 0) \<and>
     (terminal_request s = -1 \<or> terminal_request s \<in> runnable s) \<and>
     (\<exists>q video. in_space pt q video s)"

lemma runnable_iff: "t \<in> runnable s \<longleftrightarrow> 0 \<le> t \<and> t < 3 \<and> height s t \<noteq> 0"
  by (simp add: runnable_def runnable_set_def height_def)

lemma runnable_height:
  assumes "sched_sized s" "t \<in> runnable s"
  shows "0 \<le> t" "t < 3" "0 \<le> height s t - 1" "height s t - 1 < 7"
    "aget (schedule_top s) t = Some (height s t)" "height s t \<noteq> 0"
proof -
  show t: "0 \<le> t" "t < 3" and h: "height s t \<noteq> 0" using assms(2) by (auto simp: runnable_iff)
  have "0 \<le> height s t \<and> height s t \<le> 7" using assms(1) t by (simp add: sched_sized_def)
  with h show "0 \<le> height s t - 1" "height s t - 1 < 7" by auto
  show "aget (schedule_top s) t = Some (height s t)"
    using assms(1) t by (simp add: sched_sized_def aget_def height_def)
qed

section \<open>One tick\<close>

definition screen_page :: "'a sched_scheme \<Rightarrow> int \<Rightarrow> u32" where
  "screen_page s t = (if t \<noteq> current_terminal s then VIDEO_1 + 0x1000 * of_int t else VIDEO)"

lemma save_context_run:
  assumes "sched_sized s" "current_process s \<in> runnable s"
  defines "k \<equiv> height s (current_process s) - 1"
  shows "save_context (height s (current_process s)) s = Some (s\<lparr>
    schedule_tss := gput (schedule_tss s) (current_process s) k (tss s),
    schedule_esp := gput (schedule_esp s) (current_process s) k (last_esp s),
    schedule_ebp := gput (schedule_ebp s) (current_process s) k (last_ebp s)\<rparr>)"
proof -
  have g: "grid37 (schedule_tss s)" "grid37 (schedule_esp s)" "grid37 (schedule_ebp s)"
    using assms(1) by (simp_all add: sched_sized_def)
  note acc = grid_access(2) [OF _ runnable_height(1-4) [OF assms(1,2)]]
  show ?thesis
    using acc [OF g(1)] acc [OF g(2)] acc [OF g(3)] by (simp add: save_context_def k_def)
qed

lemma restore_context_run:
  assumes "sched_sized s" "current_process s \<in> runnable s" "in_space pt q video s" "page_aligned pt"
    and "topmost (schedule_ebp s) s (current_process s) \<noteq> 0"
  defines "t \<equiv> current_process s"
  defines "p \<equiv> uint (topmost (schedule_stack s) s t)"
  shows "restore_context pt (height s t) s = Some (s\<lparr>
    ps := (ps s)\<lparr>current_pid := p\<rparr>, last_esp := topmost (schedule_esp s) s t, last_ebp := topmost (schedule_ebp s) s t,
    tss := (topmost (schedule_tss s) s t)\<lparr>esp0 := kernel_stack p\<rparr>,
    process_pages := page_dir pt p, process_tables := page_tab (screen_page s t),
    video_mem := (if t \<noteq> current_terminal s then screen_page s t else VIDMAP)\<rparr>)"
proof -
  have g: "grid37 (schedule_stack s)" "grid37 (schedule_tss s)" "grid37 (schedule_esp s)" "grid37 (schedule_ebp s)"
    using assms(1) by (simp_all add: sched_sized_def)
  note acc = grid_access(1) [OF _ runnable_height(1-4) [OF assms(1,2)]]
  let ?u = "s\<lparr>ps := (ps s)\<lparr>current_pid := p\<rparr>, last_esp := topmost (schedule_esp s) s t,
    last_ebp := topmost (schedule_ebp s) s t, tss := topmost (schedule_tss s) s t\<rparr>"
  have "in_space pt q video ?u" using assms(3) by (simp add: in_space_def)
  from set_program_page_run [OF this]
  have page: "set_program_page ?u = Some (?u\<lparr>process_pages := page_dir pt p\<rparr>)" by simp
  have tabs: "process_tables s = page_tab video" using assms(3) by (simp add: in_space_def)
  note vals = acc [OF g(1), folded topmost_def t_def] acc [OF g(2), folded topmost_def t_def]
    acc [OF g(3), folded topmost_def t_def] acc [OF g(4), folded topmost_def t_def]
  have p: "uint (topmost (schedule_stack s) s t) = p" by (simp add: p_def)
  show ?thesis
    unfolding restore_context_def
    using vals p assms(5) page tabs link_value [OF assms(4)]
    by (cases "t = current_terminal s")
      (simp_all add: t_def [symmetric] Let_def link_video_table_def VID_IDX_def aset_def screen_page_def)
qed

definition tick :: "u32 \<Rightarrow> int \<Rightarrow> u32 \<times> u32 \<Rightarrow> 'a sched_scheme \<Rightarrow> 'a sched_scheme option" where
  "tick pt junk regs s = map_option snd (schedule_wrapper pt junk regs s)"

text \<open>The saved stack registers of the topmost process of a terminal.\<close>

definition saved :: "'a sched_scheme \<Rightarrow> int \<Rightarrow> u32 \<times> u32" where
  "saved s t = (topmost (schedule_esp s) s t, topmost (schedule_ebp s) s t)"

text \<open>The terminal a tick goes to.\<close>

definition next_turn :: "'a sched_scheme \<Rightarrow> int" where
  "next_turn s = (if terminal_request s = -1 then round_robin (runnable s) (current_process s)
                  else terminal_request s)"

lemma round_robin_in: "c \<in> D \<Longrightarrow> round_robin D c \<in> D"
  by (simp add: round_robin_def)

lemma next_terminal_run:
  assumes "sched_sized s" "current_process s \<in> runnable s"
    and "terminal_request s = -1 \<or> terminal_request s \<in> runnable s"
  shows "next_terminal junk s = Some (next_turn s)" "next_turn s \<in> runnable s"
proof -
  have c: "0 \<le> current_process s" "current_process s < 3" "length (schedule_top s) = 3"
    using assms runnable_height [OF assms(1,2)] by (simp_all add: sched_sized_def)
  show "next_turn s \<in> runnable s" using assms(2,3) round_robin_in by (auto simp: next_turn_def)
  have "terminal_request s \<in> {-1, 0, 1, 2}" using assms(3) by (auto simp: runnable_iff)
  then show "next_terminal junk s = Some (next_turn s)"
    using next_running_round_robin [OF c(3,1,2)] assms(2) c
    by (auto simp: next_terminal_def next_turn_def NUM_TERMINALS_def smod_3 runnable_def)
qed

text \<open>The state after the saving half of a tick, and the whole tick.\<close>

definition preempted :: "u32 \<times> u32 \<Rightarrow> 'a sched_scheme \<Rightarrow> 'a sched_scheme" where
  "preempted regs s =
     (let s = cli (send_eoi IRQ0 ((cli s)\<lparr>last_esp := fst regs, last_ebp := snd regs\<rparr>));
          c = current_process s; k = height s c - 1
      in s\<lparr>schedule_tss := gput (schedule_tss s) c k (tss s),
           schedule_esp := gput (schedule_esp s) c k (fst regs),
           schedule_ebp := gput (schedule_ebp s) c k (snd regs)\<rparr>)"

lemma preempted_fields:
  "current_process (preempted regs s) = current_process s" "schedule_top (preempted regs s) = schedule_top s"
  "schedule_stack (preempted regs s) = schedule_stack s" "terminal_request (preempted regs s) = terminal_request s"
  "current_terminal (preempted regs s) = current_terminal s" "schedule_tick (preempted regs s) = schedule_tick s"
  "process_pages (preempted regs s) = process_pages s" "process_tables (preempted regs s) = process_tables s"
  "schedule_esp (preempted regs s) = gput (schedule_esp s) (current_process s) (height s (current_process s) - 1) (fst regs)"
  "schedule_ebp (preempted regs s) = gput (schedule_ebp s) (current_process s) (height s (current_process s) - 1) (snd regs)"
  "schedule_tss (preempted regs s) = gput (schedule_tss s) (current_process s) (height s (current_process s) - 1) (tss s)"
  "ps (preempted regs s) = ps s"
  by (simp_all add: preempted_def Let_def cli_def IRQ0_def send_eoi_lines outb_def height_def)

lemma preempted_views:
  "height (preempted regs s) = height s" "runnable (preempted regs s) = runnable s"
  "in_space pt q video (preempted regs s) = in_space pt q video s"
  "next_turn (preempted regs s) = next_turn s"
  by (simp_all add: fun_eq_iff height_def runnable_def in_space_def next_turn_def preempted_fields)

lemma preempted_sized:
  assumes "sched_sized s" "current_process s \<in> runnable s"
  shows "sched_sized (preempted regs s)"
  using assms(1) runnable_height(1-4) [OF assms] unfolding sched_sized_def preempted_fields preempted_views
  by (simp add: grid_access(3))

lemma preempted_saved:
  assumes "sched_sized s" "current_process s \<in> runnable s" "t \<in> runnable s"
  shows "saved (preempted regs s) t = (if t = current_process s then regs else saved s t)"
    "topmost (schedule_tss (preempted regs s)) (preempted regs s) t =
       (if t = current_process s then tss s else topmost (schedule_tss s) s t)"
proof -
  have g: "grid37 (schedule_esp s)" "grid37 (schedule_ebp s)" "grid37 (schedule_tss s)"
    using assms(1) by (simp_all add: sched_sized_def)
  note c = runnable_height(1-4) [OF assms(1,2)] and t = runnable_height(1,3) [OF assms(1,3)]
  show "saved (preempted regs s) t = (if t = current_process s then regs else saved s t)"
    using gat_gput [OF g(1) c t] gat_gput [OF g(2) c t]
    by (auto simp: saved_def topmost_def preempted_fields preempted_views)
  show "topmost (schedule_tss (preempted regs s)) (preempted regs s) t =
       (if t = current_process s then tss s else topmost (schedule_tss s) s t)"
    using gat_gput [OF g(3) c t] by (auto simp: topmost_def preempted_fields preempted_views)
qed

definition ticked :: "u32 \<Rightarrow> u32 \<times> u32 \<Rightarrow> 'a sched_scheme \<Rightarrow> 'a sched_scheme" where
  "ticked pt regs s =
     (let u = preempted regs s; n = next_turn s; p = uint (topmost (schedule_stack s) s n)
      in u\<lparr>current_process := n, terminal_request := -1, ps := (ps s)\<lparr>current_pid := p\<rparr>,
           last_esp := fst (saved u n), last_ebp := snd (saved u n),
           tss := (topmost (schedule_tss u) u n)\<lparr>esp0 := kernel_stack p\<rparr>,
           process_pages := page_dir pt p, process_tables := page_tab (screen_page s n),
           video_mem := (if n \<noteq> current_terminal s then screen_page s n else VIDMAP),
           schedule_tick := (if schedule_tick s = 0 then 1 else 0)\<rparr>)"

lemma tick_eq:
  assumes inv: "sched_inv pt s" and pt: "page_aligned pt" and regs: "snd regs \<noteq> 0"
  shows "tick pt junk regs s = Some (ticked pt regs s)"
proof -
  have sz: "sched_sized s" "current_process s \<in> runnable s" using inv by (simp_all add: sched_inv_def)
  have req: "terminal_request s = -1 \<or> terminal_request s \<in> runnable s" using inv by (simp add: sched_inv_def)
  obtain q video where sp: "in_space pt q video s" using inv by (auto simp: sched_inv_def)
  let ?c = "current_process s" and ?u = "preempted regs s" and ?n = "next_turn s"
  let ?s1 = "cli (send_eoi IRQ0 ((cli s)\<lparr>last_esp := fst regs, last_ebp := snd regs\<rparr>))"
  let ?s3 = "?u\<lparr>current_process := ?n, terminal_request := -1\<rparr>"
  have f1: "schedule_top ?s1 = schedule_top s" "current_process ?s1 = ?c" "last_esp ?s1 = fst regs"
    "last_ebp ?s1 = snd regs" "height ?s1 = height s" "runnable ?s1 = runnable s" "sched_sized ?s1 = sched_sized s"
    by (simp_all add: fun_eq_iff cli_def IRQ0_def send_eoi_lines outb_def height_def runnable_def sched_sized_def)
  have sv: "save_context (height s ?c) ?s1 = Some ?u"
    using save_context_run [of ?s1] sz f1 by (simp add: preempted_def Let_def)
  note nt = next_terminal_run [OF sz req]
  have nu: "next_terminal junk ?u = Some ?n"
    unfolding nt(1) [of junk, symmetric] by (simp add: next_terminal_def preempted_fields)
  have f3: "height ?s3 = height s" "runnable ?s3 = runnable s" "in_space pt q video ?s3"
    "current_process ?s3 = ?n" "saved ?s3 = saved ?u" "topmost g ?s3 = topmost g ?u" "topmost h ?s3 = topmost h s"
    "screen_page ?s3 = screen_page s" for g :: "tss_t list list" and h :: "u8 list list"
    using sp by (simp_all add: fun_eq_iff height_def runnable_def in_space_def preempted_fields saved_def
        topmost_def screen_page_def)
  have sz3: "sched_sized ?s3"
    using preempted_sized [OF sz, of regs] f3(1) unfolding sched_sized_def preempted_views by simp
  have "snd (saved ?s3 ?n) \<noteq> 0"
    using preempted_saved(1) [OF sz nt(2), of regs] inv nt(2) regs f3(5)
    by (auto simp: sched_inv_def saved_def)
  then have bp: "topmost (schedule_ebp ?s3) ?s3 (current_process ?s3) \<noteq> 0"
    unfolding f3(4) by (simp add: saved_def)
  have rc: "current_process ?s3 \<in> runnable ?s3" using nt(2) f3 by simp
  have t1: "aget (schedule_top ?s1) (current_process ?s1) = Some (height s ?c)" "(height s ?c \<noteq> 0) = True"
    using runnable_height(5,6) [OF sz] f1 by simp_all
  have t3: "aget (schedule_top ?s3) (current_process ?s3) = Some (height s ?n)" "(height s ?n \<noteq> 0) = True"
    using runnable_height(5,6) [OF sz(1) nt(2)] by (simp_all add: preempted_fields)
  have rr: "restore_context pt (height s ?n) ?s3 =
      Some ((ticked pt regs s)\<lparr>schedule_tick := schedule_tick s\<rparr>)"
    using restore_context_run [OF sz3 rc f3(3) pt bp] unfolding f3(1,4,6,7,8)
    by (simp add: ticked_def Let_def preempted_fields saved_def topmost_def height_def)
  have "timer_handler pt junk ((cli s)\<lparr>last_esp := fst regs, last_ebp := snd regs\<rparr>) = Some (ticked pt regs s)"
    unfolding timer_handler_def Let_def t1 sv nu t3 rr bind.bind_lunit if_True
    by (simp add: ticked_def Let_def)
  then show ?thesis by (simp add: tick_def schedule_wrapper_def)
qed

lemma ticked_fields:
  "current_process (ticked pt regs s) = next_turn s" "terminal_request (ticked pt regs s) = -1"
  "schedule_top (ticked pt regs s) = schedule_top s" "schedule_stack (ticked pt regs s) = schedule_stack s"
  "current_pid (ps (ticked pt regs s)) = uint (topmost (schedule_stack s) s (next_turn s))"
  "(last_esp (ticked pt regs s), last_ebp (ticked pt regs s)) = saved (preempted regs s) (next_turn s)"
  "height (ticked pt regs s) = height s" "runnable (ticked pt regs s) = runnable s"
  "topmost g (ticked pt regs s) = topmost g s"
  "saved (ticked pt regs s) = saved (preempted regs s)"
  "in_space pt (uint (topmost (schedule_stack s) s (next_turn s))) (screen_page s (next_turn s)) (ticked pt regs s)"
  by (simp_all add: fun_eq_iff ticked_def Let_def preempted_fields in_space_def height_def runnable_def topmost_def saved_def)

lemma ticked_inv:
  assumes inv: "sched_inv pt s" and regs: "snd regs \<noteq> 0"
  shows "sched_inv pt (ticked pt regs s)"
proof -
  have sz: "sched_sized s" "current_process s \<in> runnable s"
    and req: "terminal_request s = -1 \<or> terminal_request s \<in> runnable s"
    and pids: "\<forall>t \<in> runnable s. uint (topmost (schedule_stack s) s t) < 7"
    and bps: "\<forall>t \<in> runnable s. t \<noteq> current_process s \<longrightarrow> snd (saved s t) \<noteq> 0"
    using inv by (simp_all add: sched_inv_def saved_def)
  let ?s = "ticked pt regs s"
  have "schedule_tss ?s = schedule_tss (preempted regs s)" "schedule_esp ?s = schedule_esp (preempted regs s)"
    "schedule_ebp ?s = schedule_ebp (preempted regs s)" "schedule_top ?s = schedule_top (preempted regs s)"
    "schedule_stack ?s = schedule_stack (preempted regs s)" "height ?s = height (preempted regs s)"
    by (simp_all add: ticked_def Let_def preempted_fields preempted_views ticked_fields fun_eq_iff height_def)
  then have sz': "sched_sized ?s" using preempted_sized [OF sz, of regs] by (simp add: sched_sized_def)
  have "snd (saved ?s t) \<noteq> 0" if "t \<in> runnable s" for t
    using preempted_saved(1) [OF sz that, of regs] bps that regs by (simp add: ticked_fields)
  then have "topmost (schedule_ebp ?s) ?s t \<noteq> 0" if "t \<in> runnable s" for t
    using that by (simp add: saved_def)
  moreover have "\<exists>q video. in_space pt q video ?s" using ticked_fields(11) by blast
  ultimately show ?thesis
    using sz' pids next_terminal_run(2) [OF sz req]
    unfolding sched_inv_def ticked_fields(1-5) ticked_fields(8,9) by simp
qed

section \<open>The round-robin specification\<close>

text \<open>
  The scheduler as a specification: whose turn it is, the stack registers of the terminals that
  wait, a wish of the user, and the registers in the processor.
\<close>

record robin =
  turn :: int
  waiting :: "int \<rightharpoonup> u32 \<times> u32"
  want :: "int option"
  cpu :: "u32 \<times> u32"

definition robin_tick :: "u32 \<times> u32 \<Rightarrow> robin \<Rightarrow> robin" where
  "robin_tick regs r =
     (let w = (waiting r)(turn r \<mapsto> regs);
          n = (case want r of None \<Rightarrow> round_robin (dom w) (turn r) | Some t \<Rightarrow> t)
      in \<lparr>turn = n, waiting = w(n := None), want = None, cpu = the (w n)\<rparr>)"

definition robin_of :: "'a sched_scheme \<Rightarrow> robin" where
  "robin_of s = \<lparr>turn = current_process s,
     waiting = (\<lambda>t. if t \<in> runnable s \<and> t \<noteq> current_process s then Some (saved s t) else None),
     want = (if terminal_request s = -1 then None else Some (terminal_request s)),
     cpu = (last_esp s, last_ebp s)\<rparr>"

lemma ticked_robin:
  assumes inv: "sched_inv pt s"
  shows "robin_of (ticked pt regs s) = robin_tick regs (robin_of s)"
proof -
  have sz: "sched_sized s" "current_process s \<in> runnable s"
    and req: "terminal_request s = -1 \<or> terminal_request s \<in> runnable s"
    using inv by (simp_all add: sched_inv_def)
  let ?w = "(waiting (robin_of s))(turn (robin_of s) \<mapsto> regs)"
  have w: "?w t = (if t \<in> runnable s then Some (saved (preempted regs s) t) else None)" for t
    using preempted_saved(1) [OF sz, of t regs] sz(2) by (auto simp: robin_of_def)
  then have "dom ?w = runnable s" by (auto simp: dom_def split: if_splits)
  then have n: "(case want (robin_of s) of None \<Rightarrow> round_robin (dom ?w) (turn (robin_of s)) | Some t \<Rightarrow> t) = next_turn s"
    by (simp add: next_turn_def robin_of_def)
  have "?w (next_turn s) = Some (saved (preempted regs s) (next_turn s))"
    using w next_terminal_run(2) [OF sz req] by simp
  moreover have "(\<lambda>t. if t \<in> runnable s \<and> t \<noteq> next_turn s then Some (saved (preempted regs s) t) else None)
      = ?w(next_turn s := None)"
    using w by (auto simp: fun_eq_iff)
  ultimately show ?thesis
    unfolding robin_tick_def Let_def n
    by (simp only: robin_of_def [of "ticked pt regs s"] ticked_fields option.sel if_True simp_thms)
qed

text \<open>The timer implements the specification; \<open>junk\<close> is never used.\<close>

interpretation timer_sim: simulation "\<lambda>s. sched_inv pt s \<and> page_aligned pt" robin_of "tick pt junk" robin_tick
    "\<lambda>regs. snd regs \<noteq> 0" for pt junk
  by unfold_locales (use tick_eq ticked_inv ticked_robin in fastforce)

text \<open>
  C3: the timer interrupt implements round-robin scheduling. From any state of the invariant,
  every sequence of ticks, each with the stack registers of the process it interrupts, runs to
  its end, keeps the invariant, and saves, chooses and loads what the specification does.
\<close>

theorem timer_refines_round_robin:
  assumes "sched_inv pt s" and "page_aligned pt" and "\<forall>regs \<in> set ticks. snd regs \<noteq> 0"
  shows "\<exists>s'. run_steps (tick pt junk) ticks s = Some s' \<and> sched_inv pt s' \<and>
    robin_of s' = fold robin_tick ticks (robin_of s)"
  using timer_sim.run_simulates [of pt s ticks junk] assms by auto

text \<open>A terminal that waits is reached within two ticks.\<close>

lemma round_robin_two:
  assumes "c \<in> {0, 1, 2}" "t \<in> {0, 1, 2}" "t \<noteq> c" "c \<in> D" "c \<in> D'" "round_robin D t \<noteq> c"
  shows "round_robin D' (round_robin D t) = c"
  using assms by (elim insertE emptyE) (simp_all add: round_robin_def split: if_splits)

definition robin_wf :: "robin \<Rightarrow> bool" where
  "robin_wf r \<longleftrightarrow> turn r \<in> {0, 1, 2} \<and> turn r \<notin> dom (waiting r) \<and> dom (waiting r) \<subseteq> {0, 1, 2}"

lemma robin_of_wf:
  assumes "sched_inv pt s"
  shows "robin_wf (robin_of s)"
proof -
  have "current_process s \<in> runnable s" using assms by (simp add: sched_inv_def)
  moreover have "t \<in> {0, 1, 2}" if "t \<in> runnable s" for t using that by (auto simp: runnable_iff)
  ultimately show ?thesis by (auto simp: robin_wf_def robin_of_def dom_def split: if_splits)
qed

lemma robin_waits:
  assumes "robin_wf r" "want r = None" "waiting r t = Some x"
  shows "\<exists>k. 1 \<le> k \<and> k \<le> 2 \<and>
    turn (fold robin_tick (take k [r1, r2]) r) = t \<and> cpu (fold robin_tick (take k [r1, r2]) r) = x"
proof -
  have t: "t \<in> {0, 1, 2}" "turn r \<in> {0, 1, 2}" "turn r \<noteq> t" using assms by (auto simp: robin_wf_def)
  let ?w = "(waiting r)(turn r \<mapsto> r1)"
  let ?n = "round_robin (dom ?w) (turn r)"
  have w: "?w t = Some x" using assms(3) t(3) by simp
  have one: "robin_tick r1 r = \<lparr>turn = ?n, waiting = ?w(?n := None), want = None, cpu = the (?w ?n)\<rparr>"
    using assms(2) by (simp add: robin_tick_def Let_def)
  show ?thesis
  proof (cases "?n = t")
    case True
    then show ?thesis using one w by (intro exI [of _ 1]) simp
  next
    case False
    let ?r1 = "robin_tick r1 r"
    let ?w2 = "(waiting ?r1)(turn ?r1 \<mapsto> r2)"
    have w2: "?w2 t = Some x" using one w False by simp
    have "turn ?r1 = ?n" using one by simp
    then have "round_robin (dom ?w2) (turn ?r1) = t"
      using round_robin_two [OF t(1,2,3) domI [of ?w, OF w] domI [of ?w2, OF w2] False] by (simp only:)
    then have "robin_tick r2 ?r1 = \<lparr>turn = t, waiting = ?w2(t := None), want = None, cpu = x\<rparr>"
      using w2 one by (simp add: robin_tick_def Let_def)
    then show ?thesis by (intro exI [of _ 2]) simp
  qed
qed

text \<open>
  C17: no terminal starves. While no terminal switch is requested, a terminal that waits runs
  after at most two ticks, whatever runs in between, with the stack registers that were saved
  for it and the process on top of its stack as the running one.
\<close>

theorem waiting_terminal_runs:
  assumes inv: "sched_inv pt s" "page_aligned pt" and t: "t \<in> runnable s" "t \<noteq> current_process s"
    and "terminal_request s = -1" and "snd r1 \<noteq> 0" "snd r2 \<noteq> 0"
  shows "\<exists>k s'. 1 \<le> k \<and> k \<le> 2 \<and> run_steps (tick pt junk) (take k [r1, r2]) s = Some s' \<and>
    current_process s' = t \<and> (last_esp s', last_ebp s') = saved s t \<and>
    current_pid (ps s') = uint (topmost (schedule_stack s') s' t)"
proof -
  have "waiting (robin_of s) t = Some (saved s t)" "want (robin_of s) = None"
    using t assms(5) by (simp_all add: robin_of_def)
  from robin_waits [OF robin_of_wf [OF inv(1)] this(2,1), of r1 r2] obtain k where
    k: "1 \<le> k" "k \<le> 2" "turn (fold robin_tick (take k [r1, r2]) (robin_of s)) = t"
      "cpu (fold robin_tick (take k [r1, r2]) (robin_of s)) = saved s t" by auto
  have "set (take k [r1, r2]) \<subseteq> {r1, r2}" using set_take_subset [of k "[r1, r2]"] by simp
  then have "\<forall>regs \<in> set (take k [r1, r2]). snd regs \<noteq> 0" using assms(6,7) by blast
  then obtain s' where s': "run_steps (tick pt junk) (take k [r1, r2]) s = Some s'" "sched_inv pt s'"
      "robin_of s' = fold robin_tick (take k [r1, r2]) (robin_of s)"
    using timer_sim.run_simulates [of pt s "take k [r1, r2]" junk] inv by auto
  have "turn (robin_of s') = t" "cpu (robin_of s') = saved s t" using k(3,4) s'(3) by simp_all
  then have "current_process s' = t" "(last_esp s', last_ebp s') = saved s t" by (simp_all add: robin_of_def)
  with k(1,2) s'(1,2) show ?thesis by (auto simp: sched_inv_def)
qed

section \<open>Concrete states\<close>

text \<open>Two terminals, each with a shell; terminal 0 runs, terminal 1 waits with saved registers.\<close>

definition two_shells :: kernel where
  "two_shells = idle_kernel\<lparr>schedule_top := [1, 1, 0],
     schedule_stack := [[1, 0, 0, 0, 0, 0, 0], [2, 0, 0, 0, 0, 0, 0], replicate 7 0],
     schedule_esp := [replicate 7 0, [0x7E0000, 0, 0, 0, 0, 0, 0], replicate 7 0],
     schedule_ebp := [replicate 7 0, [0x7E0040, 0, 0, 0, 0, 0, 0], replicate 7 0],
     ps := sample_procs\<lparr>current_pid := 1\<rparr>,
     process_pages := page_dir 0x480000 1, process_tables := page_tab VIDEO\<rparr>"

lemma two_shells_views:
  "runnable two_shells = {0, 1}" "current_process two_shells = 0" "terminal_request two_shells = -1"
  "saved two_shells 1 = (0x7E0000, 0x7E0040)" "page_aligned 0x480000"
proof -
  have "height two_shells 0 = 1" "height two_shells 1 = 1" "height two_shells 2 = 0"
    by (simp_all add: height_def two_shells_def)
  moreover have "t = 0 \<or> t = 1 \<or> t = 2" if "0 \<le> t" "t < 3" for t :: int using that by linarith
  ultimately show "runnable two_shells = {0, 1}" unfolding runnable_iff set_eq_iff by force
qed (simp_all add: two_shells_def idle_kernel_def saved_def topmost_def gat_def height_def page_aligned_def)

lemma two_shells_inv: "sched_inv 0x480000 two_shells"
proof -
  have "t = 0 \<or> t = 1 \<or> t = 2" if "0 \<le> t" "t < 3" for t :: int using that by linarith
  then have h: "0 \<le> height two_shells t \<and> height two_shells t \<le> 7" if "0 \<le> t" "t < 3" for t
    using that by (force simp: height_def two_shells_def nth_Cons')
  have "sched_sized two_shells"
    unfolding sched_sized_def using h by (simp add: two_shells_def idle_kernel_def grid37_def)
  moreover have "in_space 0x480000 1 VIDEO two_shells" by (simp add: in_space_def two_shells_def)
  ultimately show ?thesis
    using two_shells_views(1-3)
    by (auto simp: sched_inv_def two_shells_def topmost_def gat_def height_def)
qed

theorem timer_refines_round_robin_witness:
  "\<exists>s'. run_steps (tick 0x480000 5) [(0x7F0000, 0x7F0040), (0x7E0100, 0x7E0140)] two_shells = Some s' \<and>
     sched_inv 0x480000 s' \<and>
     robin_of s' = fold robin_tick [(0x7F0000, 0x7F0040), (0x7E0100, 0x7E0140)] (robin_of two_shells)"
  using timer_refines_round_robin [OF two_shells_inv two_shells_views(5),
      of "[(0x7F0000, 0x7F0040), (0x7E0100, 0x7E0140)]" 5] by simp

theorem waiting_terminal_runs_witness:
  "\<exists>k s'. 1 \<le> k \<and> k \<le> 2 \<and>
     run_steps (tick 0x480000 5) (take k [(0x7F0000, 0x7F0040), (0x7F0100, 0x7F0140)]) two_shells = Some s' \<and>
     current_process s' = 1 \<and> last_esp s' = 0x7E0000"
proof -
  have t: "1 \<in> runnable two_shells" "1 \<noteq> current_process two_shells" by (simp_all add: two_shells_views)
  from waiting_terminal_runs [OF two_shells_inv two_shells_views(5) t two_shells_views(3),
      of "(0x7F0000, 0x7F0040)" "(0x7F0100, 0x7F0140)" 5]
  show ?thesis unfolding two_shells_views(4) by fastforce
qed

section \<open>What a tick gives the chosen process\<close>

lemma screen_page_aligned: "0 \<le> t \<Longrightarrow> t < 3 \<Longrightarrow> page_aligned (screen_page s t)"
proof -
  assume "0 \<le> t" "t < 3"
  then have "t = 0 \<or> t = 1 \<or> t = 2" by linarith
  then show ?thesis by (auto simp: screen_page_def page_aligned_def VIDEO_def VIDEO_1_def)
qed

text \<open>
  C29: after a tick the processor translates the address space of the process the tick chose: its
  own frame at 128 MB, and at \<open>VIDMAP\<close> the display when its terminal is the displayed one, the
  saved screen of its terminal otherwise. Its kernel stack is its own.
\<close>

theorem tick_address_space:
  assumes inv: "sched_inv pt s" "page_aligned pt" and "snd regs \<noteq> 0"
  shows "\<exists>s'. tick pt junk regs s = Some s' \<and>
    (\<forall>user v. walk pt s' user v = address_space (current_pid (ps s')) (screen_page s (current_process s')) user v) \<and>
    esp0 (tss s') = kernel_stack (current_pid (ps s')) \<and>
    current_pid (ps s') = uint (topmost (schedule_stack s) s (current_process s'))"
proof -
  let ?s = "ticked pt regs s" and ?p = "uint (topmost (schedule_stack s) s (next_turn s))"
  have n: "next_turn s \<in> runnable s" using inv(1) next_terminal_run(2) by (auto simp: sched_inv_def)
  have p: "0 \<le> ?p" "?p < 7" using inv(1) n by (simp_all add: sched_inv_def)
  have al: "page_aligned (screen_page s (next_turn s))" using n by (simp add: screen_page_aligned runnable_iff)
  have "walk pt ?s user v = address_space ?p (screen_page s (next_turn s)) user v" for user v
    by (rule walk_in_space [OF ticked_fields(11) inv(2) al p])
  moreover have "esp0 (tss ?s) = kernel_stack ?p" by (simp add: ticked_def Let_def)
  ultimately show ?thesis using tick_eq [OF assms] by (simp add: ticked_fields)
qed

theorem tick_address_space_witness:
  "\<exists>s'. tick 0x480000 5 (0x7F0000, 0x7F0040) two_shells = Some s' \<and>
    (\<forall>user v. walk 0x480000 s' user v =
       address_space (current_pid (ps s')) (screen_page two_shells (current_process s')) user v)"
  using tick_address_space [OF two_shells_inv two_shells_views(5), of "(0x7F0000, 0x7F0040)" 5] by auto

section \<open>Pushing and popping processes\<close>

lemma top_access:
  assumes "length (schedule_top s) = 3" "0 \<le> t" "t < 3"
  shows "aget (schedule_top s) t = Some (height s t)"
    "aset (schedule_top s) t v = Some ((schedule_top s)[nat t := v])"
  using assms by (simp_all add: aget_def aset_def height_def)

lemma schedule_run:
  assumes "sched_sized s" and t: "current_terminal s = t" "0 \<le> t" "t < 3" and h: "height s t < 7"
  shows "schedule s = Some (s\<lparr>schedule_top := (schedule_top s)[nat t := height s t + 1],
    schedule_stack := gput (schedule_stack s) t (height s t) (of_int (current_pid (ps s)))\<rparr>)"
proof -
  have g: "length (schedule_top s) = 3" "grid37 (schedule_stack s)" "0 \<le> height s t"
    using assms by (simp_all add: sched_sized_def)
  show ?thesis
    using top_access [OF g(1) t(2,3)] grid_access(2) [OF g(2) t(2,3) g(3) h]
    by (simp add: schedule_def t(1))
qed

lemma deschedule_run:
  assumes "sched_sized s" and "current_process s \<in> runnable s"
  defines "t \<equiv> current_process s"
  shows "deschedule s = Some (s\<lparr>
    schedule_stack := gput (schedule_stack s) t (height s t - 1) 0,
    schedule_ebp := gput (schedule_ebp s) t (height s t - 1) 0,
    schedule_esp := gput (schedule_esp s) t (height s t - 1) 0,
    schedule_top := (schedule_top s)[nat t := height s t - 1]\<rparr>)"
proof -
  have g: "length (schedule_top s) = 3" "grid37 (schedule_stack s)" "grid37 (schedule_ebp s)" "grid37 (schedule_esp s)"
    using assms by (simp_all add: sched_sized_def)
  note acc = grid_access(2) [OF _ runnable_height(1-4) [OF assms(1,2)]]
  show ?thesis
    using top_access [OF g(1) runnable_height(1,2) [OF assms(1,2)]] acc [OF g(2)] acc [OF g(3)] acc [OF g(4)]
    by (simp add: deschedule_def t_def Let_def)
qed

lemma height_update:
  assumes "length (schedule_top s) = 3" "0 \<le> t" "t < 3" "0 \<le> u"
  shows "height (s\<lparr>schedule_top := (schedule_top s)[nat t := v]\<rparr>) u = (if u = t then v else height s u)"
  using assms by (auto simp: height_def nth_list_update)

lemma height_cong: "schedule_top s = schedule_top s' \<Longrightarrow> height s t = height s' t"
  by (simp add: height_def)

lemma schedule_sized:
  assumes "sched_sized s" and t: "current_terminal s = t" "0 \<le> t" "t < 3" and h: "height s t < 7"
    and s': "schedule s = Some s'"
  shows "sched_sized s'" "\<And>u. 0 \<le> u \<Longrightarrow> height s' u = (if u = t then height s t + 1 else height s u)"
    "runnable s' = insert t (runnable s)"
proof -
  have g: "length (schedule_top s) = 3" "grid37 (schedule_stack s)" "0 \<le> height s t"
    using assms by (simp_all add: sched_sized_def)
  let ?s = "s\<lparr>schedule_top := (schedule_top s)[nat t := height s t + 1],
    schedule_stack := gput (schedule_stack s) t (height s t) (of_int (current_pid (ps s)))\<rparr>"
  have s: "s' = ?s" using schedule_run [OF assms(1-5)] s' by simp
  show ht: "height s' u = (if u = t then height s t + 1 else height s u)" if "0 \<le> u" for u
    using height_update [OF g(1) t(2,3) that] unfolding s by (simp add: height_def)
  have "0 \<le> height s' u \<and> height s' u \<le> 7" if "0 \<le> u" "u < 3" for u
    using assms(1) ht [OF that(1)] that h g(3) by (auto simp: sched_sized_def)
  then show "sched_sized s'"
    using assms(1) grid_access(3) [OF g(2) t(2,3) g(3) h] unfolding sched_sized_def s by simp
  show "runnable s' = insert t (runnable s)"
    using ht t(2,3) g(3) unfolding runnable_iff set_eq_iff insert_iff by (auto split: if_splits)
qed

text \<open>
  A process pushed by \<open>schedule\<close> is popped by \<open>deschedule\<close>: when the terminal of the running
  process is the displayed one, the heights of the three stacks are restored, the new process
  was on top in between, and nothing but its slot changes in the stacks.
\<close>

lemma schedule_deschedule:
  assumes sz: "sched_sized s" and t: "current_terminal s = t" "current_process s = t" "0 \<le> t" "t < 3"
    and h: "height s t < 7"
  shows "\<exists>s1 s2. schedule s = Some s1 \<and> height s1 t = height s t + 1 \<and>
    topmost (schedule_stack s1) s1 t = of_int (current_pid (ps s)) \<and>
    deschedule s1 = Some s2 \<and> sched_sized s2 \<and> schedule_top s2 = schedule_top s \<and>
    (\<forall>u k. 0 \<le> u \<and> 0 \<le> k \<longrightarrow> gat (schedule_stack s2) u k =
       (if u = t \<and> k = height s t then 0 else gat (schedule_stack s) u k))"
proof -
  have g: "length (schedule_top s) = 3" "grid37 (schedule_stack s)" "0 \<le> height s t"
    using sz t by (simp_all add: sched_sized_def)
  let ?g = "gput (schedule_stack s) t (height s t) (of_int (current_pid (ps s)))"
  let ?s1 = "s\<lparr>schedule_top := (schedule_top s)[nat t := height s t + 1], schedule_stack := ?g\<rparr>"
  have s1: "schedule s = Some ?s1" by (rule schedule_run [OF sz t(1,3,4) h])
  note z = schedule_sized [OF sz t(1,3,4) h s1]
  have gg: "grid37 ?g" by (rule grid_access(3) [OF g(2) t(3,4) g(3) h])
  have h1: "height ?s1 t = height s t + 1" using z(2) t(3) by simp
  have run1: "current_process ?s1 \<in> runnable ?s1" unfolding z(3) using t(2) by simp
  let ?s2 = "?s1\<lparr>schedule_stack := gput ?g t (height s t) 0,
    schedule_ebp := gput (schedule_ebp s) t (height s t) 0, schedule_esp := gput (schedule_esp s) t (height s t) 0,
    schedule_top := schedule_top s\<rparr>"
  have "(schedule_top s)[nat t := height s t] = schedule_top s" by (simp add: height_def)
  then have s2: "deschedule ?s1 = Some ?s2"
    using deschedule_run [OF z(1) run1] h1 t(2) by simp
  have g2: "grid37 (schedule_ebp s)" "grid37 (schedule_esp s)" using sz by (simp_all add: sched_sized_def)
  have "height ?s2 = height s" by (simp add: fun_eq_iff height_def)
  then have sz2: "sched_sized ?s2"
    using sz grid_access(3) [OF gg t(3,4) g(3) h] grid_access(3) [OF g2(1) t(3,4) g(3) h]
      grid_access(3) [OF g2(2) t(3,4) g(3) h]
    unfolding sched_sized_def by simp
  have "topmost (schedule_stack ?s1) ?s1 t = of_int (current_pid (ps s))"
    using gat_gput [OF g(2) t(3,4) g(3) h t(3) g(3)] h1 by (simp add: topmost_def)
  moreover have "gat (schedule_stack ?s2) u k = (if u = t \<and> k = height s t then 0 else gat (schedule_stack s) u k)"
    if "0 \<le> u" "0 \<le> k" for u k
    using gat_gput [OF gg t(3,4) g(3) h that] gat_gput [OF g(2) t(3,4) g(3) h that] by simp
  ultimately show ?thesis
    using s1 s2 sz2 h1 by (intro exI [of _ ?s1] exI [of _ ?s2]) simp
qed

lemma schedule_deschedule_witness:
  "\<exists>s1 s2. schedule two_shells = Some s1 \<and> height s1 0 = 2 \<and> deschedule s1 = Some s2 \<and>
     schedule_top s2 = schedule_top two_shells"
proof -
  have "height two_shells 0 = 1" "current_terminal two_shells = 0"
    by (simp_all add: height_def two_shells_def idle_kernel_def)
  then show ?thesis
    using schedule_deschedule [of two_shells 0] two_shells_inv two_shells_views(2)
    by (auto simp: sched_inv_def)
qed

text \<open>
  \<open>schedule\<close> pushes on the stack of the displayed terminal and \<open>deschedule\<close> pops the stack
  of the terminal whose turn it is. When a process starts while another terminal is displayed
  and ends in its own turn, the displayed terminal keeps an entry too many and its own terminal
  loses the process that was running.
\<close>

lemma schedule_wrong_terminal:
  assumes sz: "sched_sized s" and t: "current_terminal s = t" "0 \<le> t" "t < 3" and h: "height s t < 7"
    and c: "current_process s \<in> runnable s" "current_process s \<noteq> t"
  shows "\<exists>s1 s2. schedule s = Some s1 \<and> deschedule s1 = Some s2 \<and>
    height s2 t = height s t + 1 \<and> height s2 (current_process s) = height s (current_process s) - 1"
proof -
  let ?c = "current_process s"
  let ?s1 = "s\<lparr>schedule_top := (schedule_top s)[nat t := height s t + 1],
    schedule_stack := gput (schedule_stack s) t (height s t) (of_int (current_pid (ps s)))\<rparr>"
  have s1: "schedule s = Some ?s1" by (rule schedule_run [OF sz t h])
  note z = schedule_sized [OF sz t h s1]
  have c0: "0 \<le> ?c" "?c < 3" using runnable_height(1,2) [OF sz c(1)] .
  have run1: "current_process ?s1 \<in> runnable ?s1" unfolding z(3) using c(1) by simp
  from deschedule_run [OF z(1) run1] obtain s2 where s2: "deschedule ?s1 = Some s2"
    "schedule_top s2 = (schedule_top ?s1)[nat ?c := height ?s1 ?c - 1]" by simp
  have "length (schedule_top ?s1) = 3" using sz by (simp add: sched_sized_def)
  note hu = height_update [OF this c0, of _ "height ?s1 ?c - 1"]
  have "height s2 u = (if u = ?c then height ?s1 ?c - 1 else height ?s1 u)" if "0 \<le> u" for u
    using hu [OF that] s2(2) by (simp add: height_def)
  then show ?thesis
    using s1 s2(1) z(2) t(2) c(2) c0 by (intro exI [of _ ?s1] exI [of _ s2]) simp
qed

lemma schedule_wrong_terminal_witness:
  "\<exists>s1 s2. schedule (two_shells\<lparr>current_terminal := 1\<rparr>) = Some s1 \<and> deschedule s1 = Some s2 \<and>
    height s2 1 = 2 \<and> height s2 0 = 0"
proof -
  let ?s = "two_shells\<lparr>current_terminal := 1\<rparr>"
  have eq: "height ?s = height two_shells" "runnable ?s = runnable two_shells"
    by (simp_all add: fun_eq_iff height_def runnable_def)
  have "sched_sized ?s" using two_shells_inv unfolding sched_inv_def sched_sized_def eq by simp
  moreover have "height two_shells 0 = 1" "height two_shells 1 = 1" by (simp_all add: height_def two_shells_def)
  ultimately show ?thesis
    using schedule_wrong_terminal [of ?s 1] two_shells_views(1,2) unfolding eq by simp
qed

end
