(* ===== verification/Clock.thy ===== *)
theory Clock
  imports Terminal_Input Scheduler
begin

text \<open>
  The real-time clock: \<^verbatim>\<open>student-distrib/rtc_driver.c\<close> with \<open>RTC_init\<close> and \<open>handle_RTC\<close> of
  \<^verbatim>\<open>interrupts.c\<close>.

  The state of the whole kernel adds to the records below it the pointer \<open>rtc\<close> to the operation
  table of the clock and the file system. What the chip answers is the device parameter \<open>dev\<close>.
  The virtual counters are integers: at the fastest rate they need more than eighteen hours to
  reach the largest \<open>int\<close>, and every use resets them.
\<close>

record system = kernel +
  rtc_ptr :: "optable_id option"
  fs :: fsys

definition CMOS_REG :: u16 where "CMOS_REG = 0x70"
definition RTC_REG :: u16 where "RTC_REG = 0x71"
definition IRQ2 :: u32 where "IRQ2 = 2"
definition IRQ8 :: u32 where "IRQ8 = 8"
definition MAX_RTC_RATE :: int where "MAX_RTC_RATE = 32768"

section \<open>rtc_driver.c\<close>

definition rtc_optable :: "'a system_scheme \<Rightarrow> 'a system_scheme" where
  "rtc_optable s = s\<lparr>rtc_ptr := Some Rtc_table, ps := (ps s)\<lparr>tables := (tables (ps s))
     (Rtc_table := \<lparr>op_open = Some Rtc_open, op_read = Some Rtc_read, op_write = Some Rtc_write,
        op_close = Some Rtc_close\<rparr>)\<rparr>\<rparr>"

text \<open>Whether the clock is already open, in the descriptors from \<open>i\<close> on.\<close>

function rtc_in_use :: "optable_id option \<Rightarrow> procs \<Rightarrow> int \<Rightarrow> bool option" where
  "rtc_in_use rtc p i =
     (if i < FDT_SIZE then
        (case get_fd p i of None \<Rightarrow> None | Some b \<Rightarrow>
           if is_free b then rtc_in_use rtc p (i + 1)
           else if file_operations_pointer b = rtc then Some True
           else rtc_in_use rtc p (i + 1))
      else Some False)"
  by pat_completeness auto
termination
  by (relation "measure (\<lambda>(rtc, p, i). nat (FDT_SIZE - i))") auto

declare rtc_in_use.simps [simp del]

text \<open>Selecting register A and storing \<open>(existing & 0xF0) | rate\<close> in it.\<close>

definition set_rate :: "device \<Rightarrow> u8 \<Rightarrow> 'a machine_scheme \<Rightarrow> 'a machine_scheme" where
  "set_rate dev rate s =
     (let s = outb 0x8A CMOS_REG s;
          exisiting = inb dev RTC_REG s;
          s = outb 0x8A CMOS_REG s
      in outb ((exisiting AND 0xF0) OR rate) RTC_REG s)"

text \<open>The file position of the new descriptor is not initialised: \<open>junk\<close>.\<close>

definition rtc_block :: "optable_id option \<Rightarrow> u32 \<Rightarrow> fd_block" where
  "rtc_block rtc junk = \<lparr>file_operations_pointer = rtc, inode = 0, file_position = junk, flags = 1\<rparr>"

definition rtc_open :: "device \<Rightarrow> u32 \<Rightarrow> 'a system_scheme \<Rightarrow> (int \<times> 'a system_scheme) option" where
  "rtc_open dev junk s = do {
     let fl = iflag s;
     let s = cli s;
     used \<leftarrow> rtc_in_use (rtc_ptr s) (ps s) 2;
     if used then Some (-1, s)
     else do {
       slot \<leftarrow> fd_scan FDT_SIZE (ps s) 2;
       case slot of
         Inl r \<Rightarrow> Some (r, s)
       | Inr open_slot \<Rightarrow> do {
           let s = set_rate dev 15 s;
           let s = restore_flags fl s;
           p \<leftarrow> put_fd (ps s) open_slot (rtc_block (rtc_ptr s) junk);
           Some (open_slot, sti (s\<lparr>ps := p\<rparr>)) } } }"

definition rtc_close_fd :: "int \<Rightarrow> procs \<Rightarrow> (int \<times> procs) option" where
  "rtc_close_fd fd p =
     (if fd < 2 \<or> fd \<ge> FDT_SIZE then Some (-1, p)
      else do {
        b \<leftarrow> get_fd p fd;
        if flags b = 0 then Some (-1, p)
        else do { p \<leftarrow> put_fd p fd (freed b); Some (0, p) } })"

definition rtc_close :: "int \<Rightarrow> 'a sched_scheme \<Rightarrow> (int \<times> 'a sched_scheme) option" where
  "rtc_close fd s = do {
     (r, p) \<leftarrow> rtc_close_fd fd (ps s);
     Some (r, (if r = 0 then sti else id) ((cli s)\<lparr>ps := p\<rparr>)) }"

section \<open>interrupts.c\<close>

definition handle_RTC :: "device \<Rightarrow> 'a kernel_scheme \<Rightarrow> 'a kernel_scheme option" where
  "handle_RTC dev s = do {
     let fl = iflag s;
     let s = cli s;
     n0 \<leftarrow> aget (rtc_virtual_interupt s) 0;
     rv \<leftarrow> aset (rtc_virtual_interupt s) 0 (n0 + 1);
     n1 \<leftarrow> aget rv 1;
     rv \<leftarrow> aset rv 1 (n1 + 1);
     n2 \<leftarrow> aget rv 2;
     rv \<leftarrow> aset rv 2 (n2 + 1);
     let s = s\<lparr>rtc_virtual_interupt := rv\<rparr>;
     let s = send_eoi IRQ8 s;
     let s = outb 0x0C CMOS_REG s;
     Some (restore_flags fl s) }"

text \<open>The read of register C that ends the handler acknowledges the interrupt in the chip.\<close>

definition RTC_init :: "device \<Rightarrow> 'a system_scheme \<Rightarrow> 'a system_scheme option" where
  "RTC_init dev s = do {
     let s = outb 0x8B CMOS_REG s;
     let prev = inb dev RTC_REG s;
     let s = outb 0x8B CMOS_REG s;
     let s = outb (prev OR 0x40) RTC_REG s;
     let s = enable_irq dev IRQ8 (enable_irq dev IRQ2 s);
     let s = rtc_optable s;
     rr \<leftarrow> aset (rtc_running s) 0 2;
     rr \<leftarrow> aset rr 1 2;
     rr \<leftarrow> aset rr 2 2;
     rv \<leftarrow> aset (rtc_virtual_interupt s) 0 0;
     rv \<leftarrow> aset rv 1 0;
     rv \<leftarrow> aset rv 2 0;
     Some (restore_flags False (s\<lparr>rtc_running := rr, rtc_virtual_interupt := rv\<rparr>)) }"

section \<open>Reading and setting the rate\<close>

text \<open>\<open>ints\<close> are the clock interrupts that arrive while \<open>rtc_read\<close> waits.\<close>

definition rtc_read :: "device \<Rightarrow> unit list \<Rightarrow> int \<Rightarrow> 'a kernel_scheme \<Rightarrow> (int \<times> 'a kernel_scheme) option" where
  "rtc_read dev ints fd s = do {
     let cip = current_process s;
     let s = sti s;
     rv \<leftarrow> aset (rtc_virtual_interupt s) cip 0;
     (s, rest) \<leftarrow> spin (\<lambda>s. map_option (\<lambda>n. n < 1) (aget (rtc_virtual_interupt s) cip))
       (\<lambda>_. handle_RTC dev) ints (s\<lparr>rtc_virtual_interupt := rv\<rparr>);
     rv \<leftarrow> aset (rtc_virtual_interupt s) cip 0;
     Some (0, cli (s\<lparr>rtc_virtual_interupt := rv\<rparr>)) }"

text \<open>
  The local \<open>passed_rate\<close>: its first \<open>rate_size\<close> bytes come from the buffer, the others are not
  initialised (\<open>junk\<close>). A size above four writes past it, which is \<open>None\<close>.
\<close>

definition passed_rate :: "memory \<Rightarrow> u32 \<Rightarrow> memory \<Rightarrow> u32 \<Rightarrow> u32 option" where
  "passed_rate mem buf junk rate_size =
     (if rate_size \<le> 4
      then Some (load32 (\<lambda>a. if a < rate_size then mem (buf + a) else junk a) 0)
      else None)"

text \<open>The loop over the powers of two; \<open>mask\<close> is \<open>2 ^ k\<close>, and \<open>Inl\<close> is the early return.\<close>

function rate_loop :: "nat \<Rightarrow> u8 \<Rightarrow> int \<Rightarrow> int + u8" where
  "rate_loop k rate passed =
     (if 2 ^ k \<le> MAX_RTC_RATE then
        if 2 ^ k = passed then Inr rate
        else if 2 ^ k = MAX_RTC_RATE then Inl (-1)
        else rate_loop (Suc k) (rate - 1) passed
      else Inr rate)"
  by pat_completeness auto
termination
proof (relation "measure (\<lambda>(k, rate, passed). 16 - k)")
  fix k :: nat and rate :: u8 and passed :: int
  assume "2 ^ k \<le> MAX_RTC_RATE"
  then have "(2::int) ^ k \<le> 2 ^ 15" by (simp add: MAX_RTC_RATE_def)
  then have "k \<le> 15" by (rule power_le_imp_le_exp [rotated]) simp
  then show "((Suc k, rate - 1, passed), k, rate, passed) \<in> measure (\<lambda>(k, rate, passed). 16 - k)" by auto
qed simp

declare rate_loop.simps [simp del]

definition rtc_write :: "device \<Rightarrow> memory \<Rightarrow> int \<Rightarrow> memory \<Rightarrow> u32 \<Rightarrow> int \<Rightarrow> 'a kernel_scheme \<Rightarrow>
    (int \<times> 'a kernel_scheme) option" where
  "rtc_write dev junk fd mem buf rate_size s = do {
     let s = cli s;
     passed \<leftarrow> passed_rate mem buf junk (of_int rate_size);
     case rate_loop 1 0x0F (sint passed) of
       Inl r \<Rightarrow> Some (r, s)
     | Inr rate \<Rightarrow> do {
         rr \<leftarrow> aset (rtc_running s) (current_process s) (sint passed);
         rv \<leftarrow> aset (rtc_virtual_interupt s) (current_process s) 0;
         let s = s\<lparr>rtc_running := rr, rtc_virtual_interupt := rv\<rparr>;
         let fl = iflag s;
         let s = set_rate dev rate (cli s);
         Some (0, restore_flags fl s) } }"

section \<open>The rate\<close>

lemma two_powers:
  assumes "k \<le> 15"
  shows "(2::int) ^ k \<le> MAX_RTC_RATE" "(2::int) ^ k = MAX_RTC_RATE \<longleftrightarrow> k = 15"
proof -
  have m: "MAX_RTC_RATE = 2 ^ 15" by (simp add: MAX_RTC_RATE_def)
  show "(2::int) ^ k \<le> MAX_RTC_RATE" unfolding m using assms by (rule power_increasing) simp
  show "(2::int) ^ k = MAX_RTC_RATE \<longleftrightarrow> k = 15" unfolding m by (rule power_inject_exp) simp
qed

lemma rate_loop_found:
  assumes "j \<le> k" "k \<le> 15"
  shows "rate_loop j r (2 ^ k) = Inr (r - of_nat (k - j))"
  using assms
proof (induction "k - j" arbitrary: j r)
  case 0
  then show ?case by (subst rate_loop.simps) (simp add: two_powers)
next
  case (Suc n)
  then have j: "j < k" "j \<le> 15" "j \<noteq> 15" "n = k - Suc j" by auto
  have "k - j = Suc (k - Suc j)" using j by simp
  moreover have "rate_loop j r (2 ^ k) = rate_loop (Suc j) (r - 1) (2 ^ k)"
    using j two_powers [OF j(2)] by (subst rate_loop.simps) simp
  moreover have "rate_loop (Suc j) (r - 1) (2 ^ k) = Inr (r - 1 - of_nat (k - Suc j))"
    using Suc j by (intro Suc.hyps(1)) auto
  ultimately show ?case by (simp add: algebra_simps)
qed

lemma rate_loop_missing:
  assumes "j \<le> 15" and "\<And>k. j \<le> k \<Longrightarrow> k \<le> 15 \<Longrightarrow> passed \<noteq> 2 ^ k"
  shows "rate_loop j r passed = Inl (-1)"
  using assms
proof (induction "15 - j" arbitrary: j r)
  case 0
  then have "j = 15" "passed \<noteq> 2 ^ j" by auto
  then show ?case using two_powers [of j] by (subst rate_loop.simps) auto
next
  case (Suc n)
  then have j: "j < 15" "n = 15 - Suc j" "passed \<noteq> 2 ^ j" by auto
  have "rate_loop j r passed = rate_loop (Suc j) (r - 1) passed"
    using j two_powers [of j] by (subst rate_loop.simps) auto
  also have "\<dots> = Inl (-1)" using Suc j by (intro Suc.hyps(1)) auto
  finally show ?case .
qed

lemma passed_rate_whole: "passed_rate mem buf junk 4 = Some (load32 mem buf)"
  by (simp add: passed_rate_def load32_def)

lemma rate_cases:
  assumes "1 \<le> k" "k \<le> 15"
  shows "k \<in> {1,2,3,4,5,6,7,8,9,10,11,12,13,14,15 :: nat}"
  using assms unfolding insert_iff empty_iff by presburger

lemma sint_power:
  assumes "1 \<le> k" "k \<le> 15" "w = 2 ^ k"
  shows "sint (w :: u32) = 2 ^ k"
  using rate_cases [OF assms(1,2)] assms(3) by auto

text \<open>
  C32: \<open>rtc_write\<close> of a power of two from 2 to 32768 stores in register A of the clock a rate
  \<open>r\<close> whose frequency, 32768 shifted right by \<open>r - 1\<close>, is the number passed, keeps the upper
  half of the register, resets the counter of the terminal, and returns 0, with the interrupts
  off.
\<close>

theorem rtc_write_frequency:
  assumes k: "1 \<le> k" "k \<le> 15" and rate: "load32 mem buf = 2 ^ k"
    and t: "0 \<le> current_process s" "current_process s < 3"
    and len: "length (rtc_running s) = 3" "length (rtc_virtual_interupt s) = 3"
  shows "\<exists>s' r. rtc_write dev junk fd mem buf 4 s = Some (0, s') \<and> 1 \<le> r \<and> r \<le> 15 \<and>
    drop_bit (r - 1) (32768 :: nat) = 2 ^ k \<and>
    outs s' = outs s @ [(0x8A, 0x70), (0x8A, 0x70),
      ((dev (outs s @ [(0x8A, 0x70)]) 0x71 AND 0xF0) OR of_nat r, 0x71)] \<and>
    rtc_running s' ! nat (current_process s) = 2 ^ k \<and>
    rtc_virtual_interupt s' ! nat (current_process s) = 0 \<and> \<not> iflag s'"
proof -
  note kk = rate_cases [OF k]
  have "(15 :: u8) - of_nat (k - 1) = of_nat (16 - k)" using kk by auto
  then have loop: "rate_loop 1 0x0F (2 ^ k) = Inr (of_nat (16 - k))"
    using rate_loop_found [OF k] by simp
  have freq: "drop_bit (16 - k - 1) (32768 :: nat) = 2 ^ k" using kk by auto
  have "passed_rate mem buf junk 4 = Some (2 ^ k)" using passed_rate_whole rate by simp
  moreover have "sint (2 ^ k :: u32) = 2 ^ k" using sint_power [OF k refl] .
  ultimately show ?thesis
    using loop freq k t len
    by (intro exI [of _ "16 - k"] exI)
      (auto simp: rtc_write_def aset_def cli_def set_rate_def restore_flags_def outb_def inb_def CMOS_REG_def RTC_REG_def Let_def)
qed

definition clock_system :: system where
  "clock_system = kernel.extend idle_kernel \<lparr>rtc_ptr = Some Rtc_table, fs = sample_fs\<rparr>"

definition rate_mem :: memory where
  "rate_mem = (\<lambda>a. if a = 1 then 4 else 0)"

theorem rtc_write_frequency_witness:
  "\<exists>s'. rtc_write (last_write 0xFF) rate_mem 3 rate_mem 0 4 idle_kernel = Some (0, s') \<and>
     rtc_running s' ! 0 = 1024"
proof -
  have "load32 rate_mem 0 = 2 ^ 10" by (simp add: load32_def rate_mem_def)
  moreover have "current_process idle_kernel = 0" "length (rtc_running idle_kernel) = 3"
    "length (rtc_virtual_interupt idle_kernel) = 3" by (simp_all add: idle_kernel_def)
  ultimately show ?thesis
    using rtc_write_frequency [of 10 rate_mem 0 idle_kernel "last_write 0xFF" rate_mem 3] by auto
qed

text \<open>
  \<open>rtc_write\<close> of any other number fails and sends nothing to the clock.
\<close>

lemma rtc_write_rejects:
  assumes "\<And>k. 1 \<le> k \<Longrightarrow> k \<le> 15 \<Longrightarrow> sint (load32 mem buf) \<noteq> 2 ^ k"
  shows "rtc_write dev junk fd mem buf 4 s = Some (-1, s\<lparr>iflag := False\<rparr>)"
  using rate_loop_missing [OF _ assms, of 1] passed_rate_whole [of mem buf junk]
  by (simp add: rtc_write_def cli_def)

lemma rtc_write_rejects_witness:
  "rtc_write (last_write 0xFF) rate_mem 3 (\<lambda>_. 0) 0 4 idle_kernel = Some (-1, idle_kernel\<lparr>iflag := False\<rparr>)"
proof (rule rtc_write_rejects)
  fix k :: nat
  have "load32 (\<lambda>_. 0) 0 = (0 :: u32)" by (simp add: load32_def)
  then show "sint (load32 (\<lambda>_. 0) 0) \<noteq> 2 ^ k" by simp
qed

section \<open>Waiting for the clock\<close>

lemma handle_RTC_run:
  assumes "length (rtc_virtual_interupt s) = 3"
  obtains s' where "handle_RTC dev s = Some s'"
    "rtc_virtual_interupt s' = map (\<lambda>n. n + 1) (rtc_virtual_interupt s)"
    "iflag s' = iflag s" "outs s' = outs s @ [(0x62, 0x20), (0x60, 0xA0), (0x0C, 0x70)]"
proof -
  obtain a b c where abc: "rtc_virtual_interupt s = [a, b, c]"
    using assms by (auto simp: length_Suc_conv numeral_3_eq_3)
  show ?thesis
    by (rule that [of "s\<lparr>iflag := iflag s, rtc_virtual_interupt := [a + 1, b + 1, c + 1],
        outs := outs s @ [(0x62, 0x20), (0x60, 0xA0), (0x0C, 0x70)]\<rparr>"])
      (simp_all add: handle_RTC_def abc aget_def aset_def cli_def IRQ8_def send_eoi_lines outb_def
        restore_flags_def CMOS_REG_def)
qed

text \<open>
  C31: \<open>rtc_read\<close> waits for exactly one clock interrupt: with none it does not return, and with
  one or more it returns 0 after the first, with the counter of the terminal at 0 and the
  counters of the other terminals one higher.
\<close>

theorem rtc_read_waits:
  assumes t: "0 \<le> current_process s" "current_process s < 3" and len: "length (rtc_virtual_interupt s) = 3"
  shows "rtc_read dev [] fd s = None \<and>
    (\<exists>s'. rtc_read dev (i # ints) fd s = Some (0, s') \<and> \<not> iflag s' \<and>
      rtc_virtual_interupt s' = (map (\<lambda>n. n + 1) (rtc_virtual_interupt s))[nat (current_process s) := 0] \<and>
      outs s' = outs s @ [(0x62, 0x20), (0x60, 0xA0), (0x0C, 0x70)])"
proof -
  let ?c = "nat (current_process s)"
  let ?s0 = "(sti s)\<lparr>rtc_virtual_interupt := (rtc_virtual_interupt s)[?c := 0]\<rparr>"
  have c: "?c < 3" using t by auto
  have "length (rtc_virtual_interupt ?s0) = 3" using len by simp
  then obtain s1 where s1: "handle_RTC dev ?s0 = Some s1"
      "rtc_virtual_interupt s1 = map (\<lambda>n. n + 1) (rtc_virtual_interupt ?s0)" "iflag s1 = iflag ?s0"
      "outs s1 = outs ?s0 @ [(0x62, 0x20), (0x60, 0xA0), (0x0C, 0x70)]"
    by (rule handle_RTC_run [of ?s0 dev])
  have len1: "length (rtc_virtual_interupt s1) = 3" using s1(2) len by simp
  have at1: "rtc_virtual_interupt s1 ! ?c = 1" using s1(2) len c by simp
  let ?cond = "\<lambda>s'. map_option (\<lambda>n. n < 1) (aget (rtc_virtual_interupt s') (current_process s))"
  have c0: "?cond ?s0 = Some True" using t len c by (simp add: aget_def sti_def)
  have c1: "?cond s1 = Some False" using t len1 at1 by (simp add: aget_def)
  have none: "spin ?cond (\<lambda>_. handle_RTC dev) [] ?s0 = None" unfolding spin.simps(1) c0 by simp
  have some: "spin ?cond (\<lambda>_. handle_RTC dev) (i # ints) ?s0 = Some (s1, ints)"
    using spin_step [of ?cond ?s0 "\<lambda>_. handle_RTC dev" i s1 ints, OF c0 s1(1)] spin_done [of ?cond s1, OF c1] by (simp only:)
  have set0: "aset (rtc_virtual_interupt (sti s)) (current_process s) 0 = Some ((rtc_virtual_interupt s)[?c := 0])"
    using t len by (simp add: aset_def sti_def)
  have set1: "aset (rtc_virtual_interupt s1) (current_process s) 0 = Some ((rtc_virtual_interupt s1)[?c := 0])"
    using t len1 by (simp add: aset_def)
  have "rtc_read dev [] fd s = None"
    unfolding rtc_read_def Let_def set0 by (simp add: none del: spin.simps)
  moreover have "rtc_read dev (i # ints) fd s =
      Some (0, cli (s1\<lparr>rtc_virtual_interupt := (rtc_virtual_interupt s1)[?c := 0]\<rparr>))"
    unfolding rtc_read_def Let_def set0 bind.bind_lunit some by (simp add: set1)
  ultimately show ?thesis
    using s1(2,4) by (simp add: cli_def sti_def map_update)
qed

theorem rtc_read_waits_witness:
  "rtc_read (last_write 0xFF) [] 3 idle_kernel = None \<and>
   (\<exists>s'. rtc_read (last_write 0xFF) [(), ()] 3 idle_kernel = Some (0, s') \<and> rtc_virtual_interupt s' = [0, 1, 1])"
proof -
  have "current_process idle_kernel = 0" "rtc_virtual_interupt idle_kernel = [0, 0, 0]"
    by (simp_all add: idle_kernel_def)
  then show ?thesis using rtc_read_waits [of idle_kernel "last_write 0xFF" 3 "()" "[()]"] by auto
qed

section \<open>Opening and closing the clock\<close>

definition clock_open :: "optable_id option \<Rightarrow> procs \<Rightarrow> int \<Rightarrow> bool" where
  "clock_open rtc p i \<longleftrightarrow>
     (\<exists>k b. i \<le> k \<and> k < 8 \<and> get_fd p k = Some b \<and> \<not> is_free b \<and> file_operations_pointer b = rtc)"

lemma clock_open_step:
  assumes "i < 8" "get_fd p i = Some b"
  shows "clock_open rtc p i \<longleftrightarrow> \<not> is_free b \<and> file_operations_pointer b = rtc \<or> clock_open rtc p (i + 1)"
proof -
  have "i \<le> k \<longleftrightarrow> k = i \<or> i + 1 \<le> k" for k :: int by auto
  with assms show ?thesis unfolding clock_open_def by auto
qed

lemma rtc_in_use_eq:
  assumes "procs_wf p" "0 \<le> i" "i \<le> 8"
  shows "rtc_in_use rtc p i = Some (clock_open rtc p i)"
  using assms
proof (induction "nat (8 - i)" arbitrary: i)
  case 0
  then show ?case by (simp add: rtc_in_use.simps FDT_SIZE_def clock_open_def)
next
  case (Suc n)
  then have i: "i < 8" by linarith
  then obtain b where b: "get_fd p i = Some b" using get_fd_wf [OF assms(1)] Suc.prems by blast
  have "rtc_in_use rtc p (i + 1) = Some (clock_open rtc p (i + 1))"
    using Suc i by (intro Suc.hyps(1)) auto
  then show ?case
    using i b clock_open_step [OF i b, of rtc] by (subst rtc_in_use.simps) (simp add: FDT_SIZE_def)
qed

lemma rtc_close_used:
  assumes "2 \<le> fd" "fd < 8" "get_fd p fd = Some b" "flags b \<noteq> 0"
  shows "\<exists>p'. rtc_close_fd fd p = Some (0, p') \<and> put_fd p fd (freed b) = Some p'"
proof -
  obtain p' where "put_fd p fd (freed b) = Some p'"
    using fd_store.put_valid [of p fd "freed b"] assms(3) by auto
  with assms show ?thesis by (simp add: rtc_close_fd_def FDT_SIZE_def)
qed

text \<open>The clock's descriptors obey the contract of the files' and directories'.\<close>

interpretation rtc_fd: descriptor_ops "take_slot FDT_SIZE (\<lambda>_. rtc_block rtc junk)" rtc_close_fd
    "\<lambda>_. rtc_block rtc junk" for rtc junk
proof
  show "\<exists>j p'. take_slot FDT_SIZE (\<lambda>_. rtc_block rtc junk) p = Some (j, p') \<and> lowest_free p j \<and>
      put_fd p j (rtc_block rtc junk) = Some p'" if "procs_wf p" "\<not> fds_full p" for p
    using take_slot_free [OF that FDT_SIZE_ge(1), of "\<lambda>_. rtc_block rtc junk"] by simp
  show "\<exists>p'. rtc_close_fd fd p = Some (0, p') \<and> put_fd p fd (freed b) = Some p'"
    if "2 \<le> fd" "fd < 8" "get_fd p fd = Some b" "flags b \<noteq> 0" for p fd b
    using rtc_close_used [OF that] .
  show "rtc_close_fd fd p = Some (-1, p)" if "fd < 2 \<or> 8 \<le> fd" for p fd
    using that by (auto simp: rtc_close_fd_def FDT_SIZE_def)
qed

lemma rtc_open_slot:
  assumes "procs_wf (ps s)" "\<not> fds_full (ps s)" "\<not> clock_open (rtc_ptr s) (ps s) 2"
    and slot: "take_slot FDT_SIZE (\<lambda>_. rtc_block (rtc_ptr s) junk) (ps s) = Some (j, p')"
  shows "rtc_open dev junk s = Some (j, sti ((restore_flags (iflag s) (set_rate dev 15 (cli s)))\<lparr>ps := p'\<rparr>))"
proof -
  have f: "ps (cli s) = ps s" "rtc_ptr (cli s) = rtc_ptr s" by (simp_all add: cli_def)
  obtain k where k: "fd_scan FDT_SIZE (ps s) 2 = Some (Inr k)"
    using fd_scan_free [OF assms(1,2) FDT_SIZE_ge(1)] by blast
  then have put: "k = j" "put_fd (ps s) j (rtc_block (rtc_ptr s) junk) = Some p'"
    using slot by (auto simp: take_slot_def split: option.splits)
  let ?u = "restore_flags (iflag s) (set_rate dev 15 (cli s))"
  have u: "ps ?u = ps s" "rtc_ptr ?u = rtc_ptr s"
    by (simp_all add: restore_flags_def set_rate_def Let_def outb_def cli_def)
  show ?thesis
    using k put rtc_in_use_eq [OF assms(1), of 2 "rtc_ptr s"] assms(3) unfolding rtc_open_def Let_def f
    by (simp add: u)
qed

text \<open>
  With a free descriptor and no clock open, \<open>rtc_open\<close> takes the lowest free slot, sets the
  chip to 2 Hz and leaves the interrupts on; a second \<open>rtc_open\<close> then fails; \<open>rtc_close\<close> of the
  slot succeeds and leaves it the lowest free one again, the other descriptors unchanged.
\<close>

theorem rtc_open_close:
  assumes wf: "procs_wf (ps s)" "\<not> fds_full (ps s)" and un: "\<not> clock_open (rtc_ptr s) (ps s) 2"
  shows "\<exists>j s1 s2. rtc_open dev junk s = Some (j, s1) \<and> lowest_free (ps s) j \<and> iflag s1 \<and>
    outs s1 = outs s @ [(0x8A, 0x70), (0x8A, 0x70), ((dev (outs s @ [(0x8A, 0x70)]) 0x71 AND 0xF0) OR 15, 0x71)] \<and>
    rtc_open dev junk s1 = Some (-1, s1\<lparr>iflag := False\<rparr>) \<and>
    rtc_close j s1 = Some (0, s2) \<and> procs_wf (ps s2) \<and> lowest_free (ps s2) j \<and>
    (\<forall>i. i \<noteq> j \<longrightarrow> get_fd (ps s2) i = get_fd (ps s) i)"
proof -
  let ?b = "rtc_block (rtc_ptr s) junk"
  have b: "\<not> is_free ?b" "flags ?b \<noteq> 0" by (simp_all add: rtc_block_def is_free_def)
  obtain j p1 where j: "take_slot FDT_SIZE (\<lambda>_. ?b) (ps s) = Some (j, p1)" "lowest_free (ps s) j"
    "get_fd p1 j = Some ?b" "\<And>i. i \<noteq> j \<Longrightarrow> get_fd p1 i = get_fd (ps s) i" "procs_wf p1"
    by (rule rtc_fd.opening_ok [OF wf, of "rtc_ptr s" junk]) (rule that; assumption)
  from rtc_fd.open_close_reuse [OF wf b] j(1)
  obtain p2 where p2: "rtc_close_fd j p1 = Some (0, p2)" "procs_wf p2" "lowest_free p2 j"
    "\<forall>i. i \<noteq> j \<longrightarrow> get_fd p2 i = get_fd (ps s) i" by auto
  define s1 where "s1 = sti ((restore_flags (iflag s) (set_rate dev 15 (cli s)))\<lparr>ps := p1\<rparr>)"
  have s1: "rtc_open dev junk s = Some (j, s1)"
    unfolding s1_def by (rule rtc_open_slot [OF wf un j(1)])
  have f: "ps s1 = p1" "rtc_ptr s1 = rtc_ptr s" "iflag s1"
    "outs s1 = outs s @ [(0x8A, 0x70), (0x8A, 0x70), ((dev (outs s @ [(0x8A, 0x70)]) 0x71 AND 0xF0) OR 15, 0x71)]"
    by (simp_all add: s1_def sti_def restore_flags_def set_rate_def Let_def outb_def inb_def cli_def
        CMOS_REG_def RTC_REG_def)
  have "file_operations_pointer ?b = rtc_ptr s" by (simp add: rtc_block_def)
  then have "clock_open (rtc_ptr s1) (ps s1) 2"
    using j(2,3) b(1) f(1,2) unfolding clock_open_def lowest_free_def by (intro exI [of _ j] exI [of _ ?b]) simp
  then have again: "rtc_open dev junk s1 = Some (-1, s1\<lparr>iflag := False\<rparr>)"
    using rtc_in_use_eq [OF j(5), of 2 "rtc_ptr s"] f by (simp add: rtc_open_def cli_def)
  have "rtc_close j s1 = Some (0, sti ((cli s1)\<lparr>ps := p2\<rparr>))"
    using p2(1) f(1) by (simp add: rtc_close_def)
  moreover have "ps (sti ((cli s1)\<lparr>ps := p2\<rparr>)) = p2" by (simp add: sti_def)
  ultimately show ?thesis
    using s1 j(2) f(3,4) again p2(2-4)
    by (intro exI [of _ j] exI [of _ s1] exI [of _ "sti ((cli s1)\<lparr>ps := p2\<rparr>)"] conjI) simp_all
qed

theorem rtc_open_close_witness:
  "\<exists>j s1 s2. rtc_open (last_write 0xFF) 7 clock_system = Some (j, s1) \<and> rtc_close j s1 = Some (0, s2)"
proof -
  have "ps clock_system = sample_procs" by (simp add: clock_system_def idle_kernel_def kernel.defs)
  moreover have "\<not> clock_open (rtc_ptr clock_system) sample_procs 2"
    by (auto simp: clock_open_def sample_procs_get_fd is_free_def freed_def)
  ultimately show ?thesis
    using rtc_open_close [of clock_system "last_write 0xFF" 7] sample_procs_wf sample_procs_not_full by auto
qed

end
