(* ===== verification/Syscalls.thy ===== *)
theory Syscalls
  imports Clock
begin

text \<open>
  The system calls of \<^verbatim>\<open>student-distrib/syscalls.c\<close> but \<open>execute\<close> and \<open>halt\<close>.

  Memory is physical memory; a pointer argument is a virtual address, translated by the walk of
  the processor (\<open>None\<close> is a page fault), and a buffer lies within one page, where consecutive
  virtual addresses are consecutive physical ones. Text is written through \<open>video_mem\<close>, a
  virtual address too. A string argument is the byte list from the pointer on, \<open>None\<close> the null
  pointer. What comes from outside the program is in an \<open>env\<close>: the devices, the keys and clock
  interrupts that arrive while a call waits, and the contents of uninitialised variables.
\<close>

record env =
  e_dev :: device
  e_keys :: "u8 list"
  e_ints :: "unit list"
  e_dentry :: dir_entry
  e_ret :: int
  e_word :: u32
  e_bytes :: memory

definition TYPE_RTC :: u32 where "TYPE_RTC = 0"
definition TYPE_DIR :: u32 where "TYPE_DIR = 1"
definition TYPE_FILE :: u32 where "TYPE_FILE = 2"
definition EXEC_BUFFER_SIZE :: nat where "EXEC_BUFFER_SIZE = 128"
definition MAGIC_LEAD :: u32 where "MAGIC_LEAD = 0x464c457f"
definition VIRTUAL_START :: u32 where "VIRTUAL_START = 0x8048000"
definition ENTRY_START :: u32 where "ENTRY_START = 0x8048018"
definition PROGMEM_LOWER :: u32 where "PROGMEM_LOWER = 0x400000"
definition PROGMEM_UPPER :: u32 where "PROGMEM_UPPER = 0x800000"
definition KERNEL_DS :: u32 where "KERNEL_DS = 0x18"

section \<open>Reading and writing descriptors\<close>

text \<open>A routine that stores into the caller's buffer and changes the control blocks.\<close>

definition store_result :: "(int \<times> memory \<times> procs) option \<Rightarrow> 'a system_scheme \<Rightarrow>
    (int \<times> 'a system_scheme) option" where
  "store_result r s = do { (n, m, p) \<leftarrow> r; Some (n, s\<lparr>vid := m, ps := p\<rparr>) }"

text \<open>Terminal output, and the new line after input, go to the page that \<open>video_mem\<close> is mapped to.\<close>

definition on_video :: "u32 \<Rightarrow> ('a system_scheme \<Rightarrow> (int \<times> 'a system_scheme) option) \<Rightarrow>
    'a system_scheme \<Rightarrow> (int \<times> 'a system_scheme) option" where
  "on_video pt f s = do {
     a \<leftarrow> walk pt s False (video_mem s);
     (r, s') \<leftarrow> f (s\<lparr>video_mem := a\<rparr>);
     Some (r, s'\<lparr>video_mem := video_mem s\<rparr>) }"

definition call_read :: "u32 \<Rightarrow> env \<Rightarrow> read_fn \<Rightarrow> int \<Rightarrow> u32 \<Rightarrow> int \<Rightarrow> 'a system_scheme \<Rightarrow>
    (int \<times> 'a system_scheme) option" where
  "call_read pt e f fd buf nbytes s =
     (case f of
        Terminal_read \<Rightarrow> on_video pt (terminal_read (e_keys e) fd buf nbytes) s
      | Terminal_read_fail \<Rightarrow> Some (terminal_read_fail fd nbytes, s)
      | File_read \<Rightarrow> store_result (file_read (fs s) (ps s) fd (vid s) buf (of_int nbytes)) s
      | Directory_read \<Rightarrow> store_result (directory_read (fs s) (e_dentry e) (ps s) fd (vid s) buf nbytes) s
      | Rtc_read \<Rightarrow> rtc_read (e_dev e) (e_ints e) fd s)"

definition read_call :: "u32 \<Rightarrow> env \<Rightarrow> int \<Rightarrow> u32 \<Rightarrow> int \<Rightarrow> 'a system_scheme \<Rightarrow>
    (int \<times> 'a system_scheme) option" where
  "read_call pt e fd buf nbytes s =
     (let s = cli s
      in if buf = 0 then Some (-1, s)
         else if fd < 0 \<or> fd \<ge> FDT_SIZE then Some (-1, s)
         else do {
           b \<leftarrow> get_fd (ps s) fd;
           if flags b = -1 then Some (-1, s)
           else (case file_operations_pointer b of
               None \<Rightarrow> Some (-1, s)
             | Some tab \<Rightarrow> do {
                 f \<leftarrow> op_read (tables (ps s) tab);
                 a \<leftarrow> walk pt s False buf;
                 call_read pt e f fd a nbytes s }) })"

definition call_write :: "u32 \<Rightarrow> env \<Rightarrow> write_fn \<Rightarrow> int \<Rightarrow> u32 \<Rightarrow> int \<Rightarrow> 'a system_scheme \<Rightarrow>
    (int \<times> 'a system_scheme) option" where
  "call_write pt e f fd buf nbytes s =
     (case f of
        Terminal_write \<Rightarrow> on_video pt (terminal_write fd (bytes_at (vid s) buf (nat nbytes)) nbytes) s
      | Keyboard_write \<Rightarrow> Some (keyboard_write fd nbytes, s)
      | File_write \<Rightarrow> Some (file_write fd nbytes, s)
      | Directory_write \<Rightarrow> Some (directory_write fd nbytes, s)
      | Rtc_write \<Rightarrow> rtc_write (e_dev e) (e_bytes e) fd (vid s) buf nbytes s)"

definition write_call :: "u32 \<Rightarrow> env \<Rightarrow> int \<Rightarrow> u32 \<Rightarrow> int \<Rightarrow> 'a system_scheme \<Rightarrow>
    (int \<times> 'a system_scheme) option" where
  "write_call pt e fd buf nbytes s =
     (let s = cli s
      in if buf = 0 then Some (-1, s)
         else if fd < 0 \<or> fd \<ge> FDT_SIZE then Some (-1, s)
         else do {
           b \<leftarrow> get_fd (ps s) fd;
           if flags b = -1 then Some (-1, s)
           else (case file_operations_pointer b of
               None \<Rightarrow> Some (-1, s)
             | Some tab \<Rightarrow> do {
                 f \<leftarrow> op_write (tables (ps s) tab);
                 a \<leftarrow> walk pt s False buf;
                 call_write pt e f fd a nbytes s }) })"

section \<open>Opening and closing\<close>

definition on_procs :: "(int \<times> procs) option \<Rightarrow> 'a sched_scheme \<Rightarrow> (int \<times> 'a sched_scheme) option" where
  "on_procs r s = do { (n, p) \<leftarrow> r; Some (n, s\<lparr>ps := p\<rparr>) }"

definition open_call :: "env \<Rightarrow> u8 list option \<Rightarrow> 'a system_scheme \<Rightarrow> (int \<times> 'a system_scheme) option" where
  "open_call e name s =
     (let s = cli s
      in case name of
           None \<Rightarrow> Some (-1, s)
         | Some fname \<Rightarrow> do {
             (r, dentry) \<leftarrow> read_dentry_by_name (fs s) fname (e_dentry e);
             if r \<noteq> 0 then Some (-1, s)
             else if file_type dentry = TYPE_RTC then rtc_open (e_dev e) (e_word e) s
             else if file_type dentry = TYPE_DIR then on_procs (directory_open (fs s) (e_dentry e) fname (ps s)) s
             else if file_type dentry = TYPE_FILE then on_procs (file_open (fs s) (e_dentry e) fname (ps s)) s
             else Some (e_ret e, s) })"

definition call_close :: "close_fn \<Rightarrow> int \<Rightarrow> 'a system_scheme \<Rightarrow> (int \<times> 'a system_scheme) option" where
  "call_close f fd s =
     (case f of
        Terminal_close \<Rightarrow> terminal_close fd s
      | Keyboard_close \<Rightarrow> keyboard_close fd s
      | File_close \<Rightarrow> on_procs (file_close fd (ps s)) s
      | Directory_close \<Rightarrow> on_procs (directory_close fd (ps s)) s
      | Rtc_close \<Rightarrow> rtc_close fd s)"

definition close_call :: "int \<Rightarrow> 'a system_scheme \<Rightarrow> (int \<times> 'a system_scheme) option" where
  "close_call fd s =
     (let s = cli s
      in if fd < 2 \<or> fd \<ge> FDT_SIZE then Some (-1, s)
         else do {
           b \<leftarrow> get_fd (ps s) fd;
           case file_operations_pointer b of
             None \<Rightarrow> Some (-1, s)
           | Some tab \<Rightarrow> do { f \<leftarrow> op_close (tables (ps s) tab); call_close f fd s } })"

section \<open>Arguments, video memory and signals\<close>

text \<open>\<open>getargs\<close> copies the arguments and a NUL: \<open>args_size + 1\<close> bytes.\<close>

definition getargs :: "u32 \<Rightarrow> u32 \<Rightarrow> int \<Rightarrow> 'a system_scheme \<Rightarrow> (int \<times> 'a system_scheme) option" where
  "getargs pt buf nbytes s =
     (let s = cli s
      in if buf = 0 then Some (-1, s)
         else if nbytes \<le> 0 then Some (-1, s)
         else do {
           c \<leftarrow> get_cb (ps s) (current_pid (ps s));
           args_size \<leftarrow> strlen (args c);
           if int args_size > nbytes \<or> args_size \<le> 0 then Some (-1, s)
           else do {
             a \<leftarrow> walk pt s False buf;
             out \<leftarrow> strncpy (bytes_at (vid s) a args_size) (args c) args_size;
             p \<leftarrow> clear_args (ps s);
             Some (0, s\<lparr>vid := (overlay (vid s) a out)(a + of_nat args_size := 0), ps := p\<rparr>) } })"

text \<open>The four bytes of \<open>VIDMAP\<close>, stored at \<open>*screen_start\<close>.\<close>

definition word_bytes :: "u32 \<Rightarrow> u8 list" where
  "word_bytes w = [ucast w, ucast (drop_bit 8 w), ucast (drop_bit 16 w), ucast (drop_bit 24 w)]"

definition vidmap :: "u32 \<Rightarrow> u32 \<Rightarrow> 'a system_scheme \<Rightarrow> (int \<times> 'a system_scheme) option" where
  "vidmap pt screen_start s =
     (let s = cli s
      in if screen_start = 0 then Some (-1, s)
         else if screen_start \<ge> PROGMEM_LOWER \<and> screen_start \<le> PROGMEM_UPPER then Some (-1, s)
         else do {
           a \<leftarrow> walk pt s False screen_start;
           Some (0, s\<lparr>vid := overlay (vid s) a (word_bytes VIDMAP)\<rparr>) })"

definition set_handler :: "int \<Rightarrow> u32 \<Rightarrow> 'a system_scheme \<Rightarrow> int \<times> 'a system_scheme" where
  "set_handler signum handler_address s =
     (let s = cli s in if handler_address = 0 then (-1, s) else (-1, s))"

definition sigreturn :: "'a system_scheme \<Rightarrow> int \<times> 'a system_scheme" where
  "sigreturn s = (-1, cli s)"

definition pcb_close :: "int \<Rightarrow> 'a system_scheme \<Rightarrow> 'a system_scheme" where
  "pcb_close fd s = s"

section \<open>Calls on descriptors that are not open\<close>

text \<open>
  \<open>read\<close> and \<open>write\<close> with a null buffer, a descriptor outside 0 to 7 or one that is not open
  return -1, as does \<open>close\<close> of a descriptor outside 2 to 7 or with no operations; nothing
  changes but the interrupt flag, which every call clears.
\<close>

lemma bad_descriptors_rejected:
  shows "(buf = 0 \<or> fd < 0 \<or> 8 \<le> fd \<or> (\<exists>b. get_fd (ps s) fd = Some b \<and> is_free b) \<longrightarrow>
      read_call pt e fd buf nbytes s = Some (-1, s\<lparr>iflag := False\<rparr>) \<and>
      write_call pt e fd buf nbytes s = Some (-1, s\<lparr>iflag := False\<rparr>)) \<and>
    (fd < 2 \<or> 8 \<le> fd \<or> (\<exists>b. get_fd (ps s) fd = Some b \<and> file_operations_pointer b = None) \<longrightarrow>
      close_call fd s = Some (-1, s\<lparr>iflag := False\<rparr>))"
  by (auto simp: read_call_def write_call_def close_call_def Let_def cli_def FDT_SIZE_def is_free_def)

lemma clock_system_ps: "ps clock_system = sample_procs"
  by (simp add: clock_system_def idle_kernel_def kernel.defs)

definition quiet_env :: env where
  "quiet_env = \<lparr>e_dev = last_write 0xFF, e_keys = [], e_ints = [], e_dentry = dir_entries sample_fs 5,
     e_ret = 0, e_word = 0, e_bytes = rate_mem\<rparr>"

lemma bad_descriptors_rejected_witness:
  "read_call 0x480000 quiet_env 5 0x8100000 10 clock_system = Some (-1, clock_system\<lparr>iflag := False\<rparr>) \<and>
   close_call 5 clock_system = Some (-1, clock_system\<lparr>iflag := False\<rparr>)"
proof -
  have "\<exists>b. get_fd (ps clock_system) 5 = Some b \<and> is_free b \<and> file_operations_pointer b = None"
    by (simp add: clock_system_ps sample_procs_get_fd is_free_def freed_def)
  then show ?thesis
    using bad_descriptors_rejected [of "0x8100000" 5 clock_system "0x480000" quiet_env 10] by blast
qed

section \<open>Files through the system calls\<close>

text \<open>The table of file operations, as \<open>process_control_block_init\<close> sets it up.\<close>

definition file_api :: "procs \<Rightarrow> bool" where
  "file_api p \<longleftrightarrow> file_ptr p = Some File_table \<and>
     tables p File_table = \<lparr>op_open = Some File_open, op_read = Some File_read,
       op_write = Some File_write, op_close = Some File_close\<rparr>"

lemma put_fd_api: "put_fd p fd b = Some p' \<Longrightarrow> file_api p' = file_api p"
  by (auto simp: file_api_def put_fd_def put_cb_def split: option.splits)

lemma walk_frame: "process_pages s' = process_pages s \<Longrightarrow> process_tables s' = process_tables s \<Longrightarrow>
    walk pt s' user v = walk pt s user v"
  by (simp add: walk_def)

lemma open_call_file:
  assumes "read_dentry_by_name (fs s) name (e_dentry e) = Some (0, d)" and "file_type d = TYPE_FILE"
    and "take_slot FDT_SIZE (file_block (inode_num d)) (ps s) = Some (j, p)"
  shows "open_call e (Some name) s = Some (j, (cli s)\<lparr>ps := p\<rparr>)"
  using assms by (simp add: open_call_def file_open_def on_procs_def cli_def TYPE_RTC_def TYPE_DIR_def TYPE_FILE_def)

lemma read_call_file:
  assumes "file_api (ps s)" and "get_fd (ps s) fd = Some b" and "0 \<le> fd" "fd < 8" and "flags b = 1"
    and "file_operations_pointer b = Some File_table" and "buf \<noteq> 0" and "walk pt s False buf = Some a"
    and "file_read (fs s) (ps s) fd (vid s) a (of_int nbytes) = Some (n, m, p)"
  shows "read_call pt e fd buf nbytes s = Some (n, (cli s)\<lparr>vid := m, ps := p\<rparr>)"
proof -
  have "walk pt (cli s) False buf = Some a" using assms(8) by (simp add: walk_def cli_def)
  then show ?thesis
    using assms by (simp add: read_call_def call_read_def store_result_def file_api_def FDT_SIZE_def cli_def)
qed

lemma close_call_file:
  assumes "file_api (ps s)" and "get_fd (ps s) fd = Some b" and "2 \<le> fd" "fd < 8"
    and "file_operations_pointer b = Some File_table" and "file_close fd (ps s) = Some (r, p)"
  shows "close_call fd s = Some (r, (cli s)\<lparr>ps := p\<rparr>)"
  using assms by (simp add: close_call_def call_close_def on_procs_def file_api_def FDT_SIZE_def cli_def)

lemma file_read_from_start:
  assumes wf: "procs_wf p" and b: "get_fd p fd = Some b" "open_file F b" "file_position b = 0"
  defines "content \<equiv> file_content F (inode b)"
  obtains bs pos p' where
    "file_read F p fd mem buf len = Some (int (min (unat len) (length content)), overlay mem buf bs, p')"
    "take (min (unat len) (length content)) bs = take (unat len) content"
    "length bs \<le> unat len" "put_fd p fd (b\<lparr>file_position := pos\<rparr>) = Some p'"
proof (cases "unat len \<le> length content")
  case True
  obtain p' where p': "advance p fd b len = Some p'" using advance_ok [OF wf b(1)] by blast
  have "file_read F p fd mem buf len = Some (int (unat len), overlay mem buf (take (unat len) content), p')"
    using file_read_within_eq [OF b(1,2) _ p'] True b(3) by (simp add: content_def file_content_def)
  with that [of "take (unat len) content" p' "file_position b + len"] True p' show ?thesis
    by (simp add: advance_def min_absorb1)
next
  case False
  let ?num = "B_length F (inode b)"
  obtain p' where p': "advance p fd b ?num = Some p'" using advance_ok [OF wf b(1)] by blast
  have "length content = unat ?num" by (simp add: content_def file_content_def)
  then have "?num < len" using False by (simp add: word_less_nat_alt)
  from file_read_past_start_eq [OF b this p'] \<open>length content = unat ?num\<close> p' False
  show ?thesis
    by (intro that [of "content @ [file_byte F (inode b) (unat ?num)]" p' "file_position b + ?num"])
      (simp_all add: content_def [symmetric] advance_def)
qed

text \<open>One session with a file: open it, read from its start, close it.\<close>

lemma file_session:
  assumes wf: "procs_wf (ps s)" and free: "\<not> fds_full (ps s)" and api: "file_api (ps s)"
    and name: "read_dentry_by_name (fs s) name (e_dentry e) = Some (0, d)" "file_type d = TYPE_FILE"
    and content_ok: "open_file (fs s) (file_block (inode_num d) (ps s))"
    and buf: "buf \<noteq> 0" "walk pt s False buf = Some a" and n: "0 \<le> n" "n < 2147483648"
  defines "content \<equiv> file_content (fs s) (inode_num d)"
  obtains j bs p1 p2 p3 where
    "open_call e (Some name) s = Some (j, (cli s)\<lparr>ps := p1\<rparr>)"
    "read_call pt e j buf n ((cli s)\<lparr>ps := p1\<rparr>) =
       Some (int (min (nat n) (length content)), (cli s)\<lparr>vid := overlay (vid s) a bs, ps := p2\<rparr>)"
    "take (min (nat n) (length content)) bs = take (nat n) content" "length bs \<le> nat n"
    "close_call j ((cli s)\<lparr>vid := overlay (vid s) a bs, ps := p2\<rparr>) =
       Some (0, (cli s)\<lparr>vid := overlay (vid s) a bs, ps := p3\<rparr>)"
    "procs_wf p3" "lowest_free p3 j" "\<And>i. i \<noteq> j \<Longrightarrow> get_fd p3 i = get_fd (ps s) i"
    "put_fd (ps s) j (file_block (inode_num d) (ps s)) = Some p1"
    "\<exists>b2. put_fd p1 j b2 = Some p2 \<and> put_fd p2 j (freed b2) = Some p3"
proof -
  let ?b = "file_block (inode_num d) (ps s)"
  have fb: "flags ?b = 1" "file_operations_pointer ?b = Some File_table" "file_position ?b = 0"
    "inode ?b = inode_num d" "\<not> is_free ?b"
    using api by (simp_all add: file_block_def file_api_def is_free_def)
  obtain j p1 where j: "take_slot FDT_SIZE (file_block (inode_num d)) (ps s) = Some (j, p1)"
      "lowest_free (ps s) j" "put_fd (ps s) j ?b = Some p1"
    using take_slot_free [OF wf free FDT_SIZE_ge(1)] by blast
  have jr: "2 \<le> j" "j < 8" using j(2) by (auto simp: lowest_free_def)
  have wf1: "procs_wf p1" by (rule put_fd_wf [OF wf j(3)])
  have g1: "get_fd p1 j = Some ?b" by (rule fd_store.get_put_same [OF j(3)])
  obtain bs pos p2 where r: "file_read (fs s) p1 j (vid s) a (of_int n) =
        Some (int (min (unat (of_int n :: u32)) (length content)), overlay (vid s) a bs, p2)"
      "take (min (unat (of_int n :: u32)) (length content)) bs = take (unat (of_int n :: u32)) content"
      "length bs \<le> unat (of_int n :: u32)" "put_fd p1 j (?b\<lparr>file_position := pos\<rparr>) = Some p2"
    by (rule file_read_from_start [OF wf1 g1 content_ok fb(3), where mem = "vid s" and buf = a and len = "of_int n",
          unfolded fb(4), folded content_def]) (rule that; assumption)
  have un: "unat (of_int n :: u32) = nat n" using n by (simp add: unat_eq_nat_uint uint_word_of_int_eq take_bit_int_eq_self)
  let ?b2 = "?b\<lparr>file_position := pos\<rparr>"
  have wf2: "procs_wf p2" by (rule put_fd_wf [OF wf1 r(4)])
  have g2: "get_fd p2 j = Some ?b2" by (rule fd_store.get_put_same [OF r(4)])
  obtain p3 where p3: "file_close j p2 = Some (0, p3)" "put_fd p2 j (freed ?b2) = Some p3"
    using close_used [OF jr g2] fb(5) by (auto simp: is_free_def)
  have wf3: "procs_wf p3" by (rule put_fd_wf [OF wf2 p3(2)])
  have o: "get_fd p3 i = get_fd (ps s) i" if "i \<noteq> j" for i
    using fd_store.get_put_other [OF j(3) that] fd_store.get_put_other [OF r(4) that]
      fd_store.get_put_other [OF p3(2) that] by simp
  have "is_free (freed ?b2)" by (simp add: is_free_def freed_def)
  then have low: "lowest_free p3 j"
    using j(2) fd_store.get_put_same [OF p3(2)] o unfolding lowest_free_def by simp
  have api1: "file_api p1" "file_api p2"
    using api put_fd_api [OF j(3)] put_fd_api [OF r(4)] by simp_all
  show ?thesis
  proof (rule that [OF open_call_file [OF name j(1)] _ _ _ _ wf3 low o j(3)])
    show "read_call pt e j buf n ((cli s)\<lparr>ps := p1\<rparr>) =
       Some (int (min (nat n) (length content)), (cli s)\<lparr>vid := overlay (vid s) a bs, ps := p2\<rparr>)"
      using read_call_file [of "(cli s)\<lparr>ps := p1\<rparr>" j ?b buf pt a n, OF _ _ _ _ _ _ buf(1)] api1(1) g1 jr fb(1,2)
        r(1) buf(2) un by (simp add: walk_def cli_def)
    show "close_call j ((cli s)\<lparr>vid := overlay (vid s) a bs, ps := p2\<rparr>) =
       Some (0, (cli s)\<lparr>vid := overlay (vid s) a bs, ps := p3\<rparr>)"
      using close_call_file [of "(cli s)\<lparr>vid := overlay (vid s) a bs, ps := p2\<rparr>" j ?b2 0 p3] api1(2) g2 jr fb(2) p3(1)
      by (simp add: cli_def)
    show "\<exists>b2. put_fd p1 j b2 = Some p2 \<and> put_fd p2 j (freed b2) = Some p3" using r(4) p3(2) by blast
  qed (use r(2,3) un in simp_all)
qed


text \<open>A process 1 with the sample file system, its address space and the file operations.\<close>

definition api_procs :: procs where
  "api_procs = sample_procs\<lparr>file_ptr := Some File_table,
     tables := (tables sample_procs)(File_table := \<lparr>op_open = Some File_open, op_read = Some File_read,
       op_write = Some File_write, op_close = Some File_close\<rparr>)\<rparr>"

definition file_system :: system where
  "file_system = clock_system\<lparr>ps := api_procs, process_pages := page_dir 0x480000 1,
     process_tables := page_tab VIDEO\<rparr>"

lemma api_procs_facts: "procs_wf api_procs" "\<not> fds_full api_procs" "file_api api_procs"
proof -
  have "get_fd api_procs = get_fd sample_procs"
    by (simp add: fun_eq_iff get_fd_def get_cb_def api_procs_def)
  then show "\<not> fds_full api_procs" using sample_procs_not_full by (simp add: fds_full_def)
  show "procs_wf api_procs"
    using sample_procs_wf by (simp add: procs_wf_def active_count_def api_procs_def)
  show "file_api api_procs" by (simp add: file_api_def api_procs_def)
qed

lemma file_system_fields: "ps file_system = api_procs" "fs file_system = sample_fs"
  by (simp_all add: file_system_def clock_system_def kernel.defs)

lemma file_system_walk: "walk 0x480000 file_system False 0x8100000 = Some 0x900000"
proof -
  have "in_space 0x480000 1 VIDEO file_system" by (simp add: in_space_def file_system_def)
  then have "walk 0x480000 file_system False 0x8100000 = address_space 1 VIDEO False 0x8100000"
    by (rule walk_in_space) (simp_all add: page_aligned_def page_aligned_VIDEO [unfolded page_aligned_def])
  then show ?thesis by (simp add: address_space_def drop_bit_eq_div)
qed

lemma sample_file: "file_type (dir_entries sample_fs 0) = TYPE_FILE" "inode_num (dir_entries sample_fs 0) = 0"
  "open_file sample_fs (file_block 0 api_procs)"
proof -
  show "file_type (dir_entries sample_fs 0) = TYPE_FILE" "inode_num (dir_entries sample_fs 0) = 0"
    by (simp_all add: sample_fs_eq dir_entries_def Let_def load32_def sample_mem_def TYPE_FILE_def)
  show "open_file sample_fs (file_block 0 api_procs)"
    by (simp add: open_file_def file_block_def sample_fs_length)
qed


section \<open>Arguments\<close>

lemma getargs_run:
  assumes wf: "procs_wf (ps s)" and c: "get_cb (ps s) (current_pid (ps s)) = Some c"
    and a: "0 \<in> set (args c)" "cstr (args c) \<noteq> []" "int (length (cstr (args c))) \<le> nbytes"
    and buf: "buf \<noteq> 0" "walk pt s False buf = Some a"
  obtains p' as where "getargs pt buf nbytes s =
      Some (0, (cli s)\<lparr>vid := overlay (vid s) a (cstr (args c) @ [0]), ps := p'\<rparr>)"
    "clear_args (ps s) = Some p'" "procs_wf p'" "get_cb p' (current_pid (ps s)) = Some (c\<lparr>args := as\<rparr>)"
    "0 \<in> set as" "cstr as = []" "current_pid p' = current_pid (ps s)"
proof -
  let ?n = "length (cstr (args c))"
  have cwf: "length (args c) = 1024"
    using get_cb_wf [OF wf, of "current_pid (ps s)"] c wf by (auto simp: procs_wf_def pcb_wf_def)
  have n: "?n < 1024" using length_cstr_less [OF a(1)] cwf by simp
  obtain p' as where p': "clear_args (ps s) = Some p'" "procs_wf p'"
    "get_cb p' (current_pid (ps s)) = Some (c\<lparr>args := as\<rparr>)" "length as = 1024" "cstr as = []"
    "current_pid p' = current_pid (ps s)"
    by (rule clear_args_ok [OF wf c]) (rule that; assumption)
  have cp: "strncpy (bytes_at (vid s) a ?n) (args c) ?n = Some (cstr (args c))"
    using strncpy_eq [of ?n "bytes_at (vid s) a ?n" "args c"] a(1) by (simp add: bytes_at_def readable_def)
  have m: "(overlay (vid s) a (cstr (args c)))(a + of_nat ?n := 0) = overlay (vid s) a (cstr (args c) @ [0])"
    using n by (intro overlay_snoc) simp
  have "walk pt (cli s) False buf = Some a" using buf(2) by (simp add: walk_def cli_def)
  moreover have "\<not> nbytes \<le> 0" using a(2,3) by (cases "cstr (args c)") auto
  ultimately have run: "getargs pt buf nbytes s =
      Some (0, (cli s)\<lparr>vid := overlay (vid s) a (cstr (args c) @ [0]), ps := p'\<rparr>)"
    using c a buf cp p'(1) m by (simp add: getargs_def cli_def strlen_eq Let_def)
  have "as \<noteq> []" using p'(4) by auto
  then have "0 \<in> set as" using p'(5) by (cases as) (auto simp: cstr_def split: if_splits)
  from that [OF run p'(1-3) this p'(5,6)] show ?thesis .
qed


definition arg_block :: pcb where
  "arg_block = unused_block\<lparr>args := [104, 105] @ replicate 1022 0\<rparr>"

definition args_system :: system where
  "args_system = file_system\<lparr>ps := api_procs\<lparr>control_blocks := replicate 7 arg_block\<rparr>\<rparr>"

lemma args_system_facts: "procs_wf (ps args_system)" "get_cb (ps args_system) (current_pid (ps args_system)) = Some arg_block"
  "0 \<in> set (args arg_block)" "cstr (args arg_block) = [104, 105]"
  "walk 0x480000 args_system False 0x8100000 = Some 0x900000"
proof -
  show "walk 0x480000 args_system False 0x8100000 = Some 0x900000"
    using file_system_walk by (simp add: walk_def args_system_def)
  show "0 \<in> set (args arg_block)" "cstr (args arg_block) = [104, 105]"
    by (simp_all add: arg_block_def cstr_def)
qed (simp_all add: args_system_def api_procs_def sample_procs_def procs_wf_def active_count_def pcb_wf_def
      arg_block_def unused_block_def get_cb_def aget_def)


end
