(* ===== verification/Execute.thy ===== *)
theory Execute
  imports Syscalls
begin

text \<open>
  Starting and ending programs: \<open>execute\<close> and \<open>halt\<close> of \<^verbatim>\<open>student-distrib/syscalls.c\<close>.

  A call of \<open>execute\<close> fails with a value, or enters the new program at its entry point; the rest
  of its body, from the label \<open>HALTED\<close> on, runs when that program halts. \<open>frame\<close> is the address
  of the local array \<open>buf\<close> on the kernel stack, \<open>temp\<close> the stack pointer saved for the return.
\<close>

datatype 's exec_result = Failed int 's | Enter_program u32 's

section \<open>execute\<close>

text \<open>\<open>while (command[i] != ' ' && command[i] != 0) cmd[i] = command[i++]\<close>: \<open>cmd\<close> and \<open>i\<close>.\<close>

function copy_word :: "u8 list \<Rightarrow> u8 list \<Rightarrow> int \<Rightarrow> (u8 list \<times> int) option" where
  "copy_word command cmd i =
     (case aget command i of None \<Rightarrow> None | Some c \<Rightarrow>
        if c \<noteq> 32 \<and> c \<noteq> 0 then
          (case aset cmd i c of None \<Rightarrow> None | Some cmd' \<Rightarrow> copy_word command cmd' (i + 1))
        else Some (cmd, i))"
  by pat_completeness auto
termination
  by (relation "measure (\<lambda>(command, cmd, i). nat (int (length command) - i))") (auto simp: aget_eq_Some_iff)

declare copy_word.simps [simp del]

function skip_spaces :: "u8 list \<Rightarrow> int \<Rightarrow> int option" where
  "skip_spaces command i =
     (case aget command i of None \<Rightarrow> None | Some c \<Rightarrow>
        if c = 32 then skip_spaces command (i + 1) else Some i)"
  by pat_completeness auto
termination
  by (relation "measure (\<lambda>(command, i). nat (int (length command) - i))") (auto simp: aget_eq_Some_iff)

declare skip_spaces.simps [simp del]

definition shell_name :: "u8 list" where "shell_name = [115, 104, 101, 108, 108, 0]"

definition set_stack_pos :: "int \<Rightarrow> u32 \<Rightarrow> procs \<Rightarrow> procs option" where
  "set_stack_pos i v p = do { c \<leftarrow> get_cb p i; put_cb p i (c\<lparr>stack_pos := v\<rparr>) }"

text \<open>\<open>shell_pid[current_terminal] = current_pid\<close> when the command is exactly \<open>shell\<close>.\<close>

definition note_shell :: "u8 list \<Rightarrow> 'a sched_scheme \<Rightarrow> 'a sched_scheme option" where
  "note_shell cmd s = do {
     r \<leftarrow> strncmp cmd shell_name 5;
     if r = 0 then do {
       n \<leftarrow> strlen cmd;
       if n = 5 then do {
         sp \<leftarrow> aset (shell_pid s) (current_terminal s) (current_pid (ps s));
         Some (s\<lparr>shell_pid := sp\<rparr>) }
       else Some s }
     else Some s }"

text \<open>The arguments, from \<open>&command[i]\<close> on: copied without their NUL, or cleared when there are none.\<close>

definition pass_args :: "u8 list \<Rightarrow> procs \<Rightarrow> procs option" where
  "pass_args rest p = do {
     c \<leftarrow> aget rest 0;
     if c = 0 then clear_args p
     else do {
       n \<leftarrow> strlen rest;
       cb \<leftarrow> get_cb p (current_pid p);
       a \<leftarrow> strncpy (args cb) rest n;
       put_cb p (current_pid p) (cb\<lparr>args := a\<rparr>) } }"

definition mark_running :: "'a sched_scheme \<Rightarrow> 'a sched_scheme option" where
  "mark_running s = do {
     running \<leftarrow> aget (terminal_running s) (current_terminal s);
     if running = 0 then do {
       tr \<leftarrow> aset (terminal_running s) (current_terminal s) 1;
       Some (s\<lparr>terminal_running := tr\<rparr>) }
     else Some s }"

text \<open>The first half: find the file, read it into \<open>buf\<close> and check it.\<close>

definition load_file :: "u32 \<Rightarrow> env \<Rightarrow> u32 \<Rightarrow> u8 list \<Rightarrow> 'a system_scheme \<Rightarrow> (bool \<times> 'a system_scheme) option" where
  "load_file pt e frame cmd s = do {
     (fd, s) \<leftarrow> open_call e (Some cmd) s;
     if fd = -1 then Some (False, s)
     else do {
       (n, s) \<leftarrow> read_call pt e fd frame 10000 s;
       (r, s) \<leftarrow> close_call fd s;
       Some (load32 (vid s) frame = MAGIC_LEAD, s) } }"

text \<open>The second half: a process for it, its address space, its memory and its place in the schedule.\<close>

definition start_process :: "u32 \<Rightarrow> u32 \<Rightarrow> u32 \<Rightarrow> u8 list \<Rightarrow> u8 list \<Rightarrow> int \<Rightarrow> 'a system_scheme \<Rightarrow>
    (u32 \<times> 'a system_scheme) option" where
  "start_process pt frame temp command cmd i s = do {
     (n, p) \<leftarrow> create_new_pcb (current_pid (ps s)) (ps s);
     let s = s\<lparr>ps := p\<lparr>current_pid := n\<rparr>\<rparr>;
     p \<leftarrow> set_stack_pos n temp (ps s);
     s \<leftarrow> note_shell cmd (s\<lparr>ps := p\<rparr>);
     let s = s\<lparr>tss := \<lparr>ss0 = KERNEL_DS, esp0 = kernel_stack n\<rparr>\<rparr>;
     p \<leftarrow> load_pcb n KERNEL_DS (esp0 (tss s)) (ps s);
     i \<leftarrow> skip_spaces command i;
     p \<leftarrow> pass_args (drop (nat i) command) p;
     s \<leftarrow> execute_paging pt (s\<lparr>ps := p\<rparr>);
     s \<leftarrow> clear_keyboard_buffer s;
     s \<leftarrow> clear_history_buffer n s;
     let s = s\<lparr>video_mem := VIDMAP\<rparr>;
     dest \<leftarrow> walk pt s False VIRTUAL_START;
     let s = s\<lparr>vid := memcpy (vid s) dest frame 10000\<rparr>;
     entry_at \<leftarrow> walk pt s False ENTRY_START;
     let entry_point = load32 (vid s) entry_at;
     s \<leftarrow> mark_running s;
     s \<leftarrow> schedule s;
     Some (entry_point, s) }"

definition execute :: "u32 \<Rightarrow> env \<Rightarrow> u32 \<Rightarrow> u32 \<Rightarrow> u8 list option \<Rightarrow> 'a system_scheme \<Rightarrow>
    'a system_scheme exec_result option" where
  "execute pt e frame temp arg s =
     (case arg of
        None \<Rightarrow> Some (Failed (-1) s)
      | Some command \<Rightarrow>
          if num_active_processes (ps s) \<ge> MAX_PROCESSES then Some (Failed (-1) s)
          else do {
            len \<leftarrow> strlen command;
            if len \<ge> EXEC_BUFFER_SIZE then Some (Failed (-1) s)
            else do {
              (cmd, i) \<leftarrow> copy_word command (replicate EXEC_BUFFER_SIZE 0) 0;
              cmd \<leftarrow> aset cmd i 0;
              (ok, s) \<leftarrow> load_file pt e frame cmd s;
              if \<not> ok then Some (Failed (-1) s)
              else do {
                (entry_point, s) \<leftarrow> start_process pt frame temp command cmd i s;
                Some (Enter_program entry_point s) } } })"

section \<open>halt\<close>

text \<open>\<open>halt\<close> up to its jump to \<open>HALTED\<close> in \<open>execute\<close>, with the status in a register.\<close>

definition halt :: "u8 \<Rightarrow> 'a system_scheme \<Rightarrow> 'a system_scheme option" where
  "halt status s = do {
     let s = cli s;
     c \<leftarrow> get_cb (ps s) (current_pid (ps s));
     let parent_pid = parent c;
     let s = s\<lparr>ps := (ps s)\<lparr>past_pid := current_pid (ps s)\<rparr>\<rparr>;
     (r, p) \<leftarrow> destroy_pcb (current_pid (ps s)) (ps s);
     let s = s\<lparr>ps := p\<lparr>current_pid := parent_pid\<rparr>\<rparr>;
     c \<leftarrow> get_cb (ps s) (current_pid (ps s));
     let s = s\<lparr>tss := (tss s)\<lparr>esp0 := esp c\<rparr>\<rparr>;
     let s = loop_up 2 FDT_SIZE pcb_close s;
     set_program_page s }"

text \<open>
  \<open>execute\<close> from \<open>HALTED\<close> on: the result is the stack pointer the call returns on, and the value
  it returns or the call of a new shell.
\<close>

definition halted :: "u8 \<Rightarrow> 'a system_scheme \<Rightarrow> (u32 \<times> 'a system_scheme outcome) option" where
  "halted status s = do {
     let execute_return = uint status;
     c \<leftarrow> get_cb (ps s) (past_pid (ps s));
     let temp = stack_pos c;
     s \<leftarrow> deschedule s;
     let s = sti s;
     if current_pid (ps s) = SENTINEL_PROCESS then Some (temp, Exec_shell s)
     else Some (temp, Returned execute_return s) }"

definition halt_call :: "u8 \<Rightarrow> 'a system_scheme \<Rightarrow> (u32 \<times> 'a system_scheme outcome) option" where
  "halt_call status s = do { s \<leftarrow> halt status s; halted status s }"

section \<open>The new control block\<close>

definition same_frame :: "procs \<Rightarrow> procs \<Rightarrow> bool" where
  "same_frame p p' \<longleftrightarrow> current_pid p' = current_pid p \<and> num_active_processes p' = num_active_processes p \<and>
     past_pid p' = past_pid p \<and> tables p' = tables p \<and> file_ptr p' = file_ptr p \<and> dir_ptr p' = dir_ptr p"

lemma put_block:
  assumes "procs_wf p" "get_cb p n = Some c" "pcb_wf c'" "pid c' = pid c"
  obtains p' where "put_cb p n c' = Some p'" "procs_wf p'" "get_cb p' n = Some c'"
    "\<And>k. k \<noteq> n \<Longrightarrow> get_cb p' k = get_cb p k" "same_frame p p'"
proof -
  obtain p' where p': "put_cb p n c' = Some p'" using cb_store.put_valid [of p n c'] assms(2) by auto
  show ?thesis
    by (rule that [OF p' put_cb_same_pid_wf [OF assms(1,2) p' assms(3,4)] cb_store.get_put_same [OF p']
        cb_store.get_put_other [OF p']]) (use put_cb_frame [OF p'] in \<open>simp_all add: same_frame_def\<close>)
qed

lemma get_cb_pcb_wf: "procs_wf p \<Longrightarrow> get_cb p n = Some c \<Longrightarrow> pcb_wf c"
  by (auto simp: procs_wf_def get_cb_def aget_eq_Some_iff)

lemma clear_args_frame: "clear_args p = Some p' \<Longrightarrow> same_frame p p'"
  by (auto simp: clear_args_def same_frame_def dest!: put_cb_frame split: option.splits)

text \<open>The process that calls \<open>execute\<close>: the sentinel, or one whose block is in use.\<close>

definition caller_ok :: "procs \<Rightarrow> bool" where
  "caller_ok p \<longleftrightarrow> current_pid p = 0 \<or> (\<exists>d. get_cb p (current_pid p) = Some d \<and> pid d \<noteq> -1)"

lemma create_new_pcb_run:
  assumes wf: "procs_wf p" and room: "num_active_processes p < 6" and caller: "caller_ok p"
  obtains n c p' where "create_new_pcb (current_pid p) p = Some (n, p')" "1 \<le> n" "n < 7" "n \<noteq> current_pid p"
    "get_cb p n = Some c" "pid c = -1"
    "get_cb p' n = Some (c\<lparr>pid := n, parent := current_pid p,
        fd_table := take 2 (fd_table c) @ map freed (drop 2 (fd_table c))\<rparr>)"
    "\<And>k. k \<noteq> n \<Longrightarrow> k \<noteq> current_pid p \<Longrightarrow> get_cb p' k = get_cb p k"
    "\<exists>d as. get_cb p (current_pid p) = Some d \<and> get_cb p' (current_pid p) = Some (d\<lparr>args := as\<rparr>)"
    "procs_wf p'" "num_active_processes p' = num_active_processes p + 1" "past_pid p' = past_pid p"
    "tables p' = tables p" "file_ptr p' = file_ptr p" "dir_ptr p' = dir_ptr p" "current_pid p' = current_pid p"
proof -
  let ?q = "current_pid p"
  obtain n c p1 p2 where n: "1 \<le> n" "n < 7" and c: "get_cb p n = Some c" "pid c = -1" "pcb_wf c"
    and p1: "put_cb p n (c\<lparr>pid := n, parent := ?q,
        fd_table := take 2 (fd_table c) @ map freed (drop 2 (fd_table c))\<rparr>) = Some p1"
    and wf1: "procs_wf (p1\<lparr>num_active_processes := num_active_processes p + 1\<rparr>)"
    and p2: "clear_args (p1\<lparr>num_active_processes := num_active_processes p + 1\<rparr>) = Some p2"
    and res: "create_new_pcb ?q p = Some (n, p2)"
    by (rule create_new_pcb_split [OF wf room, of ?q]) (rule that; assumption)
  let ?p1 = "p1\<lparr>num_active_processes := num_active_processes p + 1\<rparr>"
  have nq: "n \<noteq> ?q" using caller c(1,2) n(1) by (auto simp: caller_ok_def)
  have f1: "current_pid ?p1 = ?q" "past_pid ?p1 = past_pid p" "tables ?p1 = tables p" "file_ptr ?p1 = file_ptr p"
    "dir_ptr ?p1 = dir_ptr p"
    using put_cb_frame [OF p1] by simp_all
  have cb1: "get_cb ?p1 k = get_cb p1 k" for k by (simp add: get_cb_def)
  have q: "0 \<le> ?q" "?q < 7" using wf by (simp_all add: procs_wf_def)
  obtain d where d: "get_cb p ?q = Some d" using get_cb_wf [OF wf q] by blast
  then have d1: "get_cb ?p1 (current_pid ?p1) = Some d"
    unfolding cb1 f1 using cb_store.get_put_other [OF p1] nq by simp
  obtain p2' as where "clear_args ?p1 = Some p2'" and wf2: "procs_wf p2'"
    and at: "get_cb p2' (current_pid ?p1) = Some (d\<lparr>args := as\<rparr>)"
    and other: "\<And>j. j \<noteq> current_pid ?p1 \<Longrightarrow> get_cb p2' j = get_cb ?p1 j"
    by (rule clear_args_ok [OF wf1 d1]) (rule that; assumption)
  then have e: "p2' = p2" using p2 by simp
  have fr: "same_frame ?p1 p2" by (rule clear_args_frame [OF p2])
  have f2: "num_active_processes p2 = num_active_processes p + 1" "past_pid p2 = past_pid p"
    "tables p2 = tables p" "file_ptr p2 = file_ptr p" "dir_ptr p2 = dir_ptr p" "current_pid p2 = ?q"
    using fr f1 by (simp_all add: same_frame_def)
  have "get_cb p2 n = Some (c\<lparr>pid := n, parent := ?q,
        fd_table := take 2 (fd_table c) @ map freed (drop 2 (fd_table c))\<rparr>)"
    using other [of n] nq cb_store.get_put_same [OF p1] unfolding e cb1 f1 by simp
  moreover have "get_cb p2 k = get_cb p k" if "k \<noteq> n" "k \<noteq> ?q" for k
    using other [of k] that cb_store.get_put_other [OF p1 that(1)] unfolding e cb1 f1 by simp
  moreover have "\<exists>d as. get_cb p ?q = Some d \<and> get_cb p2 ?q = Some (d\<lparr>args := as\<rparr>)"
    using d at unfolding e f1 by blast
  ultimately show ?thesis
    using that [OF res n nq c(1,2) _ _ _ wf2 [unfolded e] f2] by blast
qed

text \<open>What \<open>pass_args\<close> leaves in the argument buffer \<open>old\<close>.\<close>

definition passed_args :: "u8 list \<Rightarrow> u8 list \<Rightarrow> u8 list" where
  "passed_args rest old =
     (if cstr rest = [] then replicate (length (cstr old)) 0 @ drop (length (cstr old)) old
      else cstr rest @ drop (length (cstr rest)) old)"

lemma pass_args_run:
  assumes wf: "procs_wf p" and c: "get_cb p (current_pid p) = Some c"
    and rest: "0 \<in> set rest" "length (cstr rest) \<le> 1024"
  obtains p' where "pass_args rest p = Some p'" "procs_wf p'"
    "get_cb p' (current_pid p) = Some (c\<lparr>args := passed_args rest (args c)\<rparr>)"
    "\<And>k. k \<noteq> current_pid p \<Longrightarrow> get_cb p' k = get_cb p k" "same_frame p p'"
proof -
  have cw: "pcb_wf c" by (rule get_cb_pcb_wf [OF wf c])
  then have len: "length (args c) = 1024" by (simp add: pcb_wf_def)
  have old: "length (cstr (args c)) \<le> length (args c)" unfolding cstr_def by (rule length_takeWhile_le)
  let ?c = "c\<lparr>args := passed_args rest (args c)\<rparr>"
  have w: "pcb_wf ?c" using cw rest(2) len old by (simp add: pcb_wf_def passed_args_def)
  obtain p' where p': "put_cb p (current_pid p) ?c = Some p'" "procs_wf p'"
    "get_cb p' (current_pid p) = Some ?c" "\<And>k. k \<noteq> current_pid p \<Longrightarrow> get_cb p' k = get_cb p k" "same_frame p p'"
    by (rule put_block [OF wf c w]) (simp, (rule that; assumption))
  obtain x xs where r: "rest = x # xs" using rest(1) by (cases rest) auto
  have "pass_args rest p = Some p'"
  proof (cases "x = 0")
    case True
    then have "cstr rest = []" by (simp add: r cstr_def)
    then show ?thesis
      using True c p'(1) clear_args_loop_eq [OF len, of 0]
      by (simp add: pass_args_def r aget_def clear_args_def passed_args_def)
  next
    case False
    then have ne: "cstr rest \<noteq> []" by (simp add: r cstr_def)
    have "strncpy (args c) rest (length (cstr rest)) = Some (cstr rest @ drop (length (cstr rest)) (args c))"
      using strncpy_eq [of "length (cstr rest)" "args c" rest] rest len by (simp add: readable_def)
    then show ?thesis
      using False ne c p'(1) rest(1) by (simp add: pass_args_def passed_args_def strlen_eq r aget_def)
  qed
  from that [OF this p'(2-5)] show ?thesis .
qed

section \<open>Parsing the command\<close>

text \<open>The program name and the arguments of a command line.\<close>

definition command_word :: "u8 list \<Rightarrow> u8 list" where
  "command_word command = takeWhile (\<lambda>c. c \<noteq> 32 \<and> c \<noteq> 0) command"

definition command_args :: "u8 list \<Rightarrow> u8 list" where
  "command_args command = dropWhile (\<lambda>c. c = 32) (drop (length (command_word command)) command)"

definition padded_word :: "u8 list \<Rightarrow> u8 list" where
  "padded_word command = command_word command @ replicate (128 - length (command_word command)) 0"

lemma command_word_bound:
  assumes "0 \<in> set command" "length (cstr command) < 128"
  shows "length (command_word command) < 128" "length (command_word command) < length command"
    "0 \<notin> set (command_word command)"
    "command ! length (command_word command) = 32 \<or> command ! length (command_word command) = 0"
proof -
  have le: "length (command_word command) \<le> length (cstr command)"
    unfolding command_word_def cstr_def by (induction command) auto
  with assms show "length (command_word command) < 128" by simp
  show lt: "length (command_word command) < length command" using le length_cstr_less [OF assms(1)] by simp
  show "0 \<notin> set (command_word command)" by (auto simp: command_word_def dest: set_takeWhileD)
  show "command ! length (command_word command) = 32 \<or> command ! length (command_word command) = 0"
    using nth_length_takeWhile [OF lt [unfolded command_word_def]] by (auto simp: command_word_def)
qed

lemma copy_word_run:
  assumes "0 \<in> set command" "length (cstr command) < 128" and "i \<le> length (command_word command)"
  shows "copy_word command (take i (command_word command) @ replicate (128 - i) 0) (int i) =
    Some (padded_word command, int (length (command_word command)))"
  using assms(3)
proof (induction "length (command_word command) - i" arbitrary: i)
  case 0
  then have i: "i = length (command_word command)" by simp
  note b = command_word_bound [OF assms(1,2)]
  have "aget command (int i) = Some (command ! i)" using b(2) i by (simp add: aget_def)
  with b(4) i show ?case by (subst copy_word.simps) (auto simp: padded_word_def)
next
  case (Suc n)
  let ?w = "command_word command"
  have i: "i < length ?w" using Suc.hyps(2) by simp
  note b = command_word_bound [OF assms(1,2)]
  have eq: "command ! i = ?w ! i" using i unfolding command_word_def by (simp add: takeWhile_nth)
  have "?w ! i \<in> set ?w" using i by simp
  then have c: "command ! i \<noteq> 32" "command ! i \<noteq> 0"
    unfolding eq by (auto simp: command_word_def dest: set_takeWhileD)
  have k: "128 - i = Suc (128 - Suc i)" using i b(1) by simp
  have "aset (take i ?w @ replicate (128 - i) 0) (int i) (command ! i) =
      Some (take (Suc i) ?w @ replicate (128 - Suc i) 0)"
    using i b(1) unfolding eq k by (simp add: aset_def list_update_append take_Suc_conv_app_nth)
  moreover have "aget command (int i) = Some (command ! i)" using i b(2) by (simp add: aget_def)
  ultimately have "copy_word command (take i ?w @ replicate (128 - i) 0) (int i) =
      copy_word command (take (Suc i) ?w @ replicate (128 - Suc i) 0) (int (Suc i))"
    using c by (subst copy_word.simps) (simp add: add.commute)
  also have "\<dots> = Some (padded_word command, int (length ?w))"
    using Suc i by (intro Suc.hyps(1)) auto
  finally show ?case .
qed

lemma skip_spaces_run:
  assumes "0 \<in> set (drop i command)"
  shows "\<exists>j. skip_spaces command (int i) = Some (int j) \<and> drop j command = dropWhile (\<lambda>c. c = 32) (drop i command)"
  using assms
proof (induction "length command - i" arbitrary: i)
  case 0
  then show ?case by simp
next
  case (Suc n)
  then have i: "i < length command" by simp
  then have d: "drop i command = command ! i # drop (Suc i) command" by (simp add: Cons_nth_drop_Suc)
  have g: "aget command (int i) = Some (command ! i)" using i by (simp add: aget_def)
  show ?case
  proof (cases "command ! i = 32")
    case False
    with g d show ?thesis by (subst skip_spaces.simps) (auto intro!: exI [of _ i])
  next
    case True
    then have "0 \<in> set (drop (Suc i) command)" using Suc.prems d by auto
    moreover have "n = length command - Suc i" using Suc.hyps(2) by simp
    ultimately obtain j where "skip_spaces command (int (Suc i)) = Some (int j)"
        "drop j command = dropWhile (\<lambda>c. c = 32) (drop (Suc i) command)" using Suc.hyps(1) by blast
    with g d True show ?thesis by (subst skip_spaces.simps) (auto simp: add.commute)
  qed
qed

lemma cstr_dropWhile: "cstr (dropWhile (\<lambda>c. c = 32) xs) = dropWhile (\<lambda>c. c = 32) (cstr xs)"
  by (induction xs) (auto simp: cstr_def)

lemma cstr_append: "0 \<notin> set w \<Longrightarrow> cstr (w @ xs) = w @ cstr xs"
  by (induction w) (auto simp: cstr_def)

lemma zero_dropWhile: "0 \<in> set xs \<Longrightarrow> 0 \<in> set (dropWhile (\<lambda>c. c = (32 :: u8)) xs)"
  by (induction xs) auto

lemma command_args_nul:
  assumes "0 \<in> set command" "length (cstr command) < 128"
  shows "0 \<in> set (drop (length (command_word command)) command)" "0 \<in> set (command_args command)"
    "length (cstr (command_args command)) \<le> 1024"
proof -
  let ?w = "command_word command"
  have w: "take (length ?w) command = ?w" unfolding command_word_def by (rule takeWhile_eq_take [symmetric])
  have sp: "command = ?w @ drop (length ?w) command"
    using append_take_drop_id [of "length ?w" command] unfolding w by simp
  have z: "0 \<notin> set ?w" by (rule command_word_bound(3) [OF assms])
  show d: "0 \<in> set (drop (length ?w) command)"
    using assms(1) z by (subst (asm) sp) simp
  then show "0 \<in> set (command_args command)" unfolding command_args_def by (rule zero_dropWhile)
  have "cstr command = ?w @ cstr (drop (length ?w) command)"
    by (subst sp) (rule cstr_append [OF z])
  then have "length (cstr (drop (length ?w) command)) \<le> length (cstr command)" by simp
  moreover have "length (cstr (command_args command)) \<le> length (cstr (drop (length ?w) command))"
    unfolding command_args_def cstr_dropWhile by (rule length_dropWhile_le)
  ultimately show "length (cstr (command_args command)) \<le> 1024" using assms(2) by simp
qed

lemma padded_word_cstr:
  assumes "0 \<in> set command" "length (cstr command) < 128"
  shows "cstr (padded_word command) = command_word command" "0 \<in> set (padded_word command)"
    "length (padded_word command) = 128"
    "aset (padded_word command) (int (length (command_word command))) 0 = Some (padded_word command)"
proof -
  note b = command_word_bound [OF assms]
  obtain m where m: "128 - length (command_word command) = Suc m" using b(1) by (metis Suc_diff_Suc)
  then have p: "padded_word command = command_word command @ 0 # replicate m 0" by (simp add: padded_word_def)
  show "cstr (padded_word command) = command_word command" unfolding p by (rule cstr_append_nul [OF b(3)])
  show "0 \<in> set (padded_word command)" "length (padded_word command) = 128"
    using b(1) m by (simp_all add: p)
  show "aset (padded_word command) (int (length (command_word command))) 0 = Some (padded_word command)"
    by (simp add: p aset_def)
qed

section \<open>Steps of the start\<close>

lemma note_shell_run:
  assumes cmd: "0 \<in> set cmd" and len: "length (shell_pid s) = 3"
    and ct: "0 \<le> current_terminal s" "current_terminal s < 3"
  obtains sp where "note_shell cmd s = Some (s\<lparr>shell_pid := sp\<rparr>)" "length sp = 3"
proof -
  have "readable cmd 5" "readable shell_name 5" using cmd by (simp_all add: readable_def shell_name_def)
  then obtain r where r: "strncmp cmd shell_name 5 = Some r" using strncmp_zero_iff by blast
  obtain n where n: "strlen cmd = Some n" using cmd by (simp add: strlen_eq)
  let ?sp = "(shell_pid s)[nat (current_terminal s) := current_pid (ps s)]"
  have a: "aset (shell_pid s) (current_terminal s) (current_pid (ps s)) = Some ?sp"
    using len ct by (simp add: aset_def)
  show ?thesis
  proof (cases "r = 0 \<and> n = 5")
    case True
    then have "note_shell cmd s = Some (s\<lparr>shell_pid := ?sp\<rparr>)" using r n a by (simp add: note_shell_def)
    with that len show ?thesis by simp
  next
    case False
    then have "note_shell cmd s = Some (s\<lparr>shell_pid := shell_pid s\<rparr>)" using r n by (auto simp: note_shell_def)
    with that len show ?thesis by blast
  qed
qed

lemma mark_running_run:
  assumes "length (terminal_running s) = 3" "0 \<le> current_terminal s" "current_terminal s < 3"
  shows "\<exists>tr. mark_running s = Some (s\<lparr>terminal_running := tr\<rparr>)"
proof (cases "terminal_running s ! nat (current_terminal s) = 0")
  case True
  then show ?thesis using assms by (auto simp: mark_running_def aget_def aset_def)
next
  case False
  then have "mark_running s = Some (s\<lparr>terminal_running := terminal_running s\<rparr>)"
    using assms by (simp add: mark_running_def aget_def)
  then show ?thesis by blast
qed

definition history_sized :: "'a kernel_scheme \<Rightarrow> bool" where
  "history_sized s \<longleftrightarrow> length (history s) = 7 \<and>
     (\<forall>hs \<in> set (history s). length hs = 20 \<and> (\<forall>h \<in> set hs. length h = 128)) \<and>
     length (historyIDX s) = 7 \<and> length (historyBASE s) = 7 \<and> length (historySIZE s) = 7"

lemma clear_history_rows:
  fixes hs :: "u8 list list"
  assumes "length hs = 20" "\<forall>h \<in> set hs. length h = 128"
  shows "\<exists>t. loop_opt 0 NUM_HISTORY_BUFFERS (\<lambda>i hs. do {
       h \<leftarrow> aget hs i;
       h \<leftarrow> loop_opt 0 MAX_BUFFER_SIZE (\<lambda>j h. aset h j 0) h;
       aset hs i h }) hs = Some t \<and> (length t = 20 \<and> (\<forall>h \<in> set t. length h = 128))"
proof (rule loop_opt_inv [where P = "\<lambda>_ t. length t = 20 \<and> (\<forall>h \<in> set t. length h = 128)"])
  fix i :: int and t :: "u8 list list"
  assume i: "0 \<le> i" "i < NUM_HISTORY_BUFFERS" and t: "length t = 20 \<and> (\<forall>h \<in> set t. length h = 128)"
  have n: "nat i < 20" using i by (simp add: NUM_HISTORY_BUFFERS_def)
  then have "length (t ! nat i) = 128" using t by simp
  from zero_row [OF this] have "aget t i = Some (t ! nat i)"
    "loop_opt 0 MAX_BUFFER_SIZE (\<lambda>j h. aset h j 0) (t ! nat i) = Some (replicate 128 0)"
    using i t by (simp_all add: aget_def NUM_HISTORY_BUFFERS_def)
  moreover have "aset t i (replicate 128 0) = Some (t[nat i := replicate 128 0])"
    using i t by (simp add: aset_def NUM_HISTORY_BUFFERS_def)
  moreover have "\<forall>h \<in> set (t[nat i := replicate 128 0]). length h = 128"
    using t by (intro all_list_update) auto
  ultimately show "\<exists>t'. (do { h \<leftarrow> aget t i; h \<leftarrow> loop_opt 0 MAX_BUFFER_SIZE (\<lambda>j h. aset h j 0) h; aset t i h })
      = Some t' \<and> (length t' = 20 \<and> (\<forall>h \<in> set t'. length h = 128))"
    using t by simp
qed (use assms in \<open>simp_all add: NUM_HISTORY_BUFFERS_def\<close>)

lemma clear_history_buffer_run:
  assumes h: "history_sized s" and p: "0 \<le> p" "p < 7"
  obtains hs xs bs zs where
    "clear_history_buffer p s = Some (s\<lparr>history := hs, historyIDX := xs, historyBASE := bs, historySIZE := zs\<rparr>)"
    "history_sized (s\<lparr>history := hs, historyIDX := xs, historyBASE := bs, historySIZE := zs\<rparr>)"
proof -
  let ?h = "history s ! nat p"
  have len: "length (history s) = 7" "length (historyIDX s) = 7" "length (historyBASE s) = 7" "length (historySIZE s) = 7"
    and rows: "\<forall>hs \<in> set (history s). length hs = 20 \<and> (\<forall>h \<in> set hs. length h = 128)"
    using h by (simp_all add: history_sized_def)
  have "length ?h = 20" "\<forall>h \<in> set ?h. length h = 128" using rows len(1) p by (auto simp: nat_less_iff)
  from clear_history_rows [OF this] obtain t where t: "loop_opt 0 NUM_HISTORY_BUFFERS (\<lambda>i hs. do {
       h \<leftarrow> aget hs i;
       h \<leftarrow> loop_opt 0 MAX_BUFFER_SIZE (\<lambda>j h. aset h j 0) h;
       aset hs i h }) ?h = Some t" "length t = 20 \<and> (\<forall>h \<in> set t. length h = 128)" by blast
  have "aget (history s) p = Some ?h" using len p by (simp add: aget_def)
  then have run: "clear_history_buffer p s = Some (s\<lparr>history := (history s)[nat p := t],
      historyIDX := (historyIDX s)[nat p := 0], historyBASE := (historyBASE s)[nat p := 0],
      historySIZE := (historySIZE s)[nat p := 0]\<rparr>)"
    using t(1) len p by (simp add: clear_history_buffer_def aset_def)
  have "\<forall>hs \<in> set ((history s)[nat p := t]). length hs = 20 \<and> (\<forall>h \<in> set hs. length h = 128)"
    by (rule all_list_update [OF rows t(2)])
  with that [OF run] len show ?thesis by (simp add: history_sized_def)
qed

text \<open>The control block of the new process.\<close>

definition new_block :: "int \<Rightarrow> int \<Rightarrow> u32 \<Rightarrow> u8 list \<Rightarrow> pcb \<Rightarrow> pcb" where
  "new_block n par temp rest c = c\<lparr>pid := n, parent := par,
     fd_table := take 2 (fd_table c) @ map freed (drop 2 (fd_table c)), stack_pos := temp,
     ss := KERNEL_DS, esp := kernel_stack n, args := passed_args rest (args c)\<rparr>"

lemma switch_to_wf: "procs_wf p \<Longrightarrow> 0 \<le> n \<Longrightarrow> n < 7 \<Longrightarrow> procs_wf (p\<lparr>current_pid := n\<rparr>)"
  by (simp add: procs_wf_def active_count_def)

lemma process_setup:
  assumes wf: "procs_wf p" and room: "num_active_processes p < 6" and caller: "caller_ok p"
    and rest: "0 \<in> set rest" "length (cstr rest) \<le> 1024"
  obtains n c p1 p2 p3 p4 where "create_new_pcb (current_pid p) p = Some (n, p1)"
    "1 \<le> n" "n < 7" "n \<noteq> current_pid p" "get_cb p n = Some c" "pid c = -1"
    "set_stack_pos n temp (p1\<lparr>current_pid := n\<rparr>) = Some p2"
    "load_pcb n KERNEL_DS (kernel_stack n) p2 = Some p3" "pass_args rest p3 = Some p4"
    "current_pid p2 = n" "current_pid p4 = n" "procs_wf p4"
    "num_active_processes p4 = num_active_processes p + 1" "past_pid p4 = past_pid p"
    "get_cb p4 n = Some (new_block n (current_pid p) temp rest c)"
    "\<And>k. k \<noteq> n \<Longrightarrow> k \<noteq> current_pid p \<Longrightarrow> get_cb p4 k = get_cb p k"
    "\<exists>d as. get_cb p (current_pid p) = Some d \<and> get_cb p4 (current_pid p) = Some (d\<lparr>args := as\<rparr>)"
    "tables p4 = tables p \<and> file_ptr p4 = file_ptr p \<and> dir_ptr p4 = dir_ptr p"
proof -
  let ?q = "current_pid p"
  obtain n c p1 where n: "create_new_pcb ?q p = Some (n, p1)" "1 \<le> n" "n < 7" "n \<noteq> ?q"
    "get_cb p n = Some c" "pid c = -1"
    and c1: "get_cb p1 n = Some (c\<lparr>pid := n, parent := ?q,
        fd_table := take 2 (fd_table c) @ map freed (drop 2 (fd_table c))\<rparr>)"
    and o1: "\<And>k. k \<noteq> n \<Longrightarrow> k \<noteq> ?q \<Longrightarrow> get_cb p1 k = get_cb p k"
    and q1: "\<exists>d as. get_cb p ?q = Some d \<and> get_cb p1 ?q = Some (d\<lparr>args := as\<rparr>)"
    and wf1: "procs_wf p1" and f1: "num_active_processes p1 = num_active_processes p + 1"
      "past_pid p1 = past_pid p" "tables p1 = tables p" "file_ptr p1 = file_ptr p" "dir_ptr p1 = dir_ptr p"
    by (rule create_new_pcb_run [OF wf room caller]) (rule that; assumption)
  let ?p1 = "p1\<lparr>current_pid := n\<rparr>"
  let ?c1 = "c\<lparr>pid := n, parent := ?q, fd_table := take 2 (fd_table c) @ map freed (drop 2 (fd_table c))\<rparr>"
  have w1: "procs_wf ?p1" using n(2,3) by (intro switch_to_wf [OF wf1]) simp_all
  have cb1: "get_cb ?p1 k = get_cb p1 k" for k by (simp add: get_cb_def)
  have g1: "get_cb ?p1 n = Some ?c1" using c1 cb1 by simp
  have b1: "pcb_wf ?c1" by (rule get_cb_pcb_wf [OF w1 g1])
  let ?c2 = "?c1\<lparr>stack_pos := temp\<rparr>" let ?c3 = "?c2\<lparr>ss := KERNEL_DS, esp := kernel_stack n\<rparr>"
  have b2: "pcb_wf ?c2" "pcb_wf ?c3" using b1 by (simp_all add: pcb_wf_def)
  obtain p2 where p2: "put_cb ?p1 n ?c2 = Some p2" "procs_wf p2" "get_cb p2 n = Some ?c2"
    "\<And>k. k \<noteq> n \<Longrightarrow> get_cb p2 k = get_cb ?p1 k" "same_frame ?p1 p2"
    by (rule put_block [OF w1 g1 b2(1)]) (simp, (rule that; assumption))
  obtain p3 where p3: "put_cb p2 n ?c3 = Some p3" "procs_wf p3" "get_cb p3 n = Some ?c3"
    "\<And>k. k \<noteq> n \<Longrightarrow> get_cb p3 k = get_cb p2 k" "same_frame p2 p3"
    by (rule put_block [OF p2(2,3) b2(2)]) (simp, (rule that; assumption))
  have cur: "current_pid p2 = n" "current_pid p3 = n" using p2(5) p3(5) by (simp_all add: same_frame_def)
  have g3: "get_cb p3 (current_pid p3) = Some ?c3" using p3(3) cur by simp
  obtain p4 where p4: "pass_args rest p3 = Some p4" "procs_wf p4"
    "get_cb p4 (current_pid p3) = Some (?c3\<lparr>args := passed_args rest (args ?c3)\<rparr>)"
    "\<And>k. k \<noteq> current_pid p3 \<Longrightarrow> get_cb p4 k = get_cb p3 k" "same_frame p3 p4"
    by (rule pass_args_run [OF p3(2) g3 rest]) (rule that; assumption)
  have oth: "get_cb p4 k = get_cb p1 k" if "k \<noteq> n" for k
    using p4(4) p3(4) p2(4) that cur cb1 by simp
  have "get_cb p4 n = Some (new_block n ?q temp rest c)" using p4(3) cur by (simp add: new_block_def)
  moreover have "tables p4 = tables p \<and> file_ptr p4 = file_ptr p \<and> dir_ptr p4 = dir_ptr p"
    using p2(5) p3(5) p4(5) f1 by (simp add: same_frame_def)
  moreover have "set_stack_pos n temp ?p1 = Some p2" using g1 p2(1) by (simp add: set_stack_pos_def)
  moreover have "load_pcb n KERNEL_DS (kernel_stack n) p2 = Some p3" using p2(3) p3(1) by (simp add: load_pcb_def)
  moreover have "current_pid p4 = n" "num_active_processes p4 = num_active_processes p + 1" "past_pid p4 = past_pid p"
    using p2(5) p3(5) p4(5) f1 by (simp_all add: same_frame_def)
  moreover have "\<exists>d as. get_cb p ?q = Some d \<and> get_cb p4 ?q = Some (d\<lparr>args := as\<rparr>)"
    using q1 oth [of ?q] n(4) by simp
  ultimately show ?thesis
    using that [OF n, of p2 p3 p4] cur(1) p4(1,2) oth o1 by simp
qed

section \<open>Starting a process\<close>

definition exec_ready :: "u32 \<Rightarrow> u32 \<Rightarrow> 'a system_scheme \<Rightarrow> bool" where
  "exec_ready pt frame s \<longleftrightarrow> procs_wf (ps s) \<and> caller_ok (ps s) \<and> num_active_processes (ps s) < 6 \<and>
     paging_sized s \<and> page_aligned pt \<and> editor_wf s \<and> history_sized s \<and> sched_sized s \<and>
     height s (current_terminal s) < 7 \<and> length (terminal_running s) = 3 \<and> length (shell_pid s) = 3 \<and>
     unat frame + 10000 \<le> 0x800000"

definition program_base :: "int \<Rightarrow> u32" where
  "program_base n = 0x400000 * (of_int n + 1) + 0x48000"

lemma program_base_facts:
  assumes "1 \<le> n" "n < 7" and "unat frame + 10000 \<le> 0x800000"
  shows "address_space n VIDEO False VIRTUAL_START = Some (program_base n)"
    "address_space n VIDEO False ENTRY_START = Some (program_base n + 0x18)"
    "up_safe frame (program_base n) 10000"
proof -
  have n: "n = 1 \<or> n = 2 \<or> n = 3 \<or> n = 4 \<or> n = 5 \<or> n = 6" using assms(1,2) by linarith
  show "address_space n VIDEO False VIRTUAL_START = Some (program_base n)"
    "address_space n VIDEO False ENTRY_START = Some (program_base n + 0x18)"
    by (simp_all add: address_space_def VIRTUAL_START_def ENTRY_START_def program_base_def drop_bit_eq_div)
  have base: "0x848000 \<le> unat (program_base n)" using n by (auto simp: program_base_def)
  have "frame \<le> program_base n" using base assms(3) by (simp add: word_le_nat_alt)
  then have "unat (program_base n - frame) = unat (program_base n) - unat frame" by (rule unat_sub)
  then have "10000 \<le> unat (program_base n - frame)" using base assms(3) by linarith
  then show "up_safe frame (program_base n) 10000" by (simp add: up_safe_def)
qed

lemma start_process_run:
  assumes ready: "exec_ready pt frame s" and cmd: "0 \<in> set command" "length (cstr command) < 128"
  obtains n c p sp b xs zs hs hx hb hz tr where
    "start_process pt frame temp command (padded_word command) (int (length (command_word command))) s =
       Some (load32 (copy (vid s) frame (program_base n) 10000) (program_base n + 0x18),
         s\<lparr>shell_pid := sp, tss := \<lparr>ss0 = KERNEL_DS, esp0 = kernel_stack n\<rparr>, ps := p,
           process_pages := page_dir pt n, process_tables := page_tab VIDEO,
           buffer := b, bufferIDX := xs, bufferSIZE := zs,
           history := hs, historyIDX := hx, historyBASE := hb, historySIZE := hz, video_mem := VIDMAP,
           vid := copy (vid s) frame (program_base n) 10000, terminal_running := tr,
           schedule_top := (schedule_top s)[nat (current_terminal s) := height s (current_terminal s) + 1],
           schedule_stack := gput (schedule_stack s) (current_terminal s) (height s (current_terminal s)) (of_int n)\<rparr>)"
    "1 \<le> n" "n < 7" "n \<noteq> current_pid (ps s)" "get_cb (ps s) n = Some c" "pid c = -1"
    "current_pid p = n" "procs_wf p" "num_active_processes p = num_active_processes (ps s) + 1"
    "past_pid p = past_pid (ps s)"
    "get_cb p n = Some (new_block n (current_pid (ps s)) temp (command_args command) c)"
    "\<And>k. k \<noteq> n \<Longrightarrow> k \<noteq> current_pid (ps s) \<Longrightarrow> get_cb p k = get_cb (ps s) k"
    "\<exists>d as. get_cb (ps s) (current_pid (ps s)) = Some d \<and> get_cb p (current_pid (ps s)) = Some (d\<lparr>args := as\<rparr>)"
    "tables p = tables (ps s) \<and> file_ptr p = file_ptr (ps s) \<and> dir_ptr p = dir_ptr (ps s)"
proof -
  have r: "procs_wf (ps s)" "caller_ok (ps s)" "num_active_processes (ps s) < 6" "paging_sized s" "page_aligned pt"
    "editor_wf s" "history_sized s" "sched_sized s" "height s (current_terminal s) < 7"
    "length (terminal_running s) = 3" "length (shell_pid s) = 3" "unat frame + 10000 \<le> 0x800000"
    using ready by (simp_all add: exec_ready_def)
  have ct: "0 \<le> current_terminal s" "current_terminal s < 3" using r(6) by (simp_all add: editor_wf_def)
  note ca = command_args_nul [OF cmd] and pw = padded_word_cstr [OF cmd]
  obtain n c p1 p2 p3 p4 where su: "create_new_pcb (current_pid (ps s)) (ps s) = Some (n, p1)"
    "1 \<le> n" "n < 7" "n \<noteq> current_pid (ps s)" "get_cb (ps s) n = Some c" "pid c = -1"
    "set_stack_pos n temp (p1\<lparr>current_pid := n\<rparr>) = Some p2"
    "load_pcb n KERNEL_DS (kernel_stack n) p2 = Some p3" "pass_args (command_args command) p3 = Some p4"
    "current_pid p2 = n" "current_pid p4 = n" "procs_wf p4"
    "num_active_processes p4 = num_active_processes (ps s) + 1" "past_pid p4 = past_pid (ps s)"
    "get_cb p4 n = Some (new_block n (current_pid (ps s)) temp (command_args command) c)"
    "\<And>k. k \<noteq> n \<Longrightarrow> k \<noteq> current_pid (ps s) \<Longrightarrow> get_cb p4 k = get_cb (ps s) k"
    "\<exists>d as. get_cb (ps s) (current_pid (ps s)) = Some d \<and> get_cb p4 (current_pid (ps s)) = Some (d\<lparr>args := as\<rparr>)"
    "tables p4 = tables (ps s) \<and> file_ptr p4 = file_ptr (ps s) \<and> dir_ptr p4 = dir_ptr (ps s)"
    by (rule process_setup [OF r(1,3,2) ca(2,3), where temp = temp]) (rule that; assumption)
  obtain sp where sp: "note_shell (padded_word command) (s\<lparr>ps := p2\<rparr>) = Some (s\<lparr>ps := p2, shell_pid := sp\<rparr>)"
    using note_shell_run [of "padded_word command" "s\<lparr>ps := p2\<rparr>"] pw(2) r(11) ct by auto
  obtain j where j: "skip_spaces command (int (length (command_word command))) = Some (int j)"
      "drop j command = command_args command"
    using skip_spaces_run [OF ca(1)] unfolding command_args_def by blast
  let ?s4 = "s\<lparr>shell_pid := sp, tss := \<lparr>ss0 = KERNEL_DS, esp0 = kernel_stack n\<rparr>, ps := p4\<rparr>"
  let ?s5 = "?s4\<lparr>process_pages := page_dir pt n, process_tables := page_tab VIDEO\<rparr>"
  have pg: "execute_paging pt ?s4 = Some ?s5"
    using execute_paging_run [of ?s4 pt] r(4,5) su(11) by (simp add: paging_sized_def)
  have ed: "editor_wf ?s5" using r(6) by (simp add: editor_wf_def)
  obtain s6 where "clear_keyboard_buffer ?s5 = Some s6"
    "s6 = ?s5\<lparr>buffer := buffer s6, bufferIDX := bufferIDX s6, bufferSIZE := bufferSIZE s6\<rparr>"
    using clear_keyboard_buffer_run [OF ed retyped_self [OF ed]] editor_wf_row [OF ed] by metis
  then obtain b xs zs where kb: "clear_keyboard_buffer ?s5 = Some (?s5\<lparr>buffer := b, bufferIDX := xs, bufferSIZE := zs\<rparr>)"
    by metis
  let ?s6 = "?s5\<lparr>buffer := b, bufferIDX := xs, bufferSIZE := zs\<rparr>"
  have hsz: "history_sized ?s6" using r(7) by (simp add: history_sized_def)
  obtain hs hx hb hz where hi: "clear_history_buffer n ?s6 =
      Some (?s6\<lparr>history := hs, historyIDX := hx, historyBASE := hb, historySIZE := hz\<rparr>)"
    by (rule clear_history_buffer_run [OF hsz, of n]) (use su(2,3) in auto)
  let ?s7 = "?s6\<lparr>history := hs, historyIDX := hx, historyBASE := hb, historySIZE := hz, video_mem := VIDMAP\<rparr>"
  let ?m = "copy (vid s) frame (program_base n) 10000"
  have n0: "0 \<le> n" using su(2) by simp
  note pb = program_base_facts [OF su(2,3) r(12)]
  have sp7: "in_space pt n VIDEO ?s7" "in_space pt n VIDEO (?s7\<lparr>vid := ?m\<rparr>)" by (simp_all add: in_space_def)
  have w1: "walk pt ?s7 False VIRTUAL_START = Some (program_base n)"
    using walk_in_space [OF sp7(1) r(5) page_aligned_VIDEO n0 su(3)] pb(1) by simp
  have w2: "walk pt (?s7\<lparr>vid := ?m\<rparr>) False ENTRY_START = Some (program_base n + 0x18)"
    using walk_in_space [OF sp7(2) r(5) page_aligned_VIDEO n0 su(3)] pb(2) by simp
  have m: "memcpy (vid s) (program_base n) frame 10000 = ?m"
    using memcpy_copy [of frame "program_base n" 10000 "vid s"] pb(3) by simp
  obtain tr where tr: "mark_running (?s7\<lparr>vid := ?m\<rparr>) = Some (?s7\<lparr>vid := ?m, terminal_running := tr\<rparr>)"
    using mark_running_run [of "?s7\<lparr>vid := ?m\<rparr>"] r(10) ct by auto
  let ?s9 = "?s7\<lparr>vid := ?m, terminal_running := tr\<rparr>"
  have h9: "height ?s9 = height s" by (simp add: fun_eq_iff height_def)
  have sz9: "sched_sized ?s9" using r(8) unfolding sched_sized_def h9 by simp
  have sch: "schedule ?s9 = Some (?s9\<lparr>
      schedule_top := (schedule_top s)[nat (current_terminal s) := height s (current_terminal s) + 1],
      schedule_stack := gput (schedule_stack s) (current_terminal s) (height s (current_terminal s)) (of_int n)\<rparr>)"
    using schedule_run [OF sz9 _ ct] r(9) su(11) unfolding h9 by simp
  have "start_process pt frame temp command (padded_word command) (int (length (command_word command))) s =
       Some (load32 ?m (program_base n + 0x18), ?s9\<lparr>
      schedule_top := (schedule_top s)[nat (current_terminal s) := height s (current_terminal s) + 1],
      schedule_stack := gput (schedule_stack s) (current_terminal s) (height s (current_terminal s)) (of_int n)\<rparr>)"
    unfolding start_process_def Let_def
    using su(1,7,8,9,11) sp j pg kb hi w1 w2 m tr sch by simp
  from that [OF this su(2-6,11-18)] show ?thesis .
qed

section \<open>Loading the file\<close>

text \<open>The 32-bit word at offset \<open>i\<close> of a byte sequence.\<close>

definition word_at :: "u8 list \<Rightarrow> nat \<Rightarrow> u32" where
  "word_at bs i = ucast (bs ! i) + 256 * ucast (bs ! (i + 1)) + 65536 * ucast (bs ! (i + 2))
     + 16777216 * ucast (bs ! (i + 3))"

lemma load32_word_at:
  assumes "\<And>j. j < 4 \<Longrightarrow> m (a + of_nat j) = bs ! (i + j)"
  shows "load32 m a = word_at bs i"
  using assms [of 0] assms [of 1] assms [of 2] assms [of 3] by (simp add: load32_def word_at_def)

text \<open>Everything of the control blocks but the descriptors of the running process.\<close>

definition bare :: "procs \<Rightarrow> int \<Rightarrow> pcb option" where
  "bare p k = map_option (\<lambda>c. if k = current_pid p then c\<lparr>fd_table := []\<rparr> else c) (get_cb p k)"

lemma put_fd_bare:
  assumes "put_fd p fd b = Some p'"
  shows "bare p' = bare p" "same_frame p p'"
proof -
  obtain c t where c: "get_cb p (current_pid p) = Some c" "put_cb p (current_pid p) (c\<lparr>fd_table := t\<rparr>) = Some p'"
    using assms by (auto simp: put_fd_def split: option.splits)
  show "same_frame p p'" using put_cb_frame [OF c(2)] by (simp add: same_frame_def)
  have "bare p' k = bare p k" for k
    using c(1) put_fd_current [OF assms] cb_store.get_put_same [OF c(2)] cb_store.get_put_other [OF c(2), of k]
    by (cases "k = current_pid p") (simp_all add: bare_def)
  then show "bare p' = bare p" by blast
qed

lemma same_frame_trans: "same_frame p q \<Longrightarrow> same_frame q r \<Longrightarrow> same_frame p r"
  by (simp add: same_frame_def)

lemma bare_get:
  assumes "bare p' = bare p" "current_pid p' = current_pid p" "get_cb p k = Some c"
  shows "\<exists>t. get_cb p' k = Some (c\<lparr>fd_table := t\<rparr>)" "k \<noteq> current_pid p \<Longrightarrow> get_cb p' k = Some c"
proof -
  have b: "bare p' k = bare p k" using assms(1) by simp
  then show o: "get_cb p' k = Some c" if "k \<noteq> current_pid p" using that assms(2,3) by (simp add: bare_def)
  show "\<exists>t. get_cb p' k = Some (c\<lparr>fd_table := t\<rparr>)"
  proof (cases "k = current_pid p")
    case True
    with b assms(2,3) obtain d where d: "get_cb p' k = Some d" "d\<lparr>fd_table := []\<rparr> = c\<lparr>fd_table := []\<rparr>"
      by (auto simp: bare_def)
    have "d = (d\<lparr>fd_table := []\<rparr>)\<lparr>fd_table := fd_table d\<rparr>" by simp
    also have "\<dots> = c\<lparr>fd_table := fd_table d\<rparr>" unfolding d(2) by simp
    finally show ?thesis using d(1) by metis
  next
    case False
    then show ?thesis using o by (intro exI [of _ "fd_table c"]) simp
  qed
qed

lemma caller_ok_bare:
  assumes "bare p' = bare p" "same_frame p p'" "caller_ok p"
  shows "caller_ok p'"
  using assms bare_get(1) [OF assms(1)] by (fastforce simp: caller_ok_def same_frame_def)

text \<open>The name of a regular file with these contents, and of one that can be run.\<close>

definition names_file :: "env \<Rightarrow> u8 list \<Rightarrow> u8 list \<Rightarrow> 'a system_scheme \<Rightarrow> bool" where
  "names_file e cmd content s \<longleftrightarrow>
     (\<exists>d. read_dentry_by_name (fs s) cmd (e_dentry e) = Some (0, d) \<and> file_type d = TYPE_FILE \<and>
        open_file (fs s) (file_block (inode_num d) (ps s)) \<and> content = file_content (fs s) (inode_num d))"

definition runs_file :: "env \<Rightarrow> u8 list \<Rightarrow> u8 list \<Rightarrow> 'a system_scheme \<Rightarrow> bool" where
  "runs_file e cmd content s \<longleftrightarrow>
     names_file e cmd content s \<and> 28 \<le> length content \<and> word_at content 0 = MAGIC_LEAD"

lemma load_file_run:
  assumes wf: "procs_wf (ps s)" "\<not> fds_full (ps s)" "file_api (ps s)"
    and run: "names_file e cmd content s" "4 \<le> length content"
    and fr: "frame \<noteq> 0" "walk pt s False frame = Some frame"
  obtains bs p where "load_file pt e frame cmd s =
      Some (word_at content 0 = MAGIC_LEAD, (cli s)\<lparr>vid := overlay (vid s) frame bs, ps := p\<rparr>)"
    "\<And>k. k < min 10000 (length content) \<Longrightarrow> overlay (vid s) frame bs (frame + of_nat k) = content ! k"
    "procs_wf p" "bare p = bare (ps s)" "same_frame (ps s) p" "file_api p"
proof -
  obtain d where d: "read_dentry_by_name (fs s) cmd (e_dentry e) = Some (0, d)" "file_type d = TYPE_FILE"
    "open_file (fs s) (file_block (inode_num d) (ps s))" "content = file_content (fs s) (inode_num d)"
    using run(1) by (auto simp: names_file_def)
  obtain j bs p1 p2 p3 where x:
    "open_call e (Some cmd) s = Some (j, (cli s)\<lparr>ps := p1\<rparr>)"
    "read_call pt e j frame 10000 ((cli s)\<lparr>ps := p1\<rparr>) =
       Some (int (min (nat 10000) (length content)), (cli s)\<lparr>vid := overlay (vid s) frame bs, ps := p2\<rparr>)"
    "take (min (nat 10000) (length content)) bs = take (nat 10000) content" "length bs \<le> nat 10000"
    "close_call j ((cli s)\<lparr>vid := overlay (vid s) frame bs, ps := p2\<rparr>) =
       Some (0, (cli s)\<lparr>vid := overlay (vid s) frame bs, ps := p3\<rparr>)"
    "procs_wf p3" "lowest_free p3 j"
    "put_fd (ps s) j (file_block (inode_num d) (ps s)) = Some p1"
    "\<exists>b2. put_fd p1 j b2 = Some p2 \<and> put_fd p2 j (freed b2) = Some p3"
    by (rule file_session [OF wf d(1-3) fr, where n = 10000, folded d(4)]) (simp, simp, (rule that; assumption))
  have bytes: "overlay (vid s) frame bs (frame + of_nat k) = content ! k" if k: "k < min 10000 (length content)" for k
  proof -
    have "k < length (take (min 10000 (length content)) bs)" using x(3) k by simp
    then have "k < length bs" by simp
    moreover have "bs ! k = content ! k"
      using k x(3) by (metis min_less_iff_conj nat_numeral nth_take)
    ultimately show ?thesis using overlay_inside [of k bs "vid s" frame] x(4) by simp
  qed
  obtain b2 where b2: "put_fd p1 j b2 = Some p2" "put_fd p2 j (freed b2) = Some p3" using x(9) by blast
  have bare: "bare p3 = bare (ps s)" "same_frame (ps s) p3"
    using put_fd_bare [OF x(8)] put_fd_bare [OF b2(1)] put_fd_bare [OF b2(2)] same_frame_trans by metis+
  have "file_api p3" using wf(3) put_fd_api [OF x(8)] put_fd_api [OF b2(1)] put_fd_api [OF b2(2)] by simp
  have "j \<noteq> -1" using x(7) by (auto simp: lowest_free_def)
  moreover have "load32 (overlay (vid s) frame bs) frame = word_at content 0"
    using load32_word_at [of "overlay (vid s) frame bs" frame content 0] bytes run(2) by simp
  ultimately have "load_file pt e frame cmd s =
      Some (word_at content 0 = MAGIC_LEAD, (cli s)\<lparr>vid := overlay (vid s) frame bs, ps := p3\<rparr>)"
    using x(1,2,5) by (simp add: load_file_def)
  from that [OF this bytes x(6) bare \<open>file_api p3\<close>] show ?thesis .
qed

section \<open>execute\<close>

definition can_execute :: "u32 \<Rightarrow> env \<Rightarrow> u32 \<Rightarrow> u8 list \<Rightarrow> u8 list \<Rightarrow> 'a system_scheme \<Rightarrow> bool" where
  "can_execute pt e frame command content s \<longleftrightarrow> exec_ready pt frame s \<and> \<not> fds_full (ps s) \<and> file_api (ps s) \<and>
     frame \<noteq> 0 \<and> walk pt s False frame = Some frame \<and> 0 \<in> set command \<and> length (cstr command) < 128 \<and>
     runs_file e (padded_word command) content s"

lemma execute_run:
  assumes "can_execute pt e frame command content s"
  obtains n c p m sp b xs zs hs hx hb hz tr where
    "execute pt e frame temp (Some command) s = Some (Enter_program (word_at content 24)
       (s\<lparr>iflag := False, shell_pid := sp, tss := \<lparr>ss0 = KERNEL_DS, esp0 = kernel_stack n\<rparr>, ps := p,
           process_pages := page_dir pt n, process_tables := page_tab VIDEO,
           buffer := b, bufferIDX := xs, bufferSIZE := zs,
           history := hs, historyIDX := hx, historyBASE := hb, historySIZE := hz, video_mem := VIDMAP,
           vid := m, terminal_running := tr,
           schedule_top := (schedule_top s)[nat (current_terminal s) := height s (current_terminal s) + 1],
           schedule_stack := gput (schedule_stack s) (current_terminal s) (height s (current_terminal s)) (of_int n)\<rparr>))"
    "\<And>k. k < min 10000 (length content) \<Longrightarrow> m (program_base n + of_nat k) = content ! k"
    "1 \<le> n" "n < 7" "n \<noteq> current_pid (ps s)" "current_pid p = n" "procs_wf p"
    "num_active_processes p = num_active_processes (ps s) + 1"
    "\<exists>old. get_cb (ps s) n = Some old \<and> pid old = -1 \<and> get_cb p n =
       Some (new_block n (current_pid (ps s)) temp (command_args command) old)"
    "tables p = tables (ps s) \<and> file_ptr p = file_ptr (ps s) \<and> dir_ptr p = dir_ptr (ps s)"
    "\<And>k d. get_cb (ps s) k = Some d \<Longrightarrow> k \<noteq> n \<Longrightarrow> \<exists>t as. get_cb p k = Some (d\<lparr>fd_table := t, args := as\<rparr>)"
proof -
  have a: "exec_ready pt frame s" "\<not> fds_full (ps s)" "file_api (ps s)" "frame \<noteq> 0" "walk pt s False frame = Some frame"
    "0 \<in> set command" "length (cstr command) < 128" "runs_file e (padded_word command) content s"
    using assms by (simp_all add: can_execute_def)
  have r: "procs_wf (ps s)" "caller_ok (ps s)" "num_active_processes (ps s) < 6" using a(1) by (simp_all add: exec_ready_def)
  have f: "names_file e (padded_word command) content s" "4 \<le> length content" "word_at content 0 = MAGIC_LEAD"
    using a(8) by (simp_all add: runs_file_def)
  obtain bs p0 where ld0: "load_file pt e frame (padded_word command) s =
      Some (word_at content 0 = MAGIC_LEAD, (cli s)\<lparr>vid := overlay (vid s) frame bs, ps := p0\<rparr>)"
    and bytes: "\<And>k. k < min 10000 (length content) \<Longrightarrow> overlay (vid s) frame bs (frame + of_nat k) = content ! k"
    and p0: "procs_wf p0" "bare p0 = bare (ps s)" "same_frame (ps s) p0" "file_api p0"
    by (rule load_file_run [OF r(1) a(2,3) f(1,2) a(4,5)]) (rule that; assumption)
  note ld = ld0 [unfolded f(3) simp_thms]
  let ?s1 = "s\<lparr>iflag := False, vid := overlay (vid s) frame bs, ps := p0\<rparr>"
  have h1: "height ?s1 = height s" by (simp add: fun_eq_iff height_def)
  have p0f: "current_pid p0 = current_pid (ps s)" "num_active_processes p0 = num_active_processes (ps s)"
    using p0(3) by (simp_all add: same_frame_def)
  have "caller_ok p0" by (rule caller_ok_bare [OF p0(2,3) r(2)])
  then have ready: "exec_ready pt frame ?s1"
    using a(1) p0(1) p0f unfolding exec_ready_def sched_sized_def h1
    by (simp add: paging_sized_def editor_wf_def history_sized_def)
  obtain n c p sp b xs zs hs hx hb hz tr where st:
    "start_process pt frame temp command (padded_word command) (int (length (command_word command))) ?s1 =
       Some (load32 (copy (vid ?s1) frame (program_base n) 10000) (program_base n + 0x18),
         ?s1\<lparr>shell_pid := sp, tss := \<lparr>ss0 = KERNEL_DS, esp0 = kernel_stack n\<rparr>, ps := p,
           process_pages := page_dir pt n, process_tables := page_tab VIDEO,
           buffer := b, bufferIDX := xs, bufferSIZE := zs,
           history := hs, historyIDX := hx, historyBASE := hb, historySIZE := hz, video_mem := VIDMAP,
           vid := copy (vid ?s1) frame (program_base n) 10000, terminal_running := tr,
           schedule_top := (schedule_top ?s1)[nat (current_terminal ?s1) := height ?s1 (current_terminal ?s1) + 1],
           schedule_stack := gput (schedule_stack ?s1) (current_terminal ?s1) (height ?s1 (current_terminal ?s1)) (of_int n)\<rparr>)"
    and n: "1 \<le> n" "n < 7" "n \<noteq> current_pid (ps ?s1)" and c: "get_cb (ps ?s1) n = Some c" "pid c = -1"
    and p: "current_pid p = n" "procs_wf p" "num_active_processes p = num_active_processes (ps ?s1) + 1"
    and pn: "get_cb p n = Some (new_block n (current_pid (ps ?s1)) temp (command_args command) c)"
    and po: "\<And>k. k \<noteq> n \<Longrightarrow> k \<noteq> current_pid (ps ?s1) \<Longrightarrow> get_cb p k = get_cb (ps ?s1) k"
    and pq: "\<exists>d as. get_cb (ps ?s1) (current_pid (ps ?s1)) = Some d \<and> get_cb p (current_pid (ps ?s1)) = Some (d\<lparr>args := as\<rparr>)"
    and pt': "tables p = tables (ps ?s1) \<and> file_ptr p = file_ptr (ps ?s1) \<and> dir_ptr p = dir_ptr (ps ?s1)"
    by (rule start_process_run [OF ready a(6,7), where temp = temp]) (rule that; assumption)
  let ?m = "copy (overlay (vid s) frame bs) frame (program_base n) 10000"
  have m: "?m (program_base n + of_nat k) = content ! k" if k: "k < min 10000 (length content)" for k
  proof -
    have "unat (of_nat k :: u32) = k" using k by (simp add: unat_of_nat)
    then show ?thesis using bytes [OF k] k by (simp add: copy_def)
  qed
  have len: "28 \<le> length content" using a(8) by (simp add: runs_file_def)
  have entry_word: "load32 ?m (program_base n + 0x18) = word_at content 24"
  proof (rule load32_word_at)
    fix j :: nat assume "j < 4"
    then have "?m (program_base n + of_nat (24 + j)) = content ! (24 + j)" using len by (intro m) simp
    then show "?m (program_base n + 0x18 + of_nat j) = content ! (24 + j)" by (simp add: add.assoc)
  qed
  note cw = copy_word_run [OF a(6,7), of 0] and pw = padded_word_cstr [OF a(6,7)]
  have ex: "execute pt e frame temp (Some command) s = Some (Enter_program (word_at content 24)
       (s\<lparr>iflag := False, shell_pid := sp, tss := \<lparr>ss0 = KERNEL_DS, esp0 = kernel_stack n\<rparr>, ps := p,
           process_pages := page_dir pt n, process_tables := page_tab VIDEO,
           buffer := b, bufferIDX := xs, bufferSIZE := zs,
           history := hs, historyIDX := hx, historyBASE := hb, historySIZE := hz, video_mem := VIDMAP,
           vid := ?m, terminal_running := tr,
           schedule_top := (schedule_top s)[nat (current_terminal s) := height s (current_terminal s) + 1],
           schedule_stack := gput (schedule_stack s) (current_terminal s) (height s (current_terminal s)) (of_int n)\<rparr>))"
    unfolding execute_def
    using st [unfolded h1] ld cw pw(4) r(3) a(6,7) entry_word
    by (simp add: MAX_PROCESSES_def EXEC_BUFFER_SIZE_def strlen_eq cli_def)
  have cur: "current_pid (ps ?s1) = current_pid (ps s)" using p0f by simp
  have other: "\<exists>t as. get_cb p k = Some (d\<lparr>fd_table := t, args := as\<rparr>)" if d: "get_cb (ps s) k = Some d" "k \<noteq> n" for k d
  proof -
    obtain t where t: "get_cb p0 k = Some (d\<lparr>fd_table := t\<rparr>)" using bare_get(1) [OF p0(2) p0f(1) d(1)] by blast
    show ?thesis
    proof (cases "k = current_pid (ps s)")
      case True
      then obtain as where "get_cb p k = Some (d\<lparr>fd_table := t, args := as\<rparr>)" using pq t p0f by auto
      then show ?thesis by blast
    next
      case False
      then have "get_cb p k = Some (d\<lparr>fd_table := t, args := args d\<rparr>)" using po [OF d(2)] t p0f by simp
      then show ?thesis by blast
    qed
  qed
  have nq: "n \<noteq> current_pid (ps s)" using n(3) p0f by simp
  have "get_cb (ps s) n = Some c"
    using bare_get(2) [OF p0(2) [symmetric] p0f(1) [symmetric], of n c] c(1) nq p0f(1) by simp
  then have blk: "\<exists>old. get_cb (ps s) n = Some old \<and> pid old = -1 \<and> get_cb p n =
       Some (new_block n (current_pid (ps s)) temp (command_args command) old)"
    using c(2) pn unfolding cur by blast
  have tab: "tables p = tables (ps s) \<and> file_ptr p = file_ptr (ps s) \<and> dir_ptr p = dir_ptr (ps s)"
    using pt' p0(3) by (simp add: same_frame_def)
  have num: "num_active_processes p = num_active_processes (ps s) + 1" using p(3) p0f by simp
  from that [OF ex m n(1,2) nq p(1,2) num blk tab other] show ?thesis .
qed

end
