(* ===== verification/Programs.thy ===== *)
theory Programs
  imports Execute
begin

text \<open>
  The life of a program: what \<open>execute\<close> and \<open>halt\<close> of \<^verbatim>\<open>student-distrib/syscalls.c\<close> achieve
  together, and when \<open>execute\<close> fails.
\<close>

section \<open>Starting a program\<close>

lemma program_offset:
  assumes "k < 10000"
  shows "drop_bit 22 (VIRTUAL_START + of_nat k) = (32 :: u32)"
    "(VIRTUAL_START + of_nat k) AND 0x3FFFFF = (0x48000 + of_nat k :: u32)"
proof -
  have u: "unat (VIRTUAL_START + of_nat k) = 0x8048000 + k"
    using assms by (simp add: VIRTUAL_START_def unat_word_ariths unat_of_nat)
  have v: "unat (0x48000 + of_nat k :: u32) = 0x48000 + k"
    using assms by (simp add: unat_word_ariths unat_of_nat)
  have "unat (drop_bit 22 (VIRTUAL_START + of_nat k)) = (0x8048000 + k) div 2 ^ 22"
    using u by (simp add: drop_bit_eq_div unat_div)
  also have "\<dots> = unat (32 :: u32)" using assms by simp
  finally show "drop_bit 22 (VIRTUAL_START + of_nat k) = (32 :: u32)" by (simp only: word_unat_eq_iff)
  have "(VIRTUAL_START + of_nat k) AND 0x3FFFFF = (VIRTUAL_START + of_nat k) mod 2 ^ 22"
    unfolding take_bit_eq_mod [symmetric] take_bit_eq_mask by (simp add: mask_eq_exp_minus_1)
  then have "unat ((VIRTUAL_START + of_nat k) AND 0x3FFFFF) = (0x8048000 + k) mod 2 ^ 22"
    using u by (simp add: unat_mod)
  also have "(0x8048000 + k) mod 2 ^ 22 = 0x48000 + k"
    using assms mod_mult_self2 [of "0x48000 + k" "2 ^ 22" 32] by simp
  also have "\<dots> = unat (0x48000 + of_nat k :: u32)" using v by simp
  finally show "(VIRTUAL_START + of_nat k) AND 0x3FFFFF = (0x48000 + of_nat k :: u32)"
    by (simp only: word_unat_eq_iff)
qed

lemma walk_program:
  assumes "in_space pt n VIDEO s" "page_aligned pt" "1 \<le> n" "n < 7" "k < 10000"
  shows "walk pt s True (VIRTUAL_START + of_nat k) = Some (program_base n + of_nat k)"
  using walk_in_space [OF assms(1,2) page_aligned_VIDEO] assms(3,4)
  by (simp add: address_space_def program_offset [OF assms(5)] program_base_def algebra_simps)


text \<open>A file system whose one file \<open>a\<close> is an executable of 28 bytes with entry point \<open>0x8048050\<close>.\<close>

definition exec_mem :: memory where
  "exec_mem = (\<lambda>_. 0)(0 := 1, 4 := 1, 8 := 1, 64 := 97, 96 := 2, 4096 := 28,
     8192 := 0x7F, 8193 := 0x45, 8194 := 0x4C, 8195 := 0x46,
     8216 := 0x50, 8217 := 0x80, 8218 := 4, 8219 := 8)"

definition exec_fs :: fsys where
  "exec_fs = boot_block_init 0 exec_mem"

definition exec_system :: "procs \<Rightarrow> system" where
  "exec_system p = file_system\<lparr>fs := exec_fs, ps := p\<rparr>"

lemma exec_fs_eq:
  "exec_fs = \<lparr>fs_mem = exec_mem, casted_block = 0, node_list = 4096, data_list = 8192\<rparr>"
  by (simp add: exec_fs_def boot_block_init_def inodes_def load32_def exec_mem_def FILE_SIZE_def)

lemma exec_lookup: "cstr name = [97] \<Longrightarrow> 0 \<in> set name \<Longrightarrow>
  read_dentry_by_name exec_fs name d = Some (0, dir_entries exec_fs 0)"
proof -
  assume n: "cstr name = [97]" "0 \<in> set name"
  have "entry_name exec_fs 0 = [97]"
    by (simp add: exec_fs_eq entry_name_def dir_entries_def bytes_at_def FILENAME_SIZE_def upt_32
        exec_mem_def Let_def cstr_def)
  then have "find_entry exec_fs [97] 0 = Some 0" by (simp add: find_entry_Some_iff)
  with n show ?thesis by (simp add: read_dentry_by_name_eq)
qed

lemma exec_file: "file_type (dir_entries exec_fs 0) = TYPE_FILE" "inode_num (dir_entries exec_fs 0) = 0"
  "open_file exec_fs (file_block 0 p)" "B_length exec_fs 0 = 28"
proof -
  show "file_type (dir_entries exec_fs 0) = TYPE_FILE" "inode_num (dir_entries exec_fs 0) = 0"
    by (simp_all add: exec_fs_eq dir_entries_def Let_def load32_def exec_mem_def TYPE_FILE_def)
  show l: "B_length exec_fs 0 = 28"
    by (simp add: B_length_def exec_fs_eq load32_def exec_mem_def)
  show "open_file exec_fs (file_block 0 p)"
    using l by (simp add: open_file_def file_block_def)
qed

lemma exec_bytes:
  assumes "k < 28"
  shows "file_content exec_fs 0 ! k = exec_mem (8192 + of_nat k)" "length (file_content exec_fs 0) = 28"
proof -
  have "data_blocks exec_fs 0 0 = 0" by (simp add: data_blocks_def exec_fs_eq load32_def exec_mem_def)
  then show "file_content exec_fs 0 ! k = exec_mem (8192 + of_nat k)" "length (file_content exec_fs 0) = 28"
    using assms exec_file(4)
    by (simp_all add: file_content_def file_bytes_def file_byte_def data_block_def exec_fs_eq)
qed

lemma exec_system_fields:
  "ps (exec_system p) = p" "fs (exec_system p) = exec_fs" "current_terminal (exec_system p) = 0"
  "current_process (exec_system p) = 0" "in_space 0x480000 1 VIDEO (exec_system p)"
  "schedule_top (exec_system p) = [1, 0, 0]" "height (exec_system p) 0 = 1"
  by (simp_all add: exec_system_def file_system_def clock_system_def kernel.defs in_space_def height_def idle_kernel_def)

text \<open>Processes of which the running one can call \<open>execute\<close>.\<close>

definition calling :: "procs \<Rightarrow> bool" where
  "calling p \<longleftrightarrow> procs_wf p \<and> caller_ok p \<and> num_active_processes p < 6 \<and> \<not> fds_full p \<and> file_api p"

lemma exec_system_ready:
  assumes "calling p"
  shows "exec_ready 0x480000 0x7F0000 (exec_system p)"
proof -
  have t: "t = 0 \<or> t = 1 \<or> t = 2" if "0 \<le> t" "t < 3" for t :: int using that by linarith
  have "sched_sized (exec_system p)"
    using t by (force simp: sched_sized_def grid37_def height_def exec_system_def file_system_def clock_system_def
        kernel.defs idle_kernel_def nth_Cons')
  moreover have "editor_wf (exec_system p)"
    by (auto simp: editor_wf_def exec_system_def file_system_def clock_system_def kernel.defs idle_kernel_def
        zero_from_def nth_Cons')
  moreover have "history_sized (exec_system p)"
    by (simp add: history_sized_def exec_system_def file_system_def clock_system_def kernel.defs idle_kernel_def)
  moreover have "length (terminal_running (exec_system p)) = 3" "length (shell_pid (exec_system p)) = 3"
    "paging_sized (exec_system p)"
    by (simp_all add: exec_system_def file_system_def clock_system_def kernel.defs idle_kernel_def paging_sized_def)
  ultimately show ?thesis
    using assms by (simp add: exec_ready_def exec_system_fields page_aligned_def calling_def)
qed

lemma exec_system_walk: "walk 0x480000 (exec_system p) False 0x7F0000 = Some 0x7F0000"
proof -
  have "walk 0x480000 (exec_system p) False 0x7F0000 = address_space 1 VIDEO False 0x7F0000"
    by (rule walk_in_space [OF exec_system_fields(5)])
      (simp_all add: page_aligned_def page_aligned_VIDEO [unfolded page_aligned_def])
  then show ?thesis by (simp add: address_space_def drop_bit_eq_div)
qed

text \<open>The command line \<open>a b\<close>.\<close>

definition a_b :: "u8 list" where "a_b = [97, 32, 98, 0]"

lemma a_b_parts: "0 \<in> set a_b" "length (cstr a_b) < 128" "command_word a_b = [97]"
  by (simp_all add: a_b_def cstr_def command_word_def)

lemma exec_system_can:
  assumes "calling p"
  shows "can_execute 0x480000 quiet_env 0x7F0000 a_b (file_content exec_fs 0) (exec_system p)"
proof -
  note w = padded_word_cstr [OF a_b_parts(1,2)]
  have "word_at (file_content exec_fs 0) 0 = MAGIC_LEAD"
    by (simp add: word_at_def exec_bytes exec_mem_def MAGIC_LEAD_def)
  then have "runs_file quiet_env (padded_word a_b) (file_content exec_fs 0) (exec_system p)"
    unfolding runs_file_def names_file_def
    using exec_lookup [OF w(1) [unfolded a_b_parts(3)] w(2)] exec_file exec_bytes(2) [of 0]
    by (simp add: exec_system_fields)
  with assms show ?thesis
    using exec_system_ready [OF assms] exec_system_walk a_b_parts
    by (simp add: can_execute_def exec_system_fields calling_def)
qed

lemma exec_entry: "word_at (file_content exec_fs 0) 24 = 0x8048050"
  by (simp add: word_at_def exec_bytes exec_mem_def)

lemma api_procs_calling: "calling api_procs" "current_pid api_procs = 0" "num_active_processes api_procs = 0"
  using api_procs_facts by (simp_all add: calling_def caller_ok_def api_procs_def sample_procs_def)


section \<open>Ending a program\<close>

lemma pcb_close_loop: "loop_up i n pcb_close s = s"
  by (induction i n "pcb_close :: int \<Rightarrow> 'a system_scheme \<Rightarrow> 'a system_scheme" s rule: loop_up.induct)
    (subst loop_up.simps, simp add: pcb_close_def)

text \<open>A process that can halt: its block, its parent's block, and its terminal's turn.\<close>

definition can_halt :: "u32 \<Rightarrow> u32 \<Rightarrow> pcb \<Rightarrow> pcb \<Rightarrow> 'a system_scheme \<Rightarrow> bool" where
  "can_halt pt video c d s \<longleftrightarrow> procs_wf (ps s) \<and> 1 \<le> current_pid (ps s) \<and>
     get_cb (ps s) (current_pid (ps s)) = Some c \<and> pid c \<noteq> -1 \<and>
     parent c \<noteq> current_pid (ps s) \<and> get_cb (ps s) (parent c) = Some d \<and>
     in_space pt (current_pid (ps s)) video s \<and> sched_sized s \<and> current_process s \<in> runnable s"

lemma halt_run:
  assumes "can_halt pt video c d s"
  obtains p where "halt status s = Some (s\<lparr>iflag := False, ps := p, tss := (tss s)\<lparr>esp0 := esp d\<rparr>,
       process_pages := page_dir pt (parent c)\<rparr>)"
    "procs_wf p" "current_pid p = parent c" "past_pid p = current_pid (ps s)"
    "num_active_processes p = num_active_processes (ps s) - 1"
    "get_cb p (current_pid (ps s)) = Some (c\<lparr>pid := -1\<rparr>)"
    "\<And>k. k \<noteq> current_pid (ps s) \<Longrightarrow> get_cb p k = get_cb (ps s) k"
proof -
  have a: "procs_wf (ps s)" "1 \<le> current_pid (ps s)" "get_cb (ps s) (current_pid (ps s)) = Some c" "pid c \<noteq> -1"
    "parent c \<noteq> current_pid (ps s)" "get_cb (ps s) (parent c) = Some d" "in_space pt (current_pid (ps s)) video s"
    using assms by (simp_all add: can_halt_def)
  let ?n = "current_pid (ps s)" and ?p0 = "(ps s)\<lparr>past_pid := current_pid (ps s)\<rparr>"
  have wf0: "procs_wf ?p0" using a(1) by (simp add: procs_wf_def active_count_def)
  have cb0: "get_cb ?p0 k = get_cb (ps s) k" for k by (simp add: get_cb_def)
  have n: "?n < 7" using a(1) by (simp add: procs_wf_def)
  have c0: "get_cb ?p0 ?n = Some c" using a(3) cb0 by simp
  obtain p1 where p1: "destroy_pcb ?n ?p0 = Some (0, p1)" "procs_wf p1" "get_cb p1 ?n = Some (c\<lparr>pid := -1\<rparr>)"
    "\<And>k. k \<noteq> ?n \<Longrightarrow> get_cb p1 k = get_cb ?p0 k" "num_active_processes p1 = num_active_processes ?p0 - 1"
    using destroy_pcb_run [OF wf0 a(2) n c0 a(4)] by blast
  have past: "past_pid p1 = ?n"
    using p1(1) put_cb_frame by (fastforce simp: destroy_pcb_def split: option.splits)
  have q: "0 \<le> parent c" "parent c < 7"
    using a(1,6) by (auto simp: get_cb_def aget_eq_Some_iff procs_wf_def)
  let ?p = "p1\<lparr>current_pid := parent c\<rparr>"
  have cb: "get_cb ?p k = get_cb p1 k" for k by (simp add: get_cb_def)
  have pd: "get_cb ?p (parent c) = Some d" unfolding cb using p1(4) [OF a(5)] a(6) cb0 by simp
  let ?s = "s\<lparr>iflag := False, ps := ?p, tss := (tss s)\<lparr>esp0 := esp d\<rparr>\<rparr>"
  have "in_space pt ?n video ?s" using a(7) by (simp add: in_space_def)
  from set_program_page_run [OF this]
  have run: "halt status s = Some (s\<lparr>iflag := False, ps := ?p, tss := (tss s)\<lparr>esp0 := esp d\<rparr>,
       process_pages := page_dir pt (parent c)\<rparr>)"
    unfolding halt_def cli_def Let_def using a(3) p1(1) pd by (simp add: pcb_close_loop)
  show ?thesis
    by (rule that [OF run]) (use switch_to_wf [OF p1(2) q] past p1(3-5) cb cb0 in simp_all)
qed

lemma halt_call_run:
  assumes h: "can_halt pt video c d s"
  defines "t \<equiv> current_process s"
  obtains p s' where "halt_call status s = Some (stack_pos c,
      if parent c = 0 then Exec_shell s' else Returned (uint status) s')"
    "s' = s\<lparr>ps := p, tss := (tss s)\<lparr>esp0 := esp d\<rparr>, process_pages := page_dir pt (parent c),
       schedule_stack := gput (schedule_stack s) t (height s t - 1) 0,
       schedule_ebp := gput (schedule_ebp s) t (height s t - 1) 0,
       schedule_esp := gput (schedule_esp s) t (height s t - 1) 0,
       schedule_top := (schedule_top s)[nat t := height s t - 1], iflag := True\<rparr>"
    "procs_wf p" "current_pid p = parent c"
    "num_active_processes p = num_active_processes (ps s) - 1"
    "get_cb p (current_pid (ps s)) = Some (c\<lparr>pid := -1\<rparr>)"
    "\<And>k. k \<noteq> current_pid (ps s) \<Longrightarrow> get_cb p k = get_cb (ps s) k"
proof -
  obtain p where p: "halt status s = Some (s\<lparr>iflag := False, ps := p, tss := (tss s)\<lparr>esp0 := esp d\<rparr>,
       process_pages := page_dir pt (parent c)\<rparr>)" (is "_ = Some ?s1")
    "procs_wf p" "current_pid p = parent c" "past_pid p = current_pid (ps s)"
    "num_active_processes p = num_active_processes (ps s) - 1"
    "get_cb p (current_pid (ps s)) = Some (c\<lparr>pid := -1\<rparr>)"
    "\<And>k. k \<noteq> current_pid (ps s) \<Longrightarrow> get_cb p k = get_cb (ps s) k"
    by (rule halt_run [OF h, where status = status]) (rule that; assumption)
  have eq: "height ?s1 = height s" "runnable ?s1 = runnable s" "current_process ?s1 = t"
    by (simp_all add: fun_eq_iff height_def runnable_def t_def)
  have "sched_sized ?s1" "current_process ?s1 \<in> runnable ?s1"
    using h unfolding can_halt_def sched_sized_def eq by (simp_all add: t_def)
  note de = deschedule_run [OF this, unfolded eq]
  show ?thesis
    by (rule that [OF _ refl p(2,3,5-7)])
      (use p(1,3,4,6) de in \<open>simp add: halt_call_def halted_def Let_def sti_def SENTINEL_PROCESS_def\<close>)
qed

text \<open>
  C21: a program that halts with a status gives it, as a value from 0 to 255, to the \<open>execute\<close>
  that started it, on the stack that call saved; a shell without a parent is started again. Its
  block is free, one process less is counted, its terminal's stack is one lower, and the parent
  runs in its own address space with its kernel stack and the interrupts on.
\<close>

theorem halt_returns:
  assumes "can_halt pt video c d s"
  shows "\<exists>s'. halt_call status s =
      Some (stack_pos c, if parent c = 0 then Exec_shell s' else Returned (uint status) s') \<and>
    current_pid (ps s') = parent c \<and> procs_wf (ps s') \<and>
    get_cb (ps s') (current_pid (ps s)) = Some (c\<lparr>pid := -1\<rparr>) \<and>
    num_active_processes (ps s') = num_active_processes (ps s) - 1 \<and>
    height s' (current_process s) = height s (current_process s) - 1 \<and>
    in_space pt (parent c) video s' \<and> esp0 (tss s') = esp d \<and> iflag s'"
proof -
  let ?t = "current_process s"
  obtain p s' where r: "halt_call status s =
      Some (stack_pos c, if parent c = 0 then Exec_shell s' else Returned (uint status) s')"
    and s': "s' = s\<lparr>ps := p, tss := (tss s)\<lparr>esp0 := esp d\<rparr>, process_pages := page_dir pt (parent c),
       schedule_stack := gput (schedule_stack s) ?t (height s ?t - 1) 0,
       schedule_ebp := gput (schedule_ebp s) ?t (height s ?t - 1) 0,
       schedule_esp := gput (schedule_esp s) ?t (height s ?t - 1) 0,
       schedule_top := (schedule_top s)[nat ?t := height s ?t - 1], iflag := True\<rparr>"
    and p: "procs_wf p" "current_pid p = parent c" "num_active_processes p = num_active_processes (ps s) - 1"
    "get_cb p (current_pid (ps s)) = Some (c\<lparr>pid := -1\<rparr>)"
    by (rule halt_call_run [OF assms, where status = status]) (rule that; assumption)
  have g: "sched_sized s" "?t \<in> runnable s" "in_space pt (current_pid (ps s)) video s"
    using assms by (simp_all add: can_halt_def)
  have len: "length (schedule_top s) = 3" using g(1) by (simp add: sched_sized_def)
  have "height s' ?t = height s ?t - 1"
    using height_update [OF len runnable_height(1,2) [OF g(1,2)] runnable_height(1) [OF g(1,2)]]
    unfolding s' by (simp add: height_def)
  moreover have "in_space pt (parent c) video s'" using g(3) unfolding s' by (simp add: in_space_def)
  ultimately show ?thesis using r p unfolding s' by (intro exI [of _ s'] conjI) (simp_all add: s')
qed

text \<open>After \<open>execute\<close> the new program can halt.\<close>

lemma execute_can_halt:
  assumes can: "can_execute pt e frame command content s" and turn: "current_process s = current_terminal s"
  obtains n s1 c d where "execute pt e frame temp (Some command) s = Some (Enter_program (word_at content 24) s1)"
    "can_halt pt VIDEO c d s1" "current_pid (ps s1) = n" "n \<noteq> current_pid (ps s)" "parent c = current_pid (ps s)"
    "stack_pos c = temp" "\<exists>d0. get_cb (ps s) (current_pid (ps s)) = Some d0 \<and> esp d = esp d0"
    "num_active_processes (ps s1) = num_active_processes (ps s) + 1" "current_process s1 = current_terminal s"
    "schedule_top s1 = (schedule_top s)[nat (current_terminal s) := height s (current_terminal s) + 1]"
    "\<exists>old. get_cb (ps s) n = Some old \<and> pid old = -1"
    "\<And>k d. get_cb (ps s) k = Some d \<Longrightarrow> k \<noteq> n \<Longrightarrow> \<exists>d'. get_cb (ps s1) k = Some d' \<and> pid d' = pid d"
proof -
  let ?t = "current_terminal s"
  obtain n p m sp b xs zs hs hx hb hz tr where ex:
    "execute pt e frame temp (Some command) s = Some (Enter_program (word_at content 24)
       (s\<lparr>iflag := False, shell_pid := sp, tss := \<lparr>ss0 = KERNEL_DS, esp0 = kernel_stack n\<rparr>, ps := p,
           process_pages := page_dir pt n, process_tables := page_tab VIDEO,
           buffer := b, bufferIDX := xs, bufferSIZE := zs,
           history := hs, historyIDX := hx, historyBASE := hb, historySIZE := hz, video_mem := VIDMAP,
           vid := m, terminal_running := tr,
           schedule_top := (schedule_top s)[nat ?t := height s ?t + 1],
           schedule_stack := gput (schedule_stack s) ?t (height s ?t) (of_int n)\<rparr>))"
      (is "_ = Some (Enter_program _ ?s)")
    and n: "1 \<le> n" "n < 7" "n \<noteq> current_pid (ps s)"
    and p: "current_pid p = n" "procs_wf p" "num_active_processes p = num_active_processes (ps s) + 1"
    and blk: "\<exists>old. get_cb (ps s) n = Some old \<and> pid old = -1 \<and> get_cb p n =
       Some (new_block n (current_pid (ps s)) temp (command_args command) old)"
    and other: "\<And>k d. get_cb (ps s) k = Some d \<Longrightarrow> k \<noteq> n \<Longrightarrow> \<exists>t as. get_cb p k = Some (d\<lparr>fd_table := t, args := as\<rparr>)"
    by (rule execute_run [OF can, where temp = temp]) (rule that; assumption)
  have "exec_ready pt frame s" using can by (simp add: can_execute_def)
  then have g: "sched_sized s" "height s ?t < 7" "0 \<le> ?t" "?t < 3" "procs_wf (ps s)"
    by (simp_all add: exec_ready_def editor_wf_def)
  let ?b = "s\<lparr>ps := p\<rparr>"
  have hb: "height ?b = height s" by (simp add: fun_eq_iff height_def)
  have "sched_sized ?b" using g(1) unfolding sched_sized_def hb by simp
  note sch = schedule_run [OF this _ g(3,4), unfolded hb, OF _ g(2)]
  note z = schedule_sized [OF \<open>sched_sized ?b\<close> _ g(3,4), unfolded hb, OF _ g(2) sch]
  let ?b' = "?b\<lparr>schedule_top := (schedule_top s)[nat ?t := height s ?t + 1],
    schedule_stack := gput (schedule_stack s) ?t (height s ?t) (of_int n)\<rparr>"
  have hh: "height ?s = height ?b'" by (simp add: fun_eq_iff height_def)
  have "sched_sized ?b'" "runnable ?b' = insert ?t (runnable ?b)" using z(1,3) p(1) by simp_all
  then have sched: "sched_sized ?s" "current_process ?s \<in> runnable ?s"
    using turn unfolding sched_sized_def hh by (simp_all add: runnable_def)
  obtain old where old: "get_cb (ps s) n = Some old" "pid old = -1"
    "get_cb p n = Some (new_block n (current_pid (ps s)) temp (command_args command) old)"
    using blk by blast
  let ?c = "new_block n (current_pid (ps s)) temp (command_args command) old"
  obtain d0 where d0: "get_cb (ps s) (current_pid (ps s)) = Some d0"
    using get_cb_wf [OF g(5), of "current_pid (ps s)"] g(5) by (auto simp: procs_wf_def)
  obtain t' as where d: "get_cb p (current_pid (ps s)) = Some (d0\<lparr>fd_table := t', args := as\<rparr>)"
    using other [OF d0] n(3) by blast
  have "can_halt pt VIDEO ?c (d0\<lparr>fd_table := t', args := as\<rparr>) ?s"
    unfolding can_halt_def using sched p n old(3) d by (simp add: new_block_def in_space_def)
  from that [OF ex this _ n(3)] show ?thesis
    using p d0 old(1,2) other turn by (fastforce simp: new_block_def)
qed

theorem halt_returns_witness:
  "\<exists>s1 s'. execute 0x480000 quiet_env 0x7F0000 0x7FC000 (Some a_b) (exec_system api_procs) =
      Some (Enter_program 0x8048050 s1) \<and>
    halt_call 7 s1 = Some (0x7FC000, Exec_shell s') \<and> current_pid (ps s') = 0 \<and> iflag s'"
proof -
  let ?s = "exec_system api_procs"
  have turn: "current_process ?s = current_terminal ?s" by (simp add: exec_system_fields)
  obtain s1 c d where x: "execute 0x480000 quiet_env 0x7F0000 0x7FC000 (Some a_b) ?s =
      Some (Enter_program (word_at (file_content exec_fs 0) 24) s1)"
    "can_halt 0x480000 VIDEO c d s1" "parent c = current_pid (ps ?s)" "stack_pos c = 0x7FC000"
    by (rule execute_can_halt [OF exec_system_can [OF api_procs_calling(1)] turn]) (rule that; assumption)
  show ?thesis
    using x halt_returns [OF x(2), of 7] by (auto simp: exec_system_fields exec_entry api_procs_calling)
qed


definition child_procs :: procs where
  "child_procs = api_procs\<lparr>control_blocks := (replicate 7 unused_block)[1 := unused_block\<lparr>pid := 1\<rparr>],
     num_active_processes := 1, current_pid := 1\<rparr>"

lemma child_procs_calling: "calling child_procs" "current_pid child_procs = 1"
proof -
  have fd: "get_fd child_procs 2 = Some (freed stdin_block)"
    by (simp add: get_fd_def get_cb_def child_procs_def aget_def unused_block_def nth_Cons')
  then have "\<not> fds_full child_procs"
    by (auto simp: fds_full_def is_free_def freed_def intro!: bexI [of _ 2])
  moreover have "procs_wf child_procs"
    by (simp add: child_procs_def procs_wf_def pcb_wf_def unused_block_def active_count_def numeral_eq_Suc)
  moreover have "caller_ok child_procs" "num_active_processes child_procs < 6" "file_api child_procs"
    by (simp_all add: caller_ok_def child_procs_def get_cb_def aget_def file_api_def api_procs_def)
  ultimately show "calling child_procs" by (simp add: calling_def)
qed (simp add: child_procs_def)


section \<open>Failing to start a program\<close>

lemma execute_load:
  assumes "num_active_processes (ps s) < 6" "0 \<in> set command" "length (cstr command) < 128"
    and "load_file pt e frame (padded_word command) s = Some (False, s')"
  shows "execute pt e frame temp (Some command) s = Some (Failed (-1) s')"
  using assms copy_word_run [OF assms(2,3), of 0] padded_word_cstr(4) [OF assms(2,3)]
  by (simp add: execute_def MAX_PROCESSES_def EXEC_BUFFER_SIZE_def strlen_eq)

text \<open>
  C27: \<open>execute\<close> fails with \<open>-1\<close>, and starts nothing, on a null command, with six processes
  running, on a command of 128 characters or more, on a first word that is empty, longer than a
  file name or not in the directory, and on a file that does not start with the magic number;
  in that last case the descriptor it opened is free again and the caller's block, its address
  space and the schedule are as before, with the interrupts left off.
\<close>

theorem execute_failures:
  assumes nul: "0 \<in> set command"
  shows "execute pt e frame temp None s = Some (Failed (-1) s) \<and>
    (num_active_processes (ps s) \<ge> 6 \<or> length (cstr command) \<ge> 128 \<longrightarrow>
       execute pt e frame temp (Some command) s = Some (Failed (-1) s)) \<and>
    (num_active_processes (ps s) < 6 \<and> length (cstr command) < 128 \<and>
       (command_word command = [] \<or> 32 < length (command_word command) \<or>
        (\<forall>j<63. entry_name (fs s) j \<noteq> command_word command)) \<longrightarrow>
       execute pt e frame temp (Some command) s = Some (Failed (-1) (cli s))) \<and>
    (exec_ready pt frame s \<and> \<not> fds_full (ps s) \<and> file_api (ps s) \<and> length (cstr command) < 128 \<and>
       frame \<noteq> 0 \<and> walk pt s False frame = Some frame \<and>
       names_file e (padded_word command) content s \<and> 4 \<le> length content \<and> word_at content 0 \<noteq> MAGIC_LEAD \<longrightarrow>
       (\<exists>m p. execute pt e frame temp (Some command) s = Some (Failed (-1) ((cli s)\<lparr>vid := m, ps := p\<rparr>)) \<and>
          procs_wf p \<and> bare p = bare (ps s) \<and> same_frame (ps s) p))"
proof (intro conjI impI)
  show "execute pt e frame temp None s = Some (Failed (-1) s)" by (simp add: execute_def)
next
  assume "num_active_processes (ps s) \<ge> 6 \<or> length (cstr command) \<ge> 128"
  then show "execute pt e frame temp (Some command) s = Some (Failed (-1) s)"
    using nul by (auto simp: execute_def MAX_PROCESSES_def EXEC_BUFFER_SIZE_def strlen_eq)
next
  assume a: "num_active_processes (ps s) < 6 \<and> length (cstr command) < 128 \<and>
       (command_word command = [] \<or> 32 < length (command_word command) \<or>
        (\<forall>j<63. entry_name (fs s) j \<noteq> command_word command))"
  then have w: "cstr (padded_word command) = command_word command" "0 \<in> set (padded_word command)"
    using padded_word_cstr [OF nul] by simp_all
  have "read_dentry_by_name (fs s) (padded_word command) (e_dentry e) = Some (-1, e_dentry e)"
    using a read_dentry_by_name_eq [OF w(2)] find_entry_None_iff [of "fs s" "command_word command"]
    unfolding w(1) by auto
  then have "load_file pt e frame (padded_word command) s = Some (False, cli s)"
    by (simp add: load_file_def open_call_def Let_def cli_def)
  then show "execute pt e frame temp (Some command) s = Some (Failed (-1) (cli s))"
    using a nul by (intro execute_load) auto
next
  assume a: "exec_ready pt frame s \<and> \<not> fds_full (ps s) \<and> file_api (ps s) \<and> length (cstr command) < 128 \<and>
       frame \<noteq> 0 \<and> walk pt s False frame = Some frame \<and>
       names_file e (padded_word command) content s \<and> 4 \<le> length content \<and> word_at content 0 \<noteq> MAGIC_LEAD"
  then have r: "procs_wf (ps s)" "num_active_processes (ps s) < 6" by (simp_all add: exec_ready_def)
  obtain bs p where ld: "load_file pt e frame (padded_word command) s =
      Some (word_at content 0 = MAGIC_LEAD, (cli s)\<lparr>vid := overlay (vid s) frame bs, ps := p\<rparr>)"
    and p: "procs_wf p" "bare p = bare (ps s)" "same_frame (ps s) p"
    by (rule load_file_run [of s e "padded_word command" content frame pt]) (use a r in auto)
  have "execute pt e frame temp (Some command) s =
      Some (Failed (-1) ((cli s)\<lparr>vid := overlay (vid s) frame bs, ps := p\<rparr>))"
    by (rule execute_load) (use a r nul ld in auto)
  then show "\<exists>m p. execute pt e frame temp (Some command) s = Some (Failed (-1) ((cli s)\<lparr>vid := m, ps := p\<rparr>)) \<and>
      procs_wf p \<and> bare p = bare (ps s) \<and> same_frame (ps s) p"
    using p by blast
qed

theorem execute_failures_witness:
  "execute 0x480000 quiet_env 0x7F0000 0 (Some [98, 0]) (exec_system api_procs) =
     Some (Failed (-1) (cli (exec_system api_procs))) \<and>
   execute 0x480000 quiet_env 0x7F0000 0 None (exec_system api_procs) = Some (Failed (-1) (exec_system api_procs))"
proof -
  have w: "command_word [98, 0] = [98]" "cstr [98, 0 :: u8] = [98]" by (simp_all add: command_word_def cstr_def)
  have "98 \<notin> set (entry_name exec_fs j)" for j
  proof -
    have "98 \<notin> set (filename (dir_entries exec_fs (of_nat j)))"
      by (auto simp: dir_entries_def Let_def bytes_at_def exec_fs_eq exec_mem_def)
    then show ?thesis by (auto simp: entry_name_def cstr_def dest: set_takeWhileD)
  qed
  then have e: "entry_name exec_fs j \<noteq> [98]" for j using list.set_intros(1) by metis
  show ?thesis
    using execute_failures [of "[98, 0]" "0x480000" quiet_env "0x7F0000" 0 "exec_system api_procs"] e
    by (simp add: w exec_system_fields api_procs_calling)
qed

end
