(* ===== verification/Printf.thy ===== *)
theory Printf
  imports Screen
begin

text \<open>
  \<open>printf\<close> of \<^verbatim>\<open>student-distrib/lib.c\<close>. The arguments after the format are the words the
  routine finds above it on the stack: numbers, or pointers to strings. \<open>junk\<close> is what the
  local arrays hold at first. The result \<open>None\<close> is an access outside the format, a missing
  argument or one of the other kind.
\<close>

datatype printf_arg = Num u32 | Str "u8 list"

section \<open>The routine\<close>

text \<open>From \<open>format_char_switch\<close>: the position of the conversion character and \<open>alternate\<close>.\<close>

function skip_alt :: "u8 list \<Rightarrow> int \<Rightarrow> bool \<Rightarrow> (u8 \<times> int \<times> bool) option" where
  "skip_alt format i alternate =
     (case aget format i of None \<Rightarrow> None | Some c \<Rightarrow>
        if c = 35 then skip_alt format (i + 1) True else Some (c, i, alternate))"
  by pat_completeness auto
termination
  by (relation "measure (\<lambda>(format, i, alternate). nat (int (length format) - i))") (auto simp: aget_eq_Some_iff)

declare skip_alt.simps [simp del]

text \<open>\<open>while (i < 8) conv_buf[i++] = '0'\<close>\<close>

definition zero_fill :: "int \<Rightarrow> u8 list \<Rightarrow> u8 list option" where
  "zero_fill i conv_buf = loop_opt i 8 (\<lambda>i b. aset b i 48) conv_buf"

definition puts_out :: "u8 list \<Rightarrow> 'a console_scheme \<Rightarrow> 'a console_scheme option" where
  "puts_out str s = do { (n, s) \<leftarrow> puts str s; Some s }"

definition print_hex :: "u8 list \<Rightarrow> bool \<Rightarrow> u32 \<Rightarrow> 'a console_scheme \<Rightarrow> 'a console_scheme option" where
  "print_hex junk alternate v s =
     (let conv_buf = take 64 junk
      in if \<not> alternate then do { b \<leftarrow> itoa v conv_buf 16; puts_out b s }
         else do {
           b \<leftarrow> itoa v (drop 8 conv_buf) 16;
           starting_index \<leftarrow> strlen b;
           conv_buf \<leftarrow> zero_fill (int starting_index) (take 8 conv_buf @ b);
           puts_out (drop starting_index conv_buf) s })"

definition print_unsigned :: "u8 list \<Rightarrow> u32 \<Rightarrow> 'a console_scheme \<Rightarrow> 'a console_scheme option" where
  "print_unsigned junk v s = do { b \<leftarrow> itoa v (take 36 junk) 10; puts_out b s }"

definition print_signed :: "u8 list \<Rightarrow> u32 \<Rightarrow> 'a console_scheme \<Rightarrow> 'a console_scheme option" where
  "print_signed junk v s =
     (let conv_buf = take 36 junk
      in if v <s 0 then do {
           b \<leftarrow> aset conv_buf 0 45;
           d \<leftarrow> itoa (- v) (drop 1 b) 10;
           puts_out (take 1 b @ d) s }
         else do { b \<leftarrow> itoa v conv_buf 10; puts_out b s })"

text \<open>One conversion: the arguments left and the screen.\<close>

definition convert :: "u8 list \<Rightarrow> u8 \<Rightarrow> bool \<Rightarrow> printf_arg list \<Rightarrow> 'a console_scheme \<Rightarrow>
    (printf_arg list \<times> 'a console_scheme) option" where
  "convert junk c alternate arg s =
     (if c = 37 then Some (arg, putc 37 s)
      else if c = 120 then
        (case arg of Num v # rest \<Rightarrow> do { s \<leftarrow> print_hex junk alternate v s; Some (rest, s) } | _ \<Rightarrow> None)
      else if c = 117 then
        (case arg of Num v # rest \<Rightarrow> do { s \<leftarrow> print_unsigned junk v s; Some (rest, s) } | _ \<Rightarrow> None)
      else if c = 100 then
        (case arg of Num v # rest \<Rightarrow> do { s \<leftarrow> print_signed junk v s; Some (rest, s) } | _ \<Rightarrow> None)
      else if c = 99 then
        (case arg of Num v # rest \<Rightarrow> Some (rest, putc (ucast v) s) | _ \<Rightarrow> None)
      else if c = 115 then
        (case arg of Str t # rest \<Rightarrow> do { s \<leftarrow> puts_out t s; Some (rest, s) } | _ \<Rightarrow> None)
      else Some (arg, s))"

lemma skip_alt_forward: "skip_alt format i alternate = Some (c, j, a) \<Longrightarrow> i \<le> j \<and> j < int (length format)"
proof (induction format i alternate rule: skip_alt.induct)
  case (1 format i alternate)
  from 1(2) show ?case
    by (subst (asm) skip_alt.simps)
      (use 1(1) in \<open>force simp: aget_eq_Some_iff split: option.splits if_splits\<close>)
qed

function printf_loop :: "u8 list \<Rightarrow> u8 list \<Rightarrow> int \<Rightarrow> printf_arg list \<Rightarrow> 'a console_scheme \<Rightarrow>
    (int \<times> 'a console_scheme) option" where
  "printf_loop junk format i arg s =
     (case aget format i of None \<Rightarrow> None | Some c \<Rightarrow>
        if c = 0 then Some (i, s)
        else if c = 37 then
          (case skip_alt format (i + 1) False of None \<Rightarrow> None | Some (c, j, alternate) \<Rightarrow>
            (case convert junk c alternate arg s of None \<Rightarrow> None | Some (arg, s) \<Rightarrow>
               printf_loop junk format (j + 1) arg s))
        else printf_loop junk format (i + 1) arg (putc c s))"
  by pat_completeness auto
termination
  by (relation "measure (\<lambda>(junk, format, i, arg, s). nat (int (length format) - i))")
    (auto simp: aget_eq_Some_iff dest!: skip_alt_forward)

declare printf_loop.simps [simp del]

definition printf :: "u8 list \<Rightarrow> u8 list \<Rightarrow> printf_arg list \<Rightarrow> 'a console_scheme \<Rightarrow> (int \<times> 'a console_scheme) option" where
  "printf junk format arg s = printf_loop junk format 0 arg s"

section \<open>The text it prints\<close>

text \<open>A number in a radix, and what one conversion prints.\<close>

definition num_text :: "nat \<Rightarrow> nat \<Rightarrow> u8 list" where
  "num_text b n = (if n = 0 then [48] else rev (rev_digits b n))"

definition conv_text :: "u8 \<Rightarrow> bool \<Rightarrow> printf_arg list \<Rightarrow> (u8 list \<times> printf_arg list) option" where
  "conv_text c alternate arg =
     (if c = 37 then Some ([37], arg)
      else if c \<in> {120, 117, 100, 99} then
        (case arg of
           Num v # rest \<Rightarrow> Some
             (if c = 120 then
                let ds = num_text 16 (unat v) in (if alternate then replicate (8 - length ds) 48 @ ds else ds)
              else if c = 117 then num_text 10 (unat v)
              else if c = 99 then [ucast v]
              else if v <s 0 then 45 # num_text 10 (unat (- v)) else num_text 10 (unat v), rest)
         | _ \<Rightarrow> None)
      else if c = 115 then
        (case arg of Str t # rest \<Rightarrow> if 0 \<in> set t then Some (cstr t, rest) else None | _ \<Rightarrow> None)
      else Some ([], arg))"

text \<open>The text of a format, with the number of its bytes that are read before the final NUL.\<close>

function printf_text :: "u8 list \<Rightarrow> printf_arg list \<Rightarrow> (nat \<times> u8 list) option" where
  "printf_text [] arg = None"
| "printf_text (c # format) arg =
     (if c = 0 then Some (0, [])
      else if c = 37 then
        (case dropWhile (\<lambda>c. c = 35) format of
           [] \<Rightarrow> None
         | d # rest \<Rightarrow>
             (case conv_text d (takeWhile (\<lambda>c. c = 35) format \<noteq> []) arg of None \<Rightarrow> None | Some (t, arg) \<Rightarrow>
                map_option (\<lambda>(n, u). (2 + length (takeWhile (\<lambda>c. c = 35) format) + n, t @ u)) (printf_text rest arg)))
      else map_option (\<lambda>(n, u). (1 + n, c # u)) (printf_text format arg))"
  by pat_completeness auto
termination
proof (relation "measure (\<lambda>(format, arg). length format)"; clarsimp)
  fix format :: "u8 list" and d rest
  assume "dropWhile (\<lambda>c. c = 35) format = d # rest"
  then show "length rest < Suc (length format)"
    using length_dropWhile_le [of "\<lambda>c. c = 35" format] by simp
qed

declare printf_text.simps [simp del]

section \<open>Printing numbers\<close>

lemma puts_loop_eq:
  "puts_loop str n s = (if 0 \<in> set (drop n str)
     then Some (n + length (cstr (drop n str)), fold putc (cstr (drop n str)) s) else None)"
proof (induction str n s rule: puts_loop.induct)
  case (1 str n s)
  show ?case
  proof (cases "n < length str")
    case True
    then have "drop n str = str ! n # drop (n + 1) str" by (simp add: Cons_nth_drop_Suc)
    with True 1 show ?thesis by (subst puts_loop.simps) (simp add: aget_def cstr_def)
  next
    case False
    then show ?thesis by (subst puts_loop.simps) (simp add: aget_def)
  qed
qed

lemma puts_out_eq: "puts_out str s = (if 0 \<in> set str then Some (fold putc (cstr str) s) else None)"
  by (simp add: puts_out_def puts_def puts_loop_eq)

lemma length_rev_digits_base: "2 \<le> b \<Longrightarrow> n < b ^ k \<Longrightarrow> length (rev_digits b n) \<le> k"
proof (induction k arbitrary: n)
  case 0
  then show ?case by (simp add: rev_digits.simps)
next
  case (Suc k)
  then have "n div b < b ^ k" by (simp add: less_mult_imp_div_less mult.commute)
  from Suc.IH [OF Suc.prems(1) this] show ?case by (simp add: rev_digits.simps [of b n])
qed

lemma num_text_facts:
  assumes "2 \<le> b" "b \<le> 36" "n < 2 ^ 32"
  shows "0 \<notin> set (num_text b n)" "length (num_text b n) \<le> 32" "b = 16 \<Longrightarrow> length (num_text b n) \<le> 8"
proof -
  show "0 \<notin> set (num_text b n)" using nul_notin_rev_digits [OF assms(2)] by (simp add: num_text_def)
  show "length (num_text b n) \<le> 32" using length_rev_digits [OF assms(3), of b] by (simp add: num_text_def)
  show "length (num_text b n) \<le> 8" if "b = 16"
    using length_rev_digits_base [of 16 n 8] assms(3) that by (simp add: num_text_def)
qed

lemma itoa_num_text:
  assumes "2 \<le> b" "b \<le> 36" "33 \<le> length buf"
  shows "itoa v buf (int b) = Some (num_text b (unat v) @ 0 # drop (length (num_text b (unat v)) + 1) buf)"
proof (cases "v = 0")
  case True
  obtain x y zs where "buf = x # y # zs" using assms(3) by (cases buf; cases "tl buf") auto
  with True show ?thesis by (simp add: itoa_def aset_def num_text_def)
next
  case False
  have "unat v < 2 ^ 32" by (rule unat_u32_bound)
  from length_rev_digits [OF this, of b] show ?thesis
    using False itoa_nonzero_eq [of v "int b" buf] assms by (simp add: num_text_def unat_eq_0)
qed

lemma puts_num_text:
  fixes v :: u32
  assumes "2 \<le> b" "b \<le> 36" "0 \<notin> set xs"
  shows "puts_out (xs @ num_text b (unat v) @ 0 # ys) s = Some (fold putc (xs @ num_text b (unat v)) s)"
  using cstr_append_nul [of "xs @ num_text b (unat v)" ys] num_text_facts(1) [OF assms(1,2) unat_u32_bound [of v]] assms(3)
  by (simp add: puts_out_eq)

lemma zero_fill_run:
  assumes "n \<le> 8" "8 \<le> length buf"
  shows "zero_fill (int n) buf = Some (take n buf @ replicate (8 - n) 48 @ drop 8 buf)"
proof -
  let ?P = "\<lambda>i b. b = take n buf @ replicate (nat i - n) 48 @ drop (nat i) buf"
  have "\<exists>t. loop_opt (int n) 8 (\<lambda>i b. aset b i 48) buf = Some t \<and> ?P 8 t"
  proof (rule loop_opt_inv)
    fix i b assume i: "int n \<le> i" "i < 8" and P: "?P i b"
    then have k: "nat (i + 1) - n = Suc (nat i - n)" "nat i < length buf" "nat (i + 1) = Suc (nat i)" "\<not> nat i < n"
      using assms by auto
    have "b ! nat i = buf ! nat i" "length b = length buf" using P i assms by (auto simp: nth_append)
    moreover have "b[nat i := 48] = take n buf @ replicate (nat i - n) 48 @ (drop (nat i) buf)[0 := 48]"
      using P i k assms by (simp add: list_update_append)
    moreover have "(drop (nat i) buf)[0 := 48] = 48 # drop (Suc (nat i)) buf"
      using k(2) by (simp add: Cons_nth_drop_Suc [symmetric])
    ultimately show "\<exists>b'. aset b i 48 = Some b' \<and> ?P (i + 1) b'"
      using i k assms by (simp add: aset_def replicate_append_same [symmetric])
  qed (use assms in auto)
  then show ?thesis by (simp add: zero_fill_def)
qed

lemma print_hex_eq:
  assumes "64 \<le> length junk"
  shows "print_hex junk alternate v s = Some (fold putc
     (if alternate then replicate (8 - length (num_text 16 (unat v))) 48 @ num_text 16 (unat v)
      else num_text 16 (unat v)) s)"
proof -
  let ?ds = "num_text 16 (unat v)"
  note f = num_text_facts [of 16 "unat v", OF _ _ unat_u32_bound, simplified]
  note i = itoa_num_text [of 16, simplified]
  let ?rest = "drop (length ?ds + 1) (drop 8 (take 64 junk))"
  have l: "length ?ds \<le> 8" "length (take 8 (take 64 junk)) = 8" using f(3) assms by simp_all
  have "zero_fill (int (length ?ds)) (take 8 (take 64 junk) @ ?ds @ 0 # ?rest) =
      Some (take (length ?ds) (take 8 (take 64 junk)) @ replicate (8 - length ?ds) 48 @ ?ds @ 0 # ?rest)"
    using zero_fill_run [of "length ?ds" "take 8 (take 64 junk) @ ?ds @ 0 # ?rest"] l by simp
  moreover have "length (take (length ?ds) (take 8 (take 64 junk))) = length ?ds" using l by simp
  moreover have "strlen (?ds @ 0 # ?rest) = Some (length ?ds)"
    using f(1) by (simp add: strlen_eq cstr_append_nul)
  moreover have "itoa v (drop 8 (take 64 junk)) 16 = Some (?ds @ 0 # ?rest)" using i [of "drop 8 (take 64 junk)" v] assms by simp
  moreover have "puts_out (replicate (8 - length ?ds) 48 @ ?ds @ 0 # ?rest) s =
      Some (fold putc (replicate (8 - length ?ds) 48 @ ?ds) s)"
    by (rule puts_num_text) auto
  moreover have "print_hex junk False v s = Some (fold putc ?ds s)"
    using i [of "take 64 junk" v] assms puts_num_text [of 16 "[]" v _ s] by (simp add: print_hex_def)
  ultimately show ?thesis by (cases alternate) (simp_all add: print_hex_def)
qed

lemma print_unsigned_eq:
  "36 \<le> length junk \<Longrightarrow> print_unsigned junk v s = Some (fold putc (num_text 10 (unat v)) s)"
  using itoa_num_text [of 10 "take 36 junk" v] puts_num_text [of 10 "[]" v _ s] by (simp add: print_unsigned_def)

lemma print_signed_eq:
  assumes "36 \<le> length junk"
  shows "print_signed junk v s =
    Some (fold putc (if v <s 0 then 45 # num_text 10 (unat (- v)) else num_text 10 (unat v)) s)"
proof -
  have "aset (take 36 junk) 0 45 = Some ((take 36 junk)[0 := 45])" using assms by (simp add: aset_def)
  moreover have "take 1 ((take 36 junk)[0 := 45]) = [45]" using assms by (cases junk) simp_all
  moreover have "33 \<le> length (drop 1 ((take 36 junk)[0 := 45]))" using assms by simp
  ultimately show ?thesis
    using itoa_num_text [of 10 "take 36 junk" v] puts_num_text [of 10 "[]" v _ s]
      itoa_num_text [of 10 "drop 1 ((take 36 junk)[0 := 45])" "- v"] puts_num_text [of 10 "[45]" "- v" _ s] assms
    by (simp add: print_signed_def)
qed

section \<open>The whole format\<close>

lemma convert_eq:
  assumes "64 \<le> length junk"
  shows "convert junk c alternate arg s = map_option (\<lambda>(t, rest). (rest, fold putc t s)) (conv_text c alternate arg)"
  using assms
  by (auto simp: convert_def conv_text_def print_hex_eq print_unsigned_eq print_signed_eq puts_out_eq Let_def
      split: list.splits printf_arg.splits)

lemma skip_alt_eq:
  "skip_alt format (int i) alternate =
     (case dropWhile (\<lambda>c. c = 35) (drop i format) of [] \<Rightarrow> None
      | d # rest \<Rightarrow> Some (d, int (i + length (takeWhile (\<lambda>c. c = 35) (drop i format))),
          alternate \<or> takeWhile (\<lambda>c. c = 35) (drop i format) \<noteq> []))"
proof (induction "length format - i" arbitrary: i alternate)
  case 0
  then show ?case by (subst skip_alt.simps) (simp add: aget_def)
next
  case (Suc n)
  then have i: "i < length format" by simp
  then have d: "drop i format = format ! i # drop (Suc i) format" by (simp add: Cons_nth_drop_Suc)
  have "skip_alt format (int (Suc i)) True = (case dropWhile (\<lambda>c. c = 35) (drop (Suc i) format) of [] \<Rightarrow> None
      | d # rest \<Rightarrow> Some (d, int (Suc i + length (takeWhile (\<lambda>c. c = 35) (drop (Suc i) format))),
          True \<or> takeWhile (\<lambda>c. c = 35) (drop (Suc i) format) \<noteq> []))"
    using Suc by (intro Suc.hyps) simp
  then show ?case
    by (subst skip_alt.simps, cases "dropWhile (\<lambda>c. c = 35) (drop (Suc i) format)")
      (use i in \<open>simp_all add: d aget_def add.commute del: dropWhile_eq_Nil_conv\<close>)
qed

lemma printf_loop_eq:
  assumes junk: "64 \<le> length junk"
  shows "drop i format = rest \<Longrightarrow> printf_loop junk format (int i) arg s =
    map_option (\<lambda>(n, t). (int (i + n), fold putc t s)) (printf_text rest arg)"
proof (induction rest arg arbitrary: i s rule: printf_text.induct)
  case (1 arg)
  then show ?case by (subst printf_loop.simps) (simp add: aget_def printf_text.simps)
next
  case (2 c rest arg)
  have "i < length format" using "2.prems" by (rule contrapos_pp) simp
  then have i: "i < length format" "aget format (int i) = Some c" "drop (Suc i) format = rest"
    using "2.prems" Cons_nth_drop_Suc [of i format] by (simp_all add: aget_def)
  let ?a = "takeWhile (\<lambda>c. c = 35) rest"
  have sk: "skip_alt format (int i + 1) False =
     (case dropWhile (\<lambda>c. c = 35) rest of [] \<Rightarrow> None
      | d # rest \<Rightarrow> Some (d, int (Suc i + length ?a), ?a \<noteq> []))"
    using skip_alt_eq [of format "Suc i" False, unfolded i(3) simp_thms] by (simp only: of_nat_Suc add.commute)
  consider "c = 0" | "c = 37" | "c \<noteq> 0" "c \<noteq> 37" by blast
  then show ?case
  proof cases
    case 1
    with i show ?thesis by (subst printf_loop.simps) (simp add: printf_text.simps)
  next
    case 2
    show ?thesis
    proof (cases "dropWhile (\<lambda>c. c = 35) rest")
      case Nil
      with 2 i sk show ?thesis
        by (subst printf_loop.simps) (simp add: printf_text.simps del: dropWhile_eq_Nil_conv)
    next
      case (Cons d more)
      have "rest = ?a @ d # more" using Cons takeWhile_dropWhile_id [of "\<lambda>c. c = 35" rest] by simp
      then have "drop (Suc (length ?a)) rest = more" by (metis drop_Suc_Cons append_eq_conv_conj drop0 drop_drop drop_Suc tl_drop list.sel(3) drop_tl)
      then have dr: "drop (i + 2 + length ?a) format = more"
        using i(3) by (metis add.commute add_Suc_right drop_drop add_2_eq_Suc')
      show ?thesis
      proof (cases "conv_text d (?a \<noteq> []) arg")
        case None
        with 2 i sk Cons show ?thesis
          by (subst printf_loop.simps) (simp add: printf_text.simps convert_eq [OF junk])
      next
        case (Some r)
        obtain t arg' where r: "r = (t, arg')" by fastforce
        note ih = "2.IH"(1) [OF _ _ Cons Some [unfolded r] refl dr]
        show ?thesis
          using 2 i sk Cons Some r ih
          by (subst printf_loop.simps)
            (simp add: printf_text.simps convert_eq [OF junk] option.map_comp comp_def case_prod_unfold add.commute add.left_commute)
      qed
    qed
  next
    case 3
    then show ?thesis
      using i "2.IH"(2) [OF _ _ i(3)]
      by (subst printf_loop.simps)
        (simp add: printf_text.simps option.map_comp comp_def case_prod_unfold add.commute add.left_commute)
  qed
qed

text \<open>
  C34: \<open>printf\<close> writes exactly the text its format and its arguments stand for, character by
  character, and returns the number of format bytes read: decimal numbers with their sign,
  hexadecimal numbers, with \<open>#\<close> filled with zeros to eight digits, characters, strings and
  literal text. It runs off the format exactly when the specification has no text, as for a
  format that ends in \<open>%\<close>, whose NUL is taken for a conversion character.
\<close>

theorem printf_refines:
  assumes "64 \<le> length junk"
  shows "printf junk format arg s = map_option (\<lambda>(n, t). (int n, fold putc t s)) (printf_text format arg)"
  using printf_loop_eq [OF assms, of 0 format format arg s] by (simp add: printf_def)

text \<open>The format \<open>%d %#x\<close>, and a format that ends in \<open>%\<close>.\<close>

lemma replicate_4: "replicate 4 x = [x, x, x, x]"
  by (simp add: eval_nat_numeral)

theorem printf_refines_witness:
  "printf (replicate 64 0) [37, 100, 32, 37, 35, 120, 0] [Num (-5), Num 0xBEEF] blank_console =
     Some (6, fold putc [45, 53, 32, 48, 48, 48, 48, 66, 69, 69, 70] blank_console) \<and>
   printf (replicate 64 0) [65, 37, 0] [] blank_console = None"
proof -
  have digits: "num_text 10 5 = [53]" "num_text 16 48879 = [66, 69, 69, 70]"
    by (simp_all add: num_text_def rev_digits.simps digit_char_def itoa_lookup_def)
  have "printf_text [37, 100, 32, 37, 35, 120, 0] [Num (-5), Num 0xBEEF] =
      Some (6, [45, 53, 32, 48, 48, 48, 48, 66, 69, 69, 70])"
    using digits by (simp add: printf_text.simps conv_text_def word_sless_alt replicate_4)
  moreover have "printf_text [65, 37, 0] [] = None"
    by (simp add: printf_text.simps conv_text_def)
  ultimately show ?thesis
    using printf_refines [of "replicate 64 0" "[37, 100, 32, 37, 35, 120, 0]" "[Num (-5), Num 0xBEEF]" blank_console]
      printf_refines [of "replicate 64 0" "[65, 37, 0]" "[]" blank_console] by simp
qed

text \<open>Text without \<open>%\<close> is printed as it is.\<close>

lemma printf_text_literal: "0 \<in> set format \<Longrightarrow> 37 \<notin> set (cstr format) \<Longrightarrow>
  printf_text format arg = Some (length (cstr format), cstr format)"
  by (induction format) (auto simp: printf_text.simps cstr_def split: if_splits)

lemma printf_literal:
  assumes "64 \<le> length junk" "0 \<in> set format" "37 \<notin> set (cstr format)"
  shows "printf junk format arg s = Some (int (length (cstr format)), fold putc (cstr format) s)"
  using printf_loop_eq [OF assms(1), of 0 format format arg s] printf_text_literal [OF assms(2,3), of arg]
  by (simp add: printf_def)

end
