(* ===== verification/Dispatch.thy ===== *)
theory Dispatch
  imports Programs Printf
begin

text \<open>
  The entry of the system calls, \<open>system_call\<close> of \<^verbatim>\<open>student-distrib/syscalls_wrapper.S\<close>, with
  \<open>do_call\<close> of \<^verbatim>\<open>syscalls.c\<close>, and the exception handlers of \<^verbatim>\<open>exception-handlers.c\<close>.

  The four registers are 32-bit words; a pointer to a string is followed byte by byte through
  the walk of the processor. Entering the gate clears the interrupt flag and \<open>iret\<close> restores the
  flag of the caller.
\<close>

section \<open>system_call\<close>

text \<open>The string at a virtual address, with its NUL; \<open>None\<close> is a fault or a string without end.\<close>

partial_function (option) string_at :: "u32 \<Rightarrow> 'a sched_scheme \<Rightarrow> u32 \<Rightarrow> u8 list option" where
  "string_at pt s v =
     Option.bind (walk pt s False v) (\<lambda>a.
       if vid s a = 0 then Some [0]
       else Option.bind (string_at pt s (v + 1)) (\<lambda>rest. Some (vid s a # rest)))"

definition string_arg :: "u32 \<Rightarrow> 'a sched_scheme \<Rightarrow> u32 \<Rightarrow> u8 list option option" where
  "string_arg pt s v = (if v = 0 then Some None else map_option Some (string_at pt s v))"

text \<open>
  What becomes of a call: it returns a value, enters a program, or ends the calling program,
  returning on the stack of the \<open>execute\<close> that started it.
\<close>

datatype 's reply = Reply int 's | Enter u32 's | Ended u32 "'s outcome"

definition value_reply :: "(int \<times> 's) option \<Rightarrow> 's reply option" where
  "value_reply r = map_option (\<lambda>(n, s). Reply n s) r"

definition execute_reply :: "'s exec_result option \<Rightarrow> 's reply option" where
  "execute_reply r = map_option (case_exec_result Reply Enter) r"

text \<open>The ten entries of \<open>syscalltable\<close>, with the arguments of the C routines from the registers.\<close>

definition syscalltable :: "u32 \<Rightarrow> env \<Rightarrow> u32 \<Rightarrow> u32 \<Rightarrow> u32 \<Rightarrow> u32 \<Rightarrow> u32 \<Rightarrow> u32 \<Rightarrow> 'a system_scheme \<Rightarrow>
    'a system_scheme reply option" where
  "syscalltable pt e frame temp i ebx ecx edx s =
     (if i = 0 then map_option (\<lambda>(sp, r). Ended sp r) (halt_call (ucast ebx) s)
      else if i = 1 then do { c \<leftarrow> string_arg pt s ebx; execute_reply (execute pt e frame temp c s) }
      else if i = 2 then value_reply (read_call pt e (sint ebx) ecx (sint edx) s)
      else if i = 3 then value_reply (write_call pt e (sint ebx) ecx (sint edx) s)
      else if i = 4 then do { f \<leftarrow> string_arg pt s ebx; value_reply (open_call e f s) }
      else if i = 5 then value_reply (close_call (sint ebx) s)
      else if i = 6 then value_reply (getargs pt ebx (sint ecx) s)
      else if i = 7 then value_reply (vidmap pt ebx s)
      else if i = 8 then value_reply (Some (set_handler (sint ebx) ecx s))
      else if i = 9 then value_reply (Some (sigreturn s))
      else None)"

definition iret_flag :: "bool \<Rightarrow> 'a machine_scheme reply \<Rightarrow> 'a machine_scheme reply" where
  "iret_flag f r = (case r of Reply n s \<Rightarrow> Reply n (s\<lparr>iflag := f\<rparr>) | _ \<Rightarrow> r)"

definition system_call :: "u32 \<Rightarrow> env \<Rightarrow> u32 \<Rightarrow> u32 \<Rightarrow> u32 \<Rightarrow> u32 \<Rightarrow> u32 \<Rightarrow> u32 \<Rightarrow> 'a system_scheme \<Rightarrow>
    'a system_scheme reply option" where
  "system_call pt e frame temp eax ebx ecx edx s =
     map_option (iret_flag (iflag s))
       (let s = cli s
        in if eax <s 1 \<or> eax > 10 then Some (Reply (-1) s)
           else syscalltable pt e frame temp (eax - 1) ebx ecx edx s)"

definition SYS_HALT :: u32 where "SYS_HALT = 1"

definition do_call :: "u32 \<Rightarrow> env \<Rightarrow> u32 \<Rightarrow> u32 \<Rightarrow> u32 \<Rightarrow> u32 \<Rightarrow> u32 \<Rightarrow> u32 \<Rightarrow> 'a system_scheme \<Rightarrow>
    'a system_scheme reply option" where
  "do_call pt e frame temp call arg0 arg1 arg2 s = system_call pt e frame temp call arg0 arg1 arg2 s"

end
