(* ===== verification/User_Support.thy ===== *)
theory User_Support
  imports Lib_Strings
begin

text \<open>
  The library the user programs are linked with: the string routines and \<open>ece391_fdputs\<close> of
  \<^verbatim>\<open>syscalls/ece391support.c\<close>, and the system calls of \<^verbatim>\<open>syscalls/ece391syscall.h\<close>.

  The system calls are the fields of a record \<open>os\<close>: a program is a function of the system it
  runs on, whose state is \<open>'s\<close>. A pointer argument is the contents of the array from the pointer
  on; a call that stores through it returns the new contents. \<open>None\<close> is a program that does not
  return, or an access outside an array.
\<close>

section \<open>System calls\<close>

record 's os =
  ece391_execute :: "u8 list \<Rightarrow> 's \<Rightarrow> (int \<times> 's) option"
  ece391_read :: "int \<Rightarrow> u8 list \<Rightarrow> int \<Rightarrow> 's \<Rightarrow> (int \<times> u8 list \<times> 's) option"
  ece391_write :: "int \<Rightarrow> u8 list \<Rightarrow> int \<Rightarrow> 's \<Rightarrow> (int \<times> 's) option"
  ece391_open :: "u8 list \<Rightarrow> 's \<Rightarrow> (int \<times> 's) option"
  ece391_close :: "int \<Rightarrow> 's \<Rightarrow> (int \<times> 's) option"
  ece391_getargs :: "u8 list \<Rightarrow> int \<Rightarrow> 's \<Rightarrow> (int \<times> u8 list \<times> 's) option"
  ece391_vidmap :: "u32 \<Rightarrow> 's \<Rightarrow> (int \<times> 's) option"
  ece391_set_handler :: "int \<Rightarrow> u32 \<Rightarrow> 's \<Rightarrow> (int \<times> 's) option"
  call_sys :: "int \<Rightarrow> 's \<Rightarrow> (int \<times> 's) option"

section \<open>Strings\<close>

function ece391_strlen_loop :: "u8 list \<Rightarrow> nat \<Rightarrow> nat option" where
  "ece391_strlen_loop s len =
     (case aget s (int len) of None \<Rightarrow> None | Some c \<Rightarrow>
        if 0 \<noteq> c then ece391_strlen_loop s (len + 1) else Some len)"
  by pat_completeness auto
termination
  by (relation "measure (\<lambda>(s, len). length s - len)") (auto simp: aget_eq_Some_iff)

definition ece391_strlen :: "u8 list \<Rightarrow> nat option" where
  "ece391_strlen s = ece391_strlen_loop s 0"

text \<open>\<open>ece391_strcpy\<close> between two arrays, and within one array, from index \<open>src\<close> to index \<open>dst\<close>.\<close>

function ece391_strcpy :: "u8 list \<Rightarrow> nat \<Rightarrow> u8 list \<Rightarrow> nat \<Rightarrow> u8 list option" where
  "ece391_strcpy to dst from src =
     (case aget from (int src) of None \<Rightarrow> None | Some c \<Rightarrow>
      (case aset to (int dst) c of None \<Rightarrow> None | Some to' \<Rightarrow>
         if 0 \<noteq> c then ece391_strcpy to' (dst + 1) from (src + 1) else Some to'))"
  by pat_completeness auto
termination
  by (relation "measure (\<lambda>(to, dst, from, src). length from - src)") (auto simp: aget_eq_Some_iff)

function ece391_strcpy_within :: "u8 list \<Rightarrow> nat \<Rightarrow> nat \<Rightarrow> u8 list option" where
  "ece391_strcpy_within data dst src =
     (case aget data (int src) of None \<Rightarrow> None | Some c \<Rightarrow>
      (case aset data (int dst) c of None \<Rightarrow> None | Some data' \<Rightarrow>
         if 0 \<noteq> c then ece391_strcpy_within data' (dst + 1) (src + 1) else Some data'))"
  by pat_completeness auto
termination
  by (relation "measure (\<lambda>(data, dst, src). length data - src)") (auto simp: aget_eq_Some_iff aset_eq_Some_iff)

text \<open>The characters are unsigned here, so the difference is that of their codes.\<close>

function ece391_strcmp_loop :: "u8 list \<Rightarrow> u8 list \<Rightarrow> nat \<Rightarrow> int option" where
  "ece391_strcmp_loop s1 s2 i =
     (case aget s1 (int i) of None \<Rightarrow> None | Some a \<Rightarrow>
      (case aget s2 (int i) of None \<Rightarrow> None | Some b \<Rightarrow>
         if a = b then if a = 0 then Some 0 else ece391_strcmp_loop s1 s2 (i + 1)
         else Some (uint a - uint b)))"
  by pat_completeness auto
termination
  by (relation "measure (\<lambda>(s1, s2, i). length s1 - i)") (auto simp: aget_eq_Some_iff)

definition ece391_strcmp :: "u8 list \<Rightarrow> u8 list \<Rightarrow> int option" where
  "ece391_strcmp s1 s2 = ece391_strcmp_loop s1 s2 0"

text \<open>\<open>n\<close> counts down to 0; the guard \<open>0 == n\<close> at the start keeps it from wrapping.\<close>

function ece391_strncmp_loop :: "u8 list \<Rightarrow> u8 list \<Rightarrow> nat \<Rightarrow> nat \<Rightarrow> int option" where
  "ece391_strncmp_loop s1 s2 n i =
     (case aget s1 (int i) of None \<Rightarrow> None | Some a \<Rightarrow>
      (case aget s2 (int i) of None \<Rightarrow> None | Some b \<Rightarrow>
         if a = b then if a = 0 \<or> n - 1 = 0 then Some 0 else ece391_strncmp_loop s1 s2 (n - 1) (i + 1)
         else Some (uint a - uint b)))"
  by pat_completeness auto
termination
  by (relation "measure (\<lambda>(s1, s2, n, i). length s1 - i)") (auto simp: aget_eq_Some_iff)

definition ece391_strncmp :: "u8 list \<Rightarrow> u8 list \<Rightarrow> nat \<Rightarrow> int option" where
  "ece391_strncmp s1 s2 n = (if 0 = n then Some 0 else ece391_strncmp_loop s1 s2 n 0)"

function ece391_strrev_loop :: "u8 list \<Rightarrow> int \<Rightarrow> int \<Rightarrow> u8 list option" where
  "ece391_strrev_loop s beg fin =
     (if beg < fin then
        (case aget s fin of None \<Rightarrow> None | Some tmp \<Rightarrow>
         (case aget s beg of None \<Rightarrow> None | Some b \<Rightarrow>
          (case aset s fin b of None \<Rightarrow> None | Some s1 \<Rightarrow>
           (case aset s1 beg tmp of None \<Rightarrow> None | Some s2 \<Rightarrow>
              ece391_strrev_loop s2 (beg + 1) (fin - 1)))))
      else Some s)"
  by pat_completeness auto
termination
  by (relation "measure (\<lambda>(s, beg, fin). nat (fin - beg))") auto

definition ece391_strrev :: "u8 list \<Rightarrow> u8 list option" where
  "ece391_strrev s =
     (case ece391_strlen s of None \<Rightarrow> None | Some n \<Rightarrow>
        if int n - 1 \<le> 0 then Some s else ece391_strrev_loop s 0 (int n - 1))"

partial_function (option) ece391_itoa_loop :: "u32 \<Rightarrow> u8 list \<Rightarrow> nat \<Rightarrow> u32 \<Rightarrow> u8 list option" where
  "ece391_itoa_loop newval buf k radix =
     (if newval > 0 then
        (if radix = 0 then None else
         (case aget itoa_lookup (sint (newval mod radix)) of None \<Rightarrow> None | Some c \<Rightarrow>
          (case aset buf (int k) c of None \<Rightarrow> None | Some b \<Rightarrow>
             ece391_itoa_loop (newval div radix) b (k + 1) radix)))
      else aset buf (int k) 0)"

definition ece391_itoa :: "u32 \<Rightarrow> u8 list \<Rightarrow> int \<Rightarrow> u8 list option" where
  "ece391_itoa val buf radix =
     (if val = 0 then
        (case aset buf 0 48 of None \<Rightarrow> None | Some b \<Rightarrow> aset b 1 0)
      else
        (case ece391_itoa_loop val buf 0 (word_of_int radix) of
           None \<Rightarrow> None
         | Some b \<Rightarrow> ece391_strrev b))"

declare ece391_strlen_loop.simps [simp del] ece391_strcpy.simps [simp del] ece391_strcpy_within.simps [simp del]
  ece391_strcmp_loop.simps [simp del] ece391_strncmp_loop.simps [simp del] ece391_strrev_loop.simps [simp del]

section \<open>Output\<close>

definition ece391_fdputs :: "('s, 'a) os_scheme \<Rightarrow> int \<Rightarrow> u8 list \<Rightarrow> 's \<Rightarrow> 's option" where
  "ece391_fdputs os fd str s = do {
     n \<leftarrow> ece391_strlen str;
     (r, s) \<leftarrow> ece391_write os fd str (int n) s;
     Some s }"

section \<open>What the routines compute\<close>

lemma ece391_strlen_loop_eq: "ece391_strlen_loop s len = strlen_loop s len"
  by (induction s len rule: ece391_strlen_loop.induct)
    (simp add: ece391_strlen_loop.simps strlen_loop.simps split: option.split)

lemma ece391_strlen_eq: "ece391_strlen s = (if 0 \<in> set s then Some (length (cstr s)) else None)"
  using strlen_eq [of s] by (simp add: ece391_strlen_def ece391_strlen_loop_eq strlen_def)

lemma ece391_strrev_loop_eq: "ece391_strrev_loop s beg fin = strrev_loop s beg fin"
  by (induction s beg fin rule: ece391_strrev_loop.induct)
    (simp add: ece391_strrev_loop.simps strrev_loop.simps split: option.split)

lemma ece391_strrev_eq: "ece391_strrev s = strrev s"
proof -
  have "strrev_loop s 0 (int n - 1) = Some s" if "int n - 1 \<le> 0" for n
    using that by (simp add: strrev_loop.simps)
  then show ?thesis
    by (simp add: ece391_strrev_def strrev_def ece391_strrev_loop_eq ece391_strlen_eq strlen_eq)
qed

lemma ece391_itoa_loop_mono:
  assumes "ece391_itoa_loop v buf k r = Some b"
  shows "itoa_loop v buf k r = Some b"
proof (rule ece391_itoa_loop.raw_induct [OF _ assms, where P = "\<lambda>v buf k r b. itoa_loop v buf k r = Some b"], goal_cases)
  case (1 f v buf k r b)
  then show ?case by (subst itoa_loop.simps) (auto split: if_splits option.splits)
qed

lemma itoa_loop_mono:
  assumes "itoa_loop v buf k r = Some b"
  shows "ece391_itoa_loop v buf k r = Some b"
proof (rule itoa_loop.raw_induct [OF _ assms, where P = "\<lambda>v buf k r b. ece391_itoa_loop v buf k r = Some b"], goal_cases)
  case (1 f v buf k r b)
  then show ?case by (subst ece391_itoa_loop.simps) (auto split: if_splits option.splits)
qed

lemma ece391_itoa_loop_eq: "ece391_itoa_loop v buf k r = itoa_loop v buf k r"
  using ece391_itoa_loop_mono [of v buf k r] itoa_loop_mono [of v buf k r] by (metis option.exhaust)

lemma ece391_itoa_eq: "ece391_itoa v buf radix = itoa v buf radix"
  by (simp add: ece391_itoa_def itoa_def ece391_itoa_loop_eq ece391_strrev_eq split: option.split)

lemma cstr_drop: "i < length s \<Longrightarrow> cstr (drop i s) = (if s ! i = 0 then [] else s ! i # cstr (drop (Suc i) s))"
  by (simp add: cstr_def Cons_nth_drop_Suc [symmetric])

lemma nul_later: "0 \<in> set (drop i s) \<Longrightarrow> s ! i \<noteq> 0 \<Longrightarrow> 0 \<in> set (drop (Suc i) s)"
  by (cases "i < length s") (auto simp: Cons_nth_drop_Suc [symmetric])

lemma nul_ahead: "0 \<in> set (drop i s) \<Longrightarrow> i < length s"
  by (rule ccontr) simp

lemma ece391_strcmp_loop_zero:
  assumes "0 \<in> set (drop i s1)" "0 \<in> set (drop i s2)"
  shows "\<exists>r. ece391_strcmp_loop s1 s2 i = Some r \<and> (r = 0 \<longleftrightarrow> cstr (drop i s1) = cstr (drop i s2))"
  using assms
proof (induction s1 s2 i rule: ece391_strcmp_loop.induct)
  case (1 s1 s2 i)
  note len = nul_ahead [OF 1(2)] nul_ahead [OF 1(3)]
  have "uint (s1 ! i) - uint (s2 ! i) \<noteq> 0" if "s1 ! i \<noteq> s2 ! i" using that by (simp add: word_uint_eq_iff)
  with 1 len show ?case
    by (subst ece391_strcmp_loop.simps) (auto simp: aget_def cstr_drop nul_later)
qed

text \<open>\<open>ece391_strcmp\<close> of two strings returns, and returns 0 exactly on equal strings.\<close>

lemma ece391_strcmp_zero:
  assumes "0 \<in> set s1" "0 \<in> set s2"
  obtains r where "ece391_strcmp s1 s2 = Some r" "r = 0 \<longleftrightarrow> cstr s1 = cstr s2"
  using ece391_strcmp_loop_zero [of 0 s1 s2] assms by (auto simp: ece391_strcmp_def)

lemma ece391_strncmp_loop_zero:
  assumes "0 \<in> set (drop i s1)" "0 \<in> set (drop i s2)" "n \<noteq> 0"
  shows "\<exists>r. ece391_strncmp_loop s1 s2 n i = Some r \<and>
    (r = 0 \<longleftrightarrow> take n (cstr (drop i s1)) = take n (cstr (drop i s2)))"
  using assms
proof (induction s1 s2 n i rule: ece391_strncmp_loop.induct)
  case (1 s1 s2 n i)
  note len = nul_ahead [OF 1(2)] nul_ahead [OF 1(3)]
  have "uint (s1 ! i) - uint (s2 ! i) \<noteq> 0" if "s1 ! i \<noteq> s2 ! i" using that by (simp add: word_uint_eq_iff)
  moreover obtain m where "n = Suc m" using 1(4) by (cases n) auto
  ultimately show ?case
    using 1 len by (subst ece391_strncmp_loop.simps) (auto simp: aget_def cstr_drop nul_later)
qed

lemma ece391_strncmp_zero:
  assumes "0 \<in> set s1" "0 \<in> set s2"
  obtains r where "ece391_strncmp s1 s2 n = Some r" "r = 0 \<longleftrightarrow> take n (cstr s1) = take n (cstr s2)"
  using ece391_strncmp_loop_zero [of 0 s1 s2 n] assms by (cases "n = 0") (auto simp: ece391_strncmp_def)

text \<open>The copy within one array, towards its start.\<close>

lemma ece391_strcpy_within_eq:
  assumes "dst \<le> src" "0 \<in> set (drop src data)"
  shows "ece391_strcpy_within data dst src = Some (take dst data @ cstr (drop src data) @
    0 # drop (dst + length (cstr (drop src data)) + 1) data)"
  using assms
proof (induction data dst src rule: ece391_strcpy_within.induct)
  case (1 data dst src)
  note len = nul_ahead [OF 1(3)]
  let ?d = "data[dst := data ! src]"
  have step: "ece391_strcpy_within data dst src =
      (if data ! src = 0 then Some ?d else ece391_strcpy_within ?d (Suc dst) (Suc src))"
    using len 1(2) by (subst ece391_strcpy_within.simps) (simp add: aget_def aset_def)
  have tk: "take (Suc dst) ?d = take dst data @ [data ! src]" using len 1(2) by (simp add: take_Suc_update)
  have dr: "drop k ?d = drop k data" if "Suc dst \<le> k" for k using that by simp
  show ?case
  proof (cases "data ! src = 0")
    case True
    have "?d = take (Suc dst) ?d @ drop (Suc dst) ?d" by (rule append_take_drop_id [symmetric])
    then have "?d = take dst data @ [data ! src] @ drop (Suc dst) data" unfolding tk by simp
    with step True len show ?thesis by (simp add: cstr_drop)
  next
    case False
    have "0 \<in> set (drop (Suc src) data)" by (rule nul_later [OF 1(3) False])
    then have "ece391_strcpy_within ?d (Suc dst) (Suc src) = Some (take (Suc dst) ?d @ cstr (drop (Suc src) ?d) @
        0 # drop (Suc dst + length (cstr (drop (Suc src) ?d)) + 1) ?d)"
      using 1(1) [of "data ! src" ?d] 1(2) len False by (simp add: aget_def aset_def)
    with step False len 1(2) show ?thesis by (simp add: tk cstr_drop dr)
  qed
qed

end
