(* ===== verification/User_Programs.thy ===== *)
theory User_Programs
  imports User_Support
begin

text \<open>
  The user programs \<open>cat\<close>, \<open>ls\<close>, \<open>hello\<close>, \<open>testprint\<close>, \<open>counter\<close> and \<open>shell\<close> of
  \<^verbatim>\<open>src/syscalls\<close>, over the system calls \<open>os\<close>. The initial contents of their local arrays,
  which C leaves open, are arguments. The value of \<open>main\<close> is the status the program ends with.
\<close>

section \<open>cat\<close>

partial_function (option) cat_loop :: "('s, 'a) os_scheme \<Rightarrow> int \<Rightarrow> u8 list \<Rightarrow> 's \<Rightarrow> (int \<times> 's) option" where
  "cat_loop os fd buf s = do {
     (cnt, buf, s) \<leftarrow> ece391_read os fd buf 1024 s;
     if 0 = cnt then Some (0, s)
     else if -1 = cnt then do {
       s \<leftarrow> ece391_fdputs os 1 (c_string (''file read failed'' @ newline)) s;
       Some (3, s) }
     else do {
       (r, s) \<leftarrow> ece391_write os 1 buf cnt s;
       if -1 = r then Some (3, s) else cat_loop os fd buf s } }"

definition cat_main :: "('s, 'a) os_scheme \<Rightarrow> u8 list \<Rightarrow> 's \<Rightarrow> (int \<times> 's) option" where
  "cat_main os buf s = do {
     (r, buf, s) \<leftarrow> ece391_getargs os buf 1024 s;
     if 0 \<noteq> r then do {
       s \<leftarrow> ece391_fdputs os 1 (c_string (''could not read arguments'' @ newline)) s;
       Some (3, s) }
     else do {
       (fd, s) \<leftarrow> ece391_open os buf s;
       if -1 = fd then do {
         s \<leftarrow> ece391_fdputs os 1 (c_string (''file not found'' @ newline)) s;
         Some (2, s) }
       else cat_loop os fd buf s } }"

section \<open>ls\<close>

partial_function (option) ls_loop :: "('s, 'a) os_scheme \<Rightarrow> int \<Rightarrow> u8 list \<Rightarrow> 's \<Rightarrow> (int \<times> 's) option" where
  "ls_loop os fd buf s = do {
     (cnt, buf, s) \<leftarrow> ece391_read os fd buf 32 s;
     if 0 = cnt then Some (0, s)
     else if -1 = cnt then do {
       s \<leftarrow> ece391_fdputs os 1 (c_string (''directory entry read failed'' @ newline)) s;
       Some (3, s) }
     else do {
       buf \<leftarrow> aset buf cnt 10;
       (r, s) \<leftarrow> ece391_write os 1 buf (cnt + 1) s;
       if -1 = r then Some (3, s) else ls_loop os fd buf s } }"

definition ls_main :: "('s, 'a) os_scheme \<Rightarrow> u8 list \<Rightarrow> 's \<Rightarrow> (int \<times> 's) option" where
  "ls_main os buf s = do {
     (fd, s) \<leftarrow> ece391_open os (c_string ''.'') s;
     if -1 = fd then do {
       s \<leftarrow> ece391_fdputs os 1 (c_string (''directory open failed'' @ newline)) s;
       Some (2, s) }
     else ls_loop os fd buf s }"

section \<open>hello and testprint\<close>

definition hello_main :: "('s, 'a) os_scheme \<Rightarrow> u8 list \<Rightarrow> 's \<Rightarrow> (int \<times> 's) option" where
  "hello_main os buf s = do {
     s \<leftarrow> ece391_fdputs os 1 (c_string ''Hi, what's your name? '') s;
     (cnt, buf, s) \<leftarrow> ece391_read os 0 buf 1023 s;
     if -1 = cnt then do {
       s \<leftarrow> ece391_fdputs os 1 (c_string (''Can't read name from keyboard.'' @ newline)) s;
       Some (3, s) }
     else do {
       buf \<leftarrow> aset buf cnt 0;
       s \<leftarrow> ece391_fdputs os 1 (c_string ''Hello, '') s;
       s \<leftarrow> ece391_fdputs os 1 buf s;
       Some (0, s) } }"

definition testprint_main :: "('s, 'a) os_scheme \<Rightarrow> 's \<Rightarrow> (int \<times> 's) option" where
  "testprint_main os s = do {
     s \<leftarrow> ece391_fdputs os 1 (c_string (''Hello, if this ran, the program was correct. Yay!'' @ newline)) s;
     Some (0, s) }"

section \<open>shell\<close>

definition shell_report :: "('s, 'a) os_scheme \<Rightarrow> int \<Rightarrow> 's \<Rightarrow> 's option" where
  "shell_report os rval s =
     (if -1 = rval then ece391_fdputs os 1 (c_string (''no such command'' @ newline)) s
      else if 256 = rval then ece391_fdputs os 1 (c_string (''program terminated by exception'' @ newline)) s
      else if 0 \<noteq> rval then ece391_fdputs os 1 (c_string (''program terminated abnormally'' @ newline)) s
      else Some s)"

text \<open>The line without its newline, terminated by a NUL.\<close>

definition chomp :: "int \<Rightarrow> u8 list \<Rightarrow> u8 list option" where
  "chomp cnt buf =
     (if cnt > 0 then do {
        c \<leftarrow> aget buf (cnt - 1);
        if 10 = c then aset buf (cnt - 1) 0 else aset buf cnt 0 }
      else aset buf cnt 0)"

partial_function (option) shell_loop :: "('s, 'a) os_scheme \<Rightarrow> u8 list \<Rightarrow> 's \<Rightarrow> (int \<times> 's) option" where
  "shell_loop os buf s = do {
     s \<leftarrow> ece391_fdputs os 1 (c_string ''391OS> '') s;
     (cnt, buf, s) \<leftarrow> ece391_read os 0 buf 1023 s;
     if -1 = cnt then do {
       s \<leftarrow> ece391_fdputs os 1 (c_string (''read from keyboard failed'' @ newline)) s;
       Some (3, s) }
     else do {
       buf \<leftarrow> chomp cnt buf;
       r \<leftarrow> ece391_strcmp buf (c_string ''exit'');
       if 0 = r then Some (0, s)
       else do {
         c \<leftarrow> aget buf 0;
         if 0 = c then shell_loop os buf s
         else do {
           (rval, s) \<leftarrow> ece391_execute os buf s;
           s \<leftarrow> shell_report os rval s;
           shell_loop os buf s } } } }"

definition shell_main :: "('s, 'a) os_scheme \<Rightarrow> u8 list \<Rightarrow> 's \<Rightarrow> (int \<times> 's) option" where
  "shell_main os buf s = do {
     s \<leftarrow> ece391_fdputs os 1 (c_string (''Starting 391 Shell'' @ newline)) s;
     shell_loop os buf s }"

section \<open>counter\<close>

text \<open>\<open>switch (buf[0])\<close> has no default: another first character leaves \<open>max\<close> at 0.\<close>

definition counter_max :: "u8 \<Rightarrow> int" where
  "counter_max c = (if c = 48 then 100 else if c = 49 then 10000 else if c = 50 then 100000 else 0)"

definition counter_step :: "('s, 'a) os_scheme \<Rightarrow> int \<Rightarrow> u8 list \<times> 's \<Rightarrow> (u8 list \<times> 's) option" where
  "counter_step os i bs = do {
     buf \<leftarrow> ece391_itoa (of_int (i + 1)) (fst bs) 10;
     s \<leftarrow> ece391_fdputs os 1 buf (snd bs);
     s \<leftarrow> ece391_fdputs os 1 (c_string newline) s;
     Some (buf, s) }"

definition counter_main :: "('s, 'a) os_scheme \<Rightarrow> u8 list \<Rightarrow> 's \<Rightarrow> (int \<times> 's) option" where
  "counter_main os buf s = do {
     s \<leftarrow> ece391_fdputs os 1 (c_string (''Enter the Test Number: (0): 100, (1): 10000, (2): 100000'' @ newline)) s;
     (cnt, buf, s) \<leftarrow> ece391_read os 0 buf 1023 s;
     if -1 = cnt then do {
       s \<leftarrow> ece391_fdputs os 1 (c_string (''Can't read the number from keyboard.'' @ newline)) s;
       Some (3, s) }
     else do {
       buf \<leftarrow> aset buf cnt 0;
       n \<leftarrow> ece391_strlen buf;
       c \<leftarrow> aget buf 0;
       if n > 2 \<or> n = 2 \<and> (c < 48 \<or> c > 50) then do {
         s \<leftarrow> ece391_fdputs os 1 (c_string (''Wrong Choice!'' @ newline)) s;
         Some (0, s) }
       else do {
         (buf, s) \<leftarrow> loop_opt 0 (counter_max c) (counter_step os) (buf, s);
         Some (0, s) } } }"

section \<open>What the programs rely on\<close>

text \<open>
  A system with a screen: text written to descriptor 1 is shown, character by character, in any
  state that is \<open>ready\<close>. Carriage returns are left out: the kernel does not show them as a line
  end. \<open>rest\<close> is what a write leaves as it was.
\<close>

locale text_output =
  fixes os :: "('s, 'a) os_scheme"
    and ready :: "'s \<Rightarrow> bool"
    and rest :: "'s \<Rightarrow> 'r"
    and screen :: "'s \<Rightarrow> 't"
    and show_char :: "u8 \<Rightarrow> 't \<Rightarrow> 't"
  assumes write_shown: "ready s \<Longrightarrow> 1 \<le> n \<Longrightarrow> n \<le> length buf \<Longrightarrow> length buf \<le> 4096 \<Longrightarrow> 13 \<notin> set (take n buf) \<Longrightarrow>
    \<exists>s'. ece391_write os 1 buf (int n) s = Some (int n, s') \<and> ready s' \<and> rest s' = rest s \<and>
      screen s' = fold show_char (take n buf) (screen s)"
begin

lemma fdputs_shown:
  assumes "ready s" "0 \<in> set str" "length str \<le> 4096" "cstr str \<noteq> []" "13 \<notin> set (cstr str)"
  shows "\<exists>s'. ece391_fdputs os 1 str s = Some s' \<and> ready s' \<and> rest s' = rest s \<and>
    screen s' = fold show_char (cstr str) (screen s)"
proof -
  have "1 \<le> length (cstr str)" using assms(4) by (cases "cstr str") simp_all
  moreover have "length (cstr str) \<le> length str" "take (length (cstr str)) str = cstr str"
    using length_cstr_less [OF assms(2)] cstr_prefix [of str] by simp_all
  ultimately obtain s' where "ece391_write os 1 str (int (length (cstr str))) s = Some (int (length (cstr str)), s')"
    "ready s'" "rest s' = rest s" "screen s' = fold show_char (cstr str) (screen s)"
    using write_shown [of s "length (cstr str)" str] assms(1,3,5) by auto
  then show ?thesis using assms(2) by (simp add: ece391_fdputs_def ece391_strlen_eq)
qed

end

text \<open>
  In addition a descriptor \<open>fd\<close> that delivers one item after the other: a read of \<open>N\<close> bytes
  stores the next item of \<open>items\<close>, and returns 0 when none is left. A file is such a source, of
  its chunks, and a directory, of its names.
\<close>

locale item_source = text_output os ready rest screen show_char
  for os :: "('s, 'a) os_scheme"
    and ready :: "'s \<Rightarrow> bool"
    and rest :: "'s \<Rightarrow> 'r"
    and screen :: "'s \<Rightarrow> 't"
    and show_char :: "u8 \<Rightarrow> 't \<Rightarrow> 't" +
  fixes fd :: int
    and N :: nat
    and items :: "'r \<Rightarrow> u8 list list"
  assumes read_item: "ready s \<Longrightarrow> items (rest s) = c # cs \<Longrightarrow> N \<le> length buf \<Longrightarrow> length buf \<le> 4096 \<Longrightarrow>
    \<exists>buf' s'. ece391_read os fd buf (int N) s = Some (int (length c), buf', s') \<and> length buf' = length buf \<and>
      take (length c) buf' = c \<and> ready s' \<and> items (rest s') = cs \<and> screen s' = screen s"
    and read_end: "ready s \<Longrightarrow> items (rest s) = [] \<Longrightarrow> N \<le> length buf \<Longrightarrow> length buf \<le> 4096 \<Longrightarrow>
    \<exists>buf' s'. ece391_read os fd buf (int N) s = Some (0, buf', s') \<and> ready s' \<and> items (rest s') = [] \<and> screen s' = screen s"
    and item_size: "ready s \<Longrightarrow> c \<in> set (items (rest s)) \<Longrightarrow> c \<noteq> [] \<and> length c \<le> N"
begin

text \<open>\<open>cat\<close> shows the items one after the other and ends with status 0.\<close>

lemma cat_loop_shows:
  assumes "ready s" "N = 1024" "length buf = 1024" "\<forall>c \<in> set (items (rest s)). 13 \<notin> set c"
  shows "\<exists>s'. cat_loop os fd buf s = Some (0, s') \<and> ready s' \<and> items (rest s') = [] \<and>
    screen s' = fold show_char (concat (items (rest s))) (screen s)"
  using assms(1,3,4)
proof (induction "items (rest s)" arbitrary: s buf)
  case Nil
  then obtain buf' s' where "ece391_read os fd buf 1024 s = Some (0, buf', s')" "ready s'" "items (rest s') = []"
    "screen s' = screen s"
    using read_end [of s buf] assms(2) by auto
  with Nil(1) show ?case by (subst cat_loop.simps) (simp add: Nil(1) [symmetric])
next
  case (Cons c cs)
  have c: "c \<noteq> []" "length c \<le> 1024" "13 \<notin> set c"
    using item_size [OF Cons.prems(1), of c] Cons.prems(3) assms(2) by (simp_all add: Cons.hyps(2) [symmetric])
  obtain buf1 s1 where r: "ece391_read os fd buf 1024 s = Some (int (length c), buf1, s1)" "length buf1 = 1024"
    "take (length c) buf1 = c" "ready s1" "items (rest s1) = cs" "screen s1 = screen s"
    using read_item [OF Cons.prems(1) Cons.hyps(2) [symmetric], of buf] Cons.prems(2) assms(2) by auto
  have "1 \<le> length c" using c(1) by (cases c) simp_all
  then obtain s2 where w: "ece391_write os 1 buf1 (int (length c)) s1 = Some (int (length c), s2)" "ready s2"
    "rest s2 = rest s1" "screen s2 = fold show_char c (screen s)"
    using write_shown [of s1 "length c" buf1] r c by auto
  have "\<forall>c \<in> set (items (rest s2)). 13 \<notin> set c" using Cons.prems(3) w(3) r(5) by (simp add: Cons.hyps(2) [symmetric])
  then obtain s' where "cat_loop os fd buf1 s2 = Some (0, s')" "ready s'" "items (rest s') = []"
    "screen s' = fold show_char (concat cs) (screen s2)"
    using Cons.hyps(1) [of s2 buf1] w r by auto
  then show ?case
    using r(1) w(1,4) c(1) by (subst cat_loop.simps) (simp add: Cons.hyps(2) [symmetric])
qed

text \<open>\<open>ls\<close> shows each item on a line of its own.\<close>

lemma ls_loop_shows:
  assumes "ready s" "N = 32" "length buf = 33" "\<forall>c \<in> set (items (rest s)). 13 \<notin> set c"
  shows "\<exists>s'. ls_loop os fd buf s = Some (0, s') \<and> ready s' \<and> items (rest s') = [] \<and>
    screen s' = fold show_char (concat (map (\<lambda>c. c @ [10]) (items (rest s)))) (screen s)"
  using assms(1,3,4)
proof (induction "items (rest s)" arbitrary: s buf)
  case Nil
  then obtain buf' s' where "ece391_read os fd buf 32 s = Some (0, buf', s')" "ready s'" "items (rest s') = []"
    "screen s' = screen s"
    using read_end [of s buf] assms(2) by auto
  with Nil(1) show ?case by (subst ls_loop.simps) (simp add: Nil(1) [symmetric])
next
  case (Cons c cs)
  have c: "c \<noteq> []" "length c \<le> 32" "13 \<notin> set c"
    using item_size [OF Cons.prems(1), of c] Cons.prems(3) assms(2) by (simp_all add: Cons.hyps(2) [symmetric])
  obtain buf1 s1 where r: "ece391_read os fd buf 32 s = Some (int (length c), buf1, s1)" "length buf1 = 33"
    "take (length c) buf1 = c" "ready s1" "items (rest s1) = cs" "screen s1 = screen s"
    using read_item [OF Cons.prems(1) Cons.hyps(2) [symmetric], of buf] Cons.prems(2) assms(2) by auto
  let ?line = "buf1[length c := 10]"
  have set: "aset buf1 (int (length c)) 10 = Some ?line" "length ?line = 33"
    using r(2) c(2) by (simp_all add: aset_def)
  have line: "take (Suc (length c)) ?line = c @ [10]" using r(2,3) c(2) by (simp add: take_Suc_update)
  then obtain s2 where w: "ece391_write os 1 ?line (int (Suc (length c))) s1 = Some (int (Suc (length c)), s2)" "ready s2"
    "rest s2 = rest s1" "screen s2 = fold show_char (c @ [10]) (screen s)"
    using write_shown [of s1 "Suc (length c)" ?line] r c set(2) by auto
  have "\<forall>c \<in> set (items (rest s2)). 13 \<notin> set c" using Cons.prems(3) w(3) r(5) by (simp add: Cons.hyps(2) [symmetric])
  then obtain s' where "ls_loop os fd ?line s2 = Some (0, s')" "ready s'" "items (rest s') = []"
    "screen s' = fold show_char (concat (map (\<lambda>c. c @ [10]) cs)) (screen s2)"
    using Cons.hyps(1) [of s2 ?line] w r set(2) by auto
  then show ?case
    using r(1) w(1,4) c(1) set(1) by (subst ls_loop.simps) (simp add: Cons.hyps(2) [symmetric] add.commute)
qed

end

end
