(* ===== verification/User_Calls.thy ===== *)
theory User_Calls
  imports Dispatch User_Programs
begin

text \<open>
  The system calls of a user program on the kernel: the stubs of \<^verbatim>\<open>syscalls/ece391syscall.S\<close>,
  which load the registers and raise interrupt 0x80, as an instance \<open>kernel_os\<close> of the interface
  \<open>os\<close> of the programs.

  An array that a program passes to a call is in the memory of the program at address \<open>area\<close>
  while the call runs: it is stored there, through the address space of the program, before the
  call and loaded after it. \<open>child\<close> is what a program that is started does until it halts: from
  its entry point and the state it is entered in to its status and its last state.
\<close>

section \<open>The stubs\<close>

definition store_array :: "u32 \<Rightarrow> u32 \<Rightarrow> u8 list \<Rightarrow> 'a system_scheme \<Rightarrow> 'a system_scheme option" where
  "store_array pt area bs s = do {
     a \<leftarrow> walk pt s True area;
     Some (s\<lparr>vid := overlay (vid s) a bs\<rparr>) }"

definition load_array :: "u32 \<Rightarrow> u32 \<Rightarrow> nat \<Rightarrow> 'a system_scheme \<Rightarrow> u8 list option" where
  "load_array pt area n s = do {
     a \<leftarrow> walk pt s True area;
     Some (bytes_at (vid s) a n) }"

text \<open>\<open>INT $0x80\<close> with the number of the call and its arguments, when the call returns a value.\<close>

definition DO_CALL :: "u32 \<Rightarrow> env \<Rightarrow> u32 \<Rightarrow> u32 \<Rightarrow> u32 \<Rightarrow> u32 \<Rightarrow> u32 \<Rightarrow> u32 \<Rightarrow> 'a system_scheme \<Rightarrow>
    (int \<times> 'a system_scheme) option" where
  "DO_CALL pt e frame temp number ebx ecx edx s =
     (case system_call pt e frame temp number ebx ecx edx s of Some (Reply n s) \<Rightarrow> Some (n, s) | _ \<Rightarrow> None)"

text \<open>The call of \<open>execute\<close> returns at once when it fails, and when the program it started halts.\<close>

definition run_child :: "u32 \<Rightarrow> env \<Rightarrow> u32 \<Rightarrow> u32 \<Rightarrow> (u32 \<Rightarrow> 'a system_scheme \<Rightarrow> (u8 \<times> 'a system_scheme) option) \<Rightarrow>
    'a system_scheme reply \<Rightarrow> (int \<times> 'a system_scheme) option" where
  "run_child pt e frame temp child r =
     (case r of
        Reply n s \<Rightarrow> Some (n, s)
      | Enter entry_point s \<Rightarrow> do {
          (status, s) \<leftarrow> child entry_point s;
          case system_call pt e frame temp SYS_HALT (ucast status) 0 0 s of
            Some (Ended sp (Returned n s)) \<Rightarrow> Some (n, s)
          | _ \<Rightarrow> None }
      | Ended _ _ \<Rightarrow> None)"

definition kernel_os :: "u32 \<Rightarrow> env \<Rightarrow> u32 \<Rightarrow> u32 \<Rightarrow> u32 \<Rightarrow>
    (u32 \<Rightarrow> 'a system_scheme \<Rightarrow> (u8 \<times> 'a system_scheme) option) \<Rightarrow> 'a system_scheme os" where
  "kernel_os pt e frame temp area child =
     \<lparr>ece391_execute = (\<lambda>command s. do {
        s \<leftarrow> store_array pt area command s;
        r \<leftarrow> system_call pt e frame temp 2 area 0 0 s;
        run_child pt e frame temp child r }),
      ece391_read = (\<lambda>fd buf nbytes s. do {
        s \<leftarrow> store_array pt area buf s;
        (r, s) \<leftarrow> DO_CALL pt e frame temp 3 (of_int fd) area (of_int nbytes) s;
        buf \<leftarrow> load_array pt area (length buf) s;
        Some (r, buf, s) }),
      ece391_write = (\<lambda>fd buf nbytes s. do {
        s \<leftarrow> store_array pt area buf s;
        DO_CALL pt e frame temp 4 (of_int fd) area (of_int nbytes) s }),
      ece391_open = (\<lambda>name s. do {
        s \<leftarrow> store_array pt area name s;
        DO_CALL pt e frame temp 5 area 0 0 s }),
      ece391_close = (\<lambda>fd. DO_CALL pt e frame temp 6 (of_int fd) 0 0),
      ece391_getargs = (\<lambda>buf nbytes s. do {
        s \<leftarrow> store_array pt area buf s;
        (r, s) \<leftarrow> DO_CALL pt e frame temp 7 area (of_int nbytes) 0 s;
        buf \<leftarrow> load_array pt area (length buf) s;
        Some (r, buf, s) }),
      ece391_vidmap = (\<lambda>screen_start. DO_CALL pt e frame temp 8 screen_start 0 0),
      ece391_set_handler = (\<lambda>signum handler. DO_CALL pt e frame temp 9 (of_int signum) handler 0),
      call_sys = (\<lambda>number. DO_CALL pt e frame temp (of_int number) 0 0 0)\<rparr>"

section \<open>The memory of a program\<close>

text \<open>\<open>n\<close> bytes from \<open>area\<close> on are in the 4 MB of the program.\<close>

definition in_program :: "u32 \<Rightarrow> nat \<Rightarrow> bool" where
  "in_program area n \<longleftrightarrow> 0x8000000 \<le> unat area \<and> unat area + n \<le> 0x8400000"

text \<open>The physical address of \<open>v\<close> in the frame of process \<open>p\<close>.\<close>

definition phys :: "int \<Rightarrow> u32 \<Rightarrow> u32" where
  "phys p v = 0x400000 * (of_int p + 1) + (v - 0x8000000)"

lemma program_page:
  fixes v :: u32
  assumes "0x8000000 \<le> unat v" "unat v < 0x8400000"
  shows "drop_bit 22 v = 32" "v AND 0x3FFFFF = v - 0x8000000"
proof -
  have "unat (drop_bit 22 v) = unat v div 2 ^ 22" by (simp add: drop_bit_eq_div unat_div)
  also have "\<dots> = 32" using assms by simp
  also have "\<dots> = unat (32 :: u32)" by simp
  finally show "drop_bit 22 v = 32" by (simp only: word_unat_eq_iff)
  have "v AND 0x3FFFFF = v mod 2 ^ 22"
    unfolding take_bit_eq_mod [symmetric] take_bit_eq_mask by (simp add: mask_eq_exp_minus_1)
  then have "unat (v AND 0x3FFFFF) = unat v mod 2 ^ 22" by (simp add: unat_mod)
  also have "\<dots> = unat v - 0x8000000"
  proof -
    have "unat v = (unat v - 0x8000000) + 2 ^ 22 * 32" using assms by simp
    then have "unat v mod 2 ^ 22 = (unat v - 0x8000000) mod 2 ^ 22" by (metis mod_mult_self2)
    with assms show ?thesis by simp
  qed
  also have "\<dots> = unat (v - 0x8000000)" using assms by (simp add: unat_sub word_le_nat_alt)
  finally show "v AND 0x3FFFFF = v - 0x8000000" by (simp only: word_unat_eq_iff)
qed

text \<open>A process \<open>p\<close> that runs in its own address space, with its screen at the page \<open>video\<close>.\<close>

definition in_user :: "u32 \<Rightarrow> int \<Rightarrow> u32 \<Rightarrow> 'a sched_scheme \<Rightarrow> bool" where
  "in_user pt p video s \<longleftrightarrow> in_space pt p video s \<and> page_aligned pt \<and> page_aligned video \<and> 1 \<le> p \<and> p < 7 \<and>
     unat video < 0x3FF000"

lemma unat_add_small: "unat (a :: u32) + k < 2 ^ 32 \<Longrightarrow> unat (a + of_nat k) = unat a + k"
  by (simp add: unat_word_ariths unat_of_nat)

lemma walk_program_byte:
  assumes "in_user pt p video s" "in_program area n" "k < n"
  shows "walk pt s user (area + of_nat k) = Some (phys p area + of_nat k)"
proof -
  let ?v = "area + of_nat k"
  have u: "unat ?v = unat area + k" using assms(2,3) by (intro unat_add_small) (simp add: in_program_def)
  have "0x8000000 \<le> unat ?v" "unat ?v < 0x8400000" using assms(2,3) unfolding u by (simp_all add: in_program_def)
  note pp = program_page [OF this]
  have "walk pt s user ?v = address_space p video user ?v"
    using assms(1) by (intro walk_in_space) (simp_all add: in_user_def)
  then show ?thesis by (simp add: address_space_def pp phys_def algebra_simps)
qed

lemma walk_program_start:
  "in_user pt p video s \<Longrightarrow> in_program area n \<Longrightarrow> 0 < n \<Longrightarrow> walk pt s user area = Some (phys p area)"
  using walk_program_byte [of pt p video s area n 0 user] by simp

lemma walk_screen:
  assumes "in_user pt p video s"
  shows "walk pt s user VIDMAP = Some video"
proof -
  have "walk pt s user VIDMAP = address_space p video user VIDMAP"
    using assms by (intro walk_in_space) (simp_all add: in_user_def)
  then show ?thesis by (simp add: address_space_def table_space_def VIDMAP_def drop_bit_eq_div)
qed

lemma phys_unat:
  assumes "1 \<le> p" "p < 7" "in_program area n"
  shows "unat (phys p area) = 0x400000 * (nat p + 1) + (unat area - 0x8000000)"
proof -
  have a: "0x8000000 \<le> unat area" "unat area \<le> 0x8400000" using assms(3) by (simp_all add: in_program_def)
  have "unat (area - 0x8000000) = unat area - 0x8000000" using a by (simp add: unat_sub word_le_nat_alt)
  moreover have "unat (0x400000 * (of_int p + 1) :: u32) = 0x400000 * (nat p + 1)"
  proof -
    have "p \<in> {1, 2, 3, 4, 5, 6}" using assms(1,2) by auto
    then show ?thesis by auto
  qed
  moreover have "nat p \<le> 6" using assms(2) by simp
  ultimately show ?thesis using a unfolding phys_def by (subst unat_add_lem [THEN iffD1]) simp_all
qed

lemma low_outside:
  fixes x b :: u32
  assumes "unat x < unat b" "unat b + n \<le> 2 ^ 32"
  shows "n \<le> unat (x - b)"
  using assms by (simp add: unat_sub_if_size word_size word_le_nat_alt)

text \<open>The memory of a program is not where its screen is.\<close>

lemma screen_apart:
  assumes "in_user pt p video s" "in_program area n" "length bs \<le> n" "0 \<le> j" "j < 4000"
  shows "overlay m (phys p area) bs (video + of_int j) = m (video + of_int j)"
proof -
  have v: "unat video < 0x3FF000" "1 \<le> p" "p < 7" using assms(1) by (simp_all add: in_user_def)
  have "unat (video + of_nat (nat j)) = unat video + nat j" using v(1) assms(5) by (intro unat_add_small) simp
  then have x: "unat (video + of_int j) < 0x400000" using v(1) assms(4,5) by simp
  note b = phys_unat [OF v(2,3) assms(2)]
  obtain m d where q: "nat p = m" "unat area - 0x8000000 = d" by blast
  have m: "1 \<le> m" "m \<le> 6" "d \<le> 0x400000"
    using v(2,3) assms(2) unfolding q [symmetric] by (simp_all add: in_program_def le_diff_conv)
  have lo: "0x800000 \<le> unat (phys p area)" unfolding b q using m by simp
  have "unat (phys p area) \<le> 0x2000000" unfolding b q using m by simp
  with lo have "length bs \<le> unat (video + of_int j - phys p area)"
    using x assms(2,3) by (intro low_outside) (simp_all add: in_program_def)
  then show ?thesis by (rule overlay_outside)
qed

definition user_screen :: "u32 \<Rightarrow> 'a console_scheme \<Rightarrow> tty" where
  "user_screen video s = screen_abs (s\<lparr>video_mem := video\<rparr>)"

lemma user_screen_store:
  assumes "in_user pt p video s" "in_program area n" "length bs \<le> n"
  shows "user_screen video (s\<lparr>vid := overlay m (phys p area) bs\<rparr>) = user_screen video (s\<lparr>vid := m\<rparr>)"
proof -
  have "cell (s\<lparr>vid := overlay m (phys p area) bs, video_mem := video\<rparr>) i = cell (s\<lparr>vid := m, video_mem := video\<rparr>) i"
    if "i < 2000" for i
    using that screen_apart [OF assms, of "2 * int i" m] screen_apart [OF assms, of "2 * int i + 1" m]
    by (simp add: cell_def)
  then have "cells (s\<lparr>vid := overlay m (phys p area) bs, video_mem := video\<rparr>) = cells (s\<lparr>vid := m, video_mem := video\<rparr>)"
    by (simp add: cells_def)
  then show ?thesis by (simp add: user_screen_def screen_abs_def)
qed

lemma user_screen_cong:
  "vid t = vid s \<Longrightarrow> screen_x t = screen_x s \<Longrightarrow> screen_y t = screen_y s \<Longrightarrow> user_screen video t = user_screen video s"
  by (simp add: user_screen_def screen_abs_def cells_def cell_def)

lemma store_array_run:
  "in_user pt p video s \<Longrightarrow> in_program area n \<Longrightarrow> 0 < n \<Longrightarrow>
    store_array pt area bs s = Some (s\<lparr>vid := overlay (vid s) (phys p area) bs\<rparr>)"
  by (simp add: store_array_def walk_program_start)

lemma bytes_at_overlay:
  assumes "n \<le> length bs" "length bs \<le> 2 ^ 32"
  shows "bytes_at (overlay m a bs) a n = take n bs"
  using assms by (intro nth_equalityI) (simp_all add: bytes_at_def overlay_inside)

lemma load_array_run:
  "in_user pt p video s \<Longrightarrow> in_program area n \<Longrightarrow> 0 < n \<Longrightarrow>
    load_array pt area k s = Some (bytes_at (vid s) (phys p area) k)"
  by (simp add: load_array_def walk_program_start)

section \<open>The dispatcher\<close>

lemma signed_arg: "- 2147483648 \<le> i \<Longrightarrow> i < 2147483648 \<Longrightarrow> sint (of_int i :: u32) = i"
  by (simp add: signed_of_int signed_take_bit_int_eq_self)

lemma signed_nat_arg: "n < 2147483648 \<Longrightarrow> sint (of_nat n :: u32) = int n"
  using signed_arg [of "int n"] by simp

lemma call_number: "\<not> 3 <s (1 :: u32)" "\<not> 4 <s (1 :: u32)" "\<not> 5 <s (1 :: u32)" "\<not> 6 <s (1 :: u32)" "\<not> 7 <s (1 :: u32)"
  "\<not> 8 <s (1 :: u32)" "\<not> 9 <s (1 :: u32)" "\<not> 1 <s (1 :: u32)" "\<not> 2 <s (1 :: u32)"
  by code_simp+

lemma DO_CALL_eqs:
  "DO_CALL pt e frame temp 3 ebx ecx edx s =
     map_option (\<lambda>(n, t). (n, t\<lparr>iflag := iflag s\<rparr>)) (read_call pt e (sint ebx) ecx (sint edx) (cli s))"
  "DO_CALL pt e frame temp 4 ebx ecx edx s =
     map_option (\<lambda>(n, t). (n, t\<lparr>iflag := iflag s\<rparr>)) (write_call pt e (sint ebx) ecx (sint edx) (cli s))"
  "DO_CALL pt e frame temp 5 ebx ecx edx s =
     map_option (\<lambda>(n, t). (n, t\<lparr>iflag := iflag s\<rparr>)) (do { f \<leftarrow> string_arg pt (cli s) ebx; open_call e f (cli s) })"
  "DO_CALL pt e frame temp 6 ebx ecx edx s =
     map_option (\<lambda>(n, t). (n, t\<lparr>iflag := iflag s\<rparr>)) (close_call (sint ebx) (cli s))"
  "DO_CALL pt e frame temp 7 ebx ecx edx s =
     map_option (\<lambda>(n, t). (n, t\<lparr>iflag := iflag s\<rparr>)) (getargs pt ebx (sint ecx) (cli s))"
  "DO_CALL pt e frame temp 8 ebx ecx edx s =
     map_option (\<lambda>(n, t). (n, t\<lparr>iflag := iflag s\<rparr>)) (vidmap pt ebx (cli s))"
  "DO_CALL pt e frame temp 9 ebx ecx edx s = Some (-1, s)"
  by (auto simp: DO_CALL_def system_call_def syscalltable_def value_reply_def iret_flag_def Let_def set_handler_def
      cli_def call_number split: option.splits bind_splits prod.splits)

section \<open>Output\<close>

text \<open>The standard output of the running process is the terminal.\<close>

definition std_output :: "procs \<Rightarrow> bool" where
  "std_output q \<longleftrightarrow> (\<exists>b tab. get_fd q 1 = Some b \<and> flags b \<noteq> -1 \<and> file_operations_pointer b = Some tab \<and>
     op_write (tables q tab) = Some Terminal_write)"

text \<open>A program that can call the kernel.\<close>

definition user_ready :: "u32 \<Rightarrow> int \<Rightarrow> u32 \<Rightarrow> u32 \<Rightarrow> 'a system_scheme \<Rightarrow> bool" where
  "user_ready pt p video area s \<longleftrightarrow> in_user pt p video s \<and> in_program area 4096 \<and> on_screen s \<and>
     video_mem s = VIDMAP \<and> procs_wf (ps s) \<and> std_output (ps s)"

lemma more_system:
  assumes "console.more t = console.more s"
  shows "ps t = ps s" "fs t = fs s" "process_pages t = process_pages s" "process_tables t = process_tables s"
    "rtc_ptr t = rtc_ptr s"
  using assms by (cases s; cases t; simp)+

lemma user_ready_more:
  assumes "user_ready pt p video area s" "console.more t = console.more s" "on_screen t" "video_mem t = VIDMAP"
  shows "user_ready pt p video area t"
  using assms more_system [OF assms(2)] by (simp add: user_ready_def in_user_def in_space_def)

lemma in_program_nonzero: "in_program area n \<Longrightarrow> area \<noteq> 0"
  by (auto simp: in_program_def)

lemma in_user_updates [simp]:
  "in_user pt p video (s\<lparr>vid := m\<rparr>) = in_user pt p video s" "in_user pt p video (s\<lparr>iflag := f\<rparr>) = in_user pt p video s"
  "in_user pt p video (s\<lparr>ps := q\<rparr>) = in_user pt p video s"
  "in_user pt p video (s\<lparr>video_mem := a\<rparr>) = in_user pt p video s"
  by (simp_all add: in_user_def in_space_def)

lemma kernel_write_terminal:
  assumes s: "user_ready pt p video area s"
    and n: "1 \<le> n" "n \<le> length buf" "length buf \<le> 4096" "13 \<notin> set (take n buf)"
  obtains s' where "ece391_write (kernel_os pt e frame temp area child) 1 buf (int n) s = Some (int n, s')"
    "user_screen video s' = fold tty_char (take n buf) (user_screen video s)"
    "console.more s' = console.more s" "user_ready pt p video area s'"
proof -
  let ?A = "phys p area" and ?s = "s\<lparr>vid := overlay (vid s) (phys p area) buf, iflag := False\<rparr>"
  have u: "in_user pt p video s" "in_program area 4096" "on_screen s" "video_mem s = VIDMAP" "std_output (ps s)"
    using s by (simp_all add: user_ready_def)
  let ?u = "?s\<lparr>video_mem := video\<rparr>"
  have bytes: "bytes_at (vid ?s) ?A n = take n buf" using n(2,3) by (simp add: bytes_at_overlay)
  have "on_screen ?u" using u(3) by (simp add: on_screen_def)
  then obtain t where t: "terminal_write 1 (take n buf) (int n) ?u = Some (int n, t)"
    "screen_abs t = fold tty_char (take n buf) (screen_abs ?u)" "on_screen t" "kept ?u t"
    using terminal_write_run [of ?u n "take n buf" 1] n by auto
  have "walk pt ?s False VIDMAP = Some video" "walk pt ?s False area = Some ?A"
    using u by (auto intro!: walk_screen walk_program_start [where n = 4096])
  then have w: "write_call pt e 1 area (int n) (cli ?s) = Some (int n, t\<lparr>video_mem := VIDMAP\<rparr>)"
    using u(4,5) in_program_nonzero [OF u(2)] t(1) bytes
    by (auto simp: write_call_def call_write_def on_video_def std_output_def FDT_SIZE_def cli_def Let_def)
  let ?s' = "t\<lparr>video_mem := VIDMAP, iflag := iflag s\<rparr>"
  have "cli (s\<lparr>vid := overlay (vid s) ?A buf\<rparr>) = cli ?s" by (simp add: cli_def)
  then have run: "ece391_write (kernel_os pt e frame temp area child) 1 buf (int n) s = Some (int n, ?s')"
    using w store_array_run [OF u(1,2)] n by (simp add: kernel_os_def DO_CALL_eqs signed_nat_arg)
  have more: "console.more ?s' = console.more s" using t(4) by (simp add: kept_def)
  have "t\<lparr>video_mem := video\<rparr> = t" using t(4) by (simp add: kept_def)
  then have "user_screen video ?s' = screen_abs t"
    using user_screen_cong [of ?s' t video] by (simp add: user_screen_def)
  also have "\<dots> = fold tty_char (take n buf) (user_screen video ?s)" using t(2) by (simp add: user_screen_def)
  also have "user_screen video ?s = user_screen video s"
    using user_screen_store [OF u(1,2), of buf "vid s"] user_screen_cong [of ?s "s\<lparr>vid := overlay (vid s) ?A buf\<rparr>"] n(3)
    by simp
  finally have scr: "user_screen video ?s' = fold tty_char (take n buf) (user_screen video s)" .
  have "user_ready pt p video area ?s'"
    by (rule user_ready_more [OF s more]) (use t(3) in \<open>simp_all add: on_screen_def\<close>)
  with run scr more show ?thesis by (rule that)
qed

section \<open>Input\<close>

lemma overlay_twice:
  "length bs \<le> length buf \<Longrightarrow> overlay (overlay m a buf) a bs = overlay m a (bs @ drop (length bs) buf)"
  by (auto simp: overlay_def fun_eq_iff nth_append)

lemma put_fd_std_output: "put_fd q fd b = Some q' \<Longrightarrow> fd \<noteq> 1 \<Longrightarrow> std_output q' = std_output q"
  using fd_store.get_put_other [of q fd b q' 1] put_fd_bare(2) [of q fd b q']
  by (simp add: std_output_def same_frame_def)

text \<open>A change of one descriptor, or none.\<close>

definition fd_step :: "int \<Rightarrow> procs \<Rightarrow> procs \<Rightarrow> bool" where
  "fd_step fd q q' \<longleftrightarrow> q' = q \<or> (\<exists>b. put_fd q fd b = Some q')"

lemma user_ready_step:
  assumes "user_ready pt p video area s" "fd_step fd (ps s) q" "fd \<noteq> 1"
  shows "user_ready pt p video area (s\<lparr>vid := m, ps := q, iflag := f\<rparr>)"
  using assms put_fd_wf [of "ps s" fd _ q] put_fd_std_output [of "ps s" fd _ q]
  by (auto simp: user_ready_def fd_step_def on_screen_def)

text \<open>A call of \<open>read\<close> that stores \<open>bs\<close> in the array of the caller.\<close>

lemma kernel_read_run:
  assumes s: "user_ready pt p video area s" and fd: "0 \<le> fd" "fd < 8" "fd \<noteq> 1"
    and b: "get_fd (ps s) fd = Some b" "flags b \<noteq> -1" "file_operations_pointer b = Some tab"
      "op_read (tables (ps s) tab) = Some f"
    and n: "0 \<le> n" "n < 2147483648" and buf: "length bs \<le> length buf" "length buf \<le> 4096"
    and call: "call_read pt e f fd (phys p area) n (s\<lparr>vid := overlay (vid s) (phys p area) buf, iflag := False\<rparr>) =
      Some (r, s\<lparr>vid := overlay (overlay (vid s) (phys p area) buf) (phys p area) bs, iflag := False, ps := q\<rparr>)"
    and q: "fd_step fd (ps s) q"
  obtains s' where "ece391_read (kernel_os pt e frame temp area child) fd buf n s =
      Some (r, bs @ drop (length bs) buf, s')"
    "user_ready pt p video area s'" "user_screen video s' = user_screen video s" "ps s' = q" "fs s' = fs s"
proof -
  let ?A = "phys p area" and ?s = "s\<lparr>vid := overlay (vid s) (phys p area) buf, iflag := False\<rparr>"
  have u: "in_user pt p video s" "in_program area 4096" using s by (simp_all add: user_ready_def)
  have "walk pt ?s False area = Some ?A" using u by (auto intro: walk_program_start [where n = 4096])
  then have w: "read_call pt e fd area n (cli ?s) =
      Some (r, s\<lparr>vid := overlay (overlay (vid s) ?A buf) ?A bs, iflag := False, ps := q\<rparr>)"
    using b fd in_program_nonzero [OF u(2)] call by (simp add: read_call_def FDT_SIZE_def cli_def)
  let ?s' = "s\<lparr>vid := overlay (vid s) ?A (bs @ drop (length bs) buf), ps := q, iflag := iflag s\<rparr>"
  have c: "cli (s\<lparr>vid := overlay (vid s) ?A buf\<rparr>) = cli ?s" by (simp add: cli_def)
  have "load_array pt area (length buf) ?s' = Some (bytes_at (vid ?s') ?A (length buf))"
    using u by (intro load_array_run [where n = 4096]) simp_all
  also have "bytes_at (vid ?s') ?A (length buf) = bs @ drop (length bs) buf"
    using buf by (simp add: bytes_at_overlay)
  finally have run: "ece391_read (kernel_os pt e frame temp area child) fd buf n s = Some (r, bs @ drop (length bs) buf, ?s')"
    using w c store_array_run [OF u] buf n fd by (simp add: kernel_os_def DO_CALL_eqs signed_arg overlay_twice)
  have "user_screen video ?s' = user_screen video s"
    using user_screen_store [OF u, of "bs @ drop (length bs) buf" "vid s"] buf
      user_screen_cong [of ?s' "s\<lparr>vid := overlay (vid s) ?A (bs @ drop (length bs) buf)\<rparr>" video] by simp
  with that [OF run user_ready_step [OF s q fd(3)]] show ?thesis by simp
qed

section \<open>Names\<close>

lemma string_at_run:
  assumes "in_user pt p video s" "in_program area n" "k < n"
    and "\<And>i. i < n \<Longrightarrow> vid s (phys p area + of_nat i) = bs ! i" "length bs = n" "0 \<in> set (drop k bs)"
  shows "string_at pt s (area + of_nat k) = Some (cstr (drop k bs) @ [0])"
  using assms(3,6)
proof (induction "n - k" arbitrary: k)
  case (Suc m)
  have w: "walk pt s False (area + of_nat k) = Some (phys p area + of_nat k)"
    by (rule walk_program_byte [OF assms(1,2) Suc.prems(1)])
  have v: "vid s (phys p area + of_nat k) = bs ! k" by (rule assms(4) [OF Suc.prems(1)])
  show ?case
  proof (cases "bs ! k = 0")
    case True
    then show ?thesis using w v Suc.prems(1) assms(5) by (subst string_at.simps) (simp add: cstr_drop)
  next
    case False
    then have later: "0 \<in> set (drop (Suc k) bs)" by (rule nul_later [OF Suc.prems(2)])
    then have "Suc k < n" using nul_ahead [OF later] assms(5) by simp
    then have "string_at pt s (area + of_nat (Suc k)) = Some (cstr (drop (Suc k) bs) @ [0])"
      using Suc.hyps(2) later by (intro Suc.hyps(1)) simp_all
    with w v False Suc.prems(1) assms(5) show ?thesis
      by (subst string_at.simps) (simp add: cstr_drop algebra_simps)
  qed
qed simp

lemma kernel_open_name:
  assumes u: "in_user pt p video s" "in_program area 4096" and name: "0 \<in> set name" "length name \<le> 4096"
    and call: "open_call e (Some (cstr name @ [0])) (s\<lparr>vid := overlay (vid s) (phys p area) name, iflag := False\<rparr>) = Some (r, t)"
  shows "ece391_open (kernel_os pt e frame temp area child) name s = Some (r, t\<lparr>iflag := iflag s\<rparr>)"
proof -
  let ?A = "phys p area" and ?s = "s\<lparr>vid := overlay (vid s) (phys p area) name, iflag := False\<rparr>"
  have len: "0 < length name" using name(1) by (cases name) auto
  have prog: "in_program area (length name)" using u(2) name(2) by (simp add: in_program_def)
  have "vid ?s (?A + of_nat i) = name ! i" if "i < length name" for i
    using overlay_inside [OF that] name(2) by simp
  then have "string_at pt ?s (area + of_nat 0) = Some (cstr (drop 0 name) @ [0])"
    using u(1) prog len name(1) by (intro string_at_run) simp_all
  then have str: "string_arg pt (cli ?s) area = Some (Some (cstr name @ [0]))"
    using in_program_nonzero [OF u(2)] by (simp add: string_arg_def cli_def)
  have c: "cli (s\<lparr>vid := overlay (vid s) ?A name\<rparr>) = ?s" "cli ?s = ?s" by (simp_all add: cli_def)
  show ?thesis using store_array_run [OF u] str call c by (simp add: kernel_os_def DO_CALL_eqs)
qed

lemma kernel_open_call:
  assumes s: "user_ready pt p video area s" and name: "0 \<in> set name" "length name \<le> 4096"
    and call: "open_call e (Some (cstr name @ [0])) (s\<lparr>vid := overlay (vid s) (phys p area) name, iflag := False\<rparr>) =
      Some (r, s\<lparr>vid := overlay (vid s) (phys p area) name, iflag := False, ps := q\<rparr>)"
    and q: "fd_step fd (ps s) q" "fd \<noteq> 1"
  obtains s' where "ece391_open (kernel_os pt e frame temp area child) name s = Some (r, s')"
    "user_ready pt p video area s'" "user_screen video s' = user_screen video s" "ps s' = q" "fs s' = fs s"
proof -
  have u: "in_user pt p video s" "in_program area 4096" using s by (simp_all add: user_ready_def)
  let ?s' = "s\<lparr>vid := overlay (vid s) (phys p area) name, ps := q, iflag := iflag s\<rparr>"
  have run: "ece391_open (kernel_os pt e frame temp area child) name s = Some (r, ?s')"
    using kernel_open_name [OF u name call] by simp
  have "user_screen video ?s' = user_screen video s"
    using user_screen_store [OF u, of name "vid s"] name(2)
      user_screen_cong [of ?s' "s\<lparr>vid := overlay (vid s) (phys p area) name\<rparr>" video] by simp
  with that [OF run user_ready_step [OF s q]] show ?thesis by simp
qed

section \<open>A running program\<close>

text \<open>
  A state for the witnesses: process 1 runs, its standard input and output and the operation
  tables are as the set-up leaves them, with \<open>as\<close> as its arguments and \<open>F\<close> as the file system.
\<close>

definition user_block :: "u8 list \<Rightarrow> pcb" where
  "user_block as = unused_block\<lparr>pid := 1, fd_table := stdin_block # stdout_block # replicate 6 (freed stdin_block),
     args := as @ replicate (1024 - length as) 0\<rparr>"

definition user_procs :: "u8 list \<Rightarrow> procs" where
  "user_procs as = api_procs\<lparr>control_blocks := (replicate 7 unused_block)[1 := user_block as],
     num_active_processes := 1, current_pid := 1, dir_ptr := Some Dir_table,
     tables := (tables api_procs)(
       Stdin_table := \<lparr>op_open = Some Keyboard_open, op_read = Some Terminal_read, op_write = Some Keyboard_write,
         op_close = Some Keyboard_close\<rparr>,
       Stdout_table := \<lparr>op_open = Some Terminal_open, op_read = Some Terminal_read_fail, op_write = Some Terminal_write,
         op_close = Some Terminal_close\<rparr>,
       Dir_table := \<lparr>op_open = Some Directory_open, op_read = Some Directory_read, op_write = Some Directory_write,
         op_close = Some Directory_close\<rparr>)\<rparr>"

definition user_system :: "fsys \<Rightarrow> u8 list \<Rightarrow> system" where
  "user_system F as = file_system\<lparr>ps := user_procs as, fs := F, video_mem := VIDMAP\<rparr>"

lemma user_system_fields: "ps (user_system F as) = user_procs as" "fs (user_system F as) = F"
  by (simp_all add: user_system_def)

lemma user_procs_block: "get_cb (user_procs as) (current_pid (user_procs as)) = Some (user_block as)"
  by (simp add: user_procs_def get_cb_def aget_def)

lemma user_procs_fd:
  "get_fd (user_procs as) fd = (if 0 \<le> fd \<and> fd < 8
     then Some (if fd = 0 then stdin_block else if fd = 1 then stdout_block else freed stdin_block) else None)"
  by (auto simp: get_fd_def user_procs_block user_block_def aget_def nth_Cons')

lemma user_procs_facts:
  assumes "length as \<le> 1024"
  shows "procs_wf (user_procs as)" "\<not> fds_full (user_procs as)" "file_api (user_procs as)" "std_output (user_procs as)"
proof -
  show "procs_wf (user_procs as)"
    using assms by (simp add: user_procs_def user_block_def procs_wf_def pcb_wf_def unused_block_def active_count_def
        numeral_eq_Suc)
  show "\<not> fds_full (user_procs as)"
    by (auto simp: fds_full_def user_procs_fd is_free_def freed_def intro!: bexI [of _ 2])
  show "file_api (user_procs as)" by (simp add: file_api_def user_procs_def api_procs_def)
  show "std_output (user_procs as)" by (simp add: std_output_def user_procs_fd stdout_block_def) (simp add: user_procs_def)
qed

lemma user_system_ready:
  assumes "length as \<le> 1024"
  shows "user_ready 0x480000 1 VIDEO 0x8100000 (user_system F as)"
  using user_procs_facts [OF assms]
  by (simp add: user_ready_def in_user_def in_space_def in_program_def on_screen_def user_system_def file_system_def
      page_aligned_def VIDEO_def clock_system_def kernel.defs idle_kernel_def)

end
