(* ===== verification/User_Files.thy ===== *)
theory User_Files
  imports User_Calls
begin

text \<open>
  \<open>cat\<close> on the kernel: a file of the kernel is a source of items in the sense of the interface
  \<open>item_source\<close>, so the program shows what the file system holds, through the system calls, the
  drivers and the address space of the process.
\<close>

section \<open>The terminal\<close>

interpretation terminal: text_output "kernel_os pt e frame temp area child" "user_ready pt p video area"
    "\<lambda>s. (fs s, ps s)" "user_screen video" tty_char
  for pt e frame temp area child p video
proof
  fix s :: "'a system_scheme" and n :: nat and buf :: "u8 list"
  assume a: "user_ready pt p video area s" "1 \<le> n" "n \<le> length buf" "length buf \<le> 4096" "13 \<notin> set (take n buf)"
  obtain s' where "ece391_write (kernel_os pt e frame temp area child) 1 buf (int n) s = Some (int n, s')"
    "user_screen video s' = fold tty_char (take n buf) (user_screen video s)"
    "console.more s' = console.more s" "user_ready pt p video area s'"
    by (rule kernel_write_terminal [OF a]) (rule that; assumption)
  then show "\<exists>s'. ece391_write (kernel_os pt e frame temp area child) 1 buf (int n) s = Some (int n, s') \<and>
      user_ready pt p video area s' \<and> (fs s', ps s') = (fs s, ps s) \<and>
      user_screen video s' = fold tty_char (take n buf) (user_screen video s)"
    using more_system [of s' s] by auto
qed

section \<open>Files\<close>

text \<open>The whole chunks of \<open>n\<close> elements of a list.\<close>

function chunks :: "nat \<Rightarrow> 'a list \<Rightarrow> 'a list list" where
  "chunks n xs = (if 0 < n \<and> n \<le> length xs then take n xs # chunks n (drop n xs) else [])"
  by pat_completeness auto
termination
  by (relation "measure (\<lambda>(n, xs). length xs)") auto

declare chunks.simps [simp del]

lemma chunks_step: "0 < n \<Longrightarrow> n \<le> length xs \<Longrightarrow> chunks n xs = take n xs # chunks n (drop n xs)"
  by (simp add: chunks.simps)

lemma chunks_short: "length xs < n \<Longrightarrow> chunks n xs = []"
  by (simp add: chunks.simps)

lemma concat_chunks: "0 < n \<Longrightarrow> concat (chunks n xs) = take (length xs div n * n) xs"
proof (induction n xs rule: chunks.induct)
  case (1 n xs)
  show ?case
  proof (cases "n \<le> length xs")
    case True
    then have "length xs div n * n = n + (length xs - n) div n * n" using 1(2) by (simp add: div_if algebra_simps)
    then have "take (length xs div n * n) xs = take n xs @ take ((length xs - n) div n * n) (drop n xs)"
      by (simp only: take_add)
    with True 1 show ?thesis by (simp add: chunks_step)
  next
    case False
    then show ?thesis by (simp add: chunks_short)
  qed
qed

lemma chunks_size: "c \<in> set (chunks n xs) \<Longrightarrow> length c = n \<and> c \<noteq> [] \<and> set c \<subseteq> set xs"
proof (induction n xs rule: chunks.induct)
  case (1 n xs)
  have n: "0 < n \<and> n \<le> length xs" by (rule ccontr) (use 1(2) in \<open>simp add: chunks.simps [of n xs]\<close>)
  then have "c = take n xs \<or> c \<in> set (chunks n (drop n xs))" using 1(2) by (simp add: chunks_step)
  then show ?case
  proof
    assume "c = take n xs"
    with n show ?thesis by (auto dest: in_set_takeD)
  next
    assume "c \<in> set (chunks n (drop n xs))"
    with 1(1) n show ?thesis using set_drop_subset [of n xs] by blast
  qed
qed

text \<open>
  What reads of \<open>n\<close> bytes deliver from the position of a descriptor on: the whole file when it is
  shorter than \<open>n\<close> and read from its start, else its whole chunks only.
\<close>

definition file_items :: "nat \<Rightarrow> fsys \<Rightarrow> fd_block \<Rightarrow> u8 list list" where
  "file_items n F b =
     (let content = file_content F (inode b)
      in if file_position b = 0 \<and> length content < n then if content = [] then [] else [content]
         else chunks n (drop (unat (file_position b)) content))"

definition readable_file :: "fsys \<Rightarrow> fd_block \<Rightarrow> bool" where
  "readable_file F b \<longleftrightarrow> flags b = 1 \<and> file_operations_pointer b = Some File_table \<and> inode b \<le> inodes F \<and>
     (B_length F (inode b) = 0 \<and> file_position b = 0 \<or> open_file F b)"

definition items_of :: "int \<Rightarrow> fsys \<times> procs \<Rightarrow> u8 list list" where
  "items_of fd Fq = (case get_fd (snd Fq) fd of None \<Rightarrow> [] | Some b \<Rightarrow> file_items 1024 (fst Fq) b)"

definition file_ready :: "u32 \<Rightarrow> int \<Rightarrow> u32 \<Rightarrow> u32 \<Rightarrow> int \<Rightarrow> 'a system_scheme \<Rightarrow> bool" where
  "file_ready pt p video area fd s \<longleftrightarrow> user_ready pt p video area s \<and> file_api (ps s) \<and> 2 \<le> fd \<and> fd < 8 \<and>
     (\<exists>b. get_fd (ps s) fd = Some b \<and> readable_file (fs s) b)"

lemma B_length_content: "length (file_content F i) = unat (B_length F i)"
  by (simp add: file_content_def)

text \<open>One read of 1024 bytes, by the position of the descriptor.\<close>

lemma file_read_items:
  assumes q: "procs_wf q" and b: "get_fd q fd = Some b" and r: "readable_file F b"
  shows "\<exists>bs q'. (\<forall>mem a. file_read F q fd mem a 1024 =
        Some (int (length (concat (take 1 (file_items 1024 F b)))), overlay mem a bs, q')) \<and>
      length bs \<le> 1024 \<and> take (length (concat (take 1 (file_items 1024 F b)))) bs = concat (take 1 (file_items 1024 F b)) \<and>
      fd_step fd q q' \<and> (\<exists>b'. get_fd q' fd = Some b' \<and> readable_file F b' \<and> file_items 1024 F b' = drop 1 (file_items 1024 F b))"
proof -
  let ?c = "file_content F (inode b)" and ?pos = "file_position b"
  note len = B_length_content [of F "inode b"]
  consider (empty) "B_length F (inode b) = 0" "?pos = 0" | (small) "open_file F b" "?pos = 0" "length ?c < 1024"
    | (chunk) "open_file F b" "unat ?pos + 1024 \<le> length ?c"
    | (tail) "open_file F b" "0 < ?pos" "length ?c < unat ?pos + 1024"
    using r by (force simp: readable_file_def word_gt_0)
  then show ?thesis
  proof cases
    case empty
    then have c: "?c = []" using len by simp
    then have it: "file_items 1024 F b = []" by (simp add: file_items_def chunks_short)
    have "file_read F q fd mem a 1024 = Some (0, mem, q)" for mem a
      using b r empty by (auto simp: file_read_def read_data_def readable_file_def)
    with b r show ?thesis unfolding it by (intro exI [of _ "[]"] exI [of _ q]) (simp add: fd_step_def it)
  next
    case small
    let ?n = "B_length F (inode b)"
    have "?c \<noteq> []" using small(1) len by (auto simp: open_file_def unat_eq_0)
    then have it: "file_items 1024 F b = [?c]" using small by (simp add: file_items_def)
    obtain q' where q': "advance q fd b ?n = Some q'" "get_fd q' fd = Some (b\<lparr>file_position := ?pos + ?n\<rparr>)"
      using advance_ok [OF q b] by metis
    have "?n < 1024" using small(3) len by (simp add: word_less_nat_alt)
    then have "file_read F q fd mem a 1024 = Some (int (length ?c), overlay mem a (?c @ [file_byte F (inode b) (unat ?n)]), q')" for mem a
      using file_read_past_start_eq [OF b small(1,2) _ q'(1)] len by simp
    moreover have "readable_file F (b\<lparr>file_position := ?pos + ?n\<rparr>)" "file_items 1024 F (b\<lparr>file_position := ?pos + ?n\<rparr>) = []"
      using r small len \<open>?c \<noteq> []\<close> by (auto simp: readable_file_def open_file_def file_items_def chunks_short)
    ultimately show ?thesis
      using small(3) q' by (intro exI [of _ "?c @ [file_byte F (inode b) (unat ?n)]"] exI [of _ q'])
        (auto simp: it fd_step_def advance_def)
  next
    case chunk
    have it: "file_items 1024 F b = take 1024 (drop (unat ?pos) ?c) # chunks 1024 (drop 1024 (drop (unat ?pos) ?c))"
      using chunk(2) by (auto simp: file_items_def chunks_step Let_def)
    obtain q' where q': "advance q fd b 1024 = Some q'" "get_fd q' fd = Some (b\<lparr>file_position := ?pos + 1024\<rparr>)"
      using advance_ok [OF q b] by metis
    have "file_read F q fd mem a 1024 = Some (1024, overlay mem a (take 1024 (drop (unat ?pos) ?c)), q')" for mem a
      using file_read_within_eq [OF b chunk(1) _ q'(1)] chunk(2) len by simp
    moreover have u: "unat (?pos + 1024) = unat ?pos + 1024"
      using chunk len by (intro unat_add_small [of ?pos 1024, simplified]) (simp add: open_file_def)
    then have "?pos + 1024 \<noteq> 0" by (metis add_eq_0_iff_both_eq_0 unsigned_0 zero_neq_numeral)
    then have "file_items 1024 F (b\<lparr>file_position := ?pos + 1024\<rparr>) = chunks 1024 (drop 1024 (drop (unat ?pos) ?c))"
      using u by (simp add: file_items_def add.commute)
    moreover have "readable_file F (b\<lparr>file_position := ?pos + 1024\<rparr>)"
      using r chunk len u by (auto simp: readable_file_def open_file_def word_le_nat_alt)
    ultimately show ?thesis
      using chunk(2) q' by (intro exI [of _ "take 1024 (drop (unat ?pos) ?c)"] exI [of _ q'])
        (auto simp: it fd_step_def advance_def)
  next
    case tail
    then have it: "file_items 1024 F b = []" by (auto simp: file_items_def chunks_short Let_def)
    have "file_read F q fd mem a 1024 = Some (0, overlay mem a (drop (unat ?pos) ?c), q)" for mem a
      using file_read_tail_eq [OF b tail(1,2)] tail(3) len by simp
    with b r tail(3) show ?thesis
      by (intro exI [of _ "drop (unat ?pos) ?c"] exI [of _ q]) (simp add: it fd_step_def)
  qed
qed

lemma file_ready_rest:
  "user_ready pt p video area s' \<Longrightarrow> (fs s', ps s') = (fs s, ps s) \<Longrightarrow> file_ready pt p video area fd s \<Longrightarrow>
    file_ready pt p video area fd s'"
  by (simp add: file_ready_def)

lemma fd_step_api: "fd_step fd q q' \<Longrightarrow> file_api q' = file_api q"
  by (auto simp: fd_step_def put_fd_api)

text \<open>A call of \<open>read\<close> on a file.\<close>

lemma kernel_file_read_run:
  assumes s: "file_ready pt p video area fd s"
    and b: "get_fd (ps s) fd = Some b" "readable_file (fs s) b"
    and n: "0 \<le> n" "n < 2147483648" and buf: "length bs \<le> length buf" "length buf \<le> 4096"
    and r: "\<And>mem a. file_read (fs s) (ps s) fd mem a (of_int n) = Some (r, overlay mem a bs, q)"
    and q: "fd_step fd (ps s) q" "get_fd q fd = Some b'" "readable_file (fs s) b'"
  obtains s' where "ece391_read (kernel_os pt e frame temp area child) fd buf n s = Some (r, bs @ drop (length bs) buf, s')"
    "file_ready pt p video area fd s'" "user_screen video s' = user_screen video s" "ps s' = q" "fs s' = fs s"
proof -
  have u: "user_ready pt p video area s" and api: "file_api (ps s)" and fd: "2 \<le> fd" "fd < 8"
    using s by (simp_all add: file_ready_def)
  have bf: "flags b \<noteq> -1" "file_operations_pointer b = Some File_table" "op_read (tables (ps s) File_table) = Some File_read"
    using b(2) api by (simp_all add: readable_file_def file_api_def)
  have call: "call_read pt e File_read fd (phys p area) n (s\<lparr>vid := overlay (vid s) (phys p area) buf, iflag := False\<rparr>) =
      Some (r, s\<lparr>vid := overlay (overlay (vid s) (phys p area) buf) (phys p area) bs, iflag := False, ps := q\<rparr>)"
    using r by (simp add: call_read_def store_result_def)
  have fds: "0 \<le> fd" "fd \<noteq> 1" using fd by simp_all
  obtain s' where s': "ece391_read (kernel_os pt e frame temp area child) fd buf n s =
      Some (r, bs @ drop (length bs) buf, s')"
    "user_ready pt p video area s'" "user_screen video s' = user_screen video s" "ps s' = q" "fs s' = fs s"
    by (rule kernel_read_run [OF u fds(1) fd(2) fds(2) b(1) bf n buf call q(1)]) (rule that; assumption)
  have "file_ready pt p video area fd s'"
    using s'(2,4,5) q fd fd_step_api [OF q(1)] api by (simp add: file_ready_def)
  with that s' show ?thesis by blast
qed

lemma kernel_read_file:
  assumes s: "file_ready pt p video area fd s" and buf: "1024 \<le> length buf" "length buf \<le> 4096"
  obtains buf' s' where "ece391_read (kernel_os pt e frame temp area child) fd buf 1024 s =
      Some (int (length (concat (take 1 (items_of fd (fs s, ps s))))), buf', s')"
    "length buf' = length buf" "file_ready pt p video area fd s'"
    "take (length (concat (take 1 (items_of fd (fs s, ps s))))) buf' = concat (take 1 (items_of fd (fs s, ps s)))"
    "items_of fd (fs s', ps s') = drop 1 (items_of fd (fs s, ps s))" "user_screen video s' = user_screen video s"
proof -
  obtain b where b: "get_fd (ps s) fd = Some b" "readable_file (fs s) b" using s by (auto simp: file_ready_def)
  let ?it = "file_items 1024 (fs s) b"
  have it: "items_of fd (fs s, ps s) = ?it" using b(1) by (simp add: items_of_def)
  have wf: "procs_wf (ps s)" using s by (simp add: file_ready_def user_ready_def)
  obtain bs q b' where r: "\<And>mem a. file_read (fs s) (ps s) fd mem a 1024 = Some (int (length (concat (take 1 ?it))), overlay mem a bs, q)"
    "length bs \<le> 1024" "take (length (concat (take 1 ?it))) bs = concat (take 1 ?it)" "fd_step fd (ps s) q"
    "get_fd q fd = Some b'" "readable_file (fs s) b'" "file_items 1024 (fs s) b' = drop 1 ?it"
    using file_read_items [OF wf b] by blast
  have n: "(0 :: int) \<le> 1024" "(1024 :: int) < 2147483648" "length bs \<le> length buf" using r(2) buf by simp_all
  have run: "file_read (fs s) (ps s) fd mem a (of_int 1024) = Some (int (length (concat (take 1 ?it))), overlay mem a bs, q)" for mem a
    using r(1) [of mem a] by (simp only: of_int_numeral)
  obtain s' where s': "ece391_read (kernel_os pt e frame temp area child) fd buf 1024 s =
      Some (int (length (concat (take 1 ?it))), bs @ drop (length bs) buf, s')"
    "file_ready pt p video area fd s'" "user_screen video s' = user_screen video s" "ps s' = q" "fs s' = fs s"
    by (rule kernel_file_read_run [OF s b n buf(2) run r(4-6)]) (rule that; assumption)
  have "length (take (length (concat (take 1 ?it))) bs) = length (concat (take 1 ?it))" by (simp only: r(3))
  then have l: "length (concat (take 1 ?it)) \<le> length bs" by simp
  show ?thesis
  proof (rule that [OF s'(1) [folded it] _ s'(2)])
    show "length (bs @ drop (length bs) buf) = length buf" using n(3) by simp
    show "take (length (concat (take 1 (items_of fd (fs s, ps s))))) (bs @ drop (length bs) buf) =
        concat (take 1 (items_of fd (fs s, ps s)))" using r(3) l unfolding it by simp
    show "items_of fd (fs s', ps s') = drop 1 (items_of fd (fs s, ps s))"
      unfolding it using s'(4,5) r(5,7) by (simp add: items_of_def)
  qed (rule s'(3))
qed

lemma file_items_size: "c \<in> set (file_items n F b) \<Longrightarrow> c \<noteq> [] \<and> length c \<le> n \<and> set c \<subseteq> set (file_content F (inode b))"
  using chunks_size [of c n] set_drop_subset
  by (fastforce simp: file_items_def Let_def split: if_splits)

interpretation file_source: item_source "kernel_os pt e frame temp area child" "file_ready pt p video area fd"
    "\<lambda>s. (fs s, ps s)" "user_screen video" tty_char fd 1024 "items_of fd"
  for pt e frame temp area child p video fd
proof (unfold_locales, goal_cases)
  case (1 s n buf)
  then have u: "user_ready pt p video area s" by (simp add: file_ready_def)
  from terminal.write_shown [OF u 1(2-), of e frame temp child] file_ready_rest [OF _ _ 1(1)] show ?case by blast
next
  case (2 s c cs buf)
  obtain buf' s' where r: "ece391_read (kernel_os pt e frame temp area child) fd buf 1024 s =
      Some (int (length (concat (take 1 (items_of fd (fs s, ps s))))), buf', s')"
    "length buf' = length buf" "file_ready pt p video area fd s'"
    "take (length (concat (take 1 (items_of fd (fs s, ps s))))) buf' = concat (take 1 (items_of fd (fs s, ps s)))"
    "items_of fd (fs s', ps s') = drop 1 (items_of fd (fs s, ps s))" "user_screen video s' = user_screen video s"
    by (rule kernel_read_file [OF 2(1,3,4)]) (rule that; assumption)
  then show ?case unfolding 2(2) by (intro exI [of _ buf'] exI [of _ s']) simp
next
  case (3 s buf)
  obtain buf' s' where r: "ece391_read (kernel_os pt e frame temp area child) fd buf 1024 s =
      Some (int (length (concat (take 1 (items_of fd (fs s, ps s))))), buf', s')"
    "file_ready pt p video area fd s'"
    "items_of fd (fs s', ps s') = drop 1 (items_of fd (fs s, ps s))" "user_screen video s' = user_screen video s"
    by (rule kernel_read_file [OF 3(1,3,4)]) (rule that; assumption)
  then show ?case unfolding 3(2) by (intro exI [of _ buf'] exI [of _ s']) simp
next
  case (4 s c)
  then show ?case using file_items_size [of c 1024] by (auto simp: items_of_def split: option.splits)
qed

section \<open>Arguments and names\<close>

lemma kernel_getargs:
  assumes s: "user_ready pt p video area s" and c: "get_cb (ps s) (current_pid (ps s)) = Some c"
    and a: "0 \<in> set (args c)" "cstr (args c) \<noteq> []" and buf: "length buf = 1024"
  obtains buf' s' where "ece391_getargs (kernel_os pt e frame temp area child) buf 1024 s = Some (0, buf', s')"
    "length buf' = 1024" "0 \<in> set buf'" "cstr buf' = cstr (args c)"
    "user_ready pt p video area s'" "user_screen video s' = user_screen video s" "fs s' = fs s"
    "get_fd (ps s') = get_fd (ps s)" "tables (ps s') = tables (ps s)" "file_ptr (ps s') = file_ptr (ps s)"
    "dir_ptr (ps s') = dir_ptr (ps s)"
proof -
  let ?A = "phys p area" and ?as = "cstr (args c) @ [0]"
  let ?s = "s\<lparr>vid := overlay (vid s) (phys p area) buf, iflag := False\<rparr>"
  have u: "in_user pt p video s" "in_program area 4096" "procs_wf (ps s)" using s by (simp_all add: user_ready_def)
  have len: "length (args c) = 1024" using get_cb_pcb_wf [OF u(3) c] by (simp add: pcb_wf_def)
  have n: "length ?as \<le> 1024" using length_cstr_less [OF a(1)] len by simp
  have w: "walk pt ?s False area = Some ?A" using u by (auto intro: walk_program_start [where n = 4096])
  obtain q as where g: "getargs pt area 1024 ?s = Some (0, (cli ?s)\<lparr>vid := overlay (vid ?s) ?A ?as, ps := q\<rparr>)"
    "clear_args (ps s) = Some q" "procs_wf q" "get_cb q (current_pid (ps s)) = Some (c\<lparr>args := as\<rparr>)"
    "current_pid q = current_pid (ps s)"
    by (rule getargs_run [of ?s c 1024 area pt ?A])
      (use u(3) c a n in_program_nonzero [OF u(2)] w in \<open>simp_all add: that\<close>)
  have fr: "same_frame (ps s) q" by (rule clear_args_frame [OF g(2)])
  have fds: "get_fd q = get_fd (ps s)" using g(4,5) c by (auto simp: get_fd_def fun_eq_iff)
  let ?buf = "?as @ drop (length ?as) buf"
  let ?s' = "s\<lparr>vid := overlay (vid s) ?A ?buf, ps := q, iflag := iflag s\<rparr>"
  have "load_array pt area (length buf) ?s' = Some (bytes_at (vid ?s') ?A (length buf))"
    using u by (intro load_array_run [where n = 4096]) simp_all
  also have "bytes_at (vid ?s') ?A (length buf) = ?buf" using buf n by (simp add: bytes_at_overlay)
  finally have ld: "load_array pt area (length buf) ?s' = Some ?buf" .
  have cc: "cli (s\<lparr>vid := overlay (vid s) ?A buf\<rparr>) = ?s" by (simp add: cli_def)
  have ov: "overlay (overlay (vid s) ?A buf) ?A ?as = overlay (vid s) ?A ?buf" using n buf by (intro overlay_twice) simp
  have st: "store_array pt area buf s = Some (s\<lparr>vid := overlay (vid s) ?A buf\<rparr>)" by (rule store_array_run [OF u(1,2)]) simp
  have call: "DO_CALL pt e frame temp 7 area 1024 0 (s\<lparr>vid := overlay (vid s) ?A buf\<rparr>) = Some (0, ?s')"
    using g(1) ov cc by (simp add: DO_CALL_eqs) (simp add: cli_def)
  have run: "ece391_getargs (kernel_os pt e frame temp area child) buf 1024 s = Some (0, ?buf, ?s')"
    using st call ld by (simp add: kernel_os_def)
  have "user_screen video ?s' = user_screen video s"
    using user_screen_store [OF u(1,2), of ?buf "vid s"] buf n
      user_screen_cong [of ?s' "s\<lparr>vid := overlay (vid s) ?A ?buf\<rparr>" video] by simp
  moreover have "user_ready pt p video area ?s'"
    using s g(3) fds fr by (simp add: user_ready_def std_output_def same_frame_def on_screen_def)
  moreover have "cstr ?buf = cstr (args c)"
    using cstr_append_nul [of "cstr (args c)" "drop (length ?as) buf"] nul_notin_cstr [of "args c"] by simp
  ultimately show ?thesis
    using run buf n fds fr by (intro that [of ?buf ?s']) (simp_all add: same_frame_def)
qed

text \<open>The first entry of the directory with this name is of this type.\<close>

definition named :: "fsys \<Rightarrow> u8 list \<Rightarrow> u32 \<Rightarrow> dir_entry \<Rightarrow> bool" where
  "named F name kind d \<longleftrightarrow> name \<noteq> [] \<and> file_type d = kind \<and>
     (\<exists>k. find_entry F name 0 = Some k \<and> d = dir_entries F (of_nat k))"

lemma named_lookup:
  assumes "named F (cstr name) kind d"
  shows "read_dentry_by_name F (cstr name @ [0]) junk = Some (0, d)"
proof -
  obtain k where k: "find_entry F (cstr name) 0 = Some k" "d = dir_entries F (of_nat k)"
    using assms by (auto simp: named_def)
  have "cstr (cstr name @ [0]) = cstr name" using cstr_append_nul [of "cstr name" "[]"] by simp
  moreover have "length (cstr name) \<le> 32" using k(1) find_entry_Some_iff length_entry_name by metis
  ultimately show ?thesis
    using assms k read_dentry_by_name_eq [of "cstr name @ [0]" F junk] by (simp add: named_def)
qed

lemma kernel_open_file:
  assumes s: "user_ready pt p video area s" and free: "\<not> fds_full (ps s)"
    and name: "0 \<in> set name" "length name \<le> 4096" "named (fs s) (cstr name) TYPE_FILE d"
  obtains j s' where "ece391_open (kernel_os pt e frame temp area child) name s = Some (j, s')"
    "user_ready pt p video area s'" "user_screen video s' = user_screen video s" "fs s' = fs s"
    "lowest_free (ps s) j" "get_fd (ps s') j = Some (file_block (inode_num d) (ps s))"
    "put_fd (ps s) j (file_block (inode_num d) (ps s)) = Some (ps s')"
proof -
  let ?s = "s\<lparr>vid := overlay (vid s) (phys p area) name, iflag := False\<rparr>"
  have wf: "procs_wf (ps s)" using s by (simp add: user_ready_def)
  obtain j q where j: "take_slot FDT_SIZE (file_block (inode_num d)) (ps s) = Some (j, q)" "lowest_free (ps s) j"
      "put_fd (ps s) j (file_block (inode_num d) (ps s)) = Some q"
    using take_slot_free [OF wf free FDT_SIZE_ge(1)] by blast
  have "open_call e (Some (cstr name @ [0])) ?s = Some (j, (cli ?s)\<lparr>ps := q\<rparr>)"
    using named_lookup [OF name(3)] name(3) j(1) by (intro open_call_file) (simp_all add: named_def)
  then have call: "open_call e (Some (cstr name @ [0])) ?s = Some (j, ?s\<lparr>ps := q\<rparr>)" by (simp add: cli_def)
  have step: "fd_step j (ps s) q" "j \<noteq> 1" using j(2,3) by (auto simp: fd_step_def lowest_free_def)
  obtain s' where s': "ece391_open (kernel_os pt e frame temp area child) name s = Some (j, s')"
    "user_ready pt p video area s'" "user_screen video s' = user_screen video s" "ps s' = q" "fs s' = fs s"
    by (rule kernel_open_call [OF s name(1,2) call step]) (rule that; assumption)
  from that [OF s'(1-3,5) j(2)] fd_store.get_put_same [OF j(3)] j(3) s'(4) show ?thesis by simp
qed

section \<open>cat\<close>

text \<open>What \<open>cat\<close> shows of a file.\<close>

definition cat_text :: "u8 list \<Rightarrow> u8 list" where
  "cat_text content = (if length content < 1024 then content else take (length content div 1024 * 1024) content)"

lemma concat_file_items:
  "file_position b = 0 \<Longrightarrow> concat (file_items 1024 F b) = cat_text (file_content F (inode b))"
  by (simp add: file_items_def cat_text_def concat_chunks Let_def)

text \<open>
  C10: \<open>cat\<close>, run as a process of the kernel with the name of a file as its argument, ends with
  status 0 and has shown the file on the screen of the process: all of it when it is shorter than
  1024 bytes, else its whole blocks of 1024 bytes, because the last partial read reports the end
  of the file.
\<close>

theorem cat_shows_file:
  assumes s: "user_ready pt p video area s" "\<not> fds_full (ps s)" "file_api (ps s)"
    and c: "get_cb (ps s) (current_pid (ps s)) = Some c" "0 \<in> set (args c)"
    and d: "named (fs s) (cstr (args c)) TYPE_FILE d" "inode_num d \<le> inodes (fs s)"
      "length (file_content (fs s) (inode_num d)) < 2147483648" "13 \<notin> set (file_content (fs s) (inode_num d))"
    and buf: "length buf = 1024"
  shows "\<exists>s'. cat_main (kernel_os pt e frame temp area child) buf s = Some (0, s') \<and>
    user_screen video s' = fold tty_char (cat_text (file_content (fs s) (inode_num d))) (user_screen video s)"
proof -
  have "cstr (args c) \<noteq> []" using d(1) by (simp add: named_def)
  then obtain buf1 s1 where g: "ece391_getargs (kernel_os pt e frame temp area child) buf 1024 s = Some (0, buf1, s1)"
    "length buf1 = 1024" "0 \<in> set buf1" "cstr buf1 = cstr (args c)"
    "user_ready pt p video area s1" "user_screen video s1 = user_screen video s" "fs s1 = fs s"
    "get_fd (ps s1) = get_fd (ps s)" "tables (ps s1) = tables (ps s)" "file_ptr (ps s1) = file_ptr (ps s)"
    by (rule kernel_getargs [OF s(1) c _ buf]) (rule that; assumption)
  have f1: "\<not> fds_full (ps s1)" "file_api (ps s1)" using s(2,3) g(8-10) by (simp_all add: fds_full_def file_api_def)
  have n1: "named (fs s1) (cstr buf1) TYPE_FILE d" using d(1) g(4,7) by simp
  obtain j s2 where o: "ece391_open (kernel_os pt e frame temp area child) buf1 s1 = Some (j, s2)"
    "user_ready pt p video area s2" "user_screen video s2 = user_screen video s1" "fs s2 = fs s1"
    "lowest_free (ps s1) j" "get_fd (ps s2) j = Some (file_block (inode_num d) (ps s1))"
    "put_fd (ps s1) j (file_block (inode_num d) (ps s1)) = Some (ps s2)"
    by (rule kernel_open_file [OF g(5) f1(1) g(3)]) (simp add: g(2), rule n1, (rule that; assumption))
  let ?b = "file_block (inode_num d) (ps s1)"
  have b: "inode ?b = inode_num d" "file_position ?b = 0" "flags ?b = 1" "file_operations_pointer ?b = Some File_table"
    using f1(2) by (simp_all add: file_block_def file_api_def)
  have "readable_file (fs s) ?b"
    using d(2,3) b B_length_content [of "fs s" "inode_num d"] by (auto simp: readable_file_def open_file_def)
  moreover have jr: "2 \<le> j" "j < 8" using o(5) by (simp_all add: lowest_free_def)
  ultimately have ready: "file_ready pt p video area j s2"
    using o(2,4,6) g(7) f1(2) put_fd_api [OF o(7)] by (simp add: file_ready_def)
  have items: "items_of j (fs s2, ps s2) = file_items 1024 (fs s) ?b" using o(4,6) g(7) by (simp add: items_of_def)
  have "\<forall>x \<in> set (items_of j (fs s2, ps s2)). 13 \<notin> set x"
    unfolding items using file_items_size [of _ 1024 "fs s" ?b] d(4) b(1) by auto
  then obtain s' where "cat_loop (kernel_os pt e frame temp area child) j buf1 s2 = Some (0, s')"
    "user_screen video s' = fold tty_char (concat (items_of j (fs s2, ps s2))) (user_screen video s2)"
    using file_source.cat_loop_shows [OF ready refl g(2)] by blast
  then show ?thesis
    unfolding items concat_file_items [OF b(2)] b(1) cat_main_def using g(1,6) o(1,3) jr(1) by simp
qed

lemma sample_named: "named sample_fs [97] TYPE_FILE (dir_entries sample_fs 0)"
  using sample_file(1) by (auto simp: named_def find_entry_Some_iff sample_fs_entry intro: exI [of _ 0])

theorem cat_shows_file_witness:
  "\<exists>s'. cat_main (kernel_os 0x480000 quiet_env 0x7F0000 0 0x8100000 (\<lambda>_ _. None)) (replicate 1024 0)
      (user_system sample_fs [97]) = Some (0, s') \<and>
    user_screen VIDEO s' = fold tty_char [104, 105, 10] (user_screen VIDEO (user_system sample_fs [97]))"
proof -
  have a: "0 \<in> set (args (user_block [97]))" "cstr (args (user_block [97])) = [97]"
    by (simp_all add: user_block_def cstr_def)
  have n: "named (fs (user_system sample_fs [97])) (cstr (args (user_block [97]))) TYPE_FILE (dir_entries sample_fs 0)"
    using sample_named a(2) by (simp add: user_system_fields)
  have f: "cat_text (file_content sample_fs 0) = [104, 105, 10]" by (simp add: cat_text_def sample_fs_content)
  have l: "length [97 :: u8] \<le> 1024" by simp
  note p = user_procs_facts [OF l] and r = user_system_ready [OF l, of sample_fs]
  show ?thesis
    using cat_shows_file [OF r, of "user_block [97]" "dir_entries sample_fs 0" "replicate 1024 0" quiet_env "0x7F0000" 0 "\<lambda>_ _. None"]
      p a(1) n f sample_file(2) sample_fs_length sample_fs_content user_procs_block [of "[97]"]
    by (simp add: user_system_fields)
qed

end
