(* ===== verification/User_Directories.thy ===== *)
theory User_Directories
  imports User_Files
begin

text \<open>
  \<open>ls\<close> on the kernel: a directory of the kernel is a source of its names in the sense of the
  interface \<open>item_source\<close>.
\<close>

section \<open>Reading a directory\<close>

text \<open>The names of the entries from index \<open>i\<close> on that have one.\<close>

definition names_from :: "fsys \<Rightarrow> nat \<Rightarrow> u8 list list" where
  "names_from F i = filter (\<lambda>n. n \<noteq> []) (map (entry_name F) [i..<63])"

lemma names_from_next:
  assumes "i \<le> 63"
  shows "names_from F i = (case next_entry F i of None \<Rightarrow> [] | Some k \<Rightarrow> entry_name F k # names_from F (Suc k)) \<and>
    (\<forall>k. next_entry F i = Some k \<longrightarrow> k < 63 \<and> entry_name F k \<noteq> [])"
  using assms
proof (induction "63 - i" arbitrary: i)
  case 0
  then show ?case by (simp add: names_from_def next_entry_def)
next
  case (Suc m)
  then have i: "i < 63" by simp
  have IH: "names_from F (Suc i) = (case next_entry F (Suc i) of None \<Rightarrow> [] | Some k \<Rightarrow> entry_name F k # names_from F (Suc k)) \<and>
      (\<forall>k. next_entry F (Suc i) = Some k \<longrightarrow> k < 63 \<and> entry_name F k \<noteq> [])"
    using Suc.hyps(2) i by (intro Suc.hyps(1)) simp_all
  have "names_from F i = (if entry_name F i \<noteq> [] then entry_name F i # names_from F (Suc i) else names_from F (Suc i))"
    using i by (simp add: names_from_def upt_conv_Cons)
  with IH next_entry_step [OF i, of F] i show ?case by auto
qed

definition dir_api :: "procs \<Rightarrow> bool" where
  "dir_api q \<longleftrightarrow> dir_ptr q = Some Dir_table \<and> op_read (tables q Dir_table) = Some Directory_read"

text \<open>A descriptor of a directory: its flags count the entries that are left.\<close>

definition readable_dir :: "fd_block \<Rightarrow> bool" where
  "readable_dir b \<longleftrightarrow> unat (flags b) \<le> 63 \<and> unat (file_position b) \<le> 63 \<and> file_operations_pointer b = Some Dir_table"

definition names_of :: "int \<Rightarrow> fsys \<times> procs \<Rightarrow> u8 list list" where
  "names_of fd Fq = (case get_fd (snd Fq) fd of None \<Rightarrow> []
     | Some b \<Rightarrow> take (unat (flags b)) (names_from (fst Fq) (unat (file_position b))))"

definition dir_ready :: "u32 \<Rightarrow> int \<Rightarrow> u32 \<Rightarrow> u32 \<Rightarrow> int \<Rightarrow> 'a system_scheme \<Rightarrow> bool" where
  "dir_ready pt p video area fd s \<longleftrightarrow> user_ready pt p video area s \<and> dir_api (ps s) \<and> 2 \<le> fd \<and> fd < 8 \<and>
     63 \<le> unat (inodes (fs s)) \<and> (\<exists>b. get_fd (ps s) fd = Some b \<and> readable_dir b)"

lemma dir_ready_rest:
  "user_ready pt p video area s' \<Longrightarrow> (fs s', ps s') = (fs s, ps s) \<Longrightarrow> dir_ready pt p video area fd s \<Longrightarrow>
    dir_ready pt p video area fd s'"
  by (simp add: dir_ready_def)

lemma put_fd_dir: "put_fd q fd b = Some q' \<Longrightarrow> dir_ptr q' = dir_ptr q \<and> tables q' = tables q"
  by (auto simp: put_fd_def put_cb_def split: option.splits)

lemma fd_step_dir: "fd_step fd q q' \<Longrightarrow> dir_api q' = dir_api q"
  using put_fd_dir [of q fd _ q'] by (auto simp: fd_step_def dir_api_def)

lemma put_fd_twice:
  assumes "put_fd q fd b = Some q1" "put_fd q1 fd b' = Some q2"
  shows "put_fd q fd b' = Some q2"
proof -
  obtain c t cs where c: "get_cb q (current_pid q) = Some c" "aset (fd_table c) fd b = Some t"
    "aset (control_blocks q) (current_pid q) (c\<lparr>fd_table := t\<rparr>) = Some cs" "q1 = q\<lparr>control_blocks := cs\<rparr>"
    using assms(1) by (auto simp: put_fd_def put_cb_def split: option.splits)
  have "get_cb q1 (current_pid q1) = Some (c\<lparr>fd_table := t\<rparr>)"
    using c(3,4) by (auto simp: get_cb_def aget_def aset_eq_Some_iff)
  then show ?thesis
    using assms(2) c by (auto simp: put_fd_def put_cb_def get_cb_def aget_def aset_def split: option.splits if_splits)
qed

lemma fd_step_intros:
  "fd_step fd q q" "put_fd q fd b = Some q1 \<Longrightarrow> fd_step fd q q1"
  "put_fd q fd b = Some q1 \<Longrightarrow> fd_step fd q1 q2 \<Longrightarrow> fd_step fd q q2"
  unfolding fd_step_def using put_fd_twice by blast+

lemma directory_read_loop_step:
  assumes "directory_read_loop F d fd mem buf i n q = Some (r, m, q')"
  shows "fd_step fd q q'"
proof (rule directory_read_loop.raw_induct [OF _ assms, where
      P = "\<lambda>F d fd mem buf i n q y. fd_step fd q (snd (snd y))", unfolded snd_conv], goal_cases)
  case (1 f F d fd mem buf i n q y)
  have IH: "fd_step fd q1 (snd (snd y))" if "f F d' fd mem' buf i' n q1 = Some y" for d' mem' i' q1
    by (rule 1(1) [OF that])
  let ?d = "\<lambda>b. snd (read_dentry_by_index F (file_position b) d)"
  obtain b where b: "get_fd q fd = Some b" using 1(2) by (auto split: option.splits)
  note step = 1(2) [unfolded b option.case Let_def]
  show ?case
  proof (cases "flags b = 0 \<or> file_position b = of_nat MAX_DIR_ENTRIES")
    case True
    then have "y = (0, mem, q)" using step by simp
    then show ?thesis by (simp add: fd_step_intros(1))
  next
    case False
    obtain c where c: "aget (filename (?d b)) 0 = Some c" using step False by (auto split: option.splits)
    note step1 = step [unfolded c option.case if_not_P [OF False]]
    show ?thesis
    proof (cases "c = 0")
      case True
      then obtain q1 where "put_fd q fd (b\<lparr>file_position := file_position b + 1\<rparr>) = Some q1"
        "f F (?d b) fd mem buf i n q1 = Some y" using step1 by (auto split: option.splits)
      then show ?thesis using IH by (blast intro: fd_step_intros(3))
    next
      case False
      then obtain m' k i' nul where nl: "name_loop (filename (?d b)) n mem buf 0 i = Some (m', k, i', nul)"
        using step1 by (auto split: option.splits)
      note step2 = step1 [unfolded nl option.case prod.case if_not_P [OF False]]
      show ?thesis
      proof (cases "nul \<or> k = n")
        case True
        then obtain q1 where "put_fd q fd (b\<lparr>file_position := file_position b + 1, flags := flags b - 1\<rparr>) = Some q1"
          "y = (k, m', q1)" using step2 by (auto split: option.splits)
        then show ?thesis by (simp add: fd_step_intros(2))
      next
        case False
        then show ?thesis using step2 IH by simp
      qed
    qed
  qed
qed

text \<open>One read of 32 bytes from a directory.\<close>

lemma directory_read_names:
  assumes q: "procs_wf q" and b: "get_fd q fd = Some b" "readable_dir b" and nodes: "63 \<le> unat (inodes F)"
  defines "names \<equiv> take (unat (flags b)) (names_from F (unat (file_position b)))"
  shows "\<exists>bs q'. directory_read F junk q fd mem a 32 =
        Some (int (length (concat (take 1 names))), overlay mem a bs, q') \<and>
      length bs \<le> 32 \<and> take (length (concat (take 1 names))) bs = concat (take 1 names) \<and>
      fd_step fd q q' \<and> (\<exists>b'. get_fd q' fd = Some b' \<and> readable_dir b' \<and>
        take (unat (flags b')) (names_from F (unat (file_position b'))) = drop 1 names)"
proof (cases "flags b = 0")
  case True
  then have "names = []" by (simp add: names_def)
  moreover have "directory_read F junk q fd mem a 32 = Some (0, mem, q)"
    using b(1) True by (simp add: directory_read_def directory_read_loop.simps [of F junk])
  ultimately show ?thesis
    using b True by (intro exI [of _ "[]"] exI [of _ q]) (auto simp: fd_step_def)
next
  case False
  obtain m where fl: "unat (flags b) = Suc m" using False by (metis not0_implies_Suc unat_eq_0)
  have p: "unat (file_position b) \<le> 63" "file_position b = of_nat (unat (file_position b))"
    using b(2) by (simp_all add: readable_dir_def)
  note run = directory_read_loop_run [OF q b(1) False nodes le_refl p(2,1), where d = junk and mem = mem and buf = a]
  note nx = names_from_next [OF p(1), of F]
  show ?thesis
  proof (cases "next_entry F (unat (file_position b))")
    case None
    with run obtain q' where r: "directory_read F junk q fd mem a 32 = Some (0, mem, q')"
      "get_fd q' fd = Some (b\<lparr>file_position := 63\<rparr>)" by (auto simp: directory_read_def)
    moreover have "fd_step fd q q'" using directory_read_loop_step r(1) by (simp add: directory_read_def)
    moreover have "names = []" "names_from F 63 = []" using nx None by (simp_all add: names_def names_from_def)
    ultimately show ?thesis using b(2) by (intro exI [of _ "[]"] exI [of _ q']) (simp add: readable_dir_def)
  next
    case (Some k)
    let ?n = "entry_name F k"
    have k: "k < 63" "?n \<noteq> []" "length ?n \<le> 32" using nx Some length_entry_name by auto
    from run Some k(3) obtain q' where r: "directory_read F junk q fd mem a 32 =
        Some (int (length ?n), overlay mem a (name_bytes ?n 32), q')"
      "get_fd q' fd = Some (b\<lparr>file_position := of_nat k + 1, flags := flags b - 1\<rparr>)"
      by (auto simp: directory_read_def min_absorb2)
    have "fd_step fd q q'" using directory_read_loop_step r(1) by (simp add: directory_read_def)
    moreover have "unat (of_nat k + 1 :: u32) = Suc k" using k(1) by (simp add: unat_word_ariths unat_of_nat)
    moreover have "unat (flags b - 1) = m" using fl False by (simp add: unat_minus_one)
    moreover have "names = ?n # take m (names_from F (Suc k))" using nx Some fl by (simp add: names_def)
    ultimately show ?thesis
      using r k b(2) fl by (intro exI [of _ "name_bytes ?n 32"] exI [of _ q']) (simp add: name_bytes_def readable_dir_def)
  qed
qed

lemma kernel_read_dir:
  assumes s: "dir_ready pt p video area fd s" and buf: "32 \<le> length buf" "length buf \<le> 4096"
  obtains buf' s' where "ece391_read (kernel_os pt e frame temp area child) fd buf 32 s =
      Some (int (length (concat (take 1 (names_of fd (fs s, ps s))))), buf', s')"
    "length buf' = length buf" "dir_ready pt p video area fd s'"
    "take (length (concat (take 1 (names_of fd (fs s, ps s))))) buf' = concat (take 1 (names_of fd (fs s, ps s)))"
    "names_of fd (fs s', ps s') = drop 1 (names_of fd (fs s, ps s))" "user_screen video s' = user_screen video s"
    "fs s' = fs s" "fd_step fd (ps s) (ps s')"
proof -
  have u: "user_ready pt p video area s" and api: "dir_api (ps s)" and fd: "2 \<le> fd" "fd < 8"
    and nodes: "63 \<le> unat (inodes (fs s))"
    using s by (simp_all add: dir_ready_def)
  obtain b where b: "get_fd (ps s) fd = Some b" "readable_dir b" using s by (auto simp: dir_ready_def)
  let ?it = "take (unat (flags b)) (names_from (fs s) (unat (file_position b)))"
  have it: "names_of fd (fs s, ps s) = ?it" using b(1) by (simp add: names_of_def)
  have wf: "procs_wf (ps s)" using u by (simp add: user_ready_def)
  let ?m = "overlay (vid s) (phys p area) buf"
  obtain bs q b' where r: "directory_read (fs s) (e_dentry e) (ps s) fd ?m (phys p area) 32 =
      Some (int (length (concat (take 1 ?it))), overlay ?m (phys p area) bs, q)"
    "length bs \<le> 32" "take (length (concat (take 1 ?it))) bs = concat (take 1 ?it)" "fd_step fd (ps s) q"
    "get_fd q fd = Some b'" "readable_dir b'" "take (unat (flags b')) (names_from (fs s) (unat (file_position b'))) = drop 1 ?it"
    using directory_read_names [OF wf b nodes, of "e_dentry e" ?m "phys p area"] by blast
  have "\<not> unat (-1 :: u32) \<le> 63" by (simp add: unsigned_minus_1_eq_mask mask_eq_exp_minus_1)
  then have "flags b \<noteq> -1" using b(2) by (auto simp: readable_dir_def)
  note bf = this and bt = b(2) [unfolded readable_dir_def, THEN conjunct2, THEN conjunct2]
  have call: "call_read pt e Directory_read fd (phys p area) 32 (s\<lparr>vid := ?m, iflag := False\<rparr>) =
      Some (int (length (concat (take 1 ?it))), s\<lparr>vid := overlay ?m (phys p area) bs, iflag := False, ps := q\<rparr>)"
    using r(1) by (simp add: call_read_def store_result_def)
  have fds: "0 \<le> fd" "fd \<noteq> 1" "(0 :: int) \<le> 32" "(32 :: int) < 2147483648" "length bs \<le> length buf"
    "op_read (tables (ps s) Dir_table) = Some Directory_read"
    using fd r(2) buf api by (simp_all add: dir_api_def)
  obtain s' where s': "ece391_read (kernel_os pt e frame temp area child) fd buf 32 s =
      Some (int (length (concat (take 1 ?it))), bs @ drop (length bs) buf, s')"
    "user_ready pt p video area s'" "user_screen video s' = user_screen video s" "ps s' = q" "fs s' = fs s"
    by (rule kernel_read_run [OF u fds(1) fd(2) fds(2) b(1) bf bt fds(6) fds(3-5) buf(2) call r(4)]) (rule that; assumption)
  have "length (take (length (concat (take 1 ?it))) bs) = length (concat (take 1 ?it))" by (simp only: r(3))
  then have l: "length (concat (take 1 ?it)) \<le> length bs" by simp
  show ?thesis
  proof (rule that [OF s'(1) [folded it]])
    show "length (bs @ drop (length bs) buf) = length buf" using fds(5) by simp
    show "dir_ready pt p video area fd s'"
      using s'(2,4,5) r(5,6) fd nodes fd_step_dir [OF r(4)] api by (simp add: dir_ready_def)
    show "take (length (concat (take 1 (names_of fd (fs s, ps s))))) (bs @ drop (length bs) buf) =
        concat (take 1 (names_of fd (fs s, ps s)))" using r(3) l unfolding it by simp
    show "names_of fd (fs s', ps s') = drop 1 (names_of fd (fs s, ps s))"
      unfolding it using s'(4,5) r(5,7) by (simp add: names_of_def)
    show "fd_step fd (ps s) (ps s')" using r(4) s'(4) by simp
  qed (rule s'(3), rule s'(5))
qed

lemma names_from_size: "c \<in> set (names_from F i) \<Longrightarrow> c \<noteq> [] \<and> length c \<le> 32"
  using length_entry_name by (auto simp: names_from_def)

interpretation dir_source: item_source "kernel_os pt e frame temp area child" "dir_ready pt p video area fd"
    "\<lambda>s. (fs s, ps s)" "user_screen video" tty_char fd 32 "names_of fd"
  for pt e frame temp area child p video fd
proof (unfold_locales, goal_cases)
  case (1 s n buf)
  then have u: "user_ready pt p video area s" by (simp add: dir_ready_def)
  from terminal.write_shown [OF u 1(2-), of e frame temp child] dir_ready_rest [OF _ _ 1(1)] show ?case by blast
next
  case (2 s c cs buf)
  obtain buf' s' where r: "ece391_read (kernel_os pt e frame temp area child) fd buf 32 s =
      Some (int (length (concat (take 1 (names_of fd (fs s, ps s))))), buf', s')"
    "length buf' = length buf" "dir_ready pt p video area fd s'"
    "take (length (concat (take 1 (names_of fd (fs s, ps s))))) buf' = concat (take 1 (names_of fd (fs s, ps s)))"
    "names_of fd (fs s', ps s') = drop 1 (names_of fd (fs s, ps s))" "user_screen video s' = user_screen video s"
    by (rule kernel_read_dir [OF 2(1,3,4)]) (rule that; assumption)
  then show ?case unfolding 2(2) by (intro exI [of _ buf'] exI [of _ s']) simp
next
  case (3 s buf)
  obtain buf' s' where r: "ece391_read (kernel_os pt e frame temp area child) fd buf 32 s =
      Some (int (length (concat (take 1 (names_of fd (fs s, ps s))))), buf', s')"
    "dir_ready pt p video area fd s'"
    "names_of fd (fs s', ps s') = drop 1 (names_of fd (fs s, ps s))" "user_screen video s' = user_screen video s"
    by (rule kernel_read_dir [OF 3(1,3,4)]) (rule that; assumption)
  then show ?case unfolding 3(2) by (intro exI [of _ buf'] exI [of _ s']) simp
next
  case (4 s c)
  then show ?case using names_from_size by (auto simp: names_of_def split: option.splits dest: in_set_takeD)
qed

section \<open>ls\<close>

definition dot :: "u8 list" where "dot = [46]"

lemma c_string_dot: "cstr (c_string ''.'') = dot" "length (c_string ''.'') = 2"
  by (simp_all add: c_string_def cstr_def dot_def)

lemma kernel_open_dir:
  assumes s: "user_ready pt p video area s" and free: "\<not> fds_full (ps s)"
    and name: "0 \<in> set name" "length name \<le> 4096" "named (fs s) (cstr name) TYPE_DIR d"
  obtains j s' where "ece391_open (kernel_os pt e frame temp area child) name s = Some (j, s')"
    "user_ready pt p video area s'" "user_screen video s' = user_screen video s" "fs s' = fs s"
    "lowest_free (ps s) j" "get_fd (ps s') j = Some (directory_block (num_dir_entries (fs s)) (ps s))"
    "put_fd (ps s) j (directory_block (num_dir_entries (fs s)) (ps s)) = Some (ps s')"
proof -
  let ?s = "s\<lparr>vid := overlay (vid s) (phys p area) name, iflag := False\<rparr>"
  let ?b = "directory_block (num_dir_entries (fs s))"
  have wf: "procs_wf (ps s)" using s by (simp add: user_ready_def)
  obtain j q where j: "take_slot (FDT_SIZE - 1) ?b (ps s) = Some (j, q)" "lowest_free (ps s) j" "put_fd (ps s) j (?b (ps s)) = Some q"
    using take_slot_free [OF wf free FDT_SIZE_ge(2)] by blast
  have call: "open_call e (Some (cstr name @ [0])) ?s = Some (j, ?s\<lparr>ps := q\<rparr>)"
    using named_lookup [OF name(3)] name(3) j(1)
    by (simp add: open_call_def directory_open_def on_procs_def cli_def named_def TYPE_RTC_def TYPE_DIR_def)
  have step: "fd_step j (ps s) q" "j \<noteq> 1" using j(2,3) by (auto simp: fd_step_def lowest_free_def)
  obtain s' where s': "ece391_open (kernel_os pt e frame temp area child) name s = Some (j, s')"
    "user_ready pt p video area s'" "user_screen video s' = user_screen video s" "ps s' = q" "fs s' = fs s"
    by (rule kernel_open_call [OF s name(1,2) call step]) (rule that; assumption)
  from that [OF s'(1-3,5) j(2)] fd_store.get_put_same [OF j(3)] j(3) s'(4) show ?thesis by simp
qed

text \<open>
  C11: \<open>ls\<close>, run as a process of the kernel, ends with status 0 and has shown the names of the
  directory, each on a line of its own: the first \<open>num_dir_entries\<close> entries that have a name, in the
  order of the directory, on an image with at least 63 inodes.
\<close>

theorem ls_shows_directory:
  assumes s: "user_ready pt p video area s" "\<not> fds_full (ps s)" "dir_api (ps s)"
    and d: "named (fs s) dot TYPE_DIR d" "63 \<le> unat (inodes (fs s))" "unat (num_dir_entries (fs s)) \<le> 63"
      "\<forall>c \<in> set (names_from (fs s) 0). 13 \<notin> set c"
    and buf: "length buf = 33"
  shows "\<exists>s'. ls_main (kernel_os pt e frame temp area child) buf s = Some (0, s') \<and>
    user_screen video s' = fold tty_char
      (concat (map (\<lambda>c. c @ [10]) (take (unat (num_dir_entries (fs s))) (names_from (fs s) 0)))) (user_screen video s)"
proof -
  let ?b = "directory_block (num_dir_entries (fs s)) (ps s)"
  obtain j s1 where o: "ece391_open (kernel_os pt e frame temp area child) (c_string ''.'') s = Some (j, s1)"
    "user_ready pt p video area s1" "user_screen video s1 = user_screen video s" "fs s1 = fs s"
    "lowest_free (ps s) j" "get_fd (ps s1) j = Some ?b" "put_fd (ps s) j ?b = Some (ps s1)"
    by (rule kernel_open_dir [OF s(1,2) nul_in_c_string, of "''.''" d])
      (simp add: c_string_dot, simp add: c_string_dot d(1), (rule that; assumption))
  have b: "flags ?b = num_dir_entries (fs s)" "file_position ?b = 0" "file_operations_pointer ?b = Some Dir_table"
    using s(3) by (simp_all add: directory_block_def dir_api_def)
  have jr: "2 \<le> j" "j < 8" using o(5) by (simp_all add: lowest_free_def)
  have ready: "dir_ready pt p video area j s1"
    using o(2,4,6) jr d(2,3) b s(3) put_fd_dir [OF o(7)] by (simp add: dir_ready_def readable_dir_def dir_api_def)
  have names: "names_of j (fs s1, ps s1) = take (unat (num_dir_entries (fs s))) (names_from (fs s) 0)"
    using o(4,6) b by (simp add: names_of_def)
  have "\<forall>x \<in> set (names_of j (fs s1, ps s1)). 13 \<notin> set x" unfolding names using d(4) by (auto dest: in_set_takeD)
  then obtain s' where "ls_loop (kernel_os pt e frame temp area child) j buf s1 = Some (0, s')"
    "user_screen video s' = fold tty_char (concat (map (\<lambda>c. c @ [10]) (names_of j (fs s1, ps s1)))) (user_screen video s1)"
    using dir_source.ls_loop_shows [OF ready refl buf] by blast
  then show ?thesis unfolding names ls_main_def using o(1,3) jr(1) by simp
qed

text \<open>An image with the directory itself and one file, \<open>b\<close>.\<close>

definition ls_mem :: memory where
  "ls_mem = (\<lambda>_. 0)(0 := 2, 4 := 64, 64 := 46, 96 := 1, 128 := 98, 160 := 2)"

definition ls_fs :: fsys where
  "ls_fs = boot_block_init 0 ls_mem"

lemma ls_fs_eq: "ls_fs = \<lparr>fs_mem = ls_mem, casted_block = 0, node_list = 4096, data_list = 266240\<rparr>"
  by (simp add: ls_fs_def boot_block_init_def inodes_def load32_def ls_mem_def FILE_SIZE_def)

lemma ls_fs_facts:
  "inodes ls_fs = 64" "num_dir_entries ls_fs = 2" "named ls_fs dot TYPE_DIR (dir_entries ls_fs 0)"
  "entry_name ls_fs 0 = [46]" "entry_name ls_fs 1 = [98]" "2 \<le> i \<Longrightarrow> i < 63 \<Longrightarrow> entry_name ls_fs i = []"
proof -
  show "inodes ls_fs = 64" "num_dir_entries ls_fs = 2"
    by (simp_all add: ls_fs_eq inodes_def num_dir_entries_def load32_def ls_mem_def)
  show e: "entry_name ls_fs 0 = [46]" "entry_name ls_fs 1 = [98]"
    by (simp_all add: ls_fs_eq entry_name_def dir_entries_def bytes_at_def Let_def FILENAME_SIZE_def ls_mem_def upt_32 cstr_def)
  have "file_type (dir_entries ls_fs 0) = TYPE_DIR"
    by (simp add: ls_fs_eq dir_entries_def Let_def load32_def ls_mem_def TYPE_DIR_def)
  with e(1) show "named ls_fs dot TYPE_DIR (dir_entries ls_fs 0)"
    by (auto simp: named_def dot_def find_entry_Some_iff intro: exI [of _ 0])
  assume i: "2 \<le> i" "i < 63"
  have "unat (64 + 64 * of_nat i :: u32) = 64 + 64 * i" using i(2) by (simp add: unat_word_ariths unat_of_nat)
  moreover have "ls_mem a = 0" if "192 \<le> unat a" for a using that by (auto simp: ls_mem_def)
  ultimately have "ls_mem (64 + 64 * of_nat i) = 0" using i(1) by simp
  then show "entry_name ls_fs i = []"
    by (simp add: entry_name_empty_iff ls_fs_eq dir_entries_def bytes_at_def Let_def FILENAME_SIZE_def)
qed

lemma ls_fs_names: "names_from ls_fs 0 = [[46], [98]]"
proof -
  have "[0..<63] = 0 # 1 # [2..<63]" by (simp add: upt_conv_Cons)
  moreover have "map (entry_name ls_fs) [2..<63] = map (\<lambda>_. []) [2..<63]"
    using ls_fs_facts(6) by (intro map_cong) auto
  ultimately show ?thesis using ls_fs_facts(4,5) by (simp add: names_from_def del: upt_Suc)
qed

theorem ls_shows_directory_witness:
  "\<exists>s'. ls_main (kernel_os 0x480000 quiet_env 0x7F0000 0 0x8100000 (\<lambda>_ _. None)) (replicate 33 0)
      (user_system ls_fs []) = Some (0, s') \<and>
    user_screen VIDEO s' = fold tty_char [46, 10, 98, 10] (user_screen VIDEO (user_system ls_fs []))"
proof -
  have l: "length ([] :: u8 list) \<le> 1024" by simp
  note p = user_procs_facts [OF l] and r = user_system_ready [OF l, of ls_fs]
  have api: "dir_api (user_procs [])" by (simp add: dir_api_def user_procs_def)
  show ?thesis
    using ls_shows_directory [OF r, of "dir_entries ls_fs 0" "replicate 33 0" quiet_env "0x7F0000" 0 "\<lambda>_ _. None"]
      p api ls_fs_facts(1-3) ls_fs_names by (simp add: user_system_fields)
qed

end
