(* ===== verification/User_Errors.thy ===== *)
theory User_Errors
  imports User_Directories
begin

text \<open>
  The program \<open>syserr\<close> of \<^verbatim>\<open>syscalls/ece391syserr.c\<close>, which tests how the system calls fail, and
  what it finds on this kernel. The local arrays the tests pass without initialising them are
  the argument \<open>junk\<close>.
\<close>

section \<open>The tests\<close>

definition NEG_FD :: int where "NEG_FD = -1073741823"
definition BIG_FD :: int where "BIG_FD = 1073741823"
definition BIG_NUM :: int where "BIG_NUM = 1073741823"
definition NEG_NUM :: int where "NEG_NUM = -1073741823"

text \<open>\<open>if (-1 != r) { fail = 2; ece391_fdputs (1, msg); }\<close>, for a call that returned \<open>r\<close> in state \<open>s\<close>.\<close>

definition expect_failure :: "('s, 'a) os_scheme \<Rightarrow> string \<Rightarrow> int \<Rightarrow> int \<Rightarrow> 's \<Rightarrow> (int \<times> 's) option" where
  "expect_failure os msg fail r s =
     (if -1 \<noteq> r then do { s \<leftarrow> ece391_fdputs os 1 (c_string (msg @ newline)) s; Some (2, s) }
      else Some (fail, s))"

definition quoted :: "string \<Rightarrow> string" where
  "quoted t = [CHR 0x27] @ t @ [CHR 0x27]"

definition verdict :: "('s, 'a) os_scheme \<Rightarrow> string \<Rightarrow> int \<Rightarrow> 's \<Rightarrow> (int \<times> 's) option" where
  "verdict os name fail s = do {
     s \<leftarrow> ece391_fdputs os 1 (c_string (name @ (if fail \<noteq> 0 then '': FAIL'' else '': PASS'') @ newline)) s;
     Some (fail, s) }"

definition err_fd :: "('s, 'a) os_scheme \<Rightarrow> string \<Rightarrow> int \<Rightarrow> u8 list \<Rightarrow> 's \<Rightarrow> (int \<times> 's) option" where
  "err_fd os name fd junk s = do {
     (r, buf, s) \<leftarrow> ece391_read os fd junk 31 s;
     (fail, s) \<leftarrow> expect_failure os ''read fail'' 0 r s;
     (r, s) \<leftarrow> ece391_write os fd buf 31 s;
     (fail, s) \<leftarrow> expect_failure os ''write fail'' fail r s;
     (r, s) \<leftarrow> ece391_close os fd s;
     (fail, s) \<leftarrow> expect_failure os ''close fail'' fail r s;
     verdict os name fail s }"

definition err_neg_fd :: "('s, 'a) os_scheme \<Rightarrow> u8 list \<Rightarrow> 's \<Rightarrow> (int \<times> 's) option" where
  "err_neg_fd os = err_fd os ''err_neg_fd'' NEG_FD"

definition err_big_fd :: "('s, 'a) os_scheme \<Rightarrow> u8 list \<Rightarrow> 's \<Rightarrow> (int \<times> 's) option" where
  "err_big_fd os = err_fd os ''err_big_fd'' BIG_FD"

definition err_open_lots :: "('s, 'a) os_scheme \<Rightarrow> 's \<Rightarrow> (int \<times> 's) option" where
  "err_open_lots os s = do {
     (cnt, s) \<leftarrow> loop_opt 0 7 (\<lambda>i (cnt, s). do {
       (r, s) \<leftarrow> ece391_open os (c_string ''.'') s;
       Some (if -1 = r then cnt + 1 else cnt, s) }) (0 :: int, s);
     s \<leftarrow> loop_opt 2 8 (\<lambda>i s. do { (r, s) \<leftarrow> ece391_close os i s; Some s }) s;
     verdict os ''err_open_lots'' (if cnt = 1 then 0 else 2) s }"

definition err_open :: "('s, 'a) os_scheme \<Rightarrow> 's \<Rightarrow> (int \<times> 's) option" where
  "err_open os s = do {
     (r, s) \<leftarrow> ece391_open os (c_string ''helloo'') s;
     (fail, s) \<leftarrow> expect_failure os (quoted ''helloo'' @ '' fail'') 0 r s;
     (r, s) \<leftarrow> ece391_open os (c_string ''shel'') s;
     (fail, s) \<leftarrow> expect_failure os (quoted ''shel'' @ '' fail'') fail r s;
     (r, s) \<leftarrow> ece391_open os (c_string []) s;
     (fail, s) \<leftarrow> expect_failure os ''empty string fail'' fail r s;
     verdict os ''err_open'' fail s }"

definition err_unopened :: "('s, 'a) os_scheme \<Rightarrow> u8 list \<Rightarrow> 's \<Rightarrow> (int \<times> 's) option" where
  "err_unopened os junk s = do {
     (fail, s) \<leftarrow> loop_opt 0 8 (\<lambda>i (fail, s). do {
       (r, s) \<leftarrow> ece391_close os i s;
       expect_failure os ''close unopened or invalid fd fail'' fail r s }) (0, s);
     (fail, buf, s) \<leftarrow> loop_opt 2 8 (\<lambda>i (fail, buf, s). do {
       (r, buf, s) \<leftarrow> ece391_read os i buf 31 s;
       (fail, s) \<leftarrow> expect_failure os ''read from unopened fd fail'' fail r s;
       Some (fail, buf, s) }) (fail, junk, s);
     (fail, s) \<leftarrow> loop_opt 2 8 (\<lambda>i (fail, s). do {
       (r, s) \<leftarrow> ece391_write os i buf 31 s;
       expect_failure os ''write to unopened fd fail'' fail r s }) (fail, s);
     verdict os ''err_unopened'' fail s }"

definition err_vidmap :: "('s, 'a) os_scheme \<Rightarrow> 's \<Rightarrow> (int \<times> 's) option" where
  "err_vidmap os s = do {
     (r, s) \<leftarrow> ece391_vidmap os 0 s;
     (fail, s) \<leftarrow> expect_failure os ''Null pointer fail'' 0 r s;
     (r, s) \<leftarrow> ece391_vidmap os 0x400000 s;
     (fail, s) \<leftarrow> expect_failure os ''Kernel pointer fail fail'' fail r s;
     verdict os ''err_vidmap'' fail s }"

definition err_stdin_out :: "('s, 'a) os_scheme \<Rightarrow> u8 list \<Rightarrow> 's \<Rightarrow> (int \<times> 's) option" where
  "err_stdin_out os junk s = do {
     (r, s) \<leftarrow> ece391_write os 0 junk 31 s;
     (fail, s) \<leftarrow> expect_failure os ''write to stdin fail'' 0 r s;
     (r, buf, s) \<leftarrow> ece391_read os 1 junk 31 s;
     (fail, s) \<leftarrow> expect_failure os ''read from stdout fail'' fail r s;
     verdict os ''err_stdin_out'' fail s }"

definition err_syscall_num :: "('s, 'a) os_scheme \<Rightarrow> 's \<Rightarrow> (int \<times> 's) option" where
  "err_syscall_num os s = do {
     (r, s) \<leftarrow> call_sys os BIG_NUM s;
     (fail, s) \<leftarrow> expect_failure os ''syscall 0 fail'' 0 r s;
     (r, s) \<leftarrow> call_sys os NEG_NUM s;
     (fail, s) \<leftarrow> expect_failure os ''big num syscall fail'' fail r s;
     (r, s) \<leftarrow> call_sys os 0 s;
     (fail, s) \<leftarrow> expect_failure os ''neg num syscall fail'' fail r s;
     verdict os ''err_syscall_num'' fail s }"

text \<open>The tests in the order of \<open>main\<close>, and the choice it makes.\<close>

definition syserr_tests :: "('s, 'a) os_scheme \<Rightarrow> u8 list \<Rightarrow> ('s \<Rightarrow> (int \<times> 's) option) list" where
  "syserr_tests os junk = [err_neg_fd os junk, err_big_fd os junk, err_open_lots os, err_open os,
     err_unopened os junk, err_vidmap os, err_stdin_out os junk, err_syscall_num os]"

fun sum_tests :: "('s \<Rightarrow> (int \<times> 's) option) list \<Rightarrow> int \<Rightarrow> 's \<Rightarrow> (int \<times> 's) option" where
  "sum_tests [] fail s = Some (fail, s)"
| "sum_tests (t # ts) fail s = do { (r, s) \<leftarrow> t s; sum_tests ts (fail + r) s }"

definition syserr_run :: "('s, 'a) os_scheme \<Rightarrow> u8 list \<Rightarrow> int \<Rightarrow> 's \<Rightarrow> (int \<times> 's) option" where
  "syserr_run os junk select s =
     (if select = 0 then do {
        (fail, s) \<leftarrow> sum_tests (syserr_tests os junk) 0 s;
        s \<leftarrow> ece391_fdputs os 1 (c_string (newline @ ''Overall Tests: '' @
          (if fail \<noteq> 0 then ''FAIL'' else ''PASS'') @ newline)) s;
        Some (fail, s) }
      else if 1 \<le> select \<and> select \<le> 8 then (syserr_tests os junk ! nat (select - 1)) s
      else do {
        s \<leftarrow> ece391_fdputs os 1 (c_string ''Invalid test number. Choose from tests 1-8 or 0'') s;
        Some (0, s) })"

definition syserr_main :: "('s, 'a) os_scheme \<Rightarrow> u8 list \<Rightarrow> u8 list \<Rightarrow> 's \<Rightarrow> (int \<times> 's) option" where
  "syserr_main os buf junk s = do {
     s \<leftarrow> ece391_fdputs os 1 (c_string ''Choose from tests 1-8. 0 to run all: '') s;
     (cnt, buf, s) \<leftarrow> ece391_read os 0 buf 127 s;
     if -1 = cnt then do {
       s \<leftarrow> ece391_fdputs os 1 (c_string (''Can't read test #'' @ newline)) s;
       Some (2, s) }
     else do {
       c \<leftarrow> aget buf 0;
       syserr_run os junk (uint c - 48) s } }"

section \<open>What the tests expect\<close>

definition is_int32 :: "int \<Rightarrow> bool" where
  "is_int32 n \<longleftrightarrow> - 2147483648 \<le> n \<and> n < 2147483648"

text \<open>The line a test that passes shows.\<close>

definition pass_text :: "string \<Rightarrow> u8 list" where
  "pass_text name = map of_char (name @ '': PASS'' @ newline)"

text \<open>A text that can be shown as it is.\<close>

definition plain :: "string \<Rightarrow> bool" where
  "plain t \<longleftrightarrow> t \<noteq> [] \<and> length t < 4096 \<and> (\<forall>c \<in> set t. (of_char c :: u8) \<noteq> 0 \<and> (of_char c :: u8) \<noteq> 13)"

text \<open>
  A system whose calls reject what they should: \<open>opened\<close> is the set of descriptors from 2 on that
  are open; the lowest closed one is taken by \<open>open\<close>, which fails when 2 to 7 are open.
\<close>

locale checked_calls = text_output os ready opened screen show_char
  for os :: "('s, 'a) os_scheme"
    and ready :: "'s \<Rightarrow> bool"
    and opened :: "'s \<Rightarrow> int set"
    and screen :: "'s \<Rightarrow> 't"
    and show_char :: "u8 \<Rightarrow> 't \<Rightarrow> 't" +
  assumes read_rejected: "ready s \<Longrightarrow> is_int32 fd \<Longrightarrow> fd \<noteq> 0 \<Longrightarrow> fd \<notin> opened s \<Longrightarrow> length buf = 32 \<Longrightarrow>
    \<exists>buf' s'. ece391_read os fd buf 31 s = Some (-1, buf', s') \<and> length buf' = 32 \<and> ready s' \<and>
      opened s' = opened s \<and> screen s' = screen s"
    and write_rejected: "ready s \<Longrightarrow> is_int32 fd \<Longrightarrow> fd \<noteq> 1 \<Longrightarrow> fd \<notin> opened s \<Longrightarrow> length buf = 32 \<Longrightarrow>
    \<exists>s'. ece391_write os fd buf 31 s = Some (-1, s') \<and> ready s' \<and> opened s' = opened s \<and> screen s' = screen s"
    and close_rejected: "ready s \<Longrightarrow> is_int32 fd \<Longrightarrow> fd \<notin> opened s \<Longrightarrow>
    \<exists>s'. ece391_close os fd s = Some (-1, s') \<and> ready s' \<and> opened s' = opened s \<and> screen s' = screen s"
    and close_accepted: "ready s \<Longrightarrow> fd \<in> opened s \<Longrightarrow>
    \<exists>s'. ece391_close os fd s = Some (0, s') \<and> ready s' \<and> opened s' = opened s - {fd} \<and> screen s' = screen s"
    and open_directory: "ready s \<Longrightarrow> opened s = {2..<k} \<Longrightarrow> 2 \<le> k \<Longrightarrow> k \<le> 8 \<Longrightarrow>
    \<exists>s'. ece391_open os (c_string ''.'') s = Some (if k < 8 then k else -1, s') \<and> ready s' \<and>
      opened s' = {2..<min (k + 1) 8} \<and> screen s' = screen s"
    and open_missing: "ready s \<Longrightarrow> name \<in> {''helloo'', ''shel'', []} \<Longrightarrow>
    \<exists>s'. ece391_open os (c_string name) s = Some (-1, s') \<and> ready s' \<and> opened s' = opened s \<and> screen s' = screen s"
    and vidmap_rejected: "ready s \<Longrightarrow> a = 0 \<or> a = 0x400000 \<Longrightarrow>
    \<exists>s'. ece391_vidmap os a s = Some (-1, s') \<and> ready s' \<and> opened s' = opened s \<and> screen s' = screen s"
    and number_rejected: "ready s \<Longrightarrow> is_int32 n \<Longrightarrow> n < 1 \<or> 10 < n \<Longrightarrow>
    \<exists>s'. call_sys os n s = Some (-1, s') \<and> ready s' \<and> opened s' = opened s \<and> screen s' = screen s"
begin

text \<open>What it is to pass a test, on a system where nothing is open.\<close>

definition passes :: "('s \<Rightarrow> (int \<times> 's) option) \<Rightarrow> string \<Rightarrow> bool" where
  "passes t name \<longleftrightarrow> (\<forall>s. ready s \<and> opened s = {} \<longrightarrow> (\<exists>s'. t s = Some (0, s') \<and> ready s' \<and> opened s' = {} \<and>
     screen s' = fold show_char (pass_text name) (screen s)))"

lemma puts_plain:
  assumes "ready s" "plain t"
  shows "\<exists>s'. ece391_fdputs os 1 (c_string t) s = Some s' \<and> ready s' \<and> opened s' = opened s \<and>
    screen s' = fold show_char (map of_char t) (screen s)"
proof -
  have "0 \<notin> set (map of_char t :: u8 list)" using assms(2) by (force simp: plain_def)
  then have c: "cstr (c_string t) = map of_char t" using cstr_append_nul [of "map of_char t" "[]"] by (simp add: c_string_def)
  have "13 \<notin> set (map of_char t :: u8 list)" "map of_char t \<noteq> ([] :: u8 list)" "length (c_string t) \<le> 4096"
    using assms(2) by (force simp: plain_def c_string_def)+
  with fdputs_shown [OF assms(1), of "c_string t"] show ?thesis unfolding c by simp
qed

lemma verdict_pass:
  assumes "ready s" "plain (name @ '': PASS'' @ newline)"
  shows "\<exists>s'. verdict os name 0 s = Some (0, s') \<and> ready s' \<and> opened s' = opened s \<and>
    screen s' = fold show_char (pass_text name) (screen s)"
  using puts_plain [OF assms] by (auto simp: verdict_def pass_text_def)

lemma plain_names:
  "n \<in> {''err_neg_fd'', ''err_big_fd'', ''err_open_lots'', ''err_open'', ''err_unopened'', ''err_vidmap'', ''err_stdin_out'',
     ''err_syscall_num''} \<Longrightarrow> plain (n @ '': PASS'' @ newline)"
  by (auto simp: plain_def newline_def)

lemma expect_met: "expect_failure os msg fail (-1) s = Some (fail, s)"
  by (simp add: expect_failure_def)

lemma err_fd_passes:
  assumes "is_int32 fd" "fd < 0 \<or> 8 \<le> fd" "plain (name @ '': PASS'' @ newline)" "length junk = 32"
  shows "passes (err_fd os name fd junk) name"
  unfolding passes_def
proof (intro allI impI, elim conjE)
  fix s assume s: "ready s" "opened s = {}"
  have fd: "fd \<noteq> 0" "fd \<noteq> 1" using assms(2) by auto
  obtain buf s1 where r: "ece391_read os fd junk 31 s = Some (-1, buf, s1)" "length buf = 32" "ready s1" "opened s1 = {}"
    "screen s1 = screen s" using read_rejected [OF s(1) assms(1) fd(1) _ assms(4)] s(2) by auto
  obtain s2 where w: "ece391_write os fd buf 31 s1 = Some (-1, s2)" "ready s2" "opened s2 = {}" "screen s2 = screen s"
    using write_rejected [OF r(3) assms(1) fd(2) _ r(2)] r(4,5) by auto
  obtain s3 where c: "ece391_close os fd s2 = Some (-1, s3)" "ready s3" "opened s3 = {}" "screen s3 = screen s"
    using close_rejected [OF w(2) assms(1)] w(3,4) by auto
  show "\<exists>s'. err_fd os name fd junk s = Some (0, s') \<and> ready s' \<and> opened s' = {} \<and>
      screen s' = fold show_char (pass_text name) (screen s)"
    using verdict_pass [OF c(2) assms(3)] r(1) w(1) c(1,3,4) by (simp add: err_fd_def expect_met)
qed

lemma err_open_lots_passes: "passes (err_open_lots os) ''err_open_lots''"
  unfolding passes_def
proof (intro allI impI, elim conjE)
  fix s assume s: "ready s" "opened s = {}"
  let ?P = "\<lambda>i (cnt, t). ready t \<and> screen t = screen s \<and> opened t = {2..<min (i + 2) 8} \<and> cnt = (if i = 7 then 1 else 0 :: int)"
  have "\<exists>r. loop_opt 0 7 (\<lambda>i (cnt, s). do { (r, s) \<leftarrow> ece391_open os (c_string ''.'') s;
       Some (if -1 = r then cnt + 1 else cnt, s) }) (0 :: int, s) = Some r \<and> ?P 7 r"
  proof (rule loop_opt_inv [where P = ?P])
    show "?P 0 (0 :: int, s)" using s by auto
  next
    fix i :: int and cs :: "int \<times> 's" assume i: "0 \<le> i" "i < 7" and P: "?P i cs"
    obtain cnt t where cs: "cs = (cnt, t)" by (cases cs)
    have t: "ready t" "opened t = {2..<min (i + 2) 8}" "2 \<le> min (i + 2) 8" "min (i + 2) 8 \<le> 8"
      using P i unfolding cs by auto
    obtain s' where "ece391_open os (c_string ''.'') t = Some (if min (i + 2) 8 < 8 then min (i + 2) 8 else -1, s')" "ready s'"
      "opened s' = {2..<min (min (i + 2) 8 + 1) 8}" "screen s' = screen t" using open_directory [OF t] by blast
    with P i show "\<exists>s'. (case cs of (cnt, s) \<Rightarrow> do { (r, s) \<leftarrow> ece391_open os (c_string ''.'') s;
       Some (if -1 = r then cnt + 1 else cnt, s) }) = Some s' \<and> ?P (i + 1) s'"
      unfolding cs by (auto simp: min_def)
  qed simp
  then obtain t where o: "loop_opt 0 7 (\<lambda>i (cnt, s). do { (r, s) \<leftarrow> ece391_open os (c_string ''.'') s;
       Some (if -1 = r then cnt + 1 else cnt, s) }) (0 :: int, s) = Some (1, t)"
    "ready t" "screen t = screen s" "opened t = {2..<8}" by auto
  let ?Q = "\<lambda>i u. ready u \<and> screen u = screen s \<and> opened u = {i..<8}"
  have "\<exists>u. loop_opt 2 8 (\<lambda>i s. do { (r, s) \<leftarrow> ece391_close os i s; Some s }) t = Some u \<and> ?Q 8 u"
  proof (rule loop_opt_inv [where P = ?Q])
    show "?Q 2 t" using o by simp
  next
    fix i u assume i: "2 \<le> i" "i < (8 :: int)" and Q: "?Q i u"
    then obtain u' where u': "ece391_close os i u = Some (0, u')" "ready u'" "opened u' = {i..<8} - {i}" "screen u' = screen u"
      using close_accepted [of u i] by auto
    have "{i..<8} - {i} = {i + 1..<8}" by auto
    with u' Q show "\<exists>s'. do { (r, s) \<leftarrow> ece391_close os i u; Some s } = Some s' \<and> ?Q (i + 1) s'" by simp
  qed simp
  then obtain u where c: "loop_opt 2 8 (\<lambda>i s. do { (r, s) \<leftarrow> ece391_close os i s; Some s }) t = Some u"
    "ready u" "screen u = screen s" "opened u = {}" by auto
  have "plain (''err_open_lots'' @ '': PASS'' @ newline)" by (rule plain_names) simp
  from verdict_pass [OF c(2) this] show "\<exists>s'. err_open_lots os s = Some (0, s') \<and> ready s' \<and> opened s' = {} \<and>
      screen s' = fold show_char (pass_text ''err_open_lots'') (screen s)"
    using o(1) c(1,3,4) by (simp add: err_open_lots_def)
qed

end

context checked_calls
begin

lemma err_open_passes: "passes (err_open os) ''err_open''"
  unfolding passes_def
proof (intro allI impI, elim conjE)
  fix s assume s: "ready s" "opened s = {}"
  obtain s1 where s1: "ece391_open os (c_string ''helloo'') s = Some (-1, s1)" "ready s1" "opened s1 = {}" "screen s1 = screen s"
    using open_missing [OF s(1), of "''helloo''"] s(2) by auto
  obtain s2 where s2: "ece391_open os (c_string ''shel'') s1 = Some (-1, s2)" "ready s2" "opened s2 = {}" "screen s2 = screen s"
    using open_missing [OF s1(2), of "''shel''"] s1(3,4) by auto
  obtain s3 where s3: "ece391_open os (c_string []) s2 = Some (-1, s3)" "ready s3" "opened s3 = {}" "screen s3 = screen s"
    using open_missing [OF s2(2), of "[]"] s2(3,4) by auto
  have "plain (''err_open'' @ '': PASS'' @ newline)" by (rule plain_names) simp
  from verdict_pass [OF s3(2) this] show "\<exists>s'. err_open os s = Some (0, s') \<and> ready s' \<and> opened s' = {} \<and>
      screen s' = fold show_char (pass_text ''err_open'') (screen s)"
    using s1(1) s2(1) s3(1,3,4) by (simp add: err_open_def expect_met)
qed

lemma err_vidmap_passes: "passes (err_vidmap os) ''err_vidmap''"
  unfolding passes_def
proof (intro allI impI, elim conjE)
  fix s assume s: "ready s" "opened s = {}"
  obtain s1 where s1: "ece391_vidmap os 0 s = Some (-1, s1)" "ready s1" "opened s1 = {}" "screen s1 = screen s"
    using vidmap_rejected [OF s(1), of 0] s(2) by auto
  obtain s2 where s2: "ece391_vidmap os 0x400000 s1 = Some (-1, s2)" "ready s2" "opened s2 = {}" "screen s2 = screen s"
    using vidmap_rejected [OF s1(2), of "0x400000"] s1(3,4) by auto
  have "plain (''err_vidmap'' @ '': PASS'' @ newline)" by (rule plain_names) simp
  from verdict_pass [OF s2(2) this] show "\<exists>s'. err_vidmap os s = Some (0, s') \<and> ready s' \<and> opened s' = {} \<and>
      screen s' = fold show_char (pass_text ''err_vidmap'') (screen s)"
    using s1(1) s2(1,3,4) by (simp add: err_vidmap_def expect_met)
qed

lemma err_stdin_out_passes:
  assumes "length junk = 32"
  shows "passes (err_stdin_out os junk) ''err_stdin_out''"
  unfolding passes_def
proof (intro allI impI, elim conjE)
  fix s assume s: "ready s" "opened s = {}"
  have i: "is_int32 0" "is_int32 1" by (simp_all add: is_int32_def)
  obtain s1 where s1: "ece391_write os 0 junk 31 s = Some (-1, s1)" "ready s1" "opened s1 = {}" "screen s1 = screen s"
    using write_rejected [OF s(1) i(1) _ _ assms] s(2) by auto
  obtain buf s2 where s2: "ece391_read os 1 junk 31 s1 = Some (-1, buf, s2)" "ready s2" "opened s2 = {}" "screen s2 = screen s"
    using read_rejected [OF s1(2) i(2) _ _ assms] s1(3,4) by auto
  have "plain (''err_stdin_out'' @ '': PASS'' @ newline)" by (rule plain_names) simp
  from verdict_pass [OF s2(2) this] show "\<exists>s'. err_stdin_out os junk s = Some (0, s') \<and> ready s' \<and> opened s' = {} \<and>
      screen s' = fold show_char (pass_text ''err_stdin_out'') (screen s)"
    using s1(1) s2(1,3,4) by (simp add: err_stdin_out_def expect_met)
qed

lemma err_syscall_num_passes: "passes (err_syscall_num os) ''err_syscall_num''"
  unfolding passes_def
proof (intro allI impI, elim conjE)
  fix s assume s: "ready s" "opened s = {}"
  have i: "is_int32 BIG_NUM" "is_int32 NEG_NUM" "is_int32 0" "10 < BIG_NUM" "NEG_NUM < 1"
    by (simp_all add: is_int32_def BIG_NUM_def NEG_NUM_def)
  obtain s1 where s1: "call_sys os BIG_NUM s = Some (-1, s1)" "ready s1" "opened s1 = {}" "screen s1 = screen s"
    using number_rejected [OF s(1) i(1)] i(4) s(2) by auto
  obtain s2 where s2: "call_sys os NEG_NUM s1 = Some (-1, s2)" "ready s2" "opened s2 = {}" "screen s2 = screen s"
    using number_rejected [OF s1(2) i(2)] i(5) s1(3,4) by auto
  obtain s3 where s3: "call_sys os 0 s2 = Some (-1, s3)" "ready s3" "opened s3 = {}" "screen s3 = screen s"
    using number_rejected [OF s2(2) i(3)] s2(3,4) by auto
  have "plain (''err_syscall_num'' @ '': PASS'' @ newline)" by (rule plain_names) simp
  from verdict_pass [OF s3(2) this] show "\<exists>s'. err_syscall_num os s = Some (0, s') \<and> ready s' \<and> opened s' = {} \<and>
      screen s' = fold show_char (pass_text ''err_syscall_num'') (screen s)"
    using s1(1) s2(1) s3(1,3,4) by (simp add: err_syscall_num_def expect_met)
qed

lemma err_unopened_passes:
  assumes "length junk = 32"
  shows "passes (err_unopened os junk) ''err_unopened''"
  unfolding passes_def
proof (intro allI impI, elim conjE)
  fix s assume s: "ready s" "opened s = {}"
  have i32: "is_int32 i" if "0 \<le> i" "i < 8" for i using that by (simp add: is_int32_def)
  let ?R = "\<lambda>t. ready t \<and> opened t = {} \<and> screen t = screen s"
  let ?P = "\<lambda>(i :: int) (fail :: int, t). fail = 0 \<and> ?R t"
  let ?close = "\<lambda>i (fail, s). do { (r, s) \<leftarrow> ece391_close os i s;
      expect_failure os ''close unopened or invalid fd fail'' fail r s }"
  have "\<exists>r. loop_opt 0 8 ?close (0, s) = Some r \<and> ?P 8 r"
  proof (rule loop_opt_inv [where P = ?P])
    fix i cs assume i: "0 \<le> i" "i < (8 :: int)" and P: "?P i cs"
    then show "\<exists>s'. ?close i cs = Some s' \<and> ?P (i + 1) s'"
      using close_rejected [OF _ i32 [OF i], of "snd cs"] by (cases cs) (auto simp: expect_met)
  qed (use s in auto)
  then obtain s1 where s1: "loop_opt 0 8 ?close (0, s) = Some (0, s1)" "?R s1" by auto
  let ?Q = "\<lambda>(i :: int) (fail :: int, buf :: u8 list, t). fail = 0 \<and> length buf = 32 \<and> ?R t"
  let ?rd = "\<lambda>i (fail, buf, s). do { (r, buf, s) \<leftarrow> ece391_read os i buf 31 s;
      (fail, s) \<leftarrow> expect_failure os ''read from unopened fd fail'' fail r s; Some (fail, buf, s) }"
  have "\<exists>r. loop_opt 2 8 ?rd (0, junk, s1) = Some r \<and> ?Q 8 r"
  proof (rule loop_opt_inv [where P = ?Q])
    fix i cs assume i: "2 \<le> i" "i < (8 :: int)" and Q: "?Q i cs"
    have "is_int32 i" "i \<noteq> 0" using i by (simp_all add: is_int32_def)
    with Q show "\<exists>s'. ?rd i cs = Some s' \<and> ?Q (i + 1) s'"
      using read_rejected [of "snd (snd cs)" i "fst (snd cs)"] by (cases cs) (auto simp: expect_met)
  qed (use s1 assms in auto)
  then obtain buf s2 where s2: "loop_opt 2 8 ?rd (0, junk, s1) = Some (0, buf, s2)" "length buf = 32" "?R s2" by auto
  let ?wr = "\<lambda>i (fail, s). do { (r, s) \<leftarrow> ece391_write os i buf 31 s;
      expect_failure os ''write to unopened fd fail'' fail r s }"
  have "\<exists>r. loop_opt 2 8 ?wr (0, s2) = Some r \<and> ?P 8 r"
  proof (rule loop_opt_inv [where P = ?P])
    fix i cs assume i: "2 \<le> i" "i < (8 :: int)" and P: "?P i cs"
    have "is_int32 i" "i \<noteq> 1" using i by (simp_all add: is_int32_def)
    with P show "\<exists>s'. ?wr i cs = Some s' \<and> ?P (i + 1) s'"
      using write_rejected [of "snd cs" i buf] s2(2) by (cases cs) (auto simp: expect_met)
  qed (use s2 in auto)
  then obtain s3 where s3: "loop_opt 2 8 ?wr (0, s2) = Some (0, s3)" "?R s3" by auto
  have "plain (''err_unopened'' @ '': PASS'' @ newline)" by (rule plain_names) simp
  from verdict_pass [OF _ this, of s3] s3(2) show "\<exists>s'. err_unopened os junk s = Some (0, s') \<and> ready s' \<and> opened s' = {} \<and>
      screen s' = fold show_char (pass_text ''err_unopened'') (screen s)"
    using s1(1) s2(1) s3(1) by (simp add: err_unopened_def)
qed

lemma sum_tests_pass:
  assumes "list_all2 passes ts names" "ready s" "opened s = {}"
  shows "\<exists>s'. sum_tests ts fail s = Some (fail, s') \<and> ready s' \<and> opened s' = {} \<and>
    screen s' = fold show_char (concat (map pass_text names)) (screen s)"
  using assms
proof (induction ts names arbitrary: s rule: list_all2_induct)
  case (Cons t ts n names)
  then obtain s1 where "t s = Some (0, s1)" "ready s1" "opened s1 = {}" "screen s1 = fold show_char (pass_text n) (screen s)"
    by (auto simp: passes_def)
  with Cons.IH [of s1] show ?case by simp
qed simp

end

definition test_names :: "string list" where
  "test_names = [''err_neg_fd'', ''err_big_fd'', ''err_open_lots'', ''err_open'', ''err_unopened'', ''err_vidmap'',
     ''err_stdin_out'', ''err_syscall_num'']"

context checked_calls
begin

lemma all_tests_pass:
  assumes "length junk = 32"
  shows "list_all2 passes (syserr_tests os junk) test_names"
proof -
  have "passes (err_neg_fd os junk) ''err_neg_fd''" unfolding err_neg_fd_def
    by (rule err_fd_passes [OF _ _ plain_names assms]) (simp_all add: is_int32_def NEG_FD_def)
  moreover have "passes (err_big_fd os junk) ''err_big_fd''" unfolding err_big_fd_def
    by (rule err_fd_passes [OF _ _ plain_names assms]) (simp_all add: is_int32_def BIG_FD_def)
  ultimately show ?thesis
    by (simp add: syserr_tests_def test_names_def err_open_lots_passes err_open_passes err_vidmap_passes
        err_syscall_num_passes err_unopened_passes [OF assms] err_stdin_out_passes [OF assms])
qed

lemma syserr_all_pass:
  assumes "ready s" "opened s = {}" "length junk = 32"
  shows "\<exists>s'. syserr_run os junk 0 s = Some (0, s') \<and> ready s' \<and> opened s' = {} \<and>
    screen s' = fold show_char (concat (map pass_text test_names) @
      map of_char (newline @ ''Overall Tests: PASS'' @ newline)) (screen s)"
proof -
  obtain s1 where s1: "sum_tests (syserr_tests os junk) 0 s = Some (0, s1)" "ready s1" "opened s1 = {}"
    "screen s1 = fold show_char (concat (map pass_text test_names)) (screen s)"
    using sum_tests_pass [OF all_tests_pass [OF assms(3)] assms(1,2), of 0] by blast
  have "plain (newline @ ''Overall Tests: '' @ ''PASS'' @ newline)" by (simp add: plain_def newline_def)
  from puts_plain [OF s1(2) this] s1 show ?thesis by (auto simp: syserr_run_def)
qed

end

section \<open>The tests on the kernel\<close>

text \<open>The standard streams of the running process, and its other descriptors, free or of directories.\<close>

definition streams_ok :: "procs \<Rightarrow> bool" where
  "streams_ok q \<longleftrightarrow>
     (\<exists>b tab. get_fd q 0 = Some b \<and> flags b \<noteq> -1 \<and> file_operations_pointer b = Some tab \<and>
        op_write (tables q tab) = Some Keyboard_write) \<and>
     (\<exists>b tab. get_fd q 1 = Some b \<and> flags b \<noteq> -1 \<and> file_operations_pointer b = Some tab \<and>
        op_read (tables q tab) = Some Terminal_read_fail)"

definition slots_ok :: "procs \<Rightarrow> bool" where
  "slots_ok q \<longleftrightarrow> dir_api q \<and> op_close (tables q Dir_table) = Some Directory_close \<and>
     (\<forall>fd \<in> {2..<8}. \<exists>b. get_fd q fd = Some b \<and> file_operations_pointer b = (if is_free b then None else Some Dir_table))"

definition opened_fds :: "procs \<Rightarrow> int set" where
  "opened_fds q = {fd \<in> {2..<8}. \<exists>b. get_fd q fd = Some b \<and> \<not> is_free b}"

text \<open>An image with a directory entry \<open>.\<close> and none with the names the tests misspell.\<close>

definition errors_fs :: "fsys \<Rightarrow> bool" where
  "errors_fs F \<longleftrightarrow> (\<exists>d. named F dot TYPE_DIR d) \<and> num_dir_entries F \<noteq> -1 \<and>
     (\<forall>k < 63. entry_name F k \<noteq> map of_char ''helloo'' \<and> entry_name F k \<noteq> map of_char ''shel'')"

definition errors_ready :: "u32 \<Rightarrow> int \<Rightarrow> u32 \<Rightarrow> u32 \<Rightarrow> 'a system_scheme \<Rightarrow> bool" where
  "errors_ready pt p video area s \<longleftrightarrow> user_ready pt p video area s \<and> streams_ok (ps s) \<and> slots_ok (ps s) \<and> errors_fs (fs s)"

lemma errors_ready_cong:
  "errors_ready pt p video area s \<Longrightarrow> user_ready pt p video area s' \<Longrightarrow> ps s' = ps s \<Longrightarrow> fs s' = fs s \<Longrightarrow>
    errors_ready pt p video area s'"
  by (simp add: errors_ready_def)

text \<open>A call that fails leaves the array of the caller in its memory and nothing else.\<close>

lemma stored_ready:
  assumes "user_ready pt p video area s" "length buf \<le> 4096"
  shows "user_ready pt p video area (s\<lparr>vid := overlay (vid s) (phys p area) buf\<rparr>)"
    "user_screen video (s\<lparr>vid := overlay (vid s) (phys p area) buf\<rparr>) = user_screen video s"
  using assms user_screen_store [of pt p video s area 4096 buf "vid s"]
  by (simp_all add: user_ready_def on_screen_def)

lemma cli_flag: "(cli s)\<lparr>iflag := iflag s\<rparr> = s"
  by (simp add: cli_def)

lemma kernel_read_failed:
  assumes s: "user_ready pt p video area s" and buf: "length buf = 32" and fd: "is_int32 fd"
    and r: "read_call pt e fd area 31 (cli (s\<lparr>vid := overlay (vid s) (phys p area) buf\<rparr>)) =
      Some (-1, cli (s\<lparr>vid := overlay (vid s) (phys p area) buf\<rparr>))"
  shows "ece391_read (kernel_os pt e frame temp area child) fd buf 31 s =
    Some (-1, buf, s\<lparr>vid := overlay (vid s) (phys p area) buf\<rparr>)"
proof -
  let ?s = "s\<lparr>vid := overlay (vid s) (phys p area) buf\<rparr>"
  have u: "in_user pt p video s" "in_program area 4096" using s by (simp_all add: user_ready_def)
  have st: "store_array pt area buf s = Some ?s" by (rule store_array_run [OF u]) simp
  have call: "DO_CALL pt e frame temp 3 (of_int fd) area 31 ?s = Some (-1, ?s)"
    using r fd signed_arg [of fd] cli_flag [of ?s] by (simp add: DO_CALL_eqs is_int32_def)
  have "load_array pt area (length buf) ?s = Some (bytes_at (vid ?s) (phys p area) (length buf))"
    using u by (intro load_array_run [where n = 4096]) simp_all
  also have "bytes_at (vid ?s) (phys p area) (length buf) = buf" using buf by (simp add: bytes_at_overlay)
  finally show ?thesis using st call by (simp add: kernel_os_def)
qed

lemma kernel_write_failed:
  assumes s: "user_ready pt p video area s" and fd: "is_int32 fd"
    and r: "write_call pt e fd area 31 (cli (s\<lparr>vid := overlay (vid s) (phys p area) buf\<rparr>)) =
      Some (-1, cli (s\<lparr>vid := overlay (vid s) (phys p area) buf\<rparr>))"
  shows "ece391_write (kernel_os pt e frame temp area child) fd buf 31 s =
    Some (-1, s\<lparr>vid := overlay (vid s) (phys p area) buf\<rparr>)"
proof -
  let ?s = "s\<lparr>vid := overlay (vid s) (phys p area) buf\<rparr>"
  have u: "in_user pt p video s" "in_program area 4096" using s by (simp_all add: user_ready_def)
  have st: "store_array pt area buf s = Some ?s" by (rule store_array_run [OF u]) simp
  have "DO_CALL pt e frame temp 4 (of_int fd) area 31 ?s = Some (-1, ?s)"
    using r fd signed_arg [of fd] cli_flag [of ?s] by (simp add: DO_CALL_eqs is_int32_def)
  then show ?thesis using st by (simp add: kernel_os_def)
qed

lemma lowest_free_unique: "lowest_free q j \<Longrightarrow> lowest_free q k \<Longrightarrow> j = k"
  unfolding lowest_free_def by (rule ccontr) (force simp: neq_iff split: option.splits)

text \<open>The descriptors from 2 to \<open>k - 1\<close> are open: the next \<open>open\<close> takes \<open>k\<close>.\<close>

lemma opened_lowest:
  assumes "slots_ok q" "opened_fds q = {2..<k}" "2 \<le> k" "k \<le> 8"
  shows "k < 8 \<Longrightarrow> lowest_free q k" "k = 8 \<Longrightarrow> fds_full q"
proof -
  have fd: "\<exists>b. get_fd q i = Some b \<and> (is_free b \<longleftrightarrow> \<not> i < k)" if i: "2 \<le> i" "i < 8" for i
  proof -
    have "i \<in> {2..<8}" using i by simp
    then obtain b where b: "get_fd q i = Some b" using assms(1) unfolding slots_ok_def by blast
    have "i \<in> opened_fds q \<longleftrightarrow> i < k" unfolding assms(2) using i by simp
    with b i show ?thesis by (auto simp: opened_fds_def)
  qed
  show "lowest_free q k" if "k < 8"
    using fd [of k] fd that assms(3) by (force simp: lowest_free_def split: option.splits)
  show "fds_full q" if "k = 8"
    using fd that by (force simp: fds_full_def split: option.splits)
qed

lemma put_fd_slots:
  assumes "put_fd q fd b = Some q'" "slots_ok q" "streams_ok q" "2 \<le> fd" "fd < 8"
    and "file_operations_pointer b = (if is_free b then None else Some Dir_table)"
  shows "slots_ok q'" "streams_ok q'" "opened_fds q' = (if is_free b then opened_fds q - {fd} else insert fd (opened_fds q))"
proof -
  have t: "tables q' = tables q" "dir_ptr q' = dir_ptr q" using put_fd_dir [OF assms(1)] by simp_all
  have g: "get_fd q' fd = Some b" "\<And>k. k \<noteq> fd \<Longrightarrow> get_fd q' k = get_fd q k"
    using fd_store.get_put_same [OF assms(1)] fd_store.get_put_other [OF assms(1)] by blast+
  show "slots_ok q'" unfolding slots_ok_def
  proof (intro conjI ballI)
    show "dir_api q'" "op_close (tables q' Dir_table) = Some Directory_close"
      using assms(2) t by (simp_all add: slots_ok_def dir_api_def)
    fix k :: int assume "k \<in> {2..<8}"
    then show "\<exists>b. get_fd q' k = Some b \<and> file_operations_pointer b = (if is_free b then None else Some Dir_table)"
      using assms(2,6) g by (cases "k = fd") (auto simp: slots_ok_def)
  qed
  show "streams_ok q'" using assms(3,4) g(2) [of 0] g(2) [of 1] t by (simp add: streams_ok_def)
  have "k \<in> opened_fds q' \<longleftrightarrow> k \<in> (if is_free b then opened_fds q - {fd} else insert fd (opened_fds q))" for k
    using g assms(4,5) by (cases "k = fd") (auto simp: opened_fds_def)
  then show "opened_fds q' = (if is_free b then opened_fds q - {fd} else insert fd (opened_fds q))" by blast
qed

lemma kernel_open_fails:
  assumes s: "user_ready pt p video area s" and name: "0 \<in> set name" "length name \<le> 4096"
    and call: "open_call e (Some (cstr name @ [0])) (s\<lparr>vid := overlay (vid s) (phys p area) name, iflag := False\<rparr>) =
      Some (-1, s\<lparr>vid := overlay (vid s) (phys p area) name, iflag := False, ps := ps s\<rparr>)"
  obtains s' where "ece391_open (kernel_os pt e frame temp area child) name s = Some (-1, s')"
    "user_ready pt p video area s'" "user_screen video s' = user_screen video s" "ps s' = ps s" "fs s' = fs s"
proof -
  have "fd_step 2 (ps s) (ps s)" "(2 :: int) \<noteq> 1" by (simp_all add: fd_step_def)
  from kernel_open_call [OF s name call this] that show ?thesis by blast
qed

lemma kernel_open_dot:
  assumes s: "errors_ready pt p video area s" and k: "opened_fds (ps s) = {2..<k}" "2 \<le> k" "k \<le> 8"
  shows "\<exists>s'. ece391_open (kernel_os pt e frame temp area child) (c_string ''.'') s = Some (if k < 8 then k else -1, s') \<and>
    errors_ready pt p video area s' \<and> opened_fds (ps s') = {2..<min (k + 1) 8} \<and> user_screen video s' = user_screen video s"
proof -
  have u: "user_ready pt p video area s" "streams_ok (ps s)" "slots_ok (ps s)" "errors_fs (fs s)"
    using s by (simp_all add: errors_ready_def)
  obtain d where d: "named (fs s) dot TYPE_DIR d" using u(4) by (auto simp: errors_fs_def)
  have wf: "procs_wf (ps s)" using u(1) by (simp add: user_ready_def)
  have nm: "length (c_string ''.'') \<le> 4096" "named (fs s) (cstr (c_string ''.'')) TYPE_DIR d" using d by (simp_all add: c_string_dot)
  let ?b = "directory_block (num_dir_entries (fs s)) (ps s)"
  show ?thesis
  proof (cases "k < 8")
    case True
    note low = opened_lowest(1) [OF u(3) k True]
    then have "\<not> fds_full (ps s)" by (auto simp: lowest_free_def fds_full_def split: option.splits)
    then obtain j s' where o: "ece391_open (kernel_os pt e frame temp area child) (c_string ''.'') s = Some (j, s')"
      "user_ready pt p video area s'" "user_screen video s' = user_screen video s" "fs s' = fs s"
      "lowest_free (ps s) j" "put_fd (ps s) j ?b = Some (ps s')"
      by (rule kernel_open_dir [OF u(1) _ nul_in_c_string nm]) (rule that; assumption)
    have j: "j = k" by (rule lowest_free_unique [OF o(5) low])
    have "file_operations_pointer ?b = (if is_free ?b then None else Some Dir_table)" "\<not> is_free ?b"
      using u(3,4) by (simp_all add: directory_block_def is_free_def slots_ok_def dir_api_def errors_fs_def)
    note sl = put_fd_slots [OF o(6) u(3,2) _ _ this(1)] this(2)
    have "insert k {2..<k} = {2..<k + 1}" using k(2) by auto
    then show ?thesis using o(1-4) j sl True k u(4) by (auto simp: errors_ready_def min_def)
  next
    case False
    then have full: "fds_full (ps s)" using opened_lowest(2) [OF u(3) k] k(3) by simp
    let ?s = "s\<lparr>vid := overlay (vid s) (phys p area) (c_string ''.''), iflag := False\<rparr>"
    have "take_slot (FDT_SIZE - 1) (directory_block (num_dir_entries (fs s))) (ps s) = Some (-1, ps s)"
      using fd_scan_full [OF wf full, of "FDT_SIZE - 1"] by (simp add: take_slot_def FDT_SIZE_def)
    then have "open_call e (Some (cstr (c_string ''.'') @ [0])) ?s = Some (-1, ?s\<lparr>ps := ps s\<rparr>)"
      using named_lookup [OF nm(2)] d
      by (simp add: open_call_def directory_open_def on_procs_def cli_def named_def TYPE_RTC_def TYPE_DIR_def)
    then obtain s' where "ece391_open (kernel_os pt e frame temp area child) (c_string ''.'') s = Some (-1, s')"
      "user_ready pt p video area s'" "user_screen video s' = user_screen video s" "ps s' = ps s" "fs s' = fs s"
      by (rule kernel_open_fails [OF u(1) nul_in_c_string nm(1)]) (rule that; assumption)
    then show ?thesis using errors_ready_cong [OF s] False k(1,3) by (auto simp: min_def)
  qed
qed

lemma closed_fd:
  assumes "slots_ok q" "fd \<notin> opened_fds q" "2 \<le> fd" "fd < 8"
  obtains b where "get_fd q fd = Some b" "flags b = -1" "file_operations_pointer b = None"
proof -
  have "fd \<in> {2..<8}" using assms(3,4) by simp
  then obtain b where "get_fd q fd = Some b" "file_operations_pointer b = (if is_free b then None else Some Dir_table)"
    using assms(1) unfolding slots_ok_def by blast
  moreover from this(1) \<open>fd \<in> {2..<8}\<close> assms(2) have "is_free b" by (auto simp: opened_fds_def)
  ultimately show ?thesis using that by (simp add: is_free_def)
qed

lemma errors_fd_cases:
  fixes fd :: int
  assumes "slots_ok q" "fd \<notin> opened_fds q"
  obtains "fd < 0 \<or> 8 \<le> fd" | "fd = 0" | "fd = 1"
    | b where "2 \<le> fd" "fd < 8" "get_fd q fd = Some b" "flags b = -1" "file_operations_pointer b = None"
proof -
  consider "fd < 0 \<or> 8 \<le> fd" | "fd = 0" | "fd = 1" | "2 \<le> fd" "fd < 8" by linarith
  then show ?thesis using that by cases (auto elim: closed_fd [OF assms])
qed

lemma user_walk:
  assumes "user_ready pt p video area s" "process_pages t = process_pages s" "process_tables t = process_tables s"
  shows "area \<noteq> 0" "walk pt t user area = Some (phys p area)"
  using assms walk_program_start [of pt p video s area 4096 user] walk_frame [of t s pt user area]
  by (auto simp: user_ready_def in_program_def)

lemma errors_read_call:
  assumes s: "errors_ready pt p video area s" and fd: "fd \<noteq> 0" "fd \<notin> opened_fds (ps s)"
    and t: "ps t = ps s" "process_pages t = process_pages s" "process_tables t = process_tables s"
  shows "read_call pt e fd area 31 (cli t) = Some (-1, cli t)"
proof -
  have u: "user_ready pt p video area s" "streams_ok (ps s)" "slots_ok (ps s)" using s by (simp_all add: errors_ready_def)
  note a = user_walk [OF u(1) t(2,3)]
  have w: "walk pt (cli t) False area = Some (phys p area)"
    using user_walk(2) [OF u(1), of "cli t"] t by (simp add: cli_def)
  from u(3) fd(2) show ?thesis
  proof (cases rule: errors_fd_cases)
    case 3
    then show ?thesis using u(2) t(1) w
      by (auto simp: read_call_def Let_def streams_ok_def FDT_SIZE_def call_read_def terminal_read_fail_def cli_def)
  qed (use fd t in \<open>auto simp: read_call_def Let_def FDT_SIZE_def cli_def\<close>)
qed

lemma errors_write_call:
  assumes s: "errors_ready pt p video area s" and fd: "fd \<noteq> 1" "fd \<notin> opened_fds (ps s)"
    and t: "ps t = ps s" "process_pages t = process_pages s" "process_tables t = process_tables s"
  shows "write_call pt e fd area 31 (cli t) = Some (-1, cli t)"
proof -
  have u: "user_ready pt p video area s" "streams_ok (ps s)" "slots_ok (ps s)" using s by (simp_all add: errors_ready_def)
  have w: "walk pt (cli t) False area = Some (phys p area)"
    using user_walk(2) [OF u(1), of "cli t"] t by (simp add: cli_def)
  from u(3) fd(2) show ?thesis
  proof (cases rule: errors_fd_cases)
    case 2
    then show ?thesis using u(2) t(1) w
      by (auto simp: write_call_def Let_def streams_ok_def FDT_SIZE_def call_write_def keyboard_write_def cli_def)
  qed (use fd t in \<open>auto simp: write_call_def Let_def FDT_SIZE_def cli_def\<close>)
qed

lemma errors_close_call:
  assumes "errors_ready pt p video area s" "fd \<notin> opened_fds (ps s)"
  shows "close_call fd (cli s) = Some (-1, cli s)"
proof -
  have "slots_ok (ps s)" using assms(1) by (simp add: errors_ready_def)
  from this assms(2) show ?thesis
    by (cases rule: errors_fd_cases) (auto simp: close_call_def Let_def FDT_SIZE_def cli_def)
qed

lemma kernel_close_opened:
  assumes s: "errors_ready pt p video area s" and fd: "fd \<in> opened_fds (ps s)"
  shows "\<exists>s'. ece391_close (kernel_os pt e frame temp area child) fd s = Some (0, s') \<and>
    errors_ready pt p video area s' \<and> opened_fds (ps s') = opened_fds (ps s) - {fd} \<and> user_screen video s' = user_screen video s"
proof -
  have u: "user_ready pt p video area s" "streams_ok (ps s)" "slots_ok (ps s)" "errors_fs (fs s)"
    using s by (simp_all add: errors_ready_def)
  have wf: "procs_wf (ps s)" using u(1) by (simp add: user_ready_def)
  obtain b where b: "get_fd (ps s) fd = Some b" "\<not> is_free b" "2 \<le> fd" "fd < 8" using fd by (auto simp: opened_fds_def)
  then have "fd \<in> {2..<8}" by simp
  then have tab: "file_operations_pointer b = Some Dir_table" "op_close (tables (ps s) Dir_table) = Some Directory_close"
    using u(3) b(1,2) unfolding slots_ok_def by force+
  obtain q where q: "put_fd (ps s) fd (freed b) = Some q" using fd_store.put_valid b(1) by blast
  have fr: "is_free (freed b)" "file_operations_pointer (freed b) = None" by (simp_all add: is_free_def freed_def)
  have c: "close_call fd (cli s) = Some (0, (cli s)\<lparr>ps := q\<rparr>)"
    using b tab q by (simp add: close_call_def call_close_def directory_close_def on_procs_def FDT_SIZE_def cli_def)
  let ?s = "s\<lparr>ps := q\<rparr>"
  have "ece391_close (kernel_os pt e frame temp area child) fd s = Some (0, ?s)"
    using c b(3,4) signed_arg [of fd] by (simp add: kernel_os_def DO_CALL_eqs cli_def)
  moreover have "user_ready pt p video area ?s"
    using user_ready_step [OF u(1) fd_step_intros(2) [OF q], where m = "vid s" and f = "iflag s"] b(3) by simp
  moreover have "user_screen video ?s = user_screen video s" by (rule user_screen_cong) simp_all
  ultimately show ?thesis
    using put_fd_slots [OF q u(3,2) b(3,4)] fr u(4) by (auto simp: errors_ready_def)
qed

lemma kernel_open_missing:
  assumes s: "errors_ready pt p video area s" and n: "name \<in> {''helloo'', ''shel'', []}"
  shows "\<exists>s'. ece391_open (kernel_os pt e frame temp area child) (c_string name) s = Some (-1, s') \<and>
    errors_ready pt p video area s' \<and> opened_fds (ps s') = opened_fds (ps s) \<and> user_screen video s' = user_screen video s"
proof -
  have u: "user_ready pt p video area s" "errors_fs (fs s)" using s by (simp_all add: errors_ready_def)
  have "0 \<notin> set (map of_char name :: u8 list)" using n by auto
  then have c: "cstr (c_string name) = map of_char name"
    using cstr_append_nul [of "map of_char name" "[]"] by (simp add: c_string_def)
  have "cstr (map of_char name @ [0] :: u8 list) = map of_char name"
    using \<open>0 \<notin> set (map of_char name :: u8 list)\<close> cstr_append_nul [of "map of_char name" "[]"] by simp
  moreover have "find_entry (fs s) (map of_char name) 0 = None" if "name \<noteq> []"
    using u(2) n that by (auto simp: find_entry_def find_None_iff errors_fs_def)
  ultimately have "read_dentry_by_name (fs s) (map of_char name @ [0]) (e_dentry e) = Some (-1, e_dentry e)"
    by (subst read_dentry_by_name_eq) auto
  then have "open_call e (Some (cstr (c_string name) @ [0])) (s\<lparr>vid := overlay (vid s) (phys p area) (c_string name), iflag := False\<rparr>) =
      Some (-1, s\<lparr>vid := overlay (vid s) (phys p area) (c_string name), iflag := False, ps := ps s\<rparr>)"
    unfolding c by (simp add: open_call_def cli_def)
  moreover have "length (c_string name) \<le> 4096" using n by (auto simp: c_string_def)
  ultimately obtain s' where "ece391_open (kernel_os pt e frame temp area child) (c_string name) s = Some (-1, s')"
    "user_ready pt p video area s'" "user_screen video s' = user_screen video s" "ps s' = ps s" "fs s' = fs s"
    using kernel_open_fails [OF u(1) nul_in_c_string] by metis
  then show ?thesis using errors_ready_cong [OF s] by auto
qed

lemma kernel_vidmap_fails:
  assumes "errors_ready pt p video area s" "a = 0 \<or> a = 0x400000"
  shows "\<exists>s'. ece391_vidmap (kernel_os pt e frame temp area child) a s = Some (-1, s') \<and>
    errors_ready pt p video area s' \<and> opened_fds (ps s') = opened_fds (ps s) \<and> user_screen video s' = user_screen video s"
  using assms by (auto simp: kernel_os_def DO_CALL_eqs vidmap_def PROGMEM_LOWER_def PROGMEM_UPPER_def cli_def)

lemma kernel_bad_number:
  assumes s: "errors_ready pt p video area s" and "is_int32 n" "n < 1 \<or> 10 < n"
  shows "\<exists>s'. call_sys (kernel_os pt e frame temp area child) n s = Some (-1, s') \<and>
    errors_ready pt p video area s' \<and> opened_fds (ps s') = opened_fds (ps s) \<and> user_screen video s' = user_screen video s"
proof -
  have "sint (of_int n :: u32) = n" using assms(2) by (intro signed_arg) (simp_all add: is_int32_def)
  then have "of_int n <s (1 :: u32) \<or> of_int n > (10 :: u32)"
  proof (cases "n < 1")
    case False
    then have "uint (of_int n :: u32) = n" using assms(2) by (simp add: is_int32_def uint_word_of_int take_bit_int_eq_self)
    with False assms(3) show ?thesis by (simp add: word_less_def)
  qed (simp add: word_sless_alt)
  with s show ?thesis by (auto simp: kernel_os_def DO_CALL_def system_call_def iret_flag_def cli_def)
qed

interpretation errors: checked_calls "kernel_os pt e frame temp area child" "errors_ready pt p video area"
  "\<lambda>s. opened_fds (ps s)" "user_screen video" tty_char
  for pt e frame temp area child p video
proof unfold_locales
  fix s :: "'a system_scheme" and fd :: int and buf :: "u8 list"
  let ?os = "kernel_os pt e frame temp area child" and ?t = "s\<lparr>vid := overlay (vid s) (phys p area) buf\<rparr>"
  assume s: "errors_ready pt p video area s" and fd: "is_int32 fd" "fd \<notin> opened_fds (ps s)"
  have u: "user_ready pt p video area s" using s by (simp add: errors_ready_def)
  have t: "errors_ready pt p video area ?t" "user_screen video ?t = user_screen video s" if "length buf = 32"
    using that stored_ready [OF u, of buf] errors_ready_cong [OF s, of ?t] by simp_all
  show "\<exists>buf' s'. ece391_read ?os fd buf 31 s = Some (-1, buf', s') \<and> length buf' = 32 \<and> errors_ready pt p video area s' \<and>
      opened_fds (ps s') = opened_fds (ps s) \<and> user_screen video s' = user_screen video s" if "fd \<noteq> 0" "length buf = 32"
    using kernel_read_failed [OF u that(2) fd(1) errors_read_call [OF s that(1) fd(2)]] t that by simp
  show "\<exists>s'. ece391_write ?os fd buf 31 s = Some (-1, s') \<and> errors_ready pt p video area s' \<and>
      opened_fds (ps s') = opened_fds (ps s) \<and> user_screen video s' = user_screen video s" if "fd \<noteq> 1" "length buf = 32"
    using kernel_write_failed [OF u fd(1) errors_write_call [OF s that(1) fd(2)]] t that by simp
  have "ece391_close ?os fd s = Some (-1, s)"
    using errors_close_call [OF s fd(2)] fd(1) signed_arg [of fd] cli_flag [of s] by (simp add: kernel_os_def DO_CALL_eqs is_int32_def)
  with s show "\<exists>s'. ece391_close ?os fd s = Some (-1, s') \<and> errors_ready pt p video area s' \<and>
      opened_fds (ps s') = opened_fds (ps s) \<and> user_screen video s' = user_screen video s" by blast
next
  fix s :: "'a system_scheme" and n :: nat and buf :: "u8 list"
  assume s: "errors_ready pt p video area s" and a: "1 \<le> n" "n \<le> length buf" "length buf \<le> 4096" "13 \<notin> set (take n buf)"
  have "user_ready pt p video area s" using s by (simp add: errors_ready_def)
  from terminal.write_shown [OF this a] show "\<exists>s'. ece391_write (kernel_os pt e frame temp area child) 1 buf (int n) s = Some (int n, s') \<and>
      errors_ready pt p video area s' \<and> opened_fds (ps s') = opened_fds (ps s) \<and>
      user_screen video s' = fold tty_char (take n buf) (user_screen video s)"
    using errors_ready_cong [OF s] by fastforce
qed (rule kernel_close_opened kernel_open_dot kernel_open_missing kernel_vidmap_fails kernel_bad_number; assumption)+

section \<open>Every test passes\<close>

text \<open>
  C13: on a process whose standard streams are the terminal and whose other descriptors are closed,
  \<open>syserr\<close> run with choice 0 returns 0 and shows the line \<open>name: PASS\<close> of each of its eight tests, in
  order, and \<open>Overall Tests: PASS\<close>; with a choice from 1 to 8 it returns 0 and shows the line of that
  test. The kernel rejects every descriptor, name, pointer and call number the tests try, opens six
  descriptors and not a seventh, and closes them again.
\<close>

theorem syserr_passes:
  assumes "errors_ready pt p video area s" and "opened_fds (ps s) = {}" and "length junk = 32"
  shows "(\<exists>s'. syserr_run (kernel_os pt e frame temp area child) junk 0 s = Some (0, s') \<and> opened_fds (ps s') = {} \<and>
      user_screen video s' = fold tty_char (concat (map pass_text test_names) @
        map of_char (newline @ ''Overall Tests: PASS'' @ newline)) (user_screen video s)) \<and>
    (\<forall>k \<in> {1..8}. \<exists>s'. syserr_run (kernel_os pt e frame temp area child) junk k s = Some (0, s') \<and>
      user_screen video s' = fold tty_char (pass_text (test_names ! nat (k - 1))) (user_screen video s))"
proof (intro conjI ballI)
  show "\<exists>s'. syserr_run (kernel_os pt e frame temp area child) junk 0 s = Some (0, s') \<and> opened_fds (ps s') = {} \<and>
      user_screen video s' = fold tty_char (concat (map pass_text test_names) @
        map of_char (newline @ ''Overall Tests: PASS'' @ newline)) (user_screen video s)"
    using errors.syserr_all_pass [OF assms] by blast
  fix k :: int assume k: "k \<in> {1..8}"
  then have "nat (k - 1) < length (syserr_tests (kernel_os pt e frame temp area child) junk)" by (simp add: syserr_tests_def nat_less_iff)
  from list_all2_nthD [OF errors.all_tests_pass [OF assms(3), where p = p and video = video] this]
  have "\<exists>s'. (syserr_tests (kernel_os pt e frame temp area child) junk ! nat (k - 1)) s = Some (0, s') \<and>
      user_screen video s' = fold tty_char (pass_text (test_names ! nat (k - 1))) (user_screen video s)"
    using assms(1,2) unfolding errors.passes_def by blast
  then show "\<exists>s'. syserr_run (kernel_os pt e frame temp area child) junk k s = Some (0, s') \<and>
      user_screen video s' = fold tty_char (pass_text (test_names ! nat (k - 1))) (user_screen video s)"
    using k by (simp add: syserr_run_def)
qed

lemma ls_fs_errors: "errors_fs ls_fs"
  unfolding errors_fs_def
proof (intro conjI allI impI)
  show "\<exists>d. named ls_fs dot TYPE_DIR d" "num_dir_entries ls_fs \<noteq> -1" using ls_fs_facts by auto
  fix k :: nat assume "k < 63"
  then have "k = 0 \<or> k = 1 \<or> (2 \<le> k \<and> k < 63)" by auto
  then show "entry_name ls_fs k \<noteq> map of_char ''helloo''" "entry_name ls_fs k \<noteq> map of_char ''shel''"
    using ls_fs_facts(4-6) by auto
qed

theorem syserr_passes_witness:
  "\<exists>s'. syserr_run (kernel_os 0x480000 quiet_env 0x7F0000 0 0x8100000 (\<lambda>_ _. None)) (replicate 32 0) 5
      (user_system ls_fs []) = Some (0, s') \<and>
    user_screen VIDEO s' = fold tty_char (map of_char (''err_unopened: PASS'' @ newline)) (user_screen VIDEO (user_system ls_fs []))"
proof -
  have l: "length ([] :: u8 list) \<le> 1024" by simp
  have "streams_ok (user_procs [])"
    by (simp add: streams_ok_def user_procs_fd) (simp add: user_procs_def stdin_block_def stdout_block_def)
  moreover have "slots_ok (user_procs [])"
    by (auto simp: slots_ok_def user_procs_fd freed_def is_free_def) (simp_all add: user_procs_def dir_api_def)
  ultimately have "errors_ready 0x480000 1 VIDEO 0x8100000 (user_system ls_fs [])"
    using user_system_ready [OF l, of ls_fs] ls_fs_errors by (simp add: errors_ready_def user_system_fields)
  moreover have "opened_fds (ps (user_system ls_fs [])) = {}"
    by (auto simp: opened_fds_def user_system_fields user_procs_fd is_free_def freed_def)
  moreover have "length (replicate 32 0 :: u8 list) = 32" "(5 :: int) \<in> {1..8}" by simp_all
  ultimately have "\<exists>s'. syserr_run (kernel_os 0x480000 quiet_env 0x7F0000 0 0x8100000 (\<lambda>_ _. None)) (replicate 32 0) 5
      (user_system ls_fs []) = Some (0, s') \<and>
    user_screen VIDEO s' = fold tty_char (pass_text (test_names ! nat (5 - 1))) (user_screen VIDEO (user_system ls_fs []))"
    using syserr_passes by blast
  moreover have "pass_text (test_names ! nat (5 - 1)) = map of_char (''err_unopened: PASS'' @ newline)"
    by (simp add: pass_text_def test_names_def)
  ultimately show ?thesis by metis
qed

end
