(* ===== verification/User_Grep.thy ===== *)
theory User_Grep
  imports User_Programs
begin

text \<open>
  The program \<^verbatim>\<open>syscalls/ece391grep.c\<close>: it shows the lines of the files in the directory that contain
  its argument. The buffer of \<open>do_one_file\<close> holds the part of the file that is not searched yet;
  the rest of its last line is copied to its start before the next read. The program compares
  the first character of the search string, a signed \<open>char\<close>, with the bytes of the file.
\<close>

section \<open>The program\<close>

text \<open>\<open>while (line_end < last && '\n' != data[line_end]) line_end++\<close>\<close>

function line_scan :: "u8 list \<Rightarrow> int \<Rightarrow> int \<Rightarrow> int option" where
  "line_scan data filled line_end =
     (if line_end < filled then
        (case aget data line_end of None \<Rightarrow> None | Some c \<Rightarrow>
           if 10 \<noteq> c then line_scan data filled (line_end + 1) else Some line_end)
      else Some line_end)"
  by pat_completeness auto
termination
  by (relation "measure (\<lambda>(data, filled, line_end). nat (filled - line_end))") auto

declare line_scan.simps [simp del]

definition show_line :: "('s, 'a) os_scheme \<Rightarrow> u8 list \<Rightarrow> u8 list \<Rightarrow> 's \<Rightarrow> 's option" where
  "show_line os fname line st = do {
     st \<leftarrow> ece391_fdputs os 1 fname st;
     st \<leftarrow> ece391_fdputs os 1 (c_string '':'') st;
     st \<leftarrow> ece391_fdputs os 1 line st;
     ece391_fdputs os 1 (c_string newline) st }"

text \<open>The search of one line; it stops at the first occurrence.\<close>

function search_loop :: "('s, 'a) os_scheme \<Rightarrow> u8 list \<Rightarrow> nat \<Rightarrow> u8 list \<Rightarrow> u8 list \<Rightarrow> int \<Rightarrow> int \<Rightarrow> int \<Rightarrow> 's \<Rightarrow> 's option" where
  "search_loop os s s_len fname data line_start line_end check st =
     (if check < line_end then
        (case (do {
            c \<leftarrow> aget s 0;
            d \<leftarrow> aget data check;
            if sint c = uint d then map_option (\<lambda>r. 0 = r) (ece391_strncmp (drop (nat check) data) s s_len)
            else Some False }) of
           None \<Rightarrow> None
         | Some True \<Rightarrow> show_line os fname (drop (nat line_start) data) st
         | Some False \<Rightarrow> search_loop os s s_len fname data line_start line_end (check + 1) st)
      else Some st)"
  by pat_completeness auto
termination
  by (relation "measure (\<lambda>(os, s, s_len, fname, data, line_start, line_end, check, st). nat (line_end - check))") auto

declare search_loop.simps [simp del]

text \<open>The lines in the buffer: the result is the buffer, \<open>last\<close> and the state.\<close>

partial_function (option) lines_loop :: "('s, 'a) os_scheme \<Rightarrow> u8 list \<Rightarrow> nat \<Rightarrow> u8 list \<Rightarrow> int \<Rightarrow> int \<Rightarrow> u8 list \<Rightarrow> int \<Rightarrow> 's \<Rightarrow>
    (u8 list \<times> int \<times> 's) option" where
  "lines_loop os s s_len fname cnt line_start data filled st = do {
     line_end \<leftarrow> line_scan data filled line_start;
     c \<leftarrow> aget data line_end;
     if 10 \<noteq> c \<and> 0 \<noteq> cnt \<and> line_start \<noteq> 0 then do {
       data \<leftarrow> aset data line_end 0;
       data \<leftarrow> ece391_strcpy_within data 0 (nat line_start);
       Some (data, filled - line_start, st) }
     else do {
       data \<leftarrow> aset data line_end 0;
       st \<leftarrow> search_loop os s s_len fname data line_start line_end line_start st;
       if line_end + 1 \<ge> filled then Some (data, 0, st)
       else lines_loop os s s_len fname cnt (line_end + 1) data filled st } }"

text \<open>The reads: \<open>data + last\<close> is the rest of the buffer. The result is -1 when a read fails.\<close>

partial_function (option) file_loop :: "('s, 'a) os_scheme \<Rightarrow> u8 list \<Rightarrow> nat \<Rightarrow> u8 list \<Rightarrow> int \<Rightarrow> u8 list \<Rightarrow> int \<Rightarrow> 's \<Rightarrow> (int \<times> 's) option" where
  "file_loop os s s_len fname fd data filled st = do {
     (cnt, buf, st) \<leftarrow> ece391_read os fd (drop (nat filled) data) (1024 - filled) st;
     if -1 = cnt then do {
       st \<leftarrow> ece391_fdputs os 1 (c_string (''file read failed'' @ newline)) st;
       Some (-1, st) }
     else do {
       (data, filled, st) \<leftarrow> lines_loop os s s_len fname cnt 0 (take (nat filled) data @ buf) (filled + cnt) st;
       if 0 = cnt then Some (0, st) else file_loop os s s_len fname fd data filled st } }"

definition do_one_file :: "('s, 'a) os_scheme \<Rightarrow> u8 list \<Rightarrow> u8 list \<Rightarrow> u8 list \<Rightarrow> 's \<Rightarrow> (int \<times> 's) option" where
  "do_one_file os junk s fname st = do {
     s_len \<leftarrow> ece391_strlen s;
     (fd, st) \<leftarrow> ece391_open os fname st;
     if -1 = fd then do {
       st \<leftarrow> ece391_fdputs os 1 (c_string (''file open failed'' @ newline)) st;
       Some (-1, st) }
     else do {
       (r, st) \<leftarrow> file_loop os s s_len fname fd junk 0 st;
       if r = -1 then Some (-1, st)
       else do {
         (r, st) \<leftarrow> ece391_close os fd st;
         if -1 = r then do {
           st \<leftarrow> ece391_fdputs os 1 (c_string (''file close failed'' @ newline)) st;
           Some (-1, st) }
         else Some (0, st) } } }"

text \<open>\<open>junk\<close> gives what the buffer of \<open>do_one_file\<close> holds when it is called.\<close>

partial_function (option) grep_loop :: "('s, 'a) os_scheme \<Rightarrow> ('s \<Rightarrow> u8 list) \<Rightarrow> u8 list \<Rightarrow> int \<Rightarrow> u8 list \<Rightarrow> 's \<Rightarrow> (int \<times> 's) option" where
  "grep_loop os junk search fd buf st = do {
     (cnt, buf, st) \<leftarrow> ece391_read os fd buf 32 st;
     if 0 = cnt then Some (0, st)
     else if -1 = cnt then do {
       st \<leftarrow> ece391_fdputs os 1 (c_string (''directory entry read failed'' @ newline)) st;
       Some (3, st) }
     else do {
       c \<leftarrow> aget buf 0;
       if 46 = c then grep_loop os junk search fd buf st
       else do {
         buf \<leftarrow> aset buf cnt 0;
         (r, st) \<leftarrow> do_one_file os (junk st) search buf st;
         if 0 \<noteq> r then Some (3, st) else grep_loop os junk search fd buf st } } }"

definition grep_main :: "('s, 'a) os_scheme \<Rightarrow> ('s \<Rightarrow> u8 list) \<Rightarrow> u8 list \<Rightarrow> u8 list \<Rightarrow> 's \<Rightarrow> (int \<times> 's) option" where
  "grep_main os junk buf search st = do {
     (r, search, st) \<leftarrow> ece391_getargs os search 1024 st;
     if 0 \<noteq> r then do {
       st \<leftarrow> ece391_fdputs os 1 (c_string (''could not read argument'' @ newline)) st;
       Some (3, st) }
     else do {
       (fd, st) \<leftarrow> ece391_open os (c_string ''.'') st;
       if -1 = fd then do {
         st \<leftarrow> ece391_fdputs os 1 (c_string (''directory open failed'' @ newline)) st;
         Some (2, st) }
       else grep_loop os junk search fd buf st } }"

section \<open>Lines\<close>

text \<open>The lines of a text, without their newlines; a last line may end without one.\<close>

function text_lines :: "u8 list \<Rightarrow> u8 list list" where
  "text_lines xs =
     (if xs = [] then [] else takeWhile (\<lambda>c. c \<noteq> 10) xs # text_lines (drop 1 (dropWhile (\<lambda>c. c \<noteq> 10) xs)))"
  by pat_completeness auto
termination
proof (relation "measure length"; simp)
  fix xs :: "u8 list"
  assume "xs \<noteq> []"
  then show "length (dropWhile (\<lambda>c. c \<noteq> 10) xs) - Suc 0 < length xs"
    using length_dropWhile_le [of "\<lambda>c. c \<noteq> 10" xs] by (cases xs) auto
qed

declare text_lines.simps [simp del]

definition contains :: "u8 list \<Rightarrow> u8 list \<Rightarrow> bool" where
  "contains pat line \<longleftrightarrow> (\<exists>k < length line. take (length pat) (drop k line) = pat)"

text \<open>What \<open>grep\<close> shows of a file: the lines that contain \<open>pat\<close>, each after the name of the file.\<close>

definition grep_text :: "u8 list \<Rightarrow> u8 list \<Rightarrow> u8 list \<Rightarrow> u8 list" where
  "grep_text pat name content =
     concat (map (\<lambda>l. name @ [58] @ l @ [10]) (filter (contains pat) (text_lines content)))"

lemma span_line:
  assumes "10 \<notin> set (l :: u8 list)"
  shows "takeWhile (\<lambda>c. c \<noteq> 10) (l @ 10 # rest) = l" "dropWhile (\<lambda>c. c \<noteq> 10) (l @ 10 # rest) = 10 # rest"
    "takeWhile (\<lambda>c. c \<noteq> 10) l = l" "dropWhile (\<lambda>c. c \<noteq> 10) l = []"
  using assms by (induction l) auto

lemma text_lines_line: "10 \<notin> set l \<Longrightarrow> text_lines (l @ 10 # rest) = l # text_lines rest"
  by (subst text_lines.simps) (simp add: span_line)

lemma text_lines_last: "10 \<notin> set l \<Longrightarrow> text_lines l = (if l = [] then [] else [l])"
  by (subst text_lines.simps) (simp add: span_line text_lines.simps [of "[]"])

definition line_text :: "u8 list \<Rightarrow> u8 list \<Rightarrow> u8 list \<Rightarrow> u8 list" where
  "line_text pat name l = (if contains pat l then name @ [58] @ l @ [10] else [])"

lemma grep_text_line: "10 \<notin> set l \<Longrightarrow> grep_text pat name (l @ 10 # rest) = line_text pat name l @ grep_text pat name rest"
  by (simp add: grep_text_def line_text_def text_lines_line)

lemma grep_text_last: "10 \<notin> set l \<Longrightarrow> grep_text pat name l = line_text pat name l"
  by (simp add: grep_text_def line_text_def text_lines_last contains_def)

text \<open>The part of an array from index \<open>i\<close> up to index \<open>n\<close>.\<close>

definition part :: "nat \<Rightarrow> nat \<Rightarrow> u8 list \<Rightarrow> u8 list" where
  "part i n data = take (n - i) (drop i data)"

lemma length_part [simp]: "n \<le> length data \<Longrightarrow> length (part i n data) = n - i"
  by (simp add: part_def)

lemma part_Nil [simp]: "part n n data = []"
  by (simp add: part_def)

lemma part_Cons: "i < n \<Longrightarrow> n \<le> length data \<Longrightarrow> part i n data = data ! i # part (Suc i) n data"
  by (simp add: part_def Cons_nth_drop_Suc [symmetric] take_Cons' Suc_diff_Suc)

lemma part_split:
  assumes "i \<le> k" "k \<le> n"
  shows "part i n data = part i k data @ part k n data"
proof -
  have "n - i = (k - i) + (n - k)" "drop k data = drop (k - i) (drop i data)" using assms by simp_all
  then show ?thesis by (simp only: part_def take_add)
qed

lemma part_update [simp]:
  assumes "k < i \<or> n \<le> k"
  shows "part i n (data[k := c]) = part i n data"
proof (cases "k < i")
  case True
  then show ?thesis by (simp add: part_def)
next
  case False
  have "part i n xs = drop i (take n xs)" for xs by (simp add: part_def drop_take)
  with assms False show ?thesis by simp
qed

lemma cstr_part:
  assumes "0 \<notin> set (part i n data)" "i \<le> n" "n < length data" "data ! n = 0"
  shows "cstr (drop i data) = part i n data" "0 \<in> set (drop i data)"
proof -
  have "drop i data = part i n data @ drop n data"
    using append_take_drop_id [of "n - i" "drop i data"] assms(2) by (simp add: part_def)
  also have "drop n data = 0 # drop (Suc n) data" using assms(3,4) by (simp add: Cons_nth_drop_Suc [symmetric])
  finally have d: "drop i data = part i n data @ 0 # drop (Suc n) data" .
  then show "cstr (drop i data) = part i n data" using cstr_append_nul [OF assms(1)] by simp
  show "0 \<in> set (drop i data)" using d by simp
qed

text \<open>The scan stops at the first newline, or at the end of the text.\<close>

lemma line_scan_eq:
  assumes "i \<le> n" "n \<le> length data"
  shows "line_scan data (int n) (int i) = Some (int (i + length (takeWhile (\<lambda>c. c \<noteq> 10) (part i n data))))"
  using assms
proof (induction "n - i" arbitrary: i)
  case 0
  then show ?case by (subst line_scan.simps) simp
next
  case (Suc m)
  then have i: "i < n" by simp
  have IH: "line_scan data (int n) (int (Suc i)) = Some (int (Suc i + length (takeWhile (\<lambda>c. c \<noteq> 10) (part (Suc i) n data))))"
    using Suc.hyps(2) i Suc.prems(2) by (intro Suc.hyps(1)) simp_all
  show ?case
    using i Suc.prems(2) IH by (subst line_scan.simps) (auto simp: aget_def part_Cons add.commute)
qed

lemma takeWhile_stop: "takeWhile P (l @ y # ys) = l \<Longrightarrow> \<not> P y"
  by (induction l) (auto split: if_splits)

text \<open>The first line of the text from \<open>i\<close> to \<open>n\<close>, and what follows it.\<close>

lemma first_line:
  assumes "i \<le> n" "n < length data"
  obtains l e where "e = i + length l" "e \<le> n" "10 \<notin> set l" "part i e data = l" "part i n data = l @ part e n data"
    "line_scan data (int n) (int i) = Some (int e)"
    "e < n \<Longrightarrow> data ! e = 10 \<and> part e n data = 10 # part (Suc e) n data"
proof -
  define l where "l = takeWhile (\<lambda>c. c \<noteq> 10) (part i n data)"
  define e where "e = i + length l"
  have "length l \<le> n - i"
    using length_takeWhile_le [of "\<lambda>c. c \<noteq> 10" "part i n data"] assms(2) by (simp add: l_def)
  then have e: "i \<le> e" "e \<le> n" using assms(1) by (simp_all add: e_def)
  have sp: "part i n data = part i e data @ part e n data" by (rule part_split [OF e])
  have len: "length (part i e data) = length l" using e(2) assms(2) by (simp add: e_def)
  have "part i n data = l @ dropWhile (\<lambda>c. c \<noteq> 10) (part i n data)" unfolding l_def by (rule takeWhile_dropWhile_id [symmetric])
  then have "part i e data @ part e n data = l @ dropWhile (\<lambda>c. c \<noteq> 10) (part i n data)" by (simp only: sp [symmetric])
  with len have pl: "part i e data = l" by (simp add: append_eq_append_conv)
  have nl: "data ! e = 10 \<and> part e n data = 10 # part (Suc e) n data" if "e < n"
  proof -
    have tail: "part e n data = data ! e # part (Suc e) n data" using part_Cons [OF that] assms(2) by simp
    have q: "part i n data = l @ data ! e # part (Suc e) n data" unfolding sp pl tail ..
    have "takeWhile (\<lambda>c. c \<noteq> 10) (l @ data ! e # part (Suc e) n data) = l"
      unfolding q [symmetric] by (rule l_def [symmetric])
    from takeWhile_stop [OF this] have "data ! e = 10" by simp
    with tail show ?thesis by simp
  qed
  have "line_scan data (int n) (int i) = Some (int e)"
    using line_scan_eq [OF assms(1), of data] assms(2) by (simp add: e_def l_def)
  moreover have "10 \<notin> set l" by (auto simp: l_def dest: set_takeWhileD)
  ultimately show ?thesis using that [OF e_def e(2) _ pl] sp pl nl by simp
qed

section \<open>The search\<close>

lemma contains_from_step:
  "contains pat xs \<Longrightarrow> contains pat (x # xs)"
  by (auto simp: contains_def intro: exI [of _ "Suc _"])

lemma contains_Cons: "contains pat (x # xs) \<longleftrightarrow> take (length pat) (x # xs) = pat \<or> contains pat xs"
proof
  assume "contains pat (x # xs)"
  then obtain k where "k < Suc (length xs)" "take (length pat) (drop k (x # xs)) = pat" by (auto simp: contains_def)
  then show "take (length pat) (x # xs) = pat \<or> contains pat xs"
    by (cases k) (auto simp: contains_def)
next
  assume "take (length pat) (x # xs) = pat \<or> contains pat xs"
  then show "contains pat (x # xs)"
  proof
    assume "take (length pat) (x # xs) = pat"
    then show ?thesis unfolding contains_def by (intro exI [of _ 0]) simp
  qed (rule contains_from_step)
qed

lemma contains_Nil: "\<not> contains pat []"
  by (simp add: contains_def)

text \<open>A search string: not empty, and its first character is not negative as a \<open>char\<close>.\<close>

definition search_string :: "u8 list \<Rightarrow> u8 list \<Rightarrow> bool" where
  "search_string s pat \<longleftrightarrow> 0 \<in> set s \<and> cstr s = pat \<and> pat \<noteq> [] \<and> unat (hd pat) < 128"

lemma search_string_first:
  assumes "search_string s pat"
  shows "aget s 0 = Some (hd pat)" "sint (hd pat) = uint (hd pat)" "ece391_strlen s = Some (length pat)"
proof -
  have s: "0 \<in> set s" "cstr s = pat" "pat \<noteq> []" "unat (hd pat) < 128" using assms by (auto simp: search_string_def)
  have "s ! 0 = hd pat" using nth_cstr [of 0 s] s(2,3) by (simp add: hd_conv_nth)
  moreover have "0 < length s" using s(1) by (cases s) auto
  ultimately show "aget s 0 = Some (hd pat)" by (simp add: aget_def)
  have "uint (hd pat) < 128" using s(4) unfolding unat_eq_nat_uint by linarith
  moreover have "(2 :: int) ^ 7 = 128" by simp
  ultimately have "signed_take_bit 7 (uint (hd pat)) = uint (hd pat)"
    using uint_ge_0 [of "hd pat"] by (intro signed_take_bit_int_eq_self) linarith+
  then show "sint (hd pat) = uint (hd pat)" by (simp add: sint_uint)
  show "ece391_strlen s = Some (length pat)" using s by (simp add: ece391_strlen_eq)
qed

context text_output
begin

lemma show_line_shown:
  assumes st: "ready st" and f: "0 \<in> set fname" "length fname \<le> 4096" "cstr fname \<noteq> []" "13 \<notin> set (cstr fname)"
    and l: "0 \<in> set line" "length line \<le> 4096" "cstr line \<noteq> []" "13 \<notin> set (cstr line)"
  shows "\<exists>s'. show_line os fname line st = Some s' \<and> ready s' \<and> rest s' = rest st \<and>
    screen s' = fold show_char (cstr fname @ [58] @ cstr line @ [10]) (screen st)"
proof -
  have c: "cstr (c_string '':'') = [58]" "length (c_string '':'') \<le> 4096" "cstr (c_string newline) = [10]"
    "length (c_string newline) \<le> 4096"
    by (simp_all add: c_string_def cstr_def newline_def)
  obtain s1 where s1: "ece391_fdputs os 1 fname st = Some s1" "ready s1" "rest s1 = rest st"
    "screen s1 = fold show_char (cstr fname) (screen st)"
    using fdputs_shown [OF st f] by blast
  obtain s2 where s2: "ece391_fdputs os 1 (c_string '':'') s1 = Some s2" "ready s2" "rest s2 = rest s1"
    "screen s2 = fold show_char [58] (screen s1)"
    using fdputs_shown [OF s1(2) nul_in_c_string c(2)] c(1) by auto
  obtain s3 where s3: "ece391_fdputs os 1 line s2 = Some s3" "ready s3" "rest s3 = rest s2"
    "screen s3 = fold show_char (cstr line) (screen s2)"
    using fdputs_shown [OF s2(2) l] by blast
  obtain s4 where s4: "ece391_fdputs os 1 (c_string newline) s3 = Some s4" "ready s4" "rest s4 = rest s3"
    "screen s4 = fold show_char [10] (screen s3)"
    using fdputs_shown [OF s3(2) nul_in_c_string c(4)] c(3) by auto
  show ?thesis using s1 s2 s3 s4 by (intro exI [of _ s4]) (simp add: show_line_def)
qed

text \<open>The line from \<open>i\<close> to \<open>n\<close>, searched from \<open>k\<close> on.\<close>

lemma search_loop_shown:
  assumes s: "search_string s pat"
    and f: "0 \<in> set fname" "length fname \<le> 4096" "cstr fname \<noteq> []" "13 \<notin> set (cstr fname)"
    and d: "n < length data" "length data \<le> 4096" "data ! n = 0" "i \<le> k" "k \<le> n"
      "0 \<notin> set (part i n data)" "13 \<notin> set (part i n data)"
    and st: "ready st"
  shows "\<exists>s'. search_loop os s (length pat) fname data (int i) (int n) (int k) st = Some s' \<and> ready s' \<and> rest s' = rest st \<and>
    screen s' = fold show_char (if contains pat (part k n data) then cstr fname @ [58] @ part i n data @ [10] else []) (screen st)"
  using d(4,5)
proof (induction "n - k" arbitrary: k)
  case 0
  then show ?case using st by (subst search_loop.simps) (auto simp: contains_def)
next
  case (Suc m)
  then have k: "k < n" by simp
  have IH: "\<exists>s'. search_loop os s (length pat) fname data (int i) (int n) (int (Suc k)) st = Some s' \<and> ready s' \<and> rest s' = rest st \<and>
    screen s' = fold show_char (if contains pat (part (Suc k) n data) then cstr fname @ [58] @ part i n data @ [10] else []) (screen st)"
    using Suc k by (intro Suc.hyps(1)) simp_all
  note sp = part_split [OF Suc.prems(1,2), of data]
  have z: "0 \<notin> set (part k n data)" using d(6) sp by simp
  have c: "cstr (drop k data) = part k n data" "0 \<in> set (drop k data)"
    using cstr_part [OF z Suc.prems(2) d(1,3)] .
  have s0: "0 \<in> set s" "cstr s = pat" "pat \<noteq> []" using s by (simp_all add: search_string_def)
  obtain r where r: "ece391_strncmp (drop k data) s (length pat) = Some r" "r = 0 \<longleftrightarrow> take (length pat) (part k n data) = pat"
    using ece391_strncmp_zero [OF c(2) s0(1), of "length pat"] c(1) s0(2) by auto
  have pc: "part k n data = data ! k # part (Suc k) n data" using part_Cons [OF k] d(1) by simp
  have hd: "hd pat = data ! k" if "r = 0"
    using that r(2) pc s0(3) by (cases pat) auto
  have a: "aget data (int k) = Some (data ! k)" using k d(1) by (simp add: aget_def)
  have cont: "contains pat (part k n data) \<longleftrightarrow> r = 0 \<or> contains pat (part (Suc k) n data)"
    using r(2) contains_Cons [of pat "data ! k" "part (Suc k) n data"] by (simp add: pc)
  have tst: "(do {
            c \<leftarrow> aget s 0;
            d \<leftarrow> aget data (int k);
            if sint c = uint d then map_option (\<lambda>r. 0 = r) (ece391_strncmp (drop (nat (int k)) data) s (length pat))
            else Some False }) = Some (r = 0)"
    using search_string_first [OF s] a r(1) hd by (auto simp: word_uint_eq_iff)
  show ?case
  proof (cases "r = 0")
    case True
    have ci: "cstr (drop i data) = part i n data" "0 \<in> set (drop i data)"
      using cstr_part [OF d(6) _ d(1,3)] d(4,5) by simp_all
    have l: "length (drop i data) \<le> 4096" "part i n data \<noteq> []" using sp pc d(2) by simp_all
    then obtain s' where "show_line os fname (drop i data) st = Some s'" "ready s'" "rest s' = rest st"
      "screen s' = fold show_char (cstr fname @ [58] @ part i n data @ [10]) (screen st)"
      using show_line_shown [OF st f ci(2) l(1)] ci(1) l(2) d(7) by auto
    then show ?thesis using k cont True tst by (subst search_loop.simps) simp
  next
    case False
    then show ?thesis using k cont tst IH by (subst search_loop.simps) (simp add: add.commute)
  qed
qed

text \<open>
  The lines in the buffer from \<open>i\<close> on: they are searched up to the last, which is searched too
  when the file has ended, and else is left at the start of the buffer if lines precede it.
\<close>

lemma lines_loop_shown:
  assumes s: "search_string s pat"
    and f: "0 \<in> set fname" "length fname \<le> 4096" "cstr fname \<noteq> []" "13 \<notin> set (cstr fname)"
    and d: "i \<le> n" "n < length data" "length data \<le> 4096" "0 \<notin> set (part i n data)" "13 \<notin> set (part i n data)"
    and st: "ready st"
  shows "\<exists>data' pend out s'. lines_loop os s (length pat) fname cnt (int i) data (int n) st = Some (data', int (length pend), s') \<and>
    length data' = length data \<and> take (length pend) data' = pend \<and> length pend \<le> n \<and>
    set pend \<subseteq> set (part i n data) \<and> 10 \<notin> set pend \<and> (cnt = 0 \<longrightarrow> pend = []) \<and>
    ready s' \<and> rest s' = rest st \<and> screen s' = fold show_char out (screen st) \<and>
    out @ grep_text pat (cstr fname) pend = grep_text pat (cstr fname) (part i n data)"
  using d st
proof (induction "n - i" arbitrary: i data st rule: less_induct)
  case less
  obtain l e where l: "e = i + length l" "e \<le> n" "10 \<notin> set l" "part i e data = l" "part i n data = l @ part e n data"
    "line_scan data (int n) (int i) = Some (int e)"
    "e < n \<Longrightarrow> data ! e = 10 \<and> part e n data = 10 # part (Suc e) n data"
    by (rule first_line [OF less.prems(1,2)]) (rule that; assumption)
  let ?d = "data[e := 0]"
  have e: "i \<le> e" "e < length data" using l(1,2) less.prems(2) by simp_all
  have acc: "aget data (int e) = Some (data ! e)" "aset data (int e) 0 = Some ?d" "?d ! e = 0" "length ?d = length data"
    using e(2) by (simp_all add: aget_def aset_def)
  have clean: "0 \<notin> set l" "13 \<notin> set l" using less.prems(4,5) l(5) by simp_all
  have pd: "part i e ?d = l" using l(4) by simp
  obtain s1 where s1: "search_loop os s (length pat) fname ?d (int i) (int e) (int i) st = Some s1" "ready s1" "rest s1 = rest st"
      "screen s1 = fold show_char (line_text pat (cstr fname) l) (screen st)"
    using search_loop_shown [OF s f _ _ acc(3) le_refl e(1), of st] e(2) less.prems(3,6) pd clean
    unfolding line_text_def by auto
  consider (more) "Suc e < n" | (whole) "Suc e = n" | (keep) "e = n" "data ! e \<noteq> 10" "cnt \<noteq> 0" "i \<noteq> 0"
    | (final) "e = n" "data ! e = 10 \<or> cnt = 0 \<or> i = 0" using l(2) by fastforce
  then show ?case
  proof cases
    case more
    have p2: "part (Suc e) n ?d = part (Suc e) n data" by simp
    have "n - Suc e < n - i" "Suc e \<le> n" "n < length ?d" "length ?d \<le> 4096" "0 \<notin> set (part (Suc e) n ?d)"
      "13 \<notin> set (part (Suc e) n ?d)"
      using more e(1) less.prems l(5,7) by simp_all
    from less.hyps [OF this s1(2)] obtain data' pend out s' where
      r: "lines_loop os s (length pat) fname cnt (int (Suc e)) ?d (int n) s1 = Some (data', int (length pend), s')"
      "length data' = length data" "take (length pend) data' = pend" "length pend \<le> n"
      "set pend \<subseteq> set (part (Suc e) n data)" "10 \<notin> set pend" "cnt = 0 \<longrightarrow> pend = []" "ready s'" "rest s' = rest s1"
      "screen s' = fold show_char out (screen s1)"
      "out @ grep_text pat (cstr fname) pend = grep_text pat (cstr fname) (part (Suc e) n data)"
      unfolding p2 by auto
    have t: "part i n data = l @ 10 # part (Suc e) n data" using l(5,7) more by simp
    have "lines_loop os s (length pat) fname cnt (int i) data (int n) st = Some (data', int (length pend), s')"
      using l(6,7) acc s1(1) r(1) more by (subst lines_loop.simps) (simp add: add.commute)
    then show ?thesis
      using r s1 t grep_text_line [OF l(3), of pat "cstr fname" "part (Suc e) n data"]
      by (intro exI [of _ data'] exI [of _ pend] exI [of _ "line_text pat (cstr fname) l @ out"] exI [of _ s']) auto
  next
    case whole
    have t: "part i n data = l @ [10]" using l(5,7) whole by simp
    have "lines_loop os s (length pat) fname cnt (int i) data (int n) st = Some (?d, int (length ([] :: u8 list)), s1)"
      using l(6,7) acc s1(1) whole by (subst lines_loop.simps) simp
    then show ?thesis
      using s1 t grep_text_line [OF l(3), of pat "cstr fname" "[]"]
      by (intro exI [of _ ?d] exI [of _ "[]"] exI [of _ "line_text pat (cstr fname) l"] exI [of _ s1]) auto
  next
    case keep
    have t: "part i n data = l" "part i n ?d = l" using l(5) pd keep(1) by simp_all
    have c: "cstr (drop i ?d) = l" "0 \<in> set (drop i ?d)"
      using cstr_part [of i n ?d] t clean less.prems(1,2) acc keep(1) by simp_all
    let ?D = "l @ 0 # drop (length l + 1) ?d"
    have "ece391_strcpy_within ?d 0 i = Some ?D" using ece391_strcpy_within_eq [OF _ c(2), of 0] c(1) by simp
    then have "lines_loop os s (length pat) fname cnt (int i) data (int n) st = Some (?D, int (length l), st)"
      using l(1,6) acc keep by (subst lines_loop.simps) simp
    moreover have "length ?D = length data" "length l \<le> n" using l(1,2) e(2) by simp_all
    ultimately show ?thesis
      using t l(3) less.prems(6) keep(3)
      by (intro exI [of _ ?D] exI [of _ l] exI [of _ "[]"] exI [of _ st]) simp
  next
    case final
    have t: "part i n data = l" using l(5) final(1) by simp
    have "lines_loop os s (length pat) fname cnt (int i) data (int n) st = Some (?d, int (length ([] :: u8 list)), s1)"
      using l(6) acc s1(1) final by (subst lines_loop.simps) auto
    then show ?thesis
      using s1 t grep_text_last [OF l(3), of pat "cstr fname"] 
      by (intro exI [of _ ?d] exI [of _ "[]"] exI [of _ "line_text pat (cstr fname) l"] exI [of _ s1]) (auto simp: grep_text_def text_lines.simps [of "[]"])
  qed
qed

end

text \<open>
  A descriptor of a file shorter than the buffer: the first read delivers the \<open>content\<close>, and may
  store more after it; later reads return 0.
\<close>

locale small_file = text_output os ready rest screen show_char
  for os :: "('s, 'a) os_scheme"
    and ready :: "'s \<Rightarrow> bool"
    and rest :: "'s \<Rightarrow> 'r"
    and screen :: "'s \<Rightarrow> 't"
    and show_char :: "u8 \<Rightarrow> 't \<Rightarrow> 't" +
  fixes fd :: int
    and content :: "u8 list"
    and unread :: "'r \<Rightarrow> bool"
    and spent :: "'r \<Rightarrow> bool"
  assumes read_content: "ready s \<Longrightarrow> unread (rest s) \<Longrightarrow> 1024 \<le> length buf \<Longrightarrow> length buf \<le> 4096 \<Longrightarrow>
    \<exists>buf' s'. ece391_read os fd buf 1024 s = Some (int (length content), buf', s') \<and> length buf' = length buf \<and>
      take (length content) buf' = content \<and> ready s' \<and> spent (rest s') \<and> screen s' = screen s"
    and read_spent: "ready s \<Longrightarrow> spent (rest s) \<Longrightarrow> 1 \<le> n \<Longrightarrow> n \<le> length buf \<Longrightarrow> length buf \<le> 4096 \<Longrightarrow>
    \<exists>buf' s'. ece391_read os fd buf (int n) s = Some (0, buf', s') \<and> length buf' = length buf \<and>
      ready s' \<and> spent (rest s') \<and> screen s' = screen s"
    and content_small: "unread (rest s) \<Longrightarrow> length content < 1024"
begin

lemma file_loop_spent:
  assumes s: "search_string s pat"
    and f: "0 \<in> set fname" "length fname \<le> 4096" "cstr fname \<noteq> []" "13 \<notin> set (cstr fname)"
    and d: "length data = 1025" "take (length pend) data = pend" "length pend < 1024" "0 \<notin> set pend" "13 \<notin> set pend"
    and st: "ready st" "spent (rest st)"
  shows "\<exists>s'. file_loop os s (length pat) fname fd data (int (length pend)) st = Some (0, s') \<and> ready s' \<and> spent (rest s') \<and>
    screen s' = fold show_char (grep_text pat (cstr fname) pend) (screen st)"
proof -
  let ?p = "length pend"
  obtain buf s1 where r: "ece391_read os fd (drop ?p data) (int (1024 - ?p)) st = Some (0, buf, s1)"
    "length buf = 1025 - ?p" "ready s1" "spent (rest s1)" "screen s1 = screen st"
    using read_spent [OF st, of "1024 - ?p" "drop ?p data"] d(1,3) by fastforce
  have n: "int (1024 - ?p) = 1024 - int ?p" using d(3) by simp
  let ?d = "take ?p data @ buf"
  have dl: "length ?d = 1025" "part 0 ?p ?d = pend" using r(2) d(1-3) by (simp_all add: part_def)
  obtain data' pend' out s' where l: "lines_loop os s (length pat) fname 0 (int 0) ?d (int ?p) s1 = Some (data', int (length pend'), s')"
    "0 = (0 :: int) \<longrightarrow> pend' = []" "ready s'" "rest s' = rest s1" "screen s' = fold show_char out (screen s1)"
    "out @ grep_text pat (cstr fname) pend' = grep_text pat (cstr fname) pend"
    using lines_loop_shown [OF s f, of 0 ?p ?d s1 0] r(3) dl d(3-5) by auto
  have "out = grep_text pat (cstr fname) pend"
    using l(2,6) grep_text_last [of "[]" pat "cstr fname"] by (simp add: line_text_def contains_def)
  with l r show ?thesis unfolding n by (subst file_loop.simps) simp
qed

lemma file_loop_shown:
  assumes s: "search_string s pat"
    and f: "0 \<in> set fname" "length fname \<le> 4096" "cstr fname \<noteq> []" "13 \<notin> set (cstr fname)"
    and d: "length data = 1025" "0 \<notin> set content" "13 \<notin> set content"
    and st: "ready st" "unread (rest st)"
  shows "\<exists>s'. file_loop os s (length pat) fname fd data 0 st = Some (0, s') \<and> ready s' \<and> spent (rest s') \<and>
    screen s' = fold show_char (grep_text pat (cstr fname) content) (screen st)"
proof -
  let ?n = "length content"
  have small: "?n < 1024" by (rule content_small [OF st(2)])
  obtain buf s1 where r: "ece391_read os fd data 1024 st = Some (int ?n, buf, s1)" "length buf = 1025"
    "take ?n buf = content" "ready s1" "spent (rest s1)" "screen s1 = screen st"
    using read_content [OF st, of data] d(1) by auto
  have p: "part 0 ?n buf = content" using r(3) by (simp add: part_def)
  obtain data' pend out s2 where l: "lines_loop os s (length pat) fname (int ?n) (int 0) buf (int ?n) s1 = Some (data', int (length pend), s2)"
    "length data' = 1025" "take (length pend) data' = pend" "length pend \<le> ?n" "set pend \<subseteq> set content"
    "int ?n = 0 \<longrightarrow> pend = []" "ready s2" "rest s2 = rest s1" "screen s2 = fold show_char out (screen s1)"
    "out @ grep_text pat (cstr fname) pend = grep_text pat (cstr fname) content"
    using lines_loop_shown [OF s f, of 0 ?n buf s1 "int ?n"] r(2,4) p d small by auto
  show ?thesis
  proof (cases "content = []")
    case True
    have "grep_text pat (cstr fname) [] = []" using grep_text_last [of "[]"] by (simp add: line_text_def contains_def)
    with True l r small show ?thesis by (subst file_loop.simps) simp
  next
    case False
    have "0 \<notin> set pend" "13 \<notin> set pend" "length pend < 1024" "spent (rest s2)"
      using l(4,5,8) d(2,3) small r(5) by auto
    with file_loop_spent [OF s f l(2,3)] l(7) obtain s' where
      "file_loop os s (length pat) fname fd data' (int (length pend)) s2 = Some (0, s')" "ready s'" "spent (rest s')"
      "screen s' = fold show_char (grep_text pat (cstr fname) pend) (screen s2)" by blast
    moreover have "fold show_char (grep_text pat (cstr fname) content) (screen st) =
        fold show_char (grep_text pat (cstr fname) pend) (screen s2)"
      unfolding l(10) [symmetric] l(9) r(6) by simp
    ultimately show ?thesis using False l(1) r by (subst file_loop.simps) simp
  qed
qed

end

text \<open>\<open>do_one_file\<close> on a system whose \<open>open\<close> delivers such a descriptor, and whose \<open>close\<close> succeeds.\<close>

context small_file
begin

lemma do_one_file_shown:
  assumes s: "search_string s pat"
    and f: "0 \<in> set fname" "length fname \<le> 4096" "cstr fname \<noteq> []" "13 \<notin> set (cstr fname)"
    and d: "length junk = 1025" "0 \<notin> set content" "13 \<notin> set content"
    and o: "ece391_open os fname st = Some (fd, s1)" "fd \<noteq> -1" "ready s1" "unread (rest s1)" "screen s1 = screen st"
    and c: "\<And>s2. ready s2 \<Longrightarrow> spent (rest s2) \<Longrightarrow> \<exists>s3. ece391_close os fd s2 = Some (0, s3) \<and> Q s3 \<and> screen s3 = screen s2"
  shows "\<exists>s3. do_one_file os junk s fname st = Some (0, s3) \<and> Q s3 \<and>
    screen s3 = fold show_char (grep_text pat (cstr fname) content) (screen st)"
proof -
  obtain s2 where l: "file_loop os s (length pat) fname fd junk 0 s1 = Some (0, s2)" "ready s2" "spent (rest s2)"
    "screen s2 = fold show_char (grep_text pat (cstr fname) content) (screen s1)"
    using file_loop_shown [OF s f d o(3,4)] by blast
  obtain s3 where "ece391_close os fd s2 = Some (0, s3)" "Q s3" "screen s3 = screen s2" using c [OF l(2,3)] by blast
  with l(1,4) o search_string_first(3) [OF s] show ?thesis by (intro exI [of _ s3]) (simp add: do_one_file_def)
qed

end

text \<open>The loop over the items of a directory; \<open>shown\<close> is what the program shows of one.\<close>

context item_source
begin

lemma grep_loop_shown:
  assumes "ready s" "N = 32" "length buf = 33" "\<forall>c \<in> set (items (rest s)). 0 \<notin> set c"
    and one: "\<And>t name. ready t \<Longrightarrow> 0 \<in> set name \<Longrightarrow> length name = 33 \<Longrightarrow> cstr name \<in> set (items (rest s)) \<Longrightarrow> hd (cstr name) \<noteq> 46 \<Longrightarrow>
      \<exists>t'. do_one_file os (junk t) search name t = Some (0, t') \<and> ready t' \<and> items (rest t') = items (rest t) \<and>
        screen t' = fold show_char (shown (cstr name)) (screen t)"
  shows "\<exists>s'. grep_loop os junk search fd buf s = Some (0, s') \<and> ready s' \<and> items (rest s') = [] \<and>
    screen s' = fold show_char (concat (map shown (filter (\<lambda>c. hd c \<noteq> 46) (items (rest s))))) (screen s)"
  using assms(1,3-)
proof (induction "items (rest s)" arbitrary: s buf)
  case Nil
  then obtain buf' s' where "ece391_read os fd buf 32 s = Some (0, buf', s')" "ready s'" "items (rest s') = []"
    "screen s' = screen s"
    using read_end [of s buf] assms(2) by auto
  with Nil(1) show ?case by (subst grep_loop.simps) (simp add: Nil(1) [symmetric])
next
  case (Cons c cs)
  have c: "c \<noteq> []" "length c \<le> 32" "0 \<notin> set c"
    using item_size [OF Cons.prems(1), of c] Cons.prems(3) assms(2) by (simp_all add: Cons.hyps(2) [symmetric])
  obtain buf1 s1 where r: "ece391_read os fd buf 32 s = Some (int (length c), buf1, s1)" "length buf1 = 33"
    "take (length c) buf1 = c" "ready s1" "items (rest s1) = cs" "screen s1 = screen s"
    using read_item [OF Cons.prems(1) Cons.hyps(2) [symmetric], of buf] Cons.prems(2) assms(2) by auto
  have clean: "\<forall>c \<in> set cs. 0 \<notin> set c" using Cons.prems(3) by (simp add: Cons.hyps(2) [symmetric])
  have one: "\<exists>t'. do_one_file os (junk t) search name t = Some (0, t') \<and> ready t' \<and> items (rest t') = items (rest t) \<and>
        screen t' = fold show_char (shown (cstr name)) (screen t)"
    if "ready t" "0 \<in> set name" "length name = 33" "cstr name \<in> set (c # cs)" "hd (cstr name) \<noteq> 46" for t name
    using Cons.prems(4) [OF that(1-3) _ that(5)] that(4) by (simp add: Cons.hyps(2) [symmetric])
  have "buf1 \<noteq> []" using r(2) by auto
  then have "buf1 ! 0 = hd c" using arg_cong [OF r(3), of hd] c(1) by (simp add: hd_take hd_conv_nth)
  then have first: "aget buf1 0 = Some (hd c)" using r(2) by (simp add: aget_def)
  obtain buf2 s2 where step: "grep_loop os junk search fd buf s = grep_loop os junk search fd buf2 s2" "length buf2 = 33" "ready s2"
    "items (rest s2) = cs" "screen s2 = fold show_char (if hd c \<noteq> 46 then shown c else []) (screen s)"
  proof (cases "hd c = 46")
    case True
    with r(1) first c(1) have "grep_loop os junk search fd buf s = grep_loop os junk search fd buf1 s1"
      by (subst grep_loop.simps [of os junk search fd buf s]) simp
    from that [OF this r(2,4,5)] r(6) True show ?thesis by simp
  next
    case False
    let ?name = "buf1[length c := 0]"
    have set: "aset buf1 (int (length c)) 0 = Some ?name" "length ?name = 33" using r(2) c(2) by (simp_all add: aset_def)
    have nm: "?name = c @ 0 # drop (Suc (length c)) buf1" using r(2,3) c(2) by (simp add: upd_conv_take_nth_drop)
    then have nm2: "cstr ?name = c" "0 \<in> set ?name" using cstr_append_nul [OF c(3)] by simp_all
    obtain s2 where s2: "do_one_file os (junk s1) search ?name s1 = Some (0, s2)" "ready s2" "items (rest s2) = cs"
      "screen s2 = fold show_char (shown c) (screen s1)"
      using one [OF r(4) nm2(2) set(2)] nm2(1) False r(5) by auto
    have "grep_loop os junk search fd buf s = grep_loop os junk search fd ?name s2"
      using r(1) first c(1) False set(1) s2(1) by (subst grep_loop.simps [of os junk search fd buf s]) simp
    from that [OF this set(2) s2(2,3)] s2(4) r(6) False show ?thesis by simp
  qed
  obtain s' where "grep_loop os junk search fd buf2 s2 = Some (0, s')" "ready s'" "items (rest s') = []"
    "screen s' = fold show_char (concat (map shown (filter (\<lambda>c. hd c \<noteq> 46) cs))) (screen s2)"
    using Cons.hyps(1) [OF step(4) [symmetric] step(3,2)] clean one unfolding step(4) by auto
  with step show ?case by (simp add: Cons.hyps(2) [symmetric])
qed

end

end
