(* ===== verification/User_Search.thy ===== *)
theory User_Search
  imports User_Directories User_Grep
begin

text \<open>
  \<open>grep\<close> on the kernel: a short file of the kernel is a descriptor in the sense of the interface
  \<open>small_file\<close>, and the directory, which no search changes, is a source of names in the sense of
  \<open>item_source\<close>.
\<close>

section \<open>Files of the kernel\<close>

text \<open>
  The descriptor \<open>fd\<close> of a process that was \<open>q0\<close>: nothing else of it has changed, and the
  descriptor is that of file \<open>i\<close>, at the start or at the end.
\<close>

definition at_start :: "fsys \<Rightarrow> procs \<Rightarrow> int \<Rightarrow> u32 \<Rightarrow> fsys \<times> procs \<Rightarrow> bool" where
  "at_start F q0 fd i Fq \<longleftrightarrow> fst Fq = F \<and> fd_step fd q0 (snd Fq) \<and> length (file_content F i) < 1024 \<and>
     (\<exists>b. get_fd (snd Fq) fd = Some b \<and> inode b = i \<and> file_position b = 0)"

definition at_end :: "fsys \<Rightarrow> procs \<Rightarrow> int \<Rightarrow> u32 \<Rightarrow> fsys \<times> procs \<Rightarrow> bool" where
  "at_end F q0 fd i Fq \<longleftrightarrow> fst Fq = F \<and> fd_step fd q0 (snd Fq) \<and>
     (\<exists>b. get_fd (snd Fq) fd = Some b \<and> inode b = i \<and> file_position b = B_length F i)"

lemma fd_step_trans: "fd_step fd q0 q \<Longrightarrow> fd_step fd q q' \<Longrightarrow> fd_step fd q0 q'"
  unfolding fd_step_def using put_fd_twice by blast

lemma file_read_at_end:
  assumes "get_fd q fd = Some b" "readable_file F b" "file_position b = B_length F (inode b)" "0 < n" "n < 2147483648"
  shows "file_read F q fd mem a (of_nat n) = Some (0, overlay mem a [], q)"
proof (cases "B_length F (inode b) = 0")
  case True
  then show ?thesis using assms by (auto simp: file_read_def read_data_def readable_file_def)
next
  case False
  then have o: "open_file F b" "0 < file_position b" using assms(2,3) by (auto simp: readable_file_def word_gt_0)
  have "unat (of_nat n :: u32) = n" using assms(5) by (simp add: unat_of_nat)
  then show ?thesis
    using file_read_tail_eq [OF assms(1) o, of "of_nat n" mem a] assms(3,4) B_length_content [of F "inode b"] by simp
qed

lemma file_read_at_start:
  assumes q: "procs_wf q" and b: "get_fd q fd = Some b" "readable_file F b" "file_position b = 0"
    and n: "length (file_content F (inode b)) < 1024"
  obtains bs q' b' where "\<And>mem a. file_read F q fd mem a 1024 = Some (int (length (file_content F (inode b))), overlay mem a bs, q')"
    "length bs \<le> 1024" "take (length (file_content F (inode b))) bs = file_content F (inode b)"
    "length (file_content F (inode b)) \<le> length bs" "fd_step fd q q'"
    "get_fd q' fd = Some b'" "readable_file F b'" "inode b' = inode b" "file_position b' = B_length F (inode b)"
proof (cases "B_length F (inode b) = 0")
  case True
  then have "file_content F (inode b) = []" using B_length_content [of F "inode b"] by simp
  then show ?thesis
    using that [of "[]" q b] file_read_at_end [OF b(1,2), of 1024] True b by (simp add: fd_step_def)
next
  case False
  let ?n = "B_length F (inode b)" and ?c = "file_content F (inode b)"
  have o: "open_file F b" using False b(2) by (simp add: readable_file_def)
  obtain q' where q': "advance q fd b ?n = Some q'" "get_fd q' fd = Some (b\<lparr>file_position := ?n\<rparr>)"
    using advance_ok [OF q b(1)] b(3) by (metis add_0)
  have "?n < 1024" using n B_length_content [of F "inode b"] by (simp add: word_less_nat_alt)
  then have "file_read F q fd mem a 1024 = Some (int (length ?c), overlay mem a (?c @ [file_byte F (inode b) (unat ?n)]), q')" for mem a
    using file_read_past_start_eq [OF b(1) o b(3) _ q'(1)] B_length_content [of F "inode b"] by simp
  moreover have "readable_file F (b\<lparr>file_position := ?n\<rparr>)" using o b(2) by (simp add: readable_file_def open_file_def)
  ultimately show ?thesis
    using that [of "?c @ [file_byte F (inode b) (unat ?n)]" q' "b\<lparr>file_position := ?n\<rparr>"] n q'
    by (auto simp: fd_step_def advance_def)
qed

lemma kernel_read_start:
  assumes s: "file_ready pt p video area fd s" "at_start F q0 fd i (fs s, ps s)" and buf: "1024 \<le> length buf" "length buf \<le> 4096"
  shows "\<exists>buf' s'. ece391_read (kernel_os pt e frame temp area child) fd buf 1024 s = Some (int (length (file_content F i)), buf', s') \<and>
    length buf' = length buf \<and> take (length (file_content F i)) buf' = file_content F i \<and> file_ready pt p video area fd s' \<and>
    at_end F q0 fd i (fs s', ps s') \<and> user_screen video s' = user_screen video s"
proof -
  have F: "fs s = F" "fd_step fd q0 (ps s)" "length (file_content F i) < 1024" using s(2) by (simp_all add: at_start_def)
  obtain b where b: "get_fd (ps s) fd = Some b" "readable_file F b" "file_position b = 0" "inode b = i"
    using s F(1) by (auto simp: at_start_def file_ready_def)
  have wf: "procs_wf (ps s)" using s(1) by (simp add: file_ready_def user_ready_def)
  have l: "length (file_content F (inode b)) < 1024" using F(3) b(4) by simp
  obtain bs q b' where r: "\<And>mem a. file_read F (ps s) fd mem a 1024 = Some (int (length (file_content F (inode b))), overlay mem a bs, q)"
    "length bs \<le> 1024" "take (length (file_content F (inode b))) bs = file_content F (inode b)"
    "length (file_content F (inode b)) \<le> length bs" "fd_step fd (ps s) q"
    "get_fd q fd = Some b'" "readable_file F b'" "inode b' = inode b" "file_position b' = B_length F (inode b)"
    by (rule file_read_at_start [OF wf b(1-3) l]) (rule that; assumption)
  have n: "(0 :: int) \<le> 1024" "(1024 :: int) < 2147483648" "length bs \<le> length buf" using r(2) buf(1) by simp_all
  obtain s' where s': "ece391_read (kernel_os pt e frame temp area child) fd buf 1024 s =
      Some (int (length (file_content F (inode b))), bs @ drop (length bs) buf, s')"
    "file_ready pt p video area fd s'" "user_screen video s' = user_screen video s" "ps s' = q" "fs s' = fs s"
    by (rule kernel_file_read_run [OF s(1) b(1) b(2) [folded F(1)] n buf(2) _ r(5,6) r(7) [folded F(1)]])
      (simp add: F(1) r(1), (rule that; assumption))
  have "at_end F q0 fd i (fs s', ps s')"
    using s'(4,5) F(1) fd_step_trans [OF F(2) r(5)] r(6,8,9) b(4) by (simp add: at_end_def)
  with s' r(3,4) b(4) n(3) show ?thesis by (intro exI [of _ "bs @ drop (length bs) buf"] exI [of _ s']) simp
qed

lemma kernel_read_end:
  assumes s: "file_ready pt p video area fd s" "at_end F q0 fd i (fs s, ps s)" and n: "1 \<le> n" "n \<le> length buf" "length buf \<le> 4096"
  shows "\<exists>buf' s'. ece391_read (kernel_os pt e frame temp area child) fd buf (int n) s = Some (0, buf', s') \<and>
    length buf' = length buf \<and> file_ready pt p video area fd s' \<and> at_end F q0 fd i (fs s', ps s') \<and>
    user_screen video s' = user_screen video s"
proof -
  have F: "fs s = F" using s(2) by (simp add: at_end_def)
  obtain b where b: "get_fd (ps s) fd = Some b" "readable_file F b" "file_position b = B_length F (inode b)"
    using s F(1) by (auto simp: at_end_def file_ready_def)
  have r: "file_read F (ps s) fd mem a (of_int (int n)) = Some (0, overlay mem a [], ps s)" for mem a
    using file_read_at_end [OF b, of n mem a] n by simp
  have m: "0 \<le> int n" "int n < 2147483648" "length ([] :: u8 list) \<le> length buf" using n by simp_all
  obtain s' where "ece391_read (kernel_os pt e frame temp area child) fd buf (int n) s = Some (0, [] @ drop (length ([] :: u8 list)) buf, s')"
    "file_ready pt p video area fd s'" "user_screen video s' = user_screen video s" "ps s' = ps s" "fs s' = fs s"
    by (rule kernel_file_read_run [OF s(1) b(1) b(2) [folded F] m n(3) _ _ b(1) b(2) [folded F]])
      (simp only: F r, simp add: fd_step_def, (rule that; assumption))
  with s(2) show ?thesis by auto
qed

interpretation kernel_file: small_file "kernel_os pt e frame temp area child" "file_ready pt p video area fd"
    "\<lambda>s. (fs s, ps s)" "user_screen video" tty_char fd "file_content F i" "at_start F q0 fd i" "at_end F q0 fd i"
  for pt e frame temp area child p video fd F i q0
  by unfold_locales (rule kernel_read_start, assumption+, rule kernel_read_end, assumption+, simp add: at_start_def)

lemma kernel_close_file:
  assumes s: "file_ready pt p video area fd s"
  obtains s' b where "ece391_close (kernel_os pt e frame temp area child) fd s = Some (0, s')" "user_ready pt p video area s'"
    "user_screen video s' = user_screen video s" "fs s' = fs s" "put_fd (ps s) fd (freed b) = Some (ps s')"
proof -
  have u: "user_ready pt p video area s" and api: "file_api (ps s)" and fd: "2 \<le> fd" "fd < 8"
    using s by (simp_all add: file_ready_def)
  obtain b where b: "get_fd (ps s) fd = Some b" "readable_file (fs s) b" using s by (auto simp: file_ready_def)
  have "\<not> is_free b" "file_operations_pointer b = Some File_table" using b(2) by (simp_all add: readable_file_def is_free_def)
  then obtain q where q: "file_close fd (ps s) = Some (0, q)" "put_fd (ps s) fd (freed b) = Some q"
    using close_used [OF fd b(1)] by blast
  let ?s' = "s\<lparr>vid := vid s, ps := q, iflag := iflag s\<rparr>"
  have "close_call fd (cli s) = Some (0, (cli s)\<lparr>ps := q\<rparr>)"
    using close_call_file [of "cli s" fd b 0 q] api b(1) fd q(1) \<open>file_operations_pointer b = _\<close> by (simp add: cli_def)
  then have "ece391_close (kernel_os pt e frame temp area child) fd s = Some (0, ?s')"
    using fd by (simp add: kernel_os_def DO_CALL_eqs signed_arg) (simp add: cli_def)
  moreover have "fd_step fd (ps s) q" "fd \<noteq> 1" using q(2) fd by (auto simp: fd_step_def)
  from user_ready_step [OF u this] have "user_ready pt p video area ?s'" .
  moreover have "user_screen video ?s' = user_screen video s" by (rule user_screen_cong) simp_all
  ultimately show ?thesis using q(2) by (intro that [of ?s' b]) simp_all
qed

section \<open>One file\<close>

text \<open>A name that \<open>grep\<close> can search: of a file of text, shorter than the buffer.\<close>

definition file_named :: "fsys \<Rightarrow> u8 list \<Rightarrow> u8 list" where
  "file_named F name = (case find_entry F name 0 of None \<Rightarrow> [] | Some k \<Rightarrow> file_content F (inode_num (dir_entries F (of_nat k))))"

definition searchable :: "fsys \<Rightarrow> u8 list \<Rightarrow> bool" where
  "searchable F name \<longleftrightarrow> (\<exists>d. named F name TYPE_FILE d \<and> inode_num d \<le> inodes F) \<and> length (file_named F name) < 1024 \<and>
     0 \<notin> set (file_named F name) \<and> 13 \<notin> set (file_named F name) \<and> 13 \<notin> set name"

lemma file_named_eq: "named F name kind d \<Longrightarrow> file_named F name = file_content F (inode_num d)"
  by (auto simp: named_def file_named_def)

lemma fds_after_close:
  assumes "lowest_free q j" "put_fd q j b = Some q1" "fd_step j q1 q2" "put_fd q2 j (freed b') = Some q3"
  shows "fd_step j q q3" "\<not> fds_full q3"
proof -
  show "fd_step j q q3" using assms(2-4) by (blast intro: fd_step_intros fd_step_trans)
  have "is_free (freed b')" by (simp add: is_free_def freed_def)
  then show "\<not> fds_full q3"
    using fd_store.get_put_same [OF assms(4)] assms(1) by (force simp: fds_full_def lowest_free_def)
qed

lemma kernel_do_one_file:
  fixes s :: "'a system_scheme"
  assumes s: "user_ready pt p video area s" "\<not> fds_full (ps s)" "file_api (ps s)"
    and pat: "search_string search pat" and name: "0 \<in> set fname" "length fname \<le> 4096" "searchable (fs s) (cstr fname)"
    and junk: "length junk = 1025"
  obtains s' j where "do_one_file (kernel_os pt e frame temp area child) junk search fname s = Some (0, s')"
    "user_ready pt p video area s'" "fs s' = fs s" "\<not> fds_full (ps s')" "lowest_free (ps s) j" "fd_step j (ps s) (ps s')"
    "user_screen video s' = fold tty_char (grep_text pat (cstr fname) (file_named (fs s) (cstr fname))) (user_screen video s)"
proof -
  obtain d where d: "named (fs s) (cstr fname) TYPE_FILE d" "inode_num d \<le> inodes (fs s)" using name(3) by (auto simp: searchable_def)
  let ?i = "inode_num d" and ?c = "file_content (fs s) (inode_num d)"
  have c: "length ?c < 1024" "0 \<notin> set ?c" "13 \<notin> set ?c" "13 \<notin> set (cstr fname)" "cstr fname \<noteq> []"
    using name(3) d(1) by (simp_all add: searchable_def file_named_eq [OF d(1)] named_def)
  obtain j s1 where o: "ece391_open (kernel_os pt e frame temp area child) fname s = Some (j, s1)"
    "user_ready pt p video area s1" "user_screen video s1 = user_screen video s" "fs s1 = fs s"
    "lowest_free (ps s) j" "get_fd (ps s1) j = Some (file_block ?i (ps s))"
    "put_fd (ps s) j (file_block ?i (ps s)) = Some (ps s1)"
    by (rule kernel_open_file [OF s(1,2) name(1,2) d(1)]) (rule that; assumption)
  let ?b = "file_block ?i (ps s)"
  have b: "inode ?b = ?i" "file_position ?b = 0" "flags ?b = 1" "file_operations_pointer ?b = Some File_table"
    using s(3) by (simp_all add: file_block_def file_api_def)
  have "readable_file (fs s) ?b"
    using d(2) c(1) b B_length_content [of "fs s" ?i] by (auto simp: readable_file_def open_file_def)
  moreover have jr: "2 \<le> j" "j < 8" using o(5) by (simp_all add: lowest_free_def)
  ultimately have ready: "file_ready pt p video area j s1"
    using o(2,4,6) s(3) put_fd_api [OF o(7)] by (simp add: file_ready_def)
  have start: "at_start (fs s) (ps s1) j ?i (fs s1, ps s1)" using o(4,6) b c(1) by (simp add: at_start_def fd_step_def)
  define Q where "Q t \<longleftrightarrow> user_ready pt p video area t \<and> fs t = fs s \<and> fd_step j (ps s) (ps t) \<and> \<not> fds_full (ps t)" for t :: "'a system_scheme"
  have close: "\<exists>s3. ece391_close (kernel_os pt e frame temp area child) j s2 = Some (0, s3) \<and> Q s3 \<and> user_screen video s3 = user_screen video s2"
    if s2: "file_ready pt p video area j s2" "at_end (fs s) (ps s1) j ?i (fs s2, ps s2)" for s2
  proof -
    obtain s3 b' where s3: "ece391_close (kernel_os pt e frame temp area child) j s2 = Some (0, s3)" "user_ready pt p video area s3"
      "user_screen video s3 = user_screen video s2" "fs s3 = fs s2" "put_fd (ps s2) j (freed b') = Some (ps s3)"
      by (rule kernel_close_file [OF s2(1)]) (rule that; assumption)
    have "fs s2 = fs s" "fd_step j (ps s1) (ps s2)" using s2(2) by (simp_all add: at_end_def)
    with fds_after_close [OF o(5,7) this(2) s3(5)] s3 show ?thesis by (auto simp: Q_def)
  qed
  have "j \<noteq> -1" using jr by simp
  then obtain s' where "do_one_file (kernel_os pt e frame temp area child) junk search fname s = Some (0, s')" "Q s'"
    "user_screen video s' = fold tty_char (grep_text pat (cstr fname) ?c) (user_screen video s)"
    using kernel_file.do_one_file_shown [OF pat name(1,2) c(5,4) junk c(2,3) o(1) _ ready start o(3), of Q] close by blast
  then show ?thesis using o(5) file_named_eq [OF d(1)] by (intro that [of s' j]) (simp_all add: Q_def)
qed

section \<open>The directory\<close>

text \<open>\<open>grep\<close> between two entries of the directory: \<open>fd\<close> is the directory, a descriptor is free.\<close>

definition grep_ready :: "fsys \<Rightarrow> u32 \<Rightarrow> int \<Rightarrow> u32 \<Rightarrow> u32 \<Rightarrow> int \<Rightarrow> 'a system_scheme \<Rightarrow> bool" where
  "grep_ready F pt p video area fd s \<longleftrightarrow> dir_ready pt p video area fd s \<and> fs s = F \<and> \<not> fds_full (ps s) \<and> file_api (ps s)"

lemma readable_dir_used: "readable_dir b \<Longrightarrow> \<not> is_free b"
proof -
  have "\<not> unat (-1 :: u32) \<le> 63" by (simp add: unsigned_minus_1_eq_mask mask_eq_exp_minus_1)
  then show "readable_dir b \<Longrightarrow> \<not> is_free b" by (auto simp: readable_dir_def is_free_def)
qed

lemma fds_full_step:
  assumes "fd_step j q q'" "get_fd q j = Some b" "\<not> is_free b" "get_fd q' j = Some b'" "\<not> is_free b'"
  shows "fds_full q' = fds_full q"
proof -
  have "get_fd q' k = get_fd q k" if "k \<noteq> j" for k
    using assms(1) that fd_store.get_put_other [of q j _ q' k] by (auto simp: fd_step_def)
  with assms show ?thesis unfolding fds_full_def by (metis option.simps(5))
qed

lemma kernel_grep_read:
  assumes s: "grep_ready F pt p video area fd s" and buf: "32 \<le> length buf" "length buf \<le> 4096"
  obtains buf' s' where "ece391_read (kernel_os pt e frame temp area child) fd buf 32 s =
      Some (int (length (concat (take 1 (names_of fd (fs s, ps s))))), buf', s')"
    "length buf' = length buf" "grep_ready F pt p video area fd s'"
    "take (length (concat (take 1 (names_of fd (fs s, ps s))))) buf' = concat (take 1 (names_of fd (fs s, ps s)))"
    "names_of fd (fs s', ps s') = drop 1 (names_of fd (fs s, ps s))" "user_screen video s' = user_screen video s"
proof -
  have d: "dir_ready pt p video area fd s" using s by (simp add: grep_ready_def)
  obtain buf' s' where r: "ece391_read (kernel_os pt e frame temp area child) fd buf 32 s =
      Some (int (length (concat (take 1 (names_of fd (fs s, ps s))))), buf', s')"
    "length buf' = length buf" "dir_ready pt p video area fd s'"
    "take (length (concat (take 1 (names_of fd (fs s, ps s))))) buf' = concat (take 1 (names_of fd (fs s, ps s)))"
    "names_of fd (fs s', ps s') = drop 1 (names_of fd (fs s, ps s))" "user_screen video s' = user_screen video s"
    "fs s' = fs s" "fd_step fd (ps s) (ps s')"
    by (rule kernel_read_dir [OF d buf]) (rule that; assumption)
  obtain b b' where "get_fd (ps s) fd = Some b" "readable_dir b" "get_fd (ps s') fd = Some b'" "readable_dir b'"
    using d r(3) by (auto simp: dir_ready_def)
  then have "fds_full (ps s') = fds_full (ps s)" using fds_full_step [OF r(8)] readable_dir_used by blast
  with r s fd_step_api [OF r(8)] have "grep_ready F pt p video area fd s'" by (simp add: grep_ready_def)
  with that r show ?thesis by blast
qed

interpretation grep_source: item_source "kernel_os pt e frame temp area child" "grep_ready F pt p video area fd"
    "\<lambda>s. (fs s, ps s)" "user_screen video" tty_char fd 32 "names_of fd"
  for pt e frame temp area child F p video fd
proof (unfold_locales, goal_cases)
  case (1 s n buf)
  then have "dir_ready pt p video area fd s" by (simp add: grep_ready_def)
  from dir_source.write_shown [OF this 1(2-), of e frame temp child] 1(1) show ?case by (auto simp: grep_ready_def)
next
  case (2 s c cs buf)
  obtain buf' s' where r: "ece391_read (kernel_os pt e frame temp area child) fd buf 32 s =
      Some (int (length (concat (take 1 (names_of fd (fs s, ps s))))), buf', s')"
    "length buf' = length buf" "grep_ready F pt p video area fd s'"
    "take (length (concat (take 1 (names_of fd (fs s, ps s))))) buf' = concat (take 1 (names_of fd (fs s, ps s)))"
    "names_of fd (fs s', ps s') = drop 1 (names_of fd (fs s, ps s))" "user_screen video s' = user_screen video s"
    by (rule kernel_grep_read [OF 2(1,3,4)]) (rule that; assumption)
  then show ?case unfolding 2(2) by (intro exI [of _ buf'] exI [of _ s']) simp
next
  case (3 s buf)
  obtain buf' s' where r: "ece391_read (kernel_os pt e frame temp area child) fd buf 32 s =
      Some (int (length (concat (take 1 (names_of fd (fs s, ps s))))), buf', s')"
    "grep_ready F pt p video area fd s'"
    "names_of fd (fs s', ps s') = drop 1 (names_of fd (fs s, ps s))" "user_screen video s' = user_screen video s"
    by (rule kernel_grep_read [OF 3(1,3,4)]) (rule that; assumption)
  then show ?case unfolding 3(2) by (intro exI [of _ buf'] exI [of _ s']) simp
next
  case (4 s c)
  then have "dir_ready pt p video area fd s" by (simp add: grep_ready_def)
  from dir_source.item_size [OF this 4(2)] show ?case .
qed

text \<open>The names the directory call delivers, and those of them that \<open>grep\<close> searches.\<close>

definition shown_names :: "fsys \<Rightarrow> u8 list list" where
  "shown_names F = take (unat (num_dir_entries F)) (names_from F 0)"

definition searched_names :: "fsys \<Rightarrow> u8 list list" where
  "searched_names F = filter (\<lambda>c. hd c \<noteq> 46) (shown_names F)"

text \<open>A descriptor is free besides the one that the next \<open>open\<close> takes.\<close>

definition spare_fd :: "procs \<Rightarrow> bool" where
  "spare_fd q \<longleftrightarrow> (\<exists>k \<in> {2..<8}. \<not> lowest_free q k \<and> (case get_fd q k of None \<Rightarrow> False | Some b \<Rightarrow> is_free b))"

lemma spare_fd_full: "spare_fd q \<Longrightarrow> \<not> fds_full q"
  by (force simp: spare_fd_def fds_full_def split: option.splits)

lemma spare_fd_open:
  assumes "spare_fd q" "lowest_free q j" "put_fd q j b = Some q'"
  shows "\<not> fds_full q'"
proof -
  obtain k c where k: "k \<in> {2..<8}" "\<not> lowest_free q k" "get_fd q k = Some c" "is_free c"
    using assms(1) by (auto simp: spare_fd_def split: option.splits)
  then have "k \<noteq> j" using assms(2) by auto
  then have "get_fd q' k = Some c" using fd_store.get_put_other [OF assms(3)] k(3) by simp
  with k show ?thesis by (force simp: fds_full_def)
qed

text \<open>Searching a file leaves the directory as it was.\<close>

lemma grep_one_file:
  assumes t: "grep_ready F pt p video area fd t" and pat: "search_string search pat"
    and name: "0 \<in> set name" "length name = 33" "searchable F (cstr name)" and junk: "length junk = 1025"
  shows "\<exists>t'. do_one_file (kernel_os pt e frame temp area child) junk search name t = Some (0, t') \<and>
    grep_ready F pt p video area fd t' \<and> names_of fd (fs t', ps t') = names_of fd (fs t, ps t) \<and>
    user_screen video t' = fold tty_char (grep_text pat (cstr name) (file_named F (cstr name))) (user_screen video t)"
proof -
  have r0: "dir_ready pt p video area fd t" "fs t = F" "\<not> fds_full (ps t)" "file_api (ps t)" using t by (simp_all add: grep_ready_def)
  have u: "user_ready pt p video area t" using r0(1) by (simp add: dir_ready_def)
  note r = u r0(3,4,1,2)
  have n: "length name \<le> 4096" "searchable (fs t) (cstr name)" using name r(5) by simp_all
  obtain t' j where t': "do_one_file (kernel_os pt e frame temp area child) junk search name t = Some (0, t')"
    "user_ready pt p video area t'" "fs t' = fs t" "\<not> fds_full (ps t')" "lowest_free (ps t) j" "fd_step j (ps t) (ps t')"
    "user_screen video t' = fold tty_char (grep_text pat (cstr name) (file_named (fs t) (cstr name))) (user_screen video t)"
    by (rule kernel_do_one_file [OF r(1-3) pat name(1) n junk]) (rule that; assumption)
  obtain b where b: "get_fd (ps t) fd = Some b" "readable_dir b" using r(4) by (auto simp: dir_ready_def)
  then have "j \<noteq> fd" using t'(5) readable_dir_used by (auto simp: lowest_free_def)
  then have g: "get_fd (ps t') fd = get_fd (ps t) fd"
    using t'(6) fd_store.get_put_other [of "ps t" j _ "ps t'" fd] by (auto simp: fd_step_def)
  have "dir_ready pt p video area fd t'"
    using r(4) t'(2,3) g fd_step_dir [OF t'(6)] by (simp add: dir_ready_def)
  then have "grep_ready F pt p video area fd t'"
    using t'(3,4) r(3,5) fd_step_api [OF t'(6)] by (simp add: grep_ready_def)
  with t' g r(5) show ?thesis by (simp add: names_of_def split: option.split)
qed

text \<open>
  C12: \<open>grep\<close>, run as a process of the kernel with a search string as its argument, in a directory
  of short text files, ends with status 0 and has shown, file by file in the order of the
  directory, each line that contains the search string after the name of its file; entries whose
  name starts with a dot are skipped.
\<close>

theorem grep_shows_lines:
  assumes s: "user_ready pt p video area s" "spare_fd (ps s)" "file_api (ps s)" "dir_api (ps s)"
    and c: "get_cb (ps s) (current_pid (ps s)) = Some c" "search_string (args c) pat"
    and d: "named (fs s) dot TYPE_DIR d" "63 \<le> unat (inodes (fs s))" "unat (num_dir_entries (fs s)) \<le> 63"
      "\<forall>n \<in> set (searched_names (fs s)). searchable (fs s) n"
    and buf: "length buf = 33" "length search = 1024" "\<forall>t. length (junk t) = 1025"
  shows "\<exists>s'. grep_main (kernel_os pt e frame temp area child) junk buf search s = Some (0, s') \<and>
    user_screen video s' = fold tty_char
      (concat (map (\<lambda>n. grep_text pat n (file_named (fs s) n)) (searched_names (fs s)))) (user_screen video s)"
proof -
  have a: "0 \<in> set (args c)" "cstr (args c) = pat" "cstr (args c) \<noteq> []" using c(2) by (auto simp: search_string_def)
  obtain search1 s1 where g: "ece391_getargs (kernel_os pt e frame temp area child) search 1024 s = Some (0, search1, s1)"
    "length search1 = 1024" "0 \<in> set search1" "cstr search1 = cstr (args c)"
    "user_ready pt p video area s1" "user_screen video s1 = user_screen video s" "fs s1 = fs s"
    "get_fd (ps s1) = get_fd (ps s)" "tables (ps s1) = tables (ps s)" "file_ptr (ps s1) = file_ptr (ps s)"
    "dir_ptr (ps s1) = dir_ptr (ps s)"
    by (rule kernel_getargs [OF s(1) c(1) a(1,3) buf(2)]) (rule that; assumption)
  have pat: "search_string search1 pat" using c(2) g(3,4) by (simp add: search_string_def)
  have f1: "spare_fd (ps s1)" "file_api (ps s1)" "dir_api (ps s1)"
    using s(2-4) g(8-11) by (simp_all add: spare_fd_def lowest_free_def file_api_def dir_api_def)
  let ?b = "directory_block (num_dir_entries (fs s1)) (ps s1)" and ?F = "fs s"
  have dn: "named (fs s1) (cstr (c_string ''.'')) TYPE_DIR d" "length (c_string ''.'') \<le> 4096"
    using d(1) g(7) by (simp_all add: c_string_dot)
  obtain j s2 where o: "ece391_open (kernel_os pt e frame temp area child) (c_string ''.'') s1 = Some (j, s2)"
    "user_ready pt p video area s2" "user_screen video s2 = user_screen video s1" "fs s2 = fs s1"
    "lowest_free (ps s1) j" "get_fd (ps s2) j = Some ?b" "put_fd (ps s1) j ?b = Some (ps s2)"
    by (rule kernel_open_dir [OF g(5) spare_fd_full [OF f1(1)] nul_in_c_string dn(2,1)]) (rule that; assumption)
  have b: "flags ?b = num_dir_entries ?F" "file_position ?b = 0" "file_operations_pointer ?b = Some Dir_table"
    using f1(3) g(7) by (simp_all add: directory_block_def dir_api_def)
  have jr: "2 \<le> j" "j < 8" using o(5) by (simp_all add: lowest_free_def)
  have "dir_ready pt p video area j s2"
    using o(2,4,6) jr d(2,3) b f1(3) g(7) put_fd_dir [OF o(7)] by (simp add: dir_ready_def readable_dir_def dir_api_def)
  then have ready: "grep_ready ?F pt p video area j s2"
    using o(4) g(7) f1(2) put_fd_api [OF o(7)] spare_fd_open [OF f1(1) o(5,7)] by (simp add: grep_ready_def)
  have names: "names_of j (fs s2, ps s2) = shown_names ?F"
    using o(4,6) b g(7) by (simp add: names_of_def shown_names_def)
  have nul: "\<forall>x \<in> set (names_of j (fs s2, ps s2)). 0 \<notin> set x"
    unfolding names by (auto simp: shown_names_def names_from_def entry_name_def dest!: in_set_takeD)
  have one: "\<exists>t'. do_one_file (kernel_os pt e frame temp area child) (junk t) search1 name t = Some (0, t') \<and>
      grep_ready ?F pt p video area j t' \<and> names_of j (fs t', ps t') = names_of j (fs t, ps t) \<and>
      user_screen video t' = fold tty_char (grep_text pat (cstr name) (file_named ?F (cstr name))) (user_screen video t)"
    if "grep_ready ?F pt p video area j t" "0 \<in> set name" "length name = 33" "cstr name \<in> set (names_of j (fs s2, ps s2))"
      "hd (cstr name) \<noteq> 46" for t name
    using grep_one_file [OF that(1) pat that(2,3) _ buf(3) [rule_format]] that(4,5) d(4) unfolding names by (simp add: searched_names_def)
  obtain s' where "grep_loop (kernel_os pt e frame temp area child) junk search1 j buf s2 = Some (0, s')"
    "user_screen video s' = fold tty_char (concat (map (\<lambda>n. grep_text pat n (file_named ?F n)) (searched_names ?F))) (user_screen video s2)"
    using grep_source.grep_loop_shown [OF ready refl buf(1) nul one] unfolding names searched_names_def by blast
  then show ?thesis unfolding grep_main_def using g(1,6) o(1,3) jr(1) by simp
qed

text \<open>An image with the directory itself and one file, \<open>b\<close>, with two lines.\<close>

definition grep_mem :: memory where
  "grep_mem = ls_mem(4096 := 6, 266240 := 104, 266241 := 105, 266242 := 10, 266243 := 121, 266244 := 111, 266245 := 10)"

definition grep_fs :: fsys where
  "grep_fs = boot_block_init 0 grep_mem"

lemma grep_fs_eq: "grep_fs = \<lparr>fs_mem = grep_mem, casted_block = 0, node_list = 4096, data_list = 266240\<rparr>"
  by (simp add: grep_fs_def boot_block_init_def inodes_def load32_def grep_mem_def ls_mem_def FILE_SIZE_def)

lemma grep_fs_entry:
  assumes i: "i < 63"
  shows "dir_entries grep_fs (of_nat i) = dir_entries ls_fs (of_nat i)"
proof -
  define a :: u32 where "a = 64 + 64 * of_nat i"
  have "unat a = 64 + 64 * i" using i by (simp add: a_def unat_word_ariths unat_of_nat)
  then have "unat (a + k) < 4096" if "unat k < 64" for k using i that by (simp add: unat_word_ariths)
  moreover have "grep_mem b = ls_mem b" if "unat b < 4096" for b using that by (auto simp: grep_mem_def)
  ultimately have m: "grep_mem (a + k) = ls_mem (a + k)" if "unat k < 64" for k using that by blast
  have bytes: "bytes_at grep_mem (a + k) n = bytes_at ls_mem (a + k) n" if "unat k + n \<le> 64" for k n
    using that by (auto simp: bytes_at_def add.assoc unat_add_small unat_of_nat intro!: m)
  have word: "load32 grep_mem (a + k) = load32 ls_mem (a + k)" if "unat k < 60" for k
  proof -
    have "unat (k + j) < 64" if "unat j < 4" for j using that \<open>unat k < 60\<close> by (simp add: unat_word_ariths)
    then show ?thesis using m [of k] m [of "k + 1"] m [of "k + 2"] m [of "k + 3"] \<open>unat k < 60\<close> by (simp add: load32_def add.assoc)
  qed
  show ?thesis
    using bytes [of 0 32] bytes [of 40 24] word [of 32] word [of 36]
    by (simp add: dir_entries_def grep_fs_eq ls_fs_eq Let_def FILENAME_SIZE_def a_def [symmetric])
qed

lemma grep_fs_names:
  "i < 63 \<Longrightarrow> entry_name grep_fs i = entry_name ls_fs i" "names_from grep_fs 0 = [[46], [98]]"
  "find_entry grep_fs n 0 = find_entry ls_fs n 0"
proof -
  show e: "entry_name grep_fs i = entry_name ls_fs i" if "i < 63" for i
    using grep_fs_entry [OF that] by (simp add: entry_name_def)
  have "map (entry_name grep_fs) [0..<63] = map (entry_name ls_fs) [0..<63]" using e by (intro map_cong) auto
  then show "names_from grep_fs 0 = [[46], [98]]" using ls_fs_names unfolding names_from_def by (simp only:)
  show "find_entry grep_fs n 0 = find_entry ls_fs n 0" unfolding find_entry_def using e by (intro find_cong) auto
qed

lemma grep_fs_facts:
  "inodes grep_fs = 64" "num_dir_entries grep_fs = 2" "named grep_fs dot TYPE_DIR (dir_entries grep_fs 0)"
  "file_content grep_fs 0 = [104, 105, 10, 121, 111, 10]" "searched_names grep_fs = [[98]]"
  "file_named grep_fs [98] = [104, 105, 10, 121, 111, 10]" "searchable grep_fs [98]"
proof -
  show n: "inodes grep_fs = 64" "num_dir_entries grep_fs = 2"
    by (simp_all add: grep_fs_eq inodes_def num_dir_entries_def load32_def grep_mem_def ls_mem_def)
  show "named grep_fs dot TYPE_DIR (dir_entries grep_fs 0)"
    using ls_fs_facts(3,4) grep_fs_entry [of 0] grep_fs_names(3) [of dot]
    by (auto simp: named_def find_entry_Some_iff dot_def intro: exI [of _ 0])
  have "B_length grep_fs 0 = 6" by (simp add: B_length_def grep_fs_eq load32_def grep_mem_def ls_mem_def)
  then show c: "file_content grep_fs 0 = [104, 105, 10, 121, 111, 10]"
    by (simp add: file_content_def file_bytes_def upt_conv_Cons file_byte_def data_block_def data_blocks_def
        grep_fs_eq load32_def grep_mem_def ls_mem_def)
  show "searched_names grep_fs = [[98]]" using n(2) grep_fs_names(2) by (simp add: searched_names_def shown_names_def)
  have f: "find_entry grep_fs [98] 0 = Some 1"
    unfolding grep_fs_names(3) using ls_fs_facts(4,5) by (auto simp: find_entry_Some_iff less_Suc_eq)
  have "dir_entries grep_fs 1 = dir_entries ls_fs 1" using grep_fs_entry [of 1] by simp
  then have d: "file_type (dir_entries grep_fs 1) = TYPE_FILE" "inode_num (dir_entries grep_fs 1) = 0"
    by (simp_all add: ls_fs_eq dir_entries_def Let_def load32_def ls_mem_def TYPE_FILE_def)
  show fn: "file_named grep_fs [98] = [104, 105, 10, 121, 111, 10]" using f d(2) c by (simp add: file_named_def)
  have "named grep_fs [98] TYPE_FILE (dir_entries grep_fs 1)" using f d(1) by (auto simp: named_def)
  then show "searchable grep_fs [98]" using d(2) n(1) fn by (auto simp: searchable_def)
qed

lemma grep_sample_text: "grep_text [121] [98] [104, 105, 10, 121, 111, 10] = [98, 58, 121, 111, 10]"
proof -
  have "grep_text [121] [98] ([104, 105] @ 10 # [121, 111] @ 10 # []) = [98, 58, 121, 111, 10]"
    by (simp add: grep_text_line grep_text_last line_text_def contains_Cons contains_Nil del: append.simps)
  then show ?thesis by simp
qed

theorem grep_shows_lines_witness:
  "\<exists>s'. grep_main (kernel_os 0x480000 quiet_env 0x7F0000 0 0x8100000 (\<lambda>_ _. None)) (\<lambda>_. replicate 1025 0) (replicate 33 0)
      (replicate 1024 0) (user_system grep_fs [121]) = Some (0, s') \<and>
    user_screen VIDEO s' = fold tty_char [98, 58, 121, 111, 10] (user_screen VIDEO (user_system grep_fs [121]))"
proof -
  have l: "length [121 :: u8] \<le> 1024" by simp
  note p = user_procs_facts [OF l] and r = user_system_ready [OF l, of grep_fs]
  have api: "dir_api (user_procs [121])" by (simp add: dir_api_def user_procs_def)
  have sp: "spare_fd (user_procs [121])"
    unfolding spare_fd_def by (rule bexI [of _ 3]) (auto simp: lowest_free_def user_procs_fd is_free_def freed_def)
  have pat: "search_string (args (user_block [121])) [121]"
    by (simp add: search_string_def user_block_def cstr_def)
  show ?thesis
    using grep_shows_lines [OF r, of "user_block [121]" "[121]" "dir_entries grep_fs 0" "replicate 33 0" "replicate 1024 0"
        "\<lambda>_. replicate 1025 0" quiet_env "0x7F0000" 0 "\<lambda>_ _. None"]
      p api sp pat grep_fs_facts grep_sample_text user_procs_block [of "[121]"] by (simp add: user_system_fields)
qed

end
