(* ===== verification/User_Pingpong.thy ===== *)
theory User_Pingpong
  imports User_Programs
begin

text \<open>
  The program \<^verbatim>\<open>syscalls/ece391pingpong.c\<close>: a character moves between two walls, one place with
  each tick of the clock, and becomes the next letter after each round. \<open>main\<close> does not end; the
  model gives the state after any number of rounds of its loop.
\<close>

section \<open>The program\<close>

definition SCREENWIDTH :: int where "SCREENWIDTH = 79"
definition ENDING :: int where "ENDING = 2"
definition BUFMAX :: int where "BUFMAX = SCREENWIDTH + ENDING"
definition START :: int where "START = 1"
definition STARTLOOP :: int where "STARTLOOP = START + 1"
definition LOOPMAX :: int where "LOOPMAX = BUFMAX - ENDING - 1"
definition STARTCHAR :: u8 where "STARTCHAR = 65"
definition ENDCHAR :: u8 where "ENDCHAR = 90"

lemmas pingpong_consts = SCREENWIDTH_def ENDING_def BUFMAX_def START_def STARTLOOP_def LOOPMAX_def STARTCHAR_def ENDCHAR_def

definition blank_world :: "u8 list \<Rightarrow> u8 list option" where
  "blank_world buf = do {
     buf \<leftarrow> loop_opt 0 BUFMAX (\<lambda>i buf. aset buf i 32) buf;
     buf \<leftarrow> aset buf (BUFMAX - 1) 0;
     buf \<leftarrow> aset buf (BUFMAX - 2) 10;
     buf \<leftarrow> aset buf (BUFMAX - 3) 124;
     aset buf START 124 }"

definition clear_world :: "u8 list \<Rightarrow> u8 list option" where
  "clear_world buf = loop_opt STARTLOOP LOOPMAX (\<lambda>i buf. aset buf i 32) buf"

text \<open>One place of the character; the state is the buffer, \<open>garbage\<close> and the system.\<close>

definition draw_step :: "('s, 'a) os_scheme \<Rightarrow> int \<Rightarrow> u8 \<Rightarrow> int \<Rightarrow> u8 list \<times> u8 list \<times> 's \<Rightarrow> (u8 list \<times> u8 list \<times> 's) option" where
  "draw_step os rtc_fd curchar j bgs = do {
     buf \<leftarrow> clear_world (fst bgs);
     buf \<leftarrow> aset buf j curchar;
     s \<leftarrow> ece391_fdputs os 1 buf (snd (snd bgs));
     (r, garbage, s) \<leftarrow> ece391_read os rtc_fd (fst (snd bgs)) 4 s;
     Some (buf, garbage, s) }"

function bounce_loop :: "('s, 'a) os_scheme \<Rightarrow> int \<Rightarrow> u8 \<Rightarrow> int \<Rightarrow> u8 list \<times> u8 list \<times> 's \<Rightarrow> (u8 list \<times> u8 list \<times> 's) option" where
  "bounce_loop os rtc_fd curchar j bgs =
     (if j \<ge> STARTLOOP then
        (case draw_step os rtc_fd curchar j bgs of None \<Rightarrow> None
         | Some bgs' \<Rightarrow> bounce_loop os rtc_fd curchar (j - 1) bgs')
      else Some bgs)"
  by pat_completeness auto
termination
  by (relation "measure (\<lambda>(os, rtc_fd, curchar, j, bgs). nat (j - STARTLOOP + 1))") auto

declare bounce_loop.simps [simp del]

definition pingpong_round :: "('s, 'a) os_scheme \<Rightarrow> int \<Rightarrow> u8 \<times> u8 list \<times> u8 list \<times> 's \<Rightarrow> (u8 \<times> u8 list \<times> u8 list \<times> 's) option" where
  "pingpong_round os rtc_fd cbgs = do {
     let curchar = fst cbgs;
     bgs \<leftarrow> loop_opt STARTLOOP LOOPMAX (draw_step os rtc_fd curchar) (snd cbgs);
     bgs \<leftarrow> bounce_loop os rtc_fd curchar (LOOPMAX - 1) bgs;
     Some (if curchar = ENDCHAR then STARTCHAR else curchar + 1, bgs) }"

text \<open>\<open>main\<close> up to its loop; \<open>ret_val\<close> is 32, in four bytes.\<close>

definition pingpong_start :: "('s, 'a) os_scheme \<Rightarrow> u8 list \<Rightarrow> u8 list \<Rightarrow> 's \<Rightarrow> (int \<times> u8 \<times> u8 list \<times> u8 list \<times> 's) option" where
  "pingpong_start os buf garbage s = do {
     buf \<leftarrow> blank_world buf;
     (rtc_fd, s) \<leftarrow> ece391_open os (c_string ''rtc'') s;
     (ret_val, s) \<leftarrow> ece391_write os rtc_fd [32, 0, 0, 0] 4 s;
     Some (rtc_fd, STARTCHAR, buf, garbage, s) }"

primrec pingpong_rounds :: "('s, 'a) os_scheme \<Rightarrow> int \<Rightarrow> nat \<Rightarrow> u8 \<times> u8 list \<times> u8 list \<times> 's \<Rightarrow> (u8 \<times> u8 list \<times> u8 list \<times> 's) option" where
  "pingpong_rounds os rtc_fd 0 cbgs = Some cbgs"
| "pingpong_rounds os rtc_fd (Suc n) cbgs = do {
     cbgs \<leftarrow> pingpong_rounds os rtc_fd n cbgs;
     pingpong_round os rtc_fd cbgs }"

definition pingpong_run :: "('s, 'a) os_scheme \<Rightarrow> u8 list \<Rightarrow> u8 list \<Rightarrow> nat \<Rightarrow> 's \<Rightarrow> (u8 \<times> u8 list \<times> u8 list \<times> 's) option" where
  "pingpong_run os buf garbage n s = do {
     (rtc_fd, cbgs) \<leftarrow> pingpong_start os buf garbage s;
     pingpong_rounds os rtc_fd n cbgs }"

section \<open>What it shows\<close>

text \<open>The line with the letter \<open>c\<close> at place \<open>j\<close>, the lines of a round, and the letter of round \<open>n\<close>.\<close>

definition world_line :: "u8 \<Rightarrow> nat \<Rightarrow> u8 list" where
  "world_line c j = map (\<lambda>i. if i = 1 \<or> i = 78 then 124 else if i = j then c else 32) [0..<79] @ [10]"

definition round_text :: "u8 \<Rightarrow> u8 list" where
  "round_text c = concat (map (world_line c) ([2..<78] @ rev [2..<78]))"

definition round_letter :: "nat \<Rightarrow> u8" where
  "round_letter n = of_nat (65 + n mod 26)"

text \<open>The buffer between two lines: a space, the walls, the newline and the NUL.\<close>

definition world :: "u8 list \<Rightarrow> bool" where
  "world buf \<longleftrightarrow> length buf = 81 \<and> buf ! 0 = 32 \<and> buf ! 1 = 124 \<and> buf ! 78 = 124 \<and> buf ! 79 = 10 \<and> buf ! 80 = 0"

lemma fill_range:
  assumes "0 \<le> lo" "lo \<le> hi" "hi \<le> int (length xs)"
  obtains ys where "loop_opt lo hi (\<lambda>i xs. aset xs i v) xs = Some ys" "length ys = length xs"
    "\<And>k. k < length xs \<Longrightarrow> ys ! k = (if lo \<le> int k \<and> int k < hi then v else xs ! k)"
proof -
  let ?P = "\<lambda>i ys. length ys = length xs \<and> (\<forall>k < length xs. ys ! k = (if lo \<le> int k \<and> int k < i then v else xs ! k))"
  have "\<exists>t. loop_opt lo hi (\<lambda>i xs. aset xs i v) xs = Some t \<and> ?P hi t"
  proof (rule loop_opt_inv [OF assms(2)])
    fix i ys assume i: "lo \<le> i" "i < hi" and P: "?P i ys"
    have "aset ys i v = Some (ys[nat i := v])" using i P assms by (simp add: aset_def)
    moreover have "ys[nat i := v] ! k = (if lo \<le> int k \<and> int k < i + 1 then v else xs ! k)" if "k < length xs" for k
      using i P assms(1) that by (cases "int k = i") auto
    ultimately show "\<exists>s'. aset ys i v = Some s' \<and> ?P (i + 1) s'" using P by auto
  qed auto
  then show ?thesis using that by blast
qed

lemma blank_world_run:
  assumes "length buf = 81"
  obtains buf' where "blank_world buf = Some buf'" "world buf'"
proof -
  obtain ys where ys: "loop_opt 0 81 (\<lambda>i xs. aset xs i 32) buf = Some ys" "length ys = 81"
    "\<And>k. k < 81 \<Longrightarrow> ys ! k = (if 0 \<le> int k \<and> int k < 81 then 32 else buf ! k)"
    by (rule fill_range [of 0 81 buf 32]) (use assms in auto)
  let ?b = "ys[80 := 0, 79 := 10, 78 := 124, 1 := 124]"
  have "blank_world buf = Some ?b" using ys(1,2) by (simp add: blank_world_def pingpong_consts aset_def)
  moreover have "world ?b" using ys(2,3) by (simp add: world_def)
  ultimately show ?thesis by (rule that)
qed

lemma world_cstr:
  assumes "world buf"
  shows "0 \<notin> set (take 80 buf) \<Longrightarrow> cstr buf = take 80 buf" "0 \<in> set buf"
proof -
  have b: "length buf = 81" "buf ! 80 = 0" using assms by (simp_all add: world_def)
  have "buf = take 80 buf @ drop 80 buf" by simp
  also have "drop 80 buf = [0]" using b by (intro nth_equalityI) simp_all
  finally have e: "buf = take 80 buf @ 0 # []" .
  then show "cstr buf = take 80 buf" if "0 \<notin> set (take 80 buf)" using cstr_append_nul [OF that, of "[]"] by simp
  show "0 \<in> set buf" by (subst e) simp
qed

lemma world_line_drawn:
  assumes w: "world buf" and j: "2 \<le> j" "j < 78"
  obtains buf' where "clear_world buf = Some buf'" "aset buf' (int j) c = Some (buf'[j := c])" "world (buf'[j := c])"
    "take 80 (buf'[j := c]) = world_line c j"
proof -
  have len: "length buf = 81" using w by (simp add: world_def)
  obtain ys where ys: "loop_opt 2 78 (\<lambda>i xs. aset xs i 32) buf = Some ys" "length ys = 81"
    "\<And>k. k < 81 \<Longrightarrow> ys ! k = (if 2 \<le> int k \<and> int k < 78 then 32 else buf ! k)"
    by (rule fill_range [of 2 78 buf 32]) (use len in auto)
  have "world (ys[j := c])" using w ys(2,3) j by (simp add: world_def)
  moreover have "take 80 (ys[j := c]) = world_line c j"
  proof (rule nth_equalityI)
    show "length (take 80 (ys[j := c])) = length (world_line c j)" using ys(2) by (simp add: world_line_def)
    fix i assume "i < length (take 80 (ys[j := c]))"
    then have i: "i < 80" by simp
    have "i = 0 \<or> i = 1 \<or> i = 78 \<or> i = 79 \<or> 2 \<le> i \<and> i < 78" using i by linarith
    then show "take 80 (ys[j := c]) ! i = world_line c j ! i"
      using w ys(2,3) j i by (auto simp: world_line_def nth_append world_def nth_list_update)
  qed
  ultimately show ?thesis
    using ys(1,2) j by (intro that [of ys]) (simp_all add: clear_world_def pingpong_consts aset_def)
qed

lemma world_line_clean: "c \<noteq> 0 \<Longrightarrow> c \<noteq> 13 \<Longrightarrow> 0 \<notin> set (world_line c j) \<and> 13 \<notin> set (world_line c j) \<and> world_line c j \<noteq> []"
  by (auto simp: world_line_def)

text \<open>Between two places, with the screen showing \<open>t\<close>.\<close>

definition drawing :: "('s \<Rightarrow> bool) \<Rightarrow> ('s \<Rightarrow> 't) \<Rightarrow> 't \<Rightarrow> u8 list \<times> u8 list \<times> 's \<Rightarrow> bool" where
  "drawing ready screen t bgs \<longleftrightarrow> world (fst bgs) \<and> length (fst (snd bgs)) = 4 \<and> ready (snd (snd bgs)) \<and> screen (snd (snd bgs)) = t"

text \<open>A clock: a read of descriptor \<open>fd\<close> returns after a tick.\<close>

locale ticking = text_output os ready rest screen show_char
  for os :: "('s, 'a) os_scheme"
    and ready :: "'s \<Rightarrow> bool"
    and rest :: "'s \<Rightarrow> 'r"
    and screen :: "'s \<Rightarrow> 't"
    and show_char :: "u8 \<Rightarrow> 't \<Rightarrow> 't" +
  fixes fd :: int
  assumes read_tick: "ready s \<Longrightarrow> length buf = 4 \<Longrightarrow>
    \<exists>r buf' s'. ece391_read os fd buf 4 s = Some (r, buf', s') \<and> length buf' = 4 \<and> ready s' \<and> screen s' = screen s"
begin

lemma draw_step_run:
  assumes d: "drawing ready screen t bgs" and j: "2 \<le> j" "j < 78" and c: "c \<noteq> 0" "c \<noteq> 13"
  shows "\<exists>bgs'. draw_step os fd c (int j) bgs = Some bgs' \<and> drawing ready screen (fold show_char (world_line c j) t) bgs'"
proof -
  obtain buf garbage s where b: "bgs = (buf, garbage, s)" by (metis prod_cases3)
  have w: "world buf" "length garbage = 4" "ready s" "screen s = t" using d by (simp_all add: drawing_def b)
  obtain buf' where b': "clear_world buf = Some buf'" "aset buf' (int j) c = Some (buf'[j := c])" "world (buf'[j := c])"
    "take 80 (buf'[j := c]) = world_line c j"
    by (rule world_line_drawn [OF w(1) j]) (rule that; assumption)
  let ?b = "buf'[j := c]"
  note clean = world_line_clean [OF c, of j]
  have s: "cstr ?b = world_line c j" "0 \<in> set ?b" "length ?b \<le> 4096"
    using world_cstr [OF b'(3)] b'(3,4) clean by (simp_all add: world_def)
  obtain s1 where s1: "ece391_fdputs os 1 ?b s = Some s1" "ready s1" "screen s1 = fold show_char (world_line c j) (screen s)"
    using fdputs_shown [OF w(3) s(2,3)] s(1) clean by auto
  obtain r g s2 where "ece391_read os fd garbage 4 s1 = Some (r, g, s2)" "length g = 4" "ready s2" "screen s2 = screen s1"
    using read_tick [OF s1(2) w(2)] by blast
  with b'(1-3) s1 w(4) show ?thesis by (simp add: draw_step_def b drawing_def)
qed

lemma move_out_run:
  assumes d: "drawing ready screen t bgs" and c: "c \<noteq> 0" "c \<noteq> 13"
  shows "\<exists>bgs'. loop_opt STARTLOOP LOOPMAX (draw_step os fd c) bgs = Some bgs' \<and>
    drawing ready screen (fold show_char (concat (map (world_line c) [2..<78])) t) bgs'"
proof -
  let ?P = "\<lambda>j bgs. drawing ready screen (fold show_char (concat (map (world_line c) [2..<nat j])) t) bgs"
  have "\<exists>bgs'. loop_opt 2 78 (draw_step os fd c) bgs = Some bgs' \<and> ?P 78 bgs'"
  proof (rule loop_opt_inv)
    fix j x assume j: "2 \<le> j" "j < 78" and P: "?P j x"
    have n: "2 \<le> nat j" "nat j < 78" "int (nat j) = j" "nat (j + 1) = Suc (nat j)" using j by simp_all
    have "[2..<Suc (nat j)] = [2..<nat j] @ [nat j]" using n(1) by simp
    then show "\<exists>y. draw_step os fd c j x = Some y \<and> ?P (j + 1) y"
      using draw_step_run [OF P n(1,2) c] unfolding n(3,4) by (simp del: upt_Suc)
  qed (use d in simp_all)
  then show ?thesis by (simp add: pingpong_consts)
qed

lemma bounce_loop_run:
  assumes "drawing ready screen t bgs" "j < 78" "1 \<le> j" and c: "c \<noteq> 0" "c \<noteq> 13"
  shows "\<exists>bgs'. bounce_loop os fd c (int j) bgs = Some bgs' \<and>
    drawing ready screen (fold show_char (concat (map (world_line c) (rev [2..<Suc j]))) t) bgs'"
  using assms(1-3)
proof (induction j arbitrary: t bgs)
  case (Suc j)
  show ?case
  proof (cases "j = 0")
    case True
    with Suc.prems show ?thesis by (subst bounce_loop.simps) (simp add: pingpong_consts)
  next
    case False
    then obtain x where x: "draw_step os fd c (int (Suc j)) bgs = Some x" "drawing ready screen (fold show_char (world_line c (Suc j)) t) x"
      using draw_step_run [OF Suc.prems(1) _ Suc.prems(2) c] by force
    obtain y where y: "bounce_loop os fd c (int j) x = Some y"
      "drawing ready screen (fold show_char (concat (map (world_line c) (rev [2..<Suc j]))) (fold show_char (world_line c (Suc j)) t)) y"
      using Suc.IH [OF x(2)] Suc.prems(2) False by auto
    have "bounce_loop os fd c (int (Suc j)) bgs = Some y"
      using x(1) y(1) False by (subst bounce_loop.simps) (simp add: pingpong_consts)
    moreover have "rev [2..<Suc (Suc j)] = Suc j # rev [2..<Suc j]" using False by simp
    ultimately show ?thesis using y(2) by simp
  qed
qed simp

lemma pingpong_round_run:
  assumes d: "drawing ready screen t bgs"
  shows "\<exists>bgs'. pingpong_round os fd (round_letter n, bgs) = Some (round_letter (Suc n), bgs') \<and>
    drawing ready screen (fold show_char (round_text (round_letter n)) t) bgs'"
proof -
  let ?c = "round_letter n"
  have u: "unat ?c = 65 + n mod 26"
  proof -
    have "65 + n mod 26 < 2 ^ 8" using mod_less_divisor [of 26 n] by simp
    then show ?thesis by (simp add: round_letter_def unat_of_nat del: of_nat_add)
  qed
  then have c: "?c \<noteq> 0" "?c \<noteq> 13" by auto
  obtain x where x: "loop_opt STARTLOOP LOOPMAX (draw_step os fd ?c) bgs = Some x"
    "drawing ready screen (fold show_char (concat (map (world_line ?c) [2..<78])) t) x" using move_out_run [OF d c] by blast
  obtain y where y: "bounce_loop os fd ?c (int 77) x = Some y"
    "drawing ready screen (fold show_char (concat (map (world_line ?c) (rev [2..<Suc 77]))) (fold show_char (concat (map (world_line ?c) [2..<78])) t)) y"
    using bounce_loop_run [OF x(2) _ _ c, of 77] by auto
  have "?c = ENDCHAR \<longleftrightarrow> n mod 26 = 25" using u by (simp add: ENDCHAR_def word_unat_eq_iff)
  then have "(if ?c = ENDCHAR then STARTCHAR else ?c + 1) = round_letter (Suc n)"
    by (auto simp: round_letter_def STARTCHAR_def mod_Suc)
  moreover have s: "Suc 77 = 78" by simp
  have "drawing ready screen (fold show_char (round_text ?c) t) y"
    using y(2) unfolding s round_text_def by (simp only: map_append concat_append fold_append o_apply)
  moreover have "bounce_loop os fd ?c (LOOPMAX - 1) x = Some y" using y(1) by (simp add: pingpong_consts)
  ultimately show ?thesis
    using x(1) by (intro exI [of _ y]) (simp add: pingpong_round_def)
qed

lemma pingpong_rounds_run:
  assumes "drawing ready screen t bgs"
  shows "\<exists>bgs'. pingpong_rounds os fd n (STARTCHAR, bgs) = Some (round_letter n, bgs') \<and>
    drawing ready screen (fold show_char (concat (map (\<lambda>k. round_text (round_letter k)) [0..<n])) t) bgs'"
proof (induction n)
  case 0
  then show ?case using assms by (simp add: round_letter_def STARTCHAR_def)
next
  case (Suc n)
  then obtain x where x: "pingpong_rounds os fd n (STARTCHAR, bgs) = Some (round_letter n, x)"
    "drawing ready screen (fold show_char (concat (map (\<lambda>k. round_text (round_letter k)) [0..<n])) t) x" by blast
  with pingpong_round_run [OF x(2), of n] show ?case by auto
qed

end

end
