(* ===== verification/User_Ticks.thy ===== *)
theory User_Ticks
  imports User_Files User_Pingpong
begin

text \<open>
  \<open>pingpong\<close> on the kernel: the clock of the kernel is a clock in the sense of the interface
  \<open>ticking\<close>, through the system calls and its driver, as long as clock interrupts arrive.
\<close>

section \<open>The driver\<close>

lemma handle_RTC_eq:
  assumes "length (rtc_virtual_interupt s) = 3"
  shows "handle_RTC dev s = Some (s\<lparr>rtc_virtual_interupt := map (\<lambda>n. n + 1) (rtc_virtual_interupt s),
    outs := outs s @ [(0x62, 0x20), (0x60, 0xA0), (0x0C, 0x70)]\<rparr>)"
proof -
  obtain a b c where abc: "rtc_virtual_interupt s = [a, b, c]"
    using assms by (auto simp: length_Suc_conv numeral_3_eq_3)
  show ?thesis
    by (simp add: handle_RTC_def abc aget_def aset_def cli_def IRQ8_def send_eoi_lines outb_def restore_flags_def CMOS_REG_def)
qed

lemma rtc_read_run:
  assumes t: "0 \<le> current_process s" "current_process s < 3" and len: "length (rtc_virtual_interupt s) = 3"
  obtains v os where "rtc_read dev (i # ints) fd s = Some (0, s\<lparr>iflag := False, rtc_virtual_interupt := v, outs := os\<rparr>)"
    "length v = 3"
proof -
  let ?c = "nat (current_process s)"
  let ?s0 = "(sti s)\<lparr>rtc_virtual_interupt := (rtc_virtual_interupt s)[?c := 0]\<rparr>"
  let ?s1 = "?s0\<lparr>rtc_virtual_interupt := map (\<lambda>n. n + 1) (rtc_virtual_interupt ?s0),
    outs := outs ?s0 @ [(0x62, 0x20), (0x60, 0xA0), (0x0C, 0x70)]\<rparr>"
  have c: "?c < 3" using t by auto
  let ?cond = "\<lambda>s'. map_option (\<lambda>n. n < 1) (aget (rtc_virtual_interupt s') (current_process s))"
  have c0: "?cond ?s0 = Some True" using t len c by (simp add: aget_def sti_def)
  have c1: "?cond ?s1 = Some False" using t len c by (simp add: aget_def sti_def)
  have h: "handle_RTC dev ?s0 = Some ?s1" using len by (intro handle_RTC_eq) simp
  have some: "spin ?cond (\<lambda>_. handle_RTC dev) (i # ints) ?s0 = Some (?s1, ints)"
    using spin_step [of ?cond ?s0 "\<lambda>_. handle_RTC dev" i ?s1 ints, OF c0 h] spin_done [of ?cond ?s1, OF c1] by (simp only:)
  have set0: "aset (rtc_virtual_interupt (sti s)) (current_process s) 0 = Some ((rtc_virtual_interupt s)[?c := 0])"
    using t len by (simp add: aset_def sti_def)
  have set1: "aset (rtc_virtual_interupt ?s1) (current_process s) 0 = Some ((rtc_virtual_interupt ?s1)[?c := 0])"
    using t len by (simp add: aset_def)
  have "rtc_read dev (i # ints) fd s = Some (0, cli (?s1\<lparr>rtc_virtual_interupt := (rtc_virtual_interupt ?s1)[?c := 0]\<rparr>))"
    unfolding rtc_read_def Let_def set0 bind.bind_lunit some by (simp only: prod.case set1 bind.bind_lunit)
  then show ?thesis
    using len by (intro that [where v = "(rtc_virtual_interupt ?s1)[?c := 0]" and os = "outs ?s1"]) (simp_all add: cli_def sti_def)
qed

lemma rtc_write_run:
  assumes k: "1 \<le> k" "k \<le> 15" and rate: "load32 mem buf = 2 ^ k"
    and t: "0 \<le> current_process s" "current_process s < 3"
    and len: "length (rtc_running s) = 3" "length (rtc_virtual_interupt s) = 3"
  obtains r v os where "rtc_write dev junk fd mem buf 4 s =
      Some (0, s\<lparr>iflag := False, rtc_running := r, rtc_virtual_interupt := v, outs := os\<rparr>)"
    "length r = 3" "length v = 3"
proof -
  have loop: "rate_loop 1 0x0F (2 ^ k) = Inr (0x0F - of_nat (k - 1))" by (rule rate_loop_found [OF k])
  have "passed_rate mem buf junk 4 = Some (2 ^ k)" using passed_rate_whole rate by simp
  moreover have "sint (2 ^ k :: u32) = 2 ^ k" using sint_power [OF k refl] .
  ultimately show ?thesis
    using loop t len
    by (intro that [where r = "(rtc_running s)[nat (current_process s) := 2 ^ k]" and v = "(rtc_virtual_interupt s)[nat (current_process s) := 0]"])
      (simp_all add: rtc_write_def aset_def cli_def set_rate_def restore_flags_def outb_def inb_def Let_def)
qed

section \<open>The system calls\<close>

definition clock_ready :: "u32 \<Rightarrow> int \<Rightarrow> u32 \<Rightarrow> u32 \<Rightarrow> int \<Rightarrow> 'a system_scheme \<Rightarrow> bool" where
  "clock_ready pt p video area fd s \<longleftrightarrow> user_ready pt p video area s \<and> 2 \<le> fd \<and> fd < 8 \<and>
     (\<exists>b. get_fd (ps s) fd = Some b \<and> flags b = 1 \<and> file_operations_pointer b = Some Rtc_table) \<and>
     op_read (tables (ps s) Rtc_table) = Some Rtc_read \<and> op_write (tables (ps s) Rtc_table) = Some Rtc_write \<and>
     0 \<le> current_process s \<and> current_process s < 3 \<and> length (rtc_running s) = 3 \<and> length (rtc_virtual_interupt s) = 3"

lemma user_ready_clock [simp]:
  "user_ready pt p video area (s\<lparr>outs := os\<rparr>) = user_ready pt p video area s"
  "user_ready pt p video area (s\<lparr>rtc_running := r\<rparr>) = user_ready pt p video area s"
  "user_ready pt p video area (s\<lparr>rtc_virtual_interupt := v\<rparr>) = user_ready pt p video area s"
  "user_ready pt p video area (s\<lparr>iflag := f\<rparr>) = user_ready pt p video area s"
  "user_ready pt p video area (s\<lparr>vid := m\<rparr>) = user_ready pt p video area s"
  by (simp_all add: user_ready_def in_user_def in_space_def on_screen_def)

lemma clock_more:
  assumes "console.more t = console.more s"
  shows "current_process t = current_process s" "rtc_running t = rtc_running s"
    "rtc_virtual_interupt t = rtc_virtual_interupt s"
  using assms by (cases s; cases t; simp)+

lemma kernel_read_tick:
  assumes s: "clock_ready pt p video area fd s" and buf: "length buf = 4" and e: "e_ints e = i # ints"
  shows "\<exists>r buf' s'. ece391_read (kernel_os pt e frame temp area child) fd buf 4 s = Some (r, buf', s') \<and> length buf' = 4 \<and>
    clock_ready pt p video area fd s' \<and> user_screen video s' = user_screen video s"
proof -
  let ?A = "phys p area" and ?s = "s\<lparr>vid := overlay (vid s) (phys p area) buf, iflag := False\<rparr>"
  have c: "user_ready pt p video area s" "2 \<le> fd" "fd < 8" "op_read (tables (ps s) Rtc_table) = Some Rtc_read"
    "0 \<le> current_process s" "current_process s < 3" "length (rtc_virtual_interupt s) = 3"
    using s by (simp_all add: clock_ready_def)
  then have u: "in_user pt p video s" "in_program area 4096" by (simp_all add: user_ready_def)
  obtain b where b: "get_fd (ps s) fd = Some b" "flags b = 1" "file_operations_pointer b = Some Rtc_table"
    using s by (auto simp: clock_ready_def)
  have w: "walk pt ?s False area = Some ?A" using u by (auto intro: walk_program_start [where n = 4096])
  obtain v os where r: "rtc_read (e_dev e) (i # ints) fd ?s = Some (0, ?s\<lparr>iflag := False, rtc_virtual_interupt := v, outs := os\<rparr>)"
    "length v = 3"
    by (rule rtc_read_run [of ?s "e_dev e" i ints fd]) (use c in \<open>simp_all add: that\<close>)
  have call: "read_call pt e fd area 4 (cli ?s) = Some (0, ?s\<lparr>rtc_virtual_interupt := v, outs := os\<rparr>)"
    using b c(2-4) w r(1) in_program_nonzero [OF u(2)] e by (simp add: read_call_def call_read_def cli_def FDT_SIZE_def)
  let ?s' = "s\<lparr>vid := overlay (vid s) ?A buf, rtc_virtual_interupt := v, outs := os, iflag := iflag s\<rparr>"
  have cl: "cli (s\<lparr>vid := overlay (vid s) ?A buf\<rparr>) = cli ?s" by (simp add: cli_def)
  have "in_user pt p video ?s'" using u(1) by (simp add: in_user_def in_space_def)
  then have "load_array pt area (length buf) ?s' = Some (bytes_at (vid ?s') ?A (length buf))"
    using u(2) by (intro load_array_run [where n = 4096]) simp_all
  then have ld: "load_array pt area 4 ?s' = Some buf" using buf by (simp add: bytes_at_overlay)
  have "ece391_read (kernel_os pt e frame temp area child) fd buf 4 s = Some (0, buf, ?s')"
    using call cl store_array_run [OF u] ld c(2,3) buf by (simp add: kernel_os_def DO_CALL_eqs signed_arg)
  moreover have "clock_ready pt p video area fd ?s'" using s r(2) by (simp add: clock_ready_def)
  moreover have "user_screen video ?s' = user_screen video s"
    using user_screen_store [OF u, of buf "vid s"] buf
      user_screen_cong [of ?s' "s\<lparr>vid := overlay (vid s) ?A buf\<rparr>" video] by simp
  ultimately show ?thesis using buf by blast
qed

interpretation kernel_clock: ticking "kernel_os pt e frame temp area child" "\<lambda>s. clock_ready pt p video area fd s \<and> e_ints e \<noteq> []"
    "\<lambda>_. ()" "user_screen video" tty_char fd
  for pt e frame temp area child p video fd
proof (unfold_locales, goal_cases)
  case (1 s n buf)
  then have u: "user_ready pt p video area s" by (simp add: clock_ready_def)
  obtain s' where s': "ece391_write (kernel_os pt e frame temp area child) 1 buf (int n) s = Some (int n, s')"
    "user_screen video s' = fold tty_char (take n buf) (user_screen video s)"
    "console.more s' = console.more s" "user_ready pt p video area s'"
    by (rule kernel_write_terminal [OF u 1(2-)]) (rule that; assumption)
  with 1(1) show ?case by (auto simp: clock_ready_def clock_more [OF s'(3)] more_system [OF s'(3)])
next
  case (2 s buf)
  then obtain i ints where "e_ints e = i # ints" by (cases "e_ints e") auto
  with 2 kernel_read_tick [of pt p video area fd s buf e i ints frame temp child] show ?case by auto
qed

lemma kernel_write_rate:
  assumes s: "clock_ready pt p video area fd s"
  obtains r s' where "ece391_write (kernel_os pt e frame temp area child) fd [32, 0, 0, 0] 4 s = Some (r, s')"
    "clock_ready pt p video area fd s'" "user_screen video s' = user_screen video s"
proof -
  let ?A = "phys p area" and ?buf = "[32, 0, 0, 0] :: u8 list"
  let ?s = "s\<lparr>vid := overlay (vid s) (phys p area) ?buf, iflag := False\<rparr>"
  have c: "user_ready pt p video area s" "2 \<le> fd" "fd < 8" "op_write (tables (ps s) Rtc_table) = Some Rtc_write"
    "0 \<le> current_process s" "current_process s < 3" "length (rtc_virtual_interupt s) = 3" "length (rtc_running s) = 3"
    using s by (simp_all add: clock_ready_def)
  then have u: "in_user pt p video s" "in_program area 4096" by (simp_all add: user_ready_def)
  obtain b where b: "get_fd (ps s) fd = Some b" "flags b = 1" "file_operations_pointer b = Some Rtc_table"
    using s by (auto simp: clock_ready_def)
  have w: "walk pt ?s False area = Some ?A" using u by (auto intro: walk_program_start [where n = 4096])
  have "overlay (vid s) ?A ?buf (?A + of_nat j) = ?buf ! j" if "j < 4" for j
    using overlay_inside [of j ?buf "vid s" ?A] that by simp
  from this [of 0] this [of 1] this [of 2] this [of 3]
  have rate: "load32 (vid ?s) ?A = 2 ^ 5" by (simp add: load32_def)
  obtain r v os where r: "rtc_write (e_dev e) (e_bytes e) fd (vid ?s) ?A 4 ?s =
      Some (0, ?s\<lparr>iflag := False, rtc_running := r, rtc_virtual_interupt := v, outs := os\<rparr>)" "length r = 3" "length v = 3"
    by (rule rtc_write_run [of 5 "vid ?s" ?A ?s "e_dev e" "e_bytes e" fd]) (use c rate in \<open>simp_all add: that\<close>)
  have call: "write_call pt e fd area 4 (cli ?s) = Some (0, ?s\<lparr>rtc_running := r, rtc_virtual_interupt := v, outs := os\<rparr>)"
    using b c(2-4) w r(1) in_program_nonzero [OF u(2)] by (simp add: write_call_def call_write_def cli_def FDT_SIZE_def)
  let ?s' = "s\<lparr>vid := overlay (vid s) ?A ?buf, rtc_running := r, rtc_virtual_interupt := v, outs := os, iflag := iflag s\<rparr>"
  have cl: "cli (s\<lparr>vid := overlay (vid s) ?A ?buf\<rparr>) = cli ?s" by (simp add: cli_def)
  have "ece391_write (kernel_os pt e frame temp area child) fd ?buf 4 s = Some (0, ?s')"
    using call cl store_array_run [OF u] c(2,3) by (simp add: kernel_os_def DO_CALL_eqs signed_arg)
  moreover have "clock_ready pt p video area fd ?s'" using s r(2,3) by (simp add: clock_ready_def)
  moreover have "user_screen video ?s' = user_screen video s"
    using user_screen_store [OF u, of ?buf "vid s"]
      user_screen_cong [of ?s' "s\<lparr>vid := overlay (vid s) ?A ?buf\<rparr>" video] by simp
  ultimately show ?thesis by (rule that)
qed

definition clock_api :: "'a system_scheme \<Rightarrow> bool" where
  "clock_api s \<longleftrightarrow> rtc_ptr s = Some Rtc_table \<and> op_read (tables (ps s) Rtc_table) = Some Rtc_read \<and>
     op_write (tables (ps s) Rtc_table) = Some Rtc_write \<and> 0 \<le> current_process s \<and> current_process s < 3 \<and>
     length (rtc_running s) = 3 \<and> length (rtc_virtual_interupt s) = 3"

lemma kernel_open_clock:
  assumes s: "user_ready pt p video area s" "\<not> fds_full (ps s)" "clock_api s" "\<not> clock_open (Some Rtc_table) (ps s) 2"
    and name: "0 \<in> set name" "length name \<le> 4096" "named (fs s) (cstr name) TYPE_RTC d"
  obtains j s' where "ece391_open (kernel_os pt e frame temp area child) name s = Some (j, s')"
    "clock_ready pt p video area j s'" "user_screen video s' = user_screen video s" "lowest_free (ps s) j"
proof -
  let ?s = "s\<lparr>vid := overlay (vid s) (phys p area) name, iflag := False\<rparr>"
  let ?b = "rtc_block (Some Rtc_table) (e_word e)"
  have wf: "procs_wf (ps s)" and u: "in_user pt p video s" "in_program area 4096" using s(1) by (simp_all add: user_ready_def)
  obtain j q where j: "take_slot FDT_SIZE (\<lambda>_. ?b) (ps s) = Some (j, q)" "lowest_free (ps s) j" "put_fd (ps s) j ?b = Some q"
    using take_slot_free [OF wf s(2) FDT_SIZE_ge(1)] by blast
  have jr: "2 \<le> j" "j < 8" using j(2) by (simp_all add: lowest_free_def)
  have slot: "take_slot FDT_SIZE (\<lambda>_. rtc_block (rtc_ptr ?s) (e_word e)) (ps ?s) = Some (j, q)"
    using j(1) s(3) by (simp add: clock_api_def)
  have un: "\<not> clock_open (rtc_ptr ?s) (ps ?s) 2" using s(3,4) by (simp add: clock_api_def)
  have "rtc_open (e_dev e) (e_word e) ?s =
      Some (j, sti ((restore_flags (iflag ?s) (set_rate (e_dev e) 15 (cli ?s)))\<lparr>ps := q\<rparr>))"
    by (rule rtc_open_slot [OF _ _ un slot]) (use wf s(2) in simp_all)
  also have "sti ((restore_flags (iflag ?s) (set_rate (e_dev e) 15 (cli ?s)))\<lparr>ps := q\<rparr>) =
      ?s\<lparr>iflag := True, ps := q, outs := outs (set_rate (e_dev e) 15 (cli ?s))\<rparr>"
    by (simp add: sti_def restore_flags_def set_rate_def cli_def outb_def Let_def)
  finally obtain os where o: "rtc_open (e_dev e) (e_word e) ?s = Some (j, ?s\<lparr>iflag := True, ps := q, outs := os\<rparr>)" by blast
  have "cli ?s = ?s" by (simp add: cli_def)
  then have call: "open_call e (Some (cstr name @ [0])) ?s = Some (j, ?s\<lparr>iflag := True, ps := q, outs := os\<rparr>)"
    using named_lookup [OF name(3)] name(3) o by (simp add: open_call_def named_def)
  let ?s' = "s\<lparr>vid := overlay (vid s) (phys p area) name, ps := q, outs := os, iflag := iflag s\<rparr>"
  have run: "ece391_open (kernel_os pt e frame temp area child) name s = Some (j, ?s')"
    using kernel_open_name [OF u name(1,2) call] by simp
  have step: "fd_step j (ps s) q" "j \<noteq> 1" using j(3) jr by (auto simp: fd_step_def)
  have "tables q = tables (ps s)" using j(3) by (auto simp: put_fd_def put_cb_def split: option.splits)
  then have "clock_ready pt p video area j ?s'"
    using user_ready_step [OF s(1) step, where m = "overlay (vid s) (phys p area) name" and f = "iflag s"] s(3) jr fd_store.get_put_same [OF j(3)]
    by (auto simp: clock_ready_def clock_api_def rtc_block_def)
  moreover have "user_screen video ?s' = user_screen video s"
    using user_screen_store [OF u, of name "vid s"] name(2)
      user_screen_cong [of ?s' "s\<lparr>vid := overlay (vid s) (phys p area) name\<rparr>" video] by simp
  ultimately show ?thesis using that run j(2) by blast
qed

section \<open>pingpong\<close>

definition rtc_name :: "u8 list" where "rtc_name = [114, 116, 99]"

lemma c_string_rtc: "cstr (c_string ''rtc'') = rtc_name" "length (c_string ''rtc'') = 4"
  by (simp_all add: c_string_def cstr_def rtc_name_def)

text \<open>
  C14: \<open>pingpong\<close>, run as a process of the kernel while clock interrupts arrive, never stops: for
  every \<open>n\<close> it completes \<open>n\<close> rounds and has then shown them on the screen of the process, one line
  for each place of the character, to the right and back to the left; round \<open>k\<close> shows the letter
  number \<open>k mod 26\<close>.
\<close>

theorem pingpong_keeps_going:
  assumes s: "user_ready pt p video area s" "\<not> fds_full (ps s)" "clock_api s" "\<not> clock_open (Some Rtc_table) (ps s) 2"
    and d: "named (fs s) rtc_name TYPE_RTC d"
    and buf: "length buf = 81" "length garbage = 4" and ints: "e_ints e \<noteq> []"
  shows "\<exists>bg s'. pingpong_run (kernel_os pt e frame temp area child) buf garbage n s = Some (round_letter n, fst bg, snd bg, s') \<and>
    user_screen video s' = fold tty_char (concat (map (\<lambda>k. round_text (round_letter k)) [0..<n])) (user_screen video s)"
proof -
  let ?os = "kernel_os pt e frame temp area child"
  have nm: "length (c_string ''rtc'') \<le> 4096" "named (fs s) (cstr (c_string ''rtc'')) TYPE_RTC d"
    using d by (simp_all add: c_string_rtc)
  obtain buf1 where w: "blank_world buf = Some buf1" "world buf1" using blank_world_run [OF buf(1)] by blast
  obtain j s1 where o: "ece391_open ?os (c_string ''rtc'') s = Some (j, s1)" "clock_ready pt p video area j s1"
    "user_screen video s1 = user_screen video s"
    by (rule kernel_open_clock [OF s nul_in_c_string nm]) (rule that; assumption)
  obtain r s2 where rate: "ece391_write ?os j [32, 0, 0, 0] 4 s1 = Some (r, s2)" "clock_ready pt p video area j s2"
    "user_screen video s2 = user_screen video s1"
    by (rule kernel_write_rate [OF o(2)]) (rule that; assumption)
  have start: "pingpong_start ?os buf garbage s = Some (j, STARTCHAR, buf1, garbage, s2)"
    using w(1) o(1) rate(1) by (simp add: pingpong_start_def)
  have "drawing (\<lambda>s. clock_ready pt p video area j s \<and> e_ints e \<noteq> []) (user_screen video) (user_screen video s) (buf1, garbage, s2)"
    using w(2) buf(2) rate o(3) ints by (simp add: drawing_def)
  from kernel_clock.pingpong_rounds_run [OF this] obtain x where
    x: "pingpong_rounds ?os j n (STARTCHAR, buf1, garbage, s2) = Some (round_letter n, x)"
    "drawing (\<lambda>s. clock_ready pt p video area j s \<and> e_ints e \<noteq> []) (user_screen video) (fold tty_char (concat (map (\<lambda>k. round_text (round_letter k)) [0..<n])) (user_screen video s)) x"
    by blast
  show ?thesis
    using start x by (cases x) (auto simp: pingpong_run_def drawing_def)
qed

text \<open>An image with the clock as its only entry, and a program that may use it.\<close>

definition rtc_mem :: memory where
  "rtc_mem = (\<lambda>_. 0)(0 := 1, 4 := 1, 64 := 114, 65 := 116, 66 := 99)"

definition rtc_fs :: fsys where
  "rtc_fs = boot_block_init 0 rtc_mem"

definition rtc_system :: system where
  "rtc_system = rtc_optable (user_system rtc_fs [])"

lemma rtc_fs_named: "named rtc_fs rtc_name TYPE_RTC (dir_entries rtc_fs 0)"
proof -
  have e: "rtc_fs = \<lparr>fs_mem = rtc_mem, casted_block = 0, node_list = 4096, data_list = 8192\<rparr>"
    by (simp add: rtc_fs_def boot_block_init_def inodes_def load32_def rtc_mem_def FILE_SIZE_def)
  have "entry_name rtc_fs 0 = rtc_name"
    by (simp add: e entry_name_def dir_entries_def bytes_at_def FILENAME_SIZE_def upt_32 rtc_mem_def Let_def cstr_def rtc_name_def)
  moreover have "file_type (dir_entries rtc_fs 0) = TYPE_RTC"
    by (simp add: e dir_entries_def Let_def load32_def rtc_mem_def TYPE_RTC_def)
  ultimately show ?thesis by (auto simp: named_def find_entry_Some_iff rtc_name_def intro: exI [of _ 0])
qed

lemma rtc_system_facts:
  "user_ready 0x480000 1 VIDEO 0x8100000 rtc_system" "\<not> fds_full (ps rtc_system)" "clock_api rtc_system"
  "\<not> clock_open (Some Rtc_table) (ps rtc_system) 2" "fs rtc_system = rtc_fs"
proof -
  have l: "length ([] :: u8 list) \<le> 1024" by simp
  note p = user_procs_facts [OF l] and r = user_system_ready [OF l, of rtc_fs]
  have g: "get_fd (ps rtc_system) k = get_fd (user_procs []) k" for k
    by (simp add: rtc_system_def rtc_optable_def user_system_def get_fd_def get_cb_def)
  show "fs rtc_system = rtc_fs" by (simp add: rtc_system_def rtc_optable_def user_system_def)
  show "\<not> fds_full (ps rtc_system)" using p(2) by (simp add: fds_full_def g)
  show "\<not> clock_open (Some Rtc_table) (ps rtc_system) 2"
    by (auto simp: clock_open_def g user_procs_fd is_free_def freed_def split: if_splits)
  show "clock_api rtc_system"
    by (simp add: clock_api_def rtc_system_def rtc_optable_def user_system_def file_system_def clock_system_def
        kernel.defs idle_kernel_def)
  have "std_output (ps rtc_system)"
    by (simp add: std_output_def g user_procs_fd stdout_block_def)
      (simp add: rtc_system_def rtc_optable_def user_system_def user_procs_def)
  moreover have "procs_wf (ps rtc_system)"
    using p(1) by (simp add: rtc_system_def rtc_optable_def user_system_def procs_wf_def active_count_def)
  ultimately show "user_ready 0x480000 1 VIDEO 0x8100000 rtc_system"
    using r by (simp add: user_ready_def in_user_def in_space_def on_screen_def rtc_system_def rtc_optable_def)
qed

theorem pingpong_keeps_going_witness:
  "\<exists>bg s'. pingpong_run (kernel_os 0x480000 (quiet_env\<lparr>e_ints := [()]\<rparr>) 0x7F0000 0 0x8100000 (\<lambda>_ _. None))
      (replicate 81 7) (replicate 4 0) 27 rtc_system = Some (66, fst bg, snd bg, s')"
proof -
  have "round_letter 27 = 66" by (simp add: round_letter_def)
  with pingpong_keeps_going [OF rtc_system_facts(1-4), of "dir_entries rtc_fs 0" "replicate 81 7" "replicate 4 0"
      "quiet_env\<lparr>e_ints := [()]\<rparr>" "0x7F0000" 0 "\<lambda>_ _. None" 27]
  show ?thesis using rtc_fs_named rtc_system_facts(5) by auto
qed

end
