(* ===== verification/Interrupt_Table.thy ===== *)
theory Interrupt_Table
  imports Clock
begin

text \<open>
  The interrupt descriptor table: \<open>create_idt_entry\<close>, \<open>initialize_IDT\<close> and \<open>keyboard_init\<close> of
  \<^verbatim>\<open>student-distrib/interrupts.c\<close>, with the descriptor and the macro \<open>SET_IDT_ENTRY\<close> of
  \<^verbatim>\<open>x86_desc.h\<close>, and the way the processor reads a descriptor. The addresses of the handlers,
  fixed by the linker, are a parameter.
\<close>

type_synonym u1 = "1 word"
type_synonym u2 = "2 word"

record idt_desc_t =
  offset_15_00 :: u16
  seg_selector :: u16
  reserved4 :: u8
  reserved3 :: u1
  reserved2 :: u1
  reserved1 :: u1
  size_bit :: u1
  reserved0 :: u1
  dpl :: u2
  present :: u1
  offset_31_16 :: u16

datatype handler =
    Exception_div_zero | Exception_debug | Exception_nonmaskable_interrupt | Exception_breakpoint
  | Exception_overflow | Exception_bound_range_exceeded | Exception_invalid_opcode
  | Exception_device_not_available | Exception_double_fault | Exception_coprocessor_segment_overrun
  | Exception_invalid_TSS | Exception_segment_not_present | Exception_stack_segment_fault
  | Exception_general_protection_fault | Exception_page_fault | Exception_reserved
  | Exception_x87_floating_point | Exception_alignment_check | Exception_machine_check
  | Exception_SIMD_floating_point | Exception_virtualization | Exception_security
  | Schedule_wrapper | Keyboard_wrapper | Rtc_wrapper | System_call

record boot = system +
  idt :: "idt_desc_t list"
  color_flag :: int

definition DPL_KERNEL :: int where "DPL_KERNEL = 0"
definition DPL_USER :: int where "DPL_USER = 3"
definition KERNEL_CS :: int where "KERNEL_CS = 0x10"

section \<open>The routines\<close>

text \<open>\<open>temp\<close> is the uninitialised local variable: its two offsets stay as they are.\<close>

definition create_idt_entry :: "idt_desc_t \<Rightarrow> int \<Rightarrow> int \<Rightarrow> int \<Rightarrow> idt_desc_t" where
  "create_idt_entry temp seg_select dpl_arg present_arg =
     temp\<lparr>seg_selector := of_int seg_select, present := of_int present_arg, dpl := of_int dpl_arg,
          size_bit := 1, reserved0 := 0, reserved1 := 1, reserved2 := 1, reserved3 := 0, reserved4 := 0\<rparr>"

definition SET_IDT_ENTRY :: "u32 \<Rightarrow> idt_desc_t \<Rightarrow> idt_desc_t" where
  "SET_IDT_ENTRY a d =
     d\<lparr>offset_31_16 := ucast (drop_bit 16 (a AND 0xFFFF0000)), offset_15_00 := ucast (a AND 0xFFFF)\<rparr>"

definition set_vector :: "(handler \<Rightarrow> u32) \<Rightarrow> idt_desc_t \<Rightarrow> int \<times> int \<times> handler \<Rightarrow> idt_desc_t list \<Rightarrow>
    idt_desc_t list option" where
  "set_vector address temp = (\<lambda>(v, level, h) table.
     aset table v (SET_IDT_ENTRY (address h) (create_idt_entry temp KERNEL_CS level 1)))"

text \<open>The assignments of \<open>initialize_IDT\<close> in their order.\<close>

definition vectors :: "(int \<times> int \<times> handler) list" where
  "vectors =
     [(0x00, DPL_KERNEL, Exception_div_zero), (0x01, DPL_KERNEL, Exception_debug),
      (0x02, DPL_KERNEL, Exception_nonmaskable_interrupt), (0x03, DPL_KERNEL, Exception_breakpoint),
      (0x04, DPL_KERNEL, Exception_overflow), (0x05, DPL_KERNEL, Exception_bound_range_exceeded),
      (0x06, DPL_KERNEL, Exception_invalid_opcode), (0x07, DPL_KERNEL, Exception_device_not_available),
      (0x08, DPL_KERNEL, Exception_double_fault), (0x09, DPL_KERNEL, Exception_coprocessor_segment_overrun),
      (0x0A, DPL_KERNEL, Exception_invalid_TSS), (0x0B, DPL_KERNEL, Exception_segment_not_present),
      (0x0C, DPL_KERNEL, Exception_stack_segment_fault), (0x0D, DPL_KERNEL, Exception_general_protection_fault),
      (0x0E, DPL_KERNEL, Exception_page_fault), (0x0F, DPL_KERNEL, Exception_reserved),
      (0x10, DPL_KERNEL, Exception_x87_floating_point), (0x11, DPL_KERNEL, Exception_alignment_check),
      (0x12, DPL_KERNEL, Exception_machine_check), (0x13, DPL_KERNEL, Exception_SIMD_floating_point),
      (0x14, DPL_KERNEL, Exception_virtualization), (0x15, DPL_KERNEL, Exception_reserved),
      (0x16, DPL_KERNEL, Exception_reserved), (0x17, DPL_KERNEL, Exception_reserved),
      (0x18, DPL_KERNEL, Exception_reserved), (0x19, DPL_KERNEL, Exception_reserved),
      (0x1A, DPL_KERNEL, Exception_reserved), (0x1B, DPL_KERNEL, Exception_reserved),
      (0x1C, DPL_KERNEL, Exception_reserved), (0x1D, DPL_KERNEL, Exception_reserved),
      (0x1E, DPL_KERNEL, Exception_security), (0x1F, DPL_KERNEL, Exception_reserved),
      (0x20, DPL_USER, Schedule_wrapper), (0x21, DPL_USER, Keyboard_wrapper),
      (0x28, DPL_USER, Rtc_wrapper), (0x80, DPL_USER, System_call)]"

definition initialize_IDT :: "(handler \<Rightarrow> u32) \<Rightarrow> idt_desc_t \<Rightarrow> 'a boot_scheme \<Rightarrow> 'a boot_scheme option" where
  "initialize_IDT address temp s = do {
     let s = i8259_init s;
     let s = outb 0xFD (MASTER_8259_PORT + 1) s;
     let s = outb 0xFF (SLAVE_8259_PORT + 1) s;
     table \<leftarrow> run_steps (set_vector address temp) vectors (idt s);
     let s = s\<lparr>idt := table, color_flag := 0\<rparr>;
     let s = cursor_disable s;
     let s = cursor_enable s;
     Some (cursor_update s) }"

definition keyboard_init :: "device \<Rightarrow> 'a kernel_scheme \<Rightarrow> 'a kernel_scheme option" where
  "keyboard_init dev s = do { (r, s) \<leftarrow> keyboard_open s; Some (enable_irq dev IRQ1 s) }"

section \<open>How the processor reads a descriptor\<close>

text \<open>The two words of a descriptor, with its fields at their places.\<close>

definition gate_words :: "idt_desc_t \<Rightarrow> u32 \<times> u32" where
  "gate_words d =
     (0x10000 * ucast (seg_selector d) + ucast (offset_15_00 d),
      0x10000 * ucast (offset_31_16 d) + 0x8000 * ucast (present d) + 0x2000 * ucast (dpl d) +
      0x1000 * ucast (reserved0 d) + 0x800 * ucast (size_bit d) + 0x400 * ucast (reserved1 d) +
      0x200 * ucast (reserved2 d) + 0x100 * ucast (reserved3 d) + ucast (reserved4 d))"

text \<open>
  The code segment and address an interrupt goes to; \<open>None\<close> is a fault: the gate is not present,
  it is not a 32-bit interrupt gate, or a program in user mode asks for it and its level is not 3.
\<close>

definition gate_target :: "bool \<Rightarrow> u32 \<times> u32 \<Rightarrow> (u32 \<times> u32) option" where
  "gate_target program = (\<lambda>(lo, hi).
     let flags = take_bit 16 hi
     in if flags AND 0x8000 = 0 then None
        else if flags AND 0x1F00 \<noteq> 0x0E00 then None
        else if program \<and> flags AND 0x6000 \<noteq> 0x6000 then None
        else Some (drop_bit 16 lo, push_bit 16 (drop_bit 16 hi) + take_bit 16 lo))"

definition vector_target :: "bool \<Rightarrow> idt_desc_t list \<Rightarrow> nat \<Rightarrow> (u32 \<times> u32) option" where
  "vector_target program table v = (if v < length table then gate_target program (gate_words (table ! v)) else None)"

lemma halves:
  fixes x c :: u32
  assumes "c < 0x10000" "x < 0x10000"
  shows "take_bit 16 (0x10000 * x + c) = c" "drop_bit 16 (0x10000 * x + c) = x"
proof -
  have b: "unat c < 0x10000" "unat x < 0x10000" using assms by (simp_all add: word_less_nat_alt)
  then have u: "unat (0x10000 * x + c) = 0x10000 * unat x + unat c"
    by (simp add: unat_word_ariths)
  have "unat (take_bit 16 (0x10000 * x + c)) = unat c"
    using b by (simp add: take_bit_eq_mod unat_mod u)
  then show "take_bit 16 (0x10000 * x + c) = c" by (simp only: word_unat_eq_iff)
  have "unat (drop_bit 16 (0x10000 * x + c)) = unat x"
    using b by (simp add: drop_bit_eq_div unat_div u)
  then show "drop_bit 16 (0x10000 * x + c) = x" by (simp only: word_unat_eq_iff)
qed

lemma split_address:
  fixes a :: u32
  shows "ucast (ucast (drop_bit 16 (a AND 0xFFFF0000)) :: u16) = drop_bit 16 a"
    "ucast (ucast (a AND 0xFFFF) :: u16) = take_bit 16 a" "drop_bit 16 a < 0x10000" "take_bit 16 a < 0x10000"
    "push_bit 16 (drop_bit 16 a) + take_bit 16 a = a" "take_bit 16 (drop_bit 16 a) = drop_bit 16 a"
proof -
  have masks: "0xFFFF0000 = (NOT (mask 16) :: u32)" "0xFFFF = (mask 16 :: u32)"
    by (simp_all add: mask_eq_exp_minus_1)
  show "ucast (ucast (drop_bit 16 (a AND 0xFFFF0000)) :: u16) = drop_bit 16 a"
    unfolding masks by (rule bit_word_eqI) (auto simp: bit_simps dest: bit_imp_le_length)
  show "ucast (ucast (a AND 0xFFFF) :: u16) = take_bit 16 a"
    unfolding masks by (rule bit_word_eqI) (auto simp: bit_simps)
  show "push_bit 16 (drop_bit 16 a) + take_bit 16 a = a" by (rule bits_ident)
  show "take_bit 16 (drop_bit 16 a) = drop_bit 16 a"
    by (rule bit_word_eqI) (auto simp: bit_simps dest: bit_imp_le_length)
  have "unat a div 65536 < 65536" using unat_u32_bound [of a] by simp
  then show "drop_bit 16 a < 0x10000" by (simp add: word_less_nat_alt drop_bit_eq_div unat_div)
  show "take_bit 16 a < 0x10000" by (simp add: word_less_nat_alt take_bit_eq_mod unat_mod)
qed

lemma gate_target_entry:
  assumes "level = DPL_KERNEL \<or> level = DPL_USER"
  shows "gate_target program (gate_words (SET_IDT_ENTRY a (create_idt_entry temp KERNEL_CS level 1))) =
    (if program \<and> level = DPL_KERNEL then None else Some (0x10, a))"
proof -
  let ?f = "if level = DPL_KERNEL then 0x8E00 else 0xEE00 :: u32"
  have "gate_words (SET_IDT_ENTRY a (create_idt_entry temp KERNEL_CS level 1)) =
      (0x10000 * 0x10 + take_bit 16 a, 0x10000 * drop_bit 16 a + ?f)"
    using assms unfolding gate_words_def SET_IDT_ENTRY_def
    by (auto simp: create_idt_entry_def split_address KERNEL_CS_def DPL_KERNEL_def DPL_USER_def)
  moreover have "take_bit 16 (0x10000 * drop_bit 16 a + ?f) = ?f" "drop_bit 16 (0x10000 * drop_bit 16 a + ?f) = drop_bit 16 a"
    by (rule halves; simp add: split_address)+
  moreover have "take_bit 16 (0x10000 * 0x10 + take_bit 16 a) = take_bit 16 a"
    "drop_bit 16 (0x10000 * 0x10 + take_bit 16 a) = 0x10"
    by (rule halves; simp add: split_address)+
  ultimately show ?thesis
    using assms by (cases "level = DPL_KERNEL") (simp_all add: gate_target_def split_address)
qed

section \<open>The table after the set-up\<close>

lemma vectors_distinct: "distinct (map fst vectors)" "\<forall>(v, level, h) \<in> set vectors. 0 \<le> v \<and> v < 256 \<and>
    (level = DPL_KERNEL \<or> level = DPL_USER)"
  by (simp_all add: vectors_def)

lemma run_set_vector:
  assumes "distinct (map fst vs)" "\<forall>(v, level, h) \<in> set vs. 0 \<le> v \<and> v < int (length table)"
  shows "\<exists>table'. run_steps (set_vector address temp) vs table = Some table' \<and> length table' = length table \<and>
    (\<forall>k < length table. table' ! k = (case map_of vs (int k) of
       None \<Rightarrow> table ! k
     | Some (level, h) \<Rightarrow> SET_IDT_ENTRY (address h) (create_idt_entry temp KERNEL_CS level 1)))"
  using assms
proof (induction vs arbitrary: table)
  case (Cons x vs)
  obtain v level h where x: "x = (v, level, h)" by (cases x) auto
  let ?e = "SET_IDT_ENTRY (address h) (create_idt_entry temp KERNEL_CS level 1)"
  have v: "0 \<le> v" "v < int (length table)" using Cons.prems(2) x by auto
  then have s: "set_vector address temp x table = Some (table[nat v := ?e])"
    by (simp add: x set_vector_def aset_def)
  obtain table' where t: "run_steps (set_vector address temp) vs (table[nat v := ?e]) = Some table'"
    "length table' = length table"
    "\<And>k. k < length table \<Longrightarrow> table' ! k = (case map_of vs (int k) of
       None \<Rightarrow> table[nat v := ?e] ! k
     | Some (level, h) \<Rightarrow> SET_IDT_ENTRY (address h) (create_idt_entry temp KERNEL_CS level 1))"
    using Cons.IH [of "table[nat v := ?e]"] Cons.prems by auto
  have "v \<notin> fst ` set vs" using Cons.prems(1) x by simp
  then have new: "map_of vs v = None" by (simp add: map_of_eq_None_iff)
  have "table' ! k = (case map_of (x # vs) (int k) of None \<Rightarrow> table ! k
     | Some (level, h) \<Rightarrow> SET_IDT_ENTRY (address h) (create_idt_entry temp KERNEL_CS level 1))"
    if k: "k < length table" for k
  proof (cases "int k = v")
    case True
    then have "nat v = k" by auto
    with True t(3) [OF k] new k show ?thesis by (simp add: x)
  next
    case False
    then have "nat v \<noteq> k" using v by auto
    with False t(3) [OF k] show ?thesis by (simp add: x split: option.split)
  qed
  with s t(1,2) show ?case by simp
qed simp

text \<open>The table is assembled as zeros.\<close>

definition zero_gate :: idt_desc_t where
  "zero_gate = \<lparr>offset_15_00 = 0, seg_selector = 0, reserved4 = 0, reserved3 = 0, reserved2 = 0, reserved1 = 0,
     size_bit = 0, reserved0 = 0, dpl = 0, present = 0, offset_31_16 = 0\<rparr>"

lemma user_vectors:
  "map_of vectors v = Some (level, h) \<Longrightarrow> level = DPL_KERNEL \<or> level = DPL_USER"
  "map_of vectors v = Some (DPL_USER, h) \<longleftrightarrow> (v, h) \<in>
     {(0x20, Schedule_wrapper), (0x21, Keyboard_wrapper), (0x28, Rtc_wrapper), (0x80, System_call)}"
  by (auto simp: vectors_def DPL_USER_def DPL_KERNEL_def split: if_splits)

lemma initialize_IDT_targets:
  assumes "idt s = replicate 256 zero_gate"
  obtains s' where "initialize_IDT address temp s = Some s'"
    "\<And>program v. v < 256 \<Longrightarrow> vector_target program (idt s') v = (case map_of vectors (int v) of None \<Rightarrow> None
      | Some (level, h) \<Rightarrow> if program \<and> level = DPL_KERNEL then None else Some (0x10, address h))"
proof -
  have "\<forall>(v, level, h) \<in> set vectors. 0 \<le> v \<and> v < int (length (replicate 256 zero_gate))"
    using vectors_distinct(2) by auto
  then obtain table where t: "run_steps (set_vector address temp) vectors (replicate 256 zero_gate) = Some table"
    "length table = 256"
    "\<And>k. k < 256 \<Longrightarrow> table ! k = (case map_of vectors (int k) of None \<Rightarrow> zero_gate
       | Some (level, h) \<Rightarrow> SET_IDT_ENTRY (address h) (create_idt_entry temp KERNEL_CS level 1))"
    using run_set_vector [OF vectors_distinct(1), of "replicate 256 zero_gate" address temp]
    by (auto cong: option.case_cong)
  have "idt (outb 0xFF (SLAVE_8259_PORT + 1) (outb 0xFD (MASTER_8259_PORT + 1) (i8259_init s))) = replicate 256 zero_gate"
    using assms by (simp add: i8259_init_def outb_def Let_def)
  then obtain s' where s': "initialize_IDT address temp s = Some s'" "idt s' = table"
    using t(1) by (simp add: initialize_IDT_def Let_def cursor_update_def cursor_update_spec_def cursor_enable_def
        cursor_disable_def outb_def)
  have zero: "gate_target program (gate_words zero_gate) = None" for program
    by (simp add: gate_words_def zero_gate_def gate_target_def)
  have tgt: "vector_target program table v = (case map_of vectors (int v) of None \<Rightarrow> None
      | Some (level, h) \<Rightarrow> if program \<and> level = DPL_KERNEL then None else Some (0x10, address h))"
    if "v < 256" for program v
    using t(2) t(3) [OF that] that zero gate_target_entry user_vectors(1) [of "int v"]
    by (auto simp: vector_target_def split: option.split)
  from that [OF s'(1)] tgt show ?thesis unfolding s'(2) by blast
qed


definition boot_system :: boot where
  "boot_system = system.extend clock_system (boot.fields (replicate 256 zero_gate) 0)"


end
