(* ===== verification/Boot.thy ===== *)
theory Boot
  imports Dispatch Interrupt_Table User_Calls
begin

text \<open>
  The boot: \<open>entry\<close> of \<^verbatim>\<open>student-distrib/kernel.c\<close> with the Multiboot structures of \<^verbatim>\<open>multiboot.h\<close>
  and the segment descriptors of \<^verbatim>\<open>x86_desc.h\<close>. The boot loader leaves its information in memory,
  at physical addresses: paging is off until \<open>paging_init\<close>, which maps the display and the
  kernel's 4 MB at their own addresses.

  What the linker and the compiler fix is in a record \<open>image\<close>: the addresses of the handlers,
  of the page table, of the LDT and the TSS and of the literal \<open>shell\<close>, the registers that
  \<open>first_process_init\<close> saves, and the contents of uninitialised variables.
\<close>

section \<open>Descriptors\<close>

type_synonym u4 = "4 word"

record seg_desc_t =
  seg_lim_15_00 :: u16
  base_15_00 :: u16
  base_23_16 :: u8
  seg_type :: u4
  seg_sys :: u1
  seg_dpl :: u2
  seg_present :: u1
  seg_lim_19_16 :: u4
  seg_avail :: u1
  seg_reserved :: u1
  opsize :: u1
  granularity :: u1
  base_31_24 :: u8

record started = boot +
  ldt_desc_ptr :: seg_desc_t
  tss_desc_ptr :: seg_desc_t
  ldt_segment_selector :: u16
  ldt_register :: u16
  task_register :: u16

record image =
  im_handlers :: "handler \<Rightarrow> u32"
  im_gate :: idt_desc_t
  im_pt :: u32
  im_ldt :: u32
  im_tss :: u32
  im_shell :: u32
  im_ss :: u32
  im_esp :: u32
  im_frame :: u32
  im_temp :: u32
  im_junk :: "u8 list"

definition TSS_SIZE :: u32 where "TSS_SIZE = 104"
definition KERNEL_TSS :: u16 where "KERNEL_TSS = 0x30"
definition KERNEL_LDT :: u16 where "KERNEL_LDT = 0x38"

text \<open>\<open>ldt_size\<close> and \<open>tss_size\<close> of \<^verbatim>\<open>x86_desc.S\<close>: the last offset of four quad words and of 104 bytes.\<close>

definition ldt_size :: u32 where "ldt_size = 31"
definition tss_size :: u32 where "tss_size = 103"

definition SET_LDT_PARAMS :: "u32 \<Rightarrow> u32 \<Rightarrow> seg_desc_t \<Rightarrow> seg_desc_t" where
  "SET_LDT_PARAMS addr lim d =
     d\<lparr>base_31_24 := ucast (drop_bit 24 (addr AND 0xFF000000)), base_23_16 := ucast (drop_bit 16 (addr AND 0x00FF0000)),
       base_15_00 := ucast (addr AND 0x0000FFFF), seg_lim_19_16 := ucast (drop_bit 16 (lim AND 0x000F0000)),
       seg_lim_15_00 := ucast (lim AND 0x0000FFFF)\<rparr>"

definition SET_TSS_PARAMS :: "u32 \<Rightarrow> u32 \<Rightarrow> seg_desc_t \<Rightarrow> seg_desc_t" where
  "SET_TSS_PARAMS addr lim d =
     d\<lparr>base_31_24 := ucast (drop_bit 24 (addr AND 0xFF000000)), base_23_16 := ucast (drop_bit 16 (addr AND 0x00FF0000)),
       base_15_00 := ucast (addr AND 0x0000FFFF), seg_lim_19_16 := ucast (drop_bit 16 (lim AND 0x000F0000)),
       seg_lim_15_00 := ucast (lim AND 0x0000FFFF)\<rparr>"

text \<open>The two blocks of \<open>entry\<close>; \<open>d\<close> is the uninitialised local descriptor.\<close>

definition set_ldt :: "u32 \<Rightarrow> seg_desc_t \<Rightarrow> 'a started_scheme \<Rightarrow> 'a started_scheme" where
  "set_ldt addr d s =
     (let d = d\<lparr>granularity := 0, opsize := 1, seg_reserved := 0, seg_avail := 0, seg_present := 1, seg_dpl := 0,
            seg_sys := 0, seg_type := 2\<rparr>;
          d = SET_LDT_PARAMS addr ldt_size d
      in s\<lparr>ldt_desc_ptr := d, ldt_register := KERNEL_LDT\<rparr>)"

definition set_tss :: "u32 \<Rightarrow> seg_desc_t \<Rightarrow> 'a started_scheme \<Rightarrow> 'a started_scheme" where
  "set_tss addr d s =
     (let d = d\<lparr>granularity := 0, opsize := 0, seg_reserved := 0, seg_avail := 0,
            seg_lim_19_16 := ucast (TSS_SIZE AND 0x000F0000), seg_present := 1, seg_dpl := 0, seg_sys := 0,
            seg_type := 9, seg_lim_15_00 := ucast (TSS_SIZE AND 0x0000FFFF)\<rparr>;
          d = SET_TSS_PARAMS addr tss_size d
      in s\<lparr>tss_desc_ptr := d, ldt_segment_selector := KERNEL_LDT,
           tss := \<lparr>ss0 = KERNEL_DS, esp0 = 0x800000\<rparr>, task_register := KERNEL_TSS\<rparr>)"

section \<open>The Multiboot information\<close>

definition MULTIBOOT_BOOTLOADER_MAGIC :: u32 where "MULTIBOOT_BOOTLOADER_MAGIC = 0x2BADB002"

text \<open>The members of \<open>multiboot_info_t\<close>, \<open>module_t\<close> and \<open>memory_map_t\<close> at an address.\<close>

definition mbi_flags :: "memory \<Rightarrow> u32 \<Rightarrow> u32" where "mbi_flags m a = load32 m a"
definition mem_lower :: "memory \<Rightarrow> u32 \<Rightarrow> u32" where "mem_lower m a = load32 m (a + 4)"
definition mem_upper :: "memory \<Rightarrow> u32 \<Rightarrow> u32" where "mem_upper m a = load32 m (a + 8)"
definition boot_device :: "memory \<Rightarrow> u32 \<Rightarrow> u32" where "boot_device m a = load32 m (a + 12)"
definition cmdline :: "memory \<Rightarrow> u32 \<Rightarrow> u32" where "cmdline m a = load32 m (a + 16)"
definition mods_count :: "memory \<Rightarrow> u32 \<Rightarrow> u32" where "mods_count m a = load32 m (a + 20)"
definition mods_addr :: "memory \<Rightarrow> u32 \<Rightarrow> u32" where "mods_addr m a = load32 m (a + 24)"
definition elf_sec :: "u32 \<Rightarrow> u32" where "elf_sec a = a + 28"
definition mmap_length :: "memory \<Rightarrow> u32 \<Rightarrow> u32" where "mmap_length m a = load32 m (a + 44)"
definition mmap_addr :: "memory \<Rightarrow> u32 \<Rightarrow> u32" where "mmap_addr m a = load32 m (a + 48)"

definition mod_start :: "memory \<Rightarrow> u32 \<Rightarrow> u32" where "mod_start m a = load32 m a"
definition mod_end :: "memory \<Rightarrow> u32 \<Rightarrow> u32" where "mod_end m a = load32 m (a + 4)"

definition CHECK_FLAG :: "u32 \<Rightarrow> nat \<Rightarrow> bool" where
  "CHECK_FLAG fl n \<longleftrightarrow> fl AND push_bit n 1 \<noteq> 0"

text \<open>The bytes from an address to the next NUL.\<close>

partial_function (option) string_in :: "memory \<Rightarrow> u32 \<Rightarrow> u8 list option" where
  "string_in m a =
     (if m a = 0 then Some [0] else Option.bind (string_in m (a + 1)) (\<lambda>rest. Some (m a # rest)))"

definition say :: "u8 list \<Rightarrow> string \<Rightarrow> printf_arg list \<Rightarrow> 'a console_scheme \<Rightarrow> 'a console_scheme option" where
  "say junk format arg s = do { (n, s) \<leftarrow> printf junk (c_string format) arg s; Some s }"

section \<open>The report\<close>

definition report_head :: "u8 list \<Rightarrow> u32 \<Rightarrow> 'a console_scheme \<Rightarrow> 'a console_scheme option" where
  "report_head junk mbi s = do {
     s \<leftarrow> say junk (''flags = 0x%#x'' @ newline) [Num (mbi_flags (vid s) mbi)] s;
     s \<leftarrow> (if CHECK_FLAG (mbi_flags (vid s) mbi) 0
       then say junk (''mem_lower = %uKB, mem_upper = %uKB'' @ newline)
         [Num (mem_lower (vid s) mbi), Num (mem_upper (vid s) mbi)] s else Some s);
     s \<leftarrow> (if CHECK_FLAG (mbi_flags (vid s) mbi) 1
       then say junk (''boot_device = 0x%#x'' @ newline) [Num (boot_device (vid s) mbi)] s else Some s);
     (if CHECK_FLAG (mbi_flags (vid s) mbi) 2
       then do {
         t \<leftarrow> string_in (vid s) (cmdline (vid s) mbi);
         say junk (''cmdline = %s'' @ newline) [Str t] s } else Some s) }"

text \<open>One module: its image becomes the file system, and its first bytes are shown as signed numbers.\<close>

definition report_module :: "u8 list \<Rightarrow> u32 \<Rightarrow> u32 \<Rightarrow> 'a system_scheme \<Rightarrow> 'a system_scheme option" where
  "report_module junk mod_count md s = do {
     s \<leftarrow> say junk (''Module %d loaded at address: 0x%#x'' @ newline) [Num mod_count, Num (mod_start (vid s) md)] s;
     let s = s\<lparr>fs := boot_block_init (mod_start (vid s) md) (vid s)\<rparr>;
     s \<leftarrow> say junk (''Module %d ends at address: 0x%#x'' @ newline) [Num mod_count, Num (mod_end (vid s) md)] s;
     s \<leftarrow> say junk (''First few bytes of module:'' @ newline) [] s;
     s \<leftarrow> loop_opt 0 16 (\<lambda>i s. say junk ''0x%x '' [Num (scast (vid s (mod_start (vid s) md + of_int i)))] s) s;
     say junk newline [] s }"

partial_function (option) report_modules :: "u8 list \<Rightarrow> u32 \<Rightarrow> u32 \<Rightarrow> u32 \<Rightarrow> 'a system_scheme \<Rightarrow>
    'a system_scheme option" where
  "report_modules junk mbi mod_count md s =
     (if mod_count < mods_count (vid s) mbi
      then Option.bind (report_module junk mod_count md s) (report_modules junk mbi (mod_count + 1) (md + 16))
      else Some s)"

definition report_elf :: "u8 list \<Rightarrow> u32 \<Rightarrow> 'a console_scheme \<Rightarrow> 'a console_scheme option" where
  "report_elf junk mbi s =
     (if CHECK_FLAG (mbi_flags (vid s) mbi) 5
      then (let elf = elf_sec mbi
        in say junk (''elf_sec: num = %u, size = 0x%#x, addr = 0x%#x, shndx = 0x%#x'' @ newline)
          [Num (load32 (vid s) elf), Num (load32 (vid s) (elf + 4)), Num (load32 (vid s) (elf + 8)),
           Num (load32 (vid s) (elf + 12))] s)
      else Some s)"

partial_function (option) report_mmap_loop :: "u8 list \<Rightarrow> u32 \<Rightarrow> u32 \<Rightarrow> 'a console_scheme \<Rightarrow>
    'a console_scheme option" where
  "report_mmap_loop junk mbi mmap s =
     (if mmap < mmap_addr (vid s) mbi + mmap_length (vid s) mbi
      then Option.bind
        (say junk (''    size = 0x%x, base_addr = 0x%#x%#x'' @ newline @ ''    type = 0x%x,  length    = 0x%#x%#x'' @ newline)
          [Num (load32 (vid s) mmap), Num (load32 (vid s) (mmap + 8)), Num (load32 (vid s) (mmap + 4)),
           Num (load32 (vid s) (mmap + 20)), Num (load32 (vid s) (mmap + 16)), Num (load32 (vid s) (mmap + 12))] s)
        (\<lambda>s. report_mmap_loop junk mbi (mmap + load32 (vid s) mmap + 4) s)
      else Some s)"

definition report_mmap :: "u8 list \<Rightarrow> u32 \<Rightarrow> 'a console_scheme \<Rightarrow> 'a console_scheme option" where
  "report_mmap junk mbi s =
     (if CHECK_FLAG (mbi_flags (vid s) mbi) 6
      then do {
        s \<leftarrow> say junk (''mmap_addr = 0x%#x, mmap_length = 0x%x'' @ newline)
          [Num (mmap_addr (vid s) mbi), Num (mmap_length (vid s) mbi)] s;
        report_mmap_loop junk mbi (mmap_addr (vid s) mbi) s }
      else Some s)"

section \<open>entry\<close>

text \<open>The initialisation calls, from \<open>initialize_IDT\<close> to \<open>terminal_clear\<close>.\<close>

definition initialise :: "image \<Rightarrow> device \<Rightarrow> 'a boot_scheme \<Rightarrow> 'a boot_scheme option" where
  "initialise im dev s = do {
     s \<leftarrow> initialize_IDT (im_handlers im) (im_gate im) s;
     let s = PIT_init dev s;
     s \<leftarrow> keyboard_init dev s;
     s \<leftarrow> RTC_init dev s;
     s \<leftarrow> paging_init (im_pt im) s;
     (r, p) \<leftarrow> process_control_block_init (ps s);
     (r, p) \<leftarrow> first_process_init (im_ss im) (im_esp im) p;
     (r, s) \<leftarrow> terminal_open (s\<lparr>ps := p\<rparr>);
     s \<leftarrow> say (im_junk im) (''Enabling Interrupts'' @ newline) [] (s\<lparr>video_mem := VIDEO\<rparr>);
     Some (terminal_clear s) }"

text \<open>
  How \<open>entry\<close> ends: it returns early to the \<open>hlt\<close> loop of \<^verbatim>\<open>boot.S\<close>, it spins in its own loop
  because the first program did not start, or the first program is entered.
\<close>

datatype 's boot_end = Returned_early 's | Spinning 's | Entered u32 's

definition SYS_EXECUTE :: u32 where "SYS_EXECUTE = 2"

definition first_program :: "image \<Rightarrow> env \<Rightarrow> 'a system_scheme \<Rightarrow> 'a system_scheme boot_end option" where
  "first_program im e s = do {
     r \<leftarrow> do_call (im_pt im) e (im_frame im) (im_temp im) SYS_EXECUTE (im_shell im) 0 0 s;
     (case r of
        Reply n s \<Rightarrow> Some (Spinning s)
      | Enter entry_point s \<Rightarrow> Some (Entered entry_point s)
      | Ended sp r \<Rightarrow> None) }"

definition entry :: "image \<Rightarrow> env \<Rightarrow> seg_desc_t \<Rightarrow> seg_desc_t \<Rightarrow> u32 \<Rightarrow> u32 \<Rightarrow> 'a started_scheme \<Rightarrow>
    'a started_scheme boot_end option" where
  "entry im e d1 d2 magic addr s = do {
     let s = clear s;
     if magic \<noteq> MULTIBOOT_BOOTLOADER_MAGIC then do {
       s \<leftarrow> say (im_junk im) (''Invalid magic number: 0x%#x'' @ newline) [Num magic] s;
       Some (Returned_early s) }
     else do {
       s \<leftarrow> report_head (im_junk im) addr s;
       s \<leftarrow> (if CHECK_FLAG (mbi_flags (vid s) addr) 3
         then report_modules (im_junk im) addr 0 (mods_addr (vid s) addr) s else Some s);
       if CHECK_FLAG (mbi_flags (vid s) addr) 4 \<and> CHECK_FLAG (mbi_flags (vid s) addr) 5 then do {
         s \<leftarrow> say (im_junk im) (''Both bits 4 and 5 are set.'' @ newline) [] s;
         Some (Returned_early s) }
       else do {
         s \<leftarrow> report_elf (im_junk im) addr s;
         s \<leftarrow> report_mmap (im_junk im) addr s;
         let s = set_tss (im_tss im) d2 (set_ldt (im_ldt im) d1 s);
         s \<leftarrow> initialise im (e_dev e) s;
         first_program im e s } } }"

section \<open>What the report changes\<close>

text \<open>
  \<open>putc\<close> does not scroll: a new line moves down without a bound and the next character brings the
  position back onto the screen, so a line may be written below the screen, in the display's
  32 KB. \<open>at_row r\<close> says that the position is in a row up to \<open>r\<close>.
\<close>

definition on_display :: "u32 \<Rightarrow> bool" where
  "on_display a \<longleftrightarrow> 0xB8000 \<le> a \<and> a < 0xC0000"

definition same_ram :: "memory \<Rightarrow> memory \<Rightarrow> bool" where
  "same_ram m m' \<longleftrightarrow> (\<forall>a. \<not> on_display a \<longrightarrow> m' a = m a)"

definition at_row :: "int \<Rightarrow> 'a console_scheme \<Rightarrow> bool" where
  "at_row r s \<longleftrightarrow> 0 \<le> screen_x s \<and> screen_x s < 80 \<and> 0 \<le> screen_y s \<and> screen_y s \<le> r"

definition shown :: "'a console_scheme \<Rightarrow> 'a console_scheme \<Rightarrow> bool" where
  "shown s t \<longleftrightarrow> video_mem t = video_mem s \<and> console.more t = console.more s \<and> same_ram (vid s) (vid t)"

definition newlines :: "u8 list \<Rightarrow> nat" where
  "newlines t = length (filter (\<lambda>c. c = 10 \<or> c = 13) t)"

lemma same_ram_refl [simp]: "same_ram m m"
  by (simp add: same_ram_def)

lemma same_ram_trans: "same_ram m m' \<Longrightarrow> same_ram m' m'' \<Longrightarrow> same_ram m m''"
  by (simp add: same_ram_def)

lemma shown_refl [simp]: "shown s s"
  by (simp add: shown_def)

lemma shown_trans: "shown s t \<Longrightarrow> shown t u \<Longrightarrow> shown s u"
  using same_ram_trans by (auto simp: shown_def)

lemma at_row_mono: "at_row r s \<Longrightarrow> r \<le> r' \<Longrightarrow> at_row r' s"
  by (simp add: at_row_def)

lemma display_cell:
  assumes "0 \<le> j" "j < 0x8000"
  shows "on_display (VIDEO + of_int j)"
proof -
  have "unat (VIDEO + of_nat (nat j) :: u32) = 0xB8000 + nat j"
    using assms unat_add_small [of VIDEO "nat j"] by (simp add: VIDEO_def)
  with assms show ?thesis by (simp add: on_display_def word_le_nat_alt word_less_nat_alt)
qed

lemma putc_shown:
  assumes "video_mem s = VIDEO" "at_row r s" "r \<le> 200"
  shows "shown s (putc c s)" "at_row (if c = 10 \<or> c = 13 then r + 1 else 24) (putc c s)"
proof -
  let ?i = "80 * screen_y s + screen_x s"
  have i: "0 \<le> ?i" "?i < 0x3FFF" using assms(2,3) by (auto simp: at_row_def)
  from display_cell [of "2 * ?i"] have "on_display (VIDEO + of_int (2 * ?i))" using i by simp
  moreover from display_cell [of "2 * ?i + 1"] have "on_display (VIDEO + of_int (2 * ?i + 1))" using i by simp
  ultimately have "same_ram (vid s) ((vid s)(VIDEO + of_int (2 * ?i) := c, VIDEO + of_int (2 * ?i + 1) := ATTRIB))"
    by (auto simp: same_ram_def)
  then show "shown s (putc c s)"
    using assms(1) by (simp add: shown_def putc_def putc_at_def put_cell_at_def screen_consts Let_def)
  have x: "0 \<le> (screen_x s + 1) smod 80" "(screen_x s + 1) smod 80 < 80"
    using assms(2) by (simp_all add: at_row_def smod_80)
  then have "(screen_x s + 1) smod 80 sdiv 80 = 0" by (simp add: smod_small)
  moreover have "0 \<le> screen_y s mod 25" "screen_y s mod 25 \<le> 24" by auto
  then have "0 \<le> screen_y s smod 25" "screen_y s smod 25 \<le> 24"
    using assms(2) by (simp_all add: at_row_def signed_modulo_int_def sgn_if)
  ultimately show "at_row (if c = 10 \<or> c = 13 then r + 1 else 24) (putc c s)"
    using assms(2) x by (simp add: at_row_def putc_def putc_at_def put_cell_at_def screen_consts Let_def)
qed

lemma text_shown:
  assumes "video_mem s = VIDEO" "at_row r s" "24 \<le> r" "r + int (newlines t) \<le> 200"
  shows "shown s (fold putc t s) \<and> at_row (r + int (newlines t)) (fold putc t s)"
  using assms
proof (induction t arbitrary: s r)
  case (Cons c t)
  let ?r = "if c = 10 \<or> c = 13 then r + 1 else r"
  have p: "shown s (putc c s)" "at_row ?r (putc c s)"
    using putc_shown [OF Cons.prems(1,2), of c] Cons.prems(3,4) at_row_mono [of 24 "putc c s" r]
    by (auto simp: newlines_def split: if_splits)
  have "video_mem (putc c s) = VIDEO" using p(1) Cons.prems(1) by (simp add: shown_def)
  from Cons.IH [OF this p(2)] Cons.prems(3,4) p(1) show ?case
    by (auto simp: newlines_def add.assoc intro: shown_trans split: if_splits)
qed (simp add: newlines_def)

text \<open>A text that starts with a visible character does not depend on the row before.\<close>

lemma line_shown:
  assumes "video_mem s = VIDEO" "at_row r s" "r \<le> 200" "c \<noteq> 10" "c \<noteq> 13" "newlines t \<le> 100"
  shows "shown s (fold putc (c # t) s) \<and> at_row (24 + int (newlines t)) (fold putc (c # t) s)"
proof -
  have p: "shown s (putc c s)" "at_row 24 (putc c s)" using putc_shown [OF assms(1-3), of c] assms(4,5) by simp_all
  then have "video_mem (putc c s) = VIDEO" using assms(1) by (simp add: shown_def)
  from text_shown [OF this p(2), of t] assms(6) p(1) show ?thesis by (auto intro: shown_trans)
qed

section \<open>Lines of the report\<close>

lemma digit_no_newline: "d < 36 \<Longrightarrow> digit_char d \<notin> {10, 13}"
proof -
  assume "d < 36"
  moreover have "\<forall>d < 36. digit_char d \<notin> {10, 13}" by code_simp
  ultimately show ?thesis by blast
qed

lemma newlines_simps [simp]:
  "newlines [] = 0" "newlines (c # t) = (if c = 10 \<or> c = 13 then 1 else 0) + newlines t"
  "newlines (t @ u) = newlines t + newlines u"
  by (simp_all add: newlines_def)

lemma newlines_zero: "newlines t = 0 \<longleftrightarrow> 10 \<notin> set t \<and> 13 \<notin> set t"
  by (induction t) auto

lemma num_text_lines: "2 \<le> b \<Longrightarrow> b \<le> 36 \<Longrightarrow> newlines (num_text b n) = 0"
proof -
  assume b: "2 \<le> b" "b \<le> 36"
  have "10 \<notin> set (rev_digits b n) \<and> 13 \<notin> set (rev_digits b n)"
    using b
  proof (induction b n rule: rev_digits.induct)
    case (1 b n)
    then have "n mod b < 36" by (meson less_le_trans mod_less_divisor zero_less_numeral)
    with 1 digit_no_newline [of "n mod b"] show ?case by (subst (1 2) rev_digits.simps) auto
  qed
  then show ?thesis by (simp add: newlines_zero num_text_def)
qed

fun arg_lines :: "printf_arg list \<Rightarrow> nat" where
  "arg_lines [] = 0"
| "arg_lines (Num v # arg) = 1 + arg_lines arg"
| "arg_lines (Str t # arg) = newlines (cstr t) + arg_lines arg"

lemma conv_text_lines:
  "conv_text c alternate arg = Some (t, rest) \<Longrightarrow> newlines t + arg_lines rest \<le> arg_lines arg"
  using num_text_lines [of 16] num_text_lines [of 10] newlines_zero [of "replicate _ 48"]
  by (auto simp: conv_text_def Let_def split: if_splits list.splits printf_arg.splits)

lemma printf_text_lines:
  "printf_text format arg = Some (n, t) \<Longrightarrow> newlines t \<le> newlines format + arg_lines arg"
proof (induction format arg arbitrary: n t rule: printf_text.induct)
  case (2 c format arg)
  show ?case
  proof (cases "c = 37")
    case True
    then obtain d rest u arg' where d: "dropWhile (\<lambda>c. c = 35) format = d # rest"
      "conv_text d (takeWhile (\<lambda>c. c = 35) format \<noteq> []) arg = Some (u, arg')"
      and p: "map_option (\<lambda>(n, v). (2 + length (takeWhile (\<lambda>c. c = 35) format) + n, u @ v)) (printf_text rest arg') = Some (n, t)"
      using 2(3) by (auto simp: printf_text.simps split: list.splits option.splits)
    obtain m v where v: "printf_text rest arg' = Some (m, v)" "t = u @ v" using p by auto
    have "format = takeWhile (\<lambda>c. c = 35) format @ d # rest" using d(1) by (metis takeWhile_dropWhile_id)
    then have "newlines rest \<le> newlines format" by (metis newlines_simps(2,3) le_add2 le_trans)
    with 2(1) [OF _ True d refl v(1)] conv_text_lines [OF d(2)] v(2) True show ?thesis by simp
  next
    case False
    with 2 show ?thesis by (fastforce simp: printf_text.simps split: if_splits)
  qed
qed (simp add: printf_text.simps)

text \<open>A format and arguments that start a line and print at most 50 new lines.\<close>

definition prints :: "string \<Rightarrow> printf_arg list \<Rightarrow> bool" where
  "prints format arg \<longleftrightarrow> (case format of [] \<Rightarrow> False | c # _ \<Rightarrow> (of_char c :: u8) \<notin> {0, 10, 13, 37}) \<and>
     printf_text (c_string format) arg \<noteq> None \<and> newlines (c_string format) + arg_lines arg \<le> 50"

lemma say_line:
  assumes "64 \<le> length junk" "prints format arg" "video_mem s = VIDEO" "at_row 100 s"
  shows "\<exists>s'. say junk format arg s = Some s' \<and> shown s s' \<and> at_row 74 s'"
proof -
  obtain c f where f: "format = c # f" and c: "(of_char c :: u8) \<notin> {0, 10, 13, 37}"
    using assms(2) by (auto simp: prints_def split: list.splits)
  obtain n t where t: "printf_text (c_string format) arg = Some (n, t)" using assms(2) by (auto simp: prints_def)
  then obtain u where u: "t = of_char c # u" using c by (auto simp: f c_string_def printf_text.simps split: if_splits)
  have "newlines t \<le> 50" using printf_text_lines [OF t] assms(2) by (simp add: prints_def)
  then have "newlines u \<le> 50" unfolding u by simp
  then have "shown s (fold putc t s)" "at_row (24 + int (newlines u)) (fold putc t s)"
    using line_shown [OF assms(3,4), of "of_char c" u] c unfolding u by simp_all
  moreover have "say junk format arg s = Some (fold putc t s)"
    using printf_loop_eq [OF assms(1), of 0 "c_string format" _ arg s] t by (simp add: say_def printf_def)
  ultimately show ?thesis using \<open>newlines u \<le> 50\<close> at_row_mono [of _ "fold putc t s" 74] by auto
qed

lemma prints_formats:
  "prints (''flags = 0x%#x'' @ newline) [Num a]" "prints (''mem_lower = %uKB, mem_upper = %uKB'' @ newline) [Num a, Num b]"
  "prints (''boot_device = 0x%#x'' @ newline) [Num a]"
  "prints (''Module %d loaded at address: 0x%#x'' @ newline) [Num a, Num b]"
  "prints (''Module %d ends at address: 0x%#x'' @ newline) [Num a, Num b]"
  "prints (''First few bytes of module:'' @ newline) []" "prints ''0x%x '' [Num a]"
  "prints (''elf_sec: num = %u, size = 0x%#x, addr = 0x%#x, shndx = 0x%#x'' @ newline) [Num a, Num b, Num c, Num d]"
  "prints (''mmap_addr = 0x%#x, mmap_length = 0x%x'' @ newline) [Num a, Num b]"
  "prints (''    size = 0x%x, base_addr = 0x%#x%#x'' @ newline @ ''    type = 0x%x,  length    = 0x%#x%#x'' @ newline)
    [Num a, Num b, Num c, Num d, Num x, Num y]"
  "prints (''Enabling Interrupts'' @ newline) []" "prints (''Invalid magic number: 0x%#x'' @ newline) [Num a]"
  "prints (''Both bits 4 and 5 are set.'' @ newline) []"
  by (simp_all add: prints_def newline_def c_string_def printf_text.simps conv_text_def)

lemma prints_cmdline: "0 \<in> set t \<Longrightarrow> newlines (cstr t) \<le> 40 \<Longrightarrow> prints (''cmdline = %s'' @ newline) [Str t]"
  by (simp add: prints_def newline_def c_string_def printf_text.simps conv_text_def)

text \<open>What is not on the display is read as before.\<close>

definition off_display :: "u32 \<Rightarrow> nat \<Rightarrow> bool" where
  "off_display a n \<longleftrightarrow> (\<forall>k < n. \<not> on_display (a + of_nat k))"

lemma off_display_part: "off_display a n \<Longrightarrow> k + j \<le> n \<Longrightarrow> off_display (a + of_nat k) j"
  by (simp add: off_display_def add.assoc flip: of_nat_add)

lemma load32_same:
  assumes "same_ram m m'" "off_display a 4"
  shows "load32 m' a = load32 m a"
proof -
  have "m' (a + of_nat k) = m (a + of_nat k)" if "k < 4" for k
    using assms that by (simp add: same_ram_def off_display_def)
  from this [of 0] this [of 1] this [of 2] this [of 3] show ?thesis by (simp add: load32_def)
qed

lemma string_in_nul: "string_in m a = Some t \<Longrightarrow> 0 \<in> set t"
proof (induction t arbitrary: a)
  case Nil
  then show ?case by (subst (asm) string_in.simps) (auto split: if_splits bind_splits)
next
  case (Cons c t)
  then show ?case by (subst (asm) (2) string_in.simps) (auto split: if_splits bind_splits)
qed

lemma string_in_same:
  assumes "same_ram m m'" "string_in m a = Some t" "off_display a (length t)"
  shows "string_in m' a = Some t"
  using assms(2,3)
proof (induction t arbitrary: a)
  case Nil
  then show ?case by (subst (asm) string_in.simps) (auto split: if_splits bind_splits)
next
  case (Cons c t)
  have same: "m' a = m a" using assms(1) Cons.prems(2) by (auto simp: same_ram_def off_display_def)
  have off: "off_display (a + 1) (length t)" using off_display_part [OF Cons.prems(2), of 1 "length t"] by simp
  show ?case
  proof (cases "m a = 0")
    case True
    with Cons.prems(1) same show ?thesis by (subst string_in.simps, subst (asm) string_in.simps) auto
  next
    case False
    then have "string_in m (a + 1) = Some t" "c = m a"
      using Cons.prems(1) by (subst (asm) string_in.simps, auto split: bind_splits)+
    with False same Cons.IH [OF _ off] show ?thesis by (subst string_in.simps) simp
  qed
qed

section \<open>The report runs\<close>

definition talking :: "'a console_scheme \<Rightarrow> 'a console_scheme \<Rightarrow> bool" where
  "talking s t \<longleftrightarrow> video_mem s = VIDEO \<and> shown s t \<and> at_row 100 t"

lemma say_next:
  assumes "64 \<le> length junk" "talking s t" "prints format arg"
  shows "\<exists>u. say junk format arg t = Some u \<and> talking s u \<and> at_row 74 u"
proof -
  have "video_mem t = VIDEO" "at_row 100 t" "video_mem s = VIDEO" using assms(2) by (simp_all add: talking_def shown_def)
  with say_line [OF assms(1,3)] obtain u where u: "say junk format arg t = Some u" "shown t u" "at_row 74 u"
    and "video_mem s = VIDEO" by blast
  then show ?thesis using assms(2) shown_trans [of s t u] at_row_mono [OF u(3), of 100] by (auto simp: talking_def)
qed

lemma say_if:
  assumes "64 \<le> length junk" "talking s t" "b \<Longrightarrow> prints format arg"
  shows "\<exists>u. (if b then say junk format arg t else Some t) = Some u \<and> talking s u"
  using say_next [OF assms(1,2)] assms(2,3) by (cases b) auto

lemma talking_ram: "talking s t \<Longrightarrow> same_ram (vid s) (vid t)"
  by (simp add: talking_def shown_def)

lemma talking_refl: "video_mem s = VIDEO \<Longrightarrow> at_row 100 s \<Longrightarrow> talking s s"
  by (simp add: talking_def)

lemma talking_trans: "talking s t \<Longrightarrow> talking t u \<Longrightarrow> talking s u"
  by (auto simp: talking_def intro: shown_trans)

text \<open>The command line the loader passes.\<close>

definition cmdline_ok :: "memory \<Rightarrow> u32 \<Rightarrow> bool" where
  "cmdline_ok m mbi \<longleftrightarrow> (CHECK_FLAG (mbi_flags m mbi) 2 \<longrightarrow>
     (\<exists>t. string_in m (cmdline m mbi) = Some t \<and> off_display (cmdline m mbi) (length t) \<and> newlines (cstr t) \<le> 40))"

lemma mbi_same:
  assumes "same_ram m m'" "off_display mbi 52"
  shows "mbi_flags m' mbi = mbi_flags m mbi" "cmdline m' mbi = cmdline m mbi" "mods_count m' mbi = mods_count m mbi"
    "mods_addr m' mbi = mods_addr m mbi" "mmap_length m' mbi = mmap_length m mbi" "mmap_addr m' mbi = mmap_addr m mbi"
proof -
  have l: "load32 m' (mbi + of_nat k) = load32 m (mbi + of_nat k)" if "k + 4 \<le> 52" for k
    by (rule load32_same [OF assms(1) off_display_part [OF assms(2) that]])
  show "mbi_flags m' mbi = mbi_flags m mbi" "cmdline m' mbi = cmdline m mbi" "mods_count m' mbi = mods_count m mbi"
    "mods_addr m' mbi = mods_addr m mbi" "mmap_length m' mbi = mmap_length m mbi" "mmap_addr m' mbi = mmap_addr m mbi"
    using l [of 0] l [of 16] l [of 20] l [of 24] l [of 44] l [of 48]
    by (simp_all add: mbi_flags_def cmdline_def mods_count_def mods_addr_def mmap_length_def mmap_addr_def)
qed

lemma report_head_run:
  assumes j: "64 \<le> length junk" and t: "talking s t" and mbi: "off_display mbi 52" "cmdline_ok (vid s) mbi"
  shows "\<exists>u. report_head junk mbi t = Some u \<and> talking s u"
proof -
  obtain s1 where s1: "say junk (''flags = 0x%#x'' @ newline) [Num (mbi_flags (vid t) mbi)] t = Some s1" "talking s s1"
    using say_next [OF j t prints_formats(1)] by blast
  obtain s2 where s2: "(if CHECK_FLAG (mbi_flags (vid s1) mbi) 0 then say junk (''mem_lower = %uKB, mem_upper = %uKB'' @ newline)
      [Num (mem_lower (vid s1) mbi), Num (mem_upper (vid s1) mbi)] s1 else Some s1) = Some s2" "talking s s2"
    using say_if [OF j s1(2) prints_formats(2)] by blast
  obtain s3 where s3: "(if CHECK_FLAG (mbi_flags (vid s2) mbi) 1
      then say junk (''boot_device = 0x%#x'' @ newline) [Num (boot_device (vid s2) mbi)] s2 else Some s2) = Some s3" "talking s s3"
    using say_if [OF j s2(2) prints_formats(3)] by blast
  note ram = talking_ram [OF s3(2)]
  show ?thesis
  proof (cases "CHECK_FLAG (mbi_flags (vid s) mbi) 2")
    case True
    then obtain x where x: "string_in (vid s) (cmdline (vid s) mbi) = Some x" "off_display (cmdline (vid s) mbi) (length x)"
      "newlines (cstr x) \<le> 40" using mbi(2) by (auto simp: cmdline_ok_def)
    obtain u where "say junk (''cmdline = %s'' @ newline) [Str x] s3 = Some u" "talking s u"
      using say_next [OF j s3(2) prints_cmdline [OF string_in_nul [OF x(1)] x(3)]] by blast
    with True x s1(1) s2(1) s3(1) string_in_same [OF ram x(1,2)] mbi_same [OF ram mbi(1)]
    show ?thesis by (simp add: report_head_def)
  next
    case False
    with s1(1) s2(1) s3 mbi_same [OF ram mbi(1)] show ?thesis by (simp add: report_head_def)
  qed
qed

lemma report_elf_run:
  assumes "64 \<le> length junk" "talking s t"
  shows "\<exists>u. report_elf junk mbi t = Some u \<and> talking s u"
  unfolding report_elf_def Let_def by (rule say_if [OF assms prints_formats(8)])

text \<open>The memory map ends after at most \<open>n\<close> entries.\<close>

fun mmap_ends :: "memory \<Rightarrow> u32 \<Rightarrow> u32 \<Rightarrow> nat \<Rightarrow> bool" where
  "mmap_ends m stop a 0 \<longleftrightarrow> \<not> a < stop"
| "mmap_ends m stop a (Suc n) \<longleftrightarrow> a < stop \<longrightarrow> off_display a 4 \<and> mmap_ends m stop (a + load32 m a + 4) n"

lemma report_mmap_loop_run:
  assumes j: "64 \<le> length junk" and t: "talking s t" and mbi: "off_display mbi 52"
    and ends: "mmap_ends (vid s) (mmap_addr (vid s) mbi + mmap_length (vid s) mbi) a n"
  shows "\<exists>u. report_mmap_loop junk mbi a t = Some u \<and> talking s u"
  using t ends
proof (induction n arbitrary: a t)
  case 0
  then show ?case by (subst report_mmap_loop.simps) (simp add: mbi_same [OF talking_ram [OF 0(1)] mbi])
next
  case (Suc n)
  note same = mbi_same [OF talking_ram [OF Suc.prems(1)] mbi]
  show ?case
  proof (cases "a < mmap_addr (vid s) mbi + mmap_length (vid s) mbi")
    case False
    with Suc.prems(1) same show ?thesis by (subst report_mmap_loop.simps) simp
  next
    case True
    let ?say = "say junk (''    size = 0x%x, base_addr = 0x%#x%#x'' @ newline @ ''    type = 0x%x,  length    = 0x%#x%#x'' @ newline)
      [Num (load32 (vid t) a), Num (load32 (vid t) (a + 8)), Num (load32 (vid t) (a + 4)),
       Num (load32 (vid t) (a + 20)), Num (load32 (vid t) (a + 16)), Num (load32 (vid t) (a + 12))] t"
    obtain s1 where s1: "?say = Some s1" "talking s s1" using say_next [OF j Suc.prems(1) prints_formats(10)] by blast
    have off: "off_display a 4" and rest: "mmap_ends (vid s) (mmap_addr (vid s) mbi + mmap_length (vid s) mbi)
        (a + load32 (vid s) a + 4) n" using Suc.prems(2) True by simp_all
    have "report_mmap_loop junk mbi a t = report_mmap_loop junk mbi (a + load32 (vid s) a + 4) s1"
      using True same s1 load32_same [OF talking_ram [OF s1(2)] off] by (subst report_mmap_loop.simps) simp
    with Suc.IH [OF s1(2) rest] show ?thesis by simp
  qed
qed

lemma report_mmap_run:
  assumes j: "64 \<le> length junk" and t: "talking s t" and mbi: "off_display mbi 52"
    and ends: "CHECK_FLAG (mbi_flags (vid s) mbi) 6 \<longrightarrow>
      mmap_ends (vid s) (mmap_addr (vid s) mbi + mmap_length (vid s) mbi) (mmap_addr (vid s) mbi) n"
  shows "\<exists>u. report_mmap junk mbi t = Some u \<and> talking s u"
proof -
  obtain s1 where s1: "say junk (''mmap_addr = 0x%#x, mmap_length = 0x%x'' @ newline)
      [Num (mmap_addr (vid t) mbi), Num (mmap_length (vid t) mbi)] t = Some s1" "talking s s1"
    using say_next [OF j t prints_formats(9)] by blast
  note same = mbi_same [OF talking_ram [OF t] mbi] mbi_same [OF talking_ram [OF s1(2)] mbi]
  show ?thesis
    using report_mmap_loop_run [OF j s1(2) mbi] ends s1(1) t
    by (cases "CHECK_FLAG (mbi_flags (vid s) mbi) 6") (simp_all add: report_mmap_def same)
qed

lemma more_fs: "console.more t = console.more s \<Longrightarrow> console.more (t\<lparr>fs := F\<rparr>) = console.more (s\<lparr>fs := F\<rparr>)"
  by (cases s; cases t) simp

lemma talking_fs: "talking s t \<Longrightarrow> talking (s\<lparr>fs := F\<rparr>) (t\<lparr>fs := F\<rparr>)"
  using more_fs [of t s] by (auto simp: talking_def shown_def at_row_def)

lemma say_newline:
  assumes "64 \<le> length junk" "talking s t" "at_row 74 t"
  shows "\<exists>u. say junk newline [] t = Some u \<and> talking s u"
proof -
  have "printf_text (c_string newline) [] = Some (1, [10])" by (simp add: newline_def c_string_def printf_text.simps)
  then have "say junk newline [] t = Some (fold putc [10] t)"
    using printf_loop_eq [OF assms(1), of 0 "c_string newline" _ "[]" t] by (simp add: say_def printf_def)
  moreover have v: "video_mem t = VIDEO" "video_mem s = VIDEO" using assms(2) by (simp_all add: talking_def shown_def)
  have "shown t (fold putc [10] t)" "at_row 75 (fold putc [10] t)" using text_shown [OF v(1) assms(3), of "[10]"] by simp_all
  ultimately show ?thesis
    using assms(2) v(2) shown_trans [of s t] at_row_mono [of 75 _ 100] by (auto simp: talking_def)
qed

lemma first_bytes_run:
  assumes j: "64 \<le> length junk" and t: "talking s t" "at_row 74 t"
  shows "\<exists>u. loop_opt 0 16 (\<lambda>i s. say junk ''0x%x '' [Num (scast (vid s (mod_start (vid s) md + of_int i)))] s) t = Some u \<and>
    talking s u \<and> at_row 74 u"
  by (rule loop_opt_inv [where P = "\<lambda>_ u. talking s u \<and> at_row 74 u"])
    (use t say_next [OF j _ prints_formats(7)] in auto)

lemma report_module_run:
  assumes j: "64 \<le> length junk" and t: "talking s t" and md: "off_display md 8"
  shows "\<exists>u m. report_module junk n md t = Some u \<and> same_ram (vid s) m \<and>
    fs u = boot_block_init (mod_start (vid s) md) m \<and> talking (s\<lparr>fs := fs u\<rparr>) u"
proof -
  obtain s1 where s1: "say junk (''Module %d loaded at address: 0x%#x'' @ newline) [Num n, Num (mod_start (vid t) md)] t = Some s1"
    "talking s s1" using say_next [OF j t prints_formats(4)] by blast
  define F where "F = boot_block_init (mod_start (vid s1) md) (vid s1)"
  have "off_display md 4" using off_display_part [OF md, of 0 4] by simp
  then have F: "F = boot_block_init (mod_start (vid s) md) (vid s1)"
    using load32_same [OF talking_ram [OF s1(2)]] by (simp add: F_def mod_start_def)
  let ?s = "s\<lparr>fs := F\<rparr>" and ?s1 = "s1\<lparr>fs := F\<rparr>"
  have t1: "talking ?s ?s1" by (rule talking_fs [OF s1(2)])
  obtain s2 where s2: "say junk (''Module %d ends at address: 0x%#x'' @ newline) [Num n, Num (mod_end (vid ?s1) md)] ?s1 = Some s2"
    "talking ?s s2" using say_next [OF j t1 prints_formats(5)] by blast
  obtain s3 where s3: "say junk (''First few bytes of module:'' @ newline) [] s2 = Some s3" "talking ?s s3" "at_row 74 s3"
    using say_next [OF j s2(2) prints_formats(6)] by blast
  obtain s4 where s4: "loop_opt 0 16 (\<lambda>i s. say junk ''0x%x '' [Num (scast (vid s (mod_start (vid s) md + of_int i)))] s) s3 = Some s4"
    "talking ?s s4" "at_row 74 s4" using first_bytes_run [OF j s3(2,3)] by blast
  obtain u where u: "say junk newline [] s4 = Some u" "talking ?s u" using say_newline [OF j s4(2,3)] by blast
  have "report_module junk n md t = Some u"
    unfolding report_module_def Let_def using s1(1) s2(1) s3(1) s4(1) u(1) by (simp add: F_def)
  moreover have "fs u = F" using u(2) more_system(2) [of u ?s] by (simp add: talking_def shown_def)
  ultimately show ?thesis using F u(2) talking_ram [OF s1(2)] by blast
qed

definition modules_ok :: "memory \<Rightarrow> u32 \<Rightarrow> bool" where
  "modules_ok m mbi \<longleftrightarrow> (\<forall>k < unat (mods_count m mbi). off_display (mods_addr m mbi + 16 * of_nat k) 8)"

text \<open>The module whose image the file system is in the end.\<close>

definition last_module :: "memory \<Rightarrow> u32 \<Rightarrow> u32" where
  "last_module m mbi = mods_addr m mbi + 16 * (mods_count m mbi - 1)"

lemma mod_start_same:
  "same_ram m m' \<Longrightarrow> off_display a 8 \<Longrightarrow> mod_start m' a = mod_start m a"
  using load32_same [of m m' a] off_display_part [of a 8 0 4] by (simp add: mod_start_def)

lemma report_modules_run:
  assumes j: "64 \<le> length junk" and t: "talking s t" and mbi: "off_display mbi 52" "modules_ok (vid s) mbi"
    and c: "c \<le> mods_count (vid s) mbi"
  shows "\<exists>u. report_modules junk mbi c (mods_addr (vid s) mbi + 16 * c) t = Some u \<and> talking (s\<lparr>fs := fs u\<rparr>) u \<and>
    (c < mods_count (vid s) mbi \<longrightarrow>
      (\<exists>m. same_ram (vid s) m \<and> fs u = boot_block_init (mod_start (vid s) (last_module (vid s) mbi)) m))"
  using t mbi(2) c
proof (induction "unat (mods_count (vid s) mbi) - unat c" arbitrary: c s t)
  case 0
  then have c: "c = mods_count (vid s) mbi" by (simp add: word_le_nat_alt word_unat_eq_iff)
  have "fs t = fs s" using "0.prems"(1) more_system(2) [of t s] by (simp add: talking_def shown_def)
  with c "0.prems"(1) mbi_same(3) [OF talking_ram [OF "0.prems"(1)] mbi(1)] show ?case
    by (subst report_modules.simps) simp
next
  case (Suc n)
  let ?n = "mods_count (vid s) mbi" and ?a = "mods_addr (vid s) mbi"
  have lt: "c < ?n" using Suc.hyps(2) by (simp add: word_less_nat_alt)
  have "unat c < unat ?n" using lt by (simp add: word_less_nat_alt)
  then have "off_display (?a + 16 * of_nat (unat c)) 8" using Suc.prems(2) unfolding modules_ok_def by blast
  then have md: "off_display (?a + 16 * c) 8" by simp
  obtain t1 m where t1: "report_module junk c (?a + 16 * c) t = Some t1" "same_ram (vid s) m"
    "fs t1 = boot_block_init (mod_start (vid s) (?a + 16 * c)) m" "talking (s\<lparr>fs := fs t1\<rparr>) t1"
    using report_module_run [OF j Suc.prems(1) md] by blast
  let ?s = "s\<lparr>fs := fs t1\<rparr>"
  have "unat c + 1 < 2 ^ 32" using \<open>unat c < unat ?n\<close> unat_u32_bound [of ?n] by simp
  then have c1: "unat (c + 1) = unat c + 1" using unat_add_small [of c 1] by simp
  have step: "report_modules junk mbi c (?a + 16 * c) t = report_modules junk mbi (c + 1) (?a + 16 * (c + 1)) t1"
    using lt t1(1) mbi_same(3) [OF talking_ram [OF Suc.prems(1)] mbi(1)]
    by (subst report_modules.simps) (simp add: algebra_simps)
  have le: "c + 1 \<le> ?n" using lt c1 by (simp add: word_le_nat_alt word_less_nat_alt)
  have "n = unat (mods_count (vid ?s) mbi) - unat (c + 1)" using Suc.hyps(2) c1 by simp
  from Suc.hyps(1) [OF this t1(4)] Suc.prems(2) le obtain u where u: "report_modules junk mbi (c + 1) (?a + 16 * (c + 1)) t1 = Some u"
    "talking (s\<lparr>fs := fs u\<rparr>) u"
    "c + 1 < ?n \<longrightarrow> (\<exists>m. same_ram (vid s) m \<and> fs u = boot_block_init (mod_start (vid s) (last_module (vid s) mbi)) m)"
    by auto
  have "fs u = fs t1" "c = ?n - 1" if "\<not> c + 1 < ?n"
  proof -
    have e: "c + 1 = ?n" using that le by simp
    then show "c = ?n - 1" by (metis add_diff_cancel)
    have "report_modules junk mbi (c + 1) (?a + 16 * (c + 1)) t1 = Some t1"
      using e mbi_same(3) [OF talking_ram [OF t1(4)] mbi(1)] by (subst report_modules.simps) simp
    then show "fs u = fs t1" using u(1) by simp
  qed
  with u t1(2,3) step show ?case by (cases "c + 1 < ?n") (auto simp: last_module_def)
qed

section \<open>The descriptors\<close>

text \<open>The base address and the limit the processor reads from a descriptor.\<close>

definition seg_base :: "seg_desc_t \<Rightarrow> u32" where
  "seg_base d = push_bit 24 (ucast (base_31_24 d)) OR push_bit 16 (ucast (base_23_16 d)) OR ucast (base_15_00 d)"

definition seg_limit :: "seg_desc_t \<Rightarrow> u32" where
  "seg_limit d = push_bit 16 (ucast (seg_lim_19_16 d)) OR ucast (seg_lim_15_00 d)"

lemma seg_parts:
  fixes a :: u32
  shows "push_bit 24 (ucast (ucast (drop_bit 24 (a AND 0xFF000000)) :: u8)) OR
    push_bit 16 (ucast (ucast (drop_bit 16 (a AND 0x00FF0000)) :: u8)) OR ucast (ucast (a AND 0x0000FFFF) :: u16) = a"
proof -
  have masks: "0xFF000000 = (push_bit 24 (mask 8) :: u32)" "0x00FF0000 = (push_bit 16 (mask 8) :: u32)" "0x0000FFFF = (mask 16 :: u32)"
    by (simp_all add: mask_eq_exp_minus_1)
  show ?thesis
    unfolding masks
  proof (rule bit_word_eqI)
    fix n assume "n < LENGTH(32)"
    then show "bit (push_bit 24 (ucast (ucast (drop_bit 24 (a AND push_bit 24 (mask 8))) :: u8)) OR
      push_bit 16 (ucast (ucast (drop_bit 16 (a AND push_bit 16 (mask 8))) :: u8)) OR ucast (ucast (a AND mask 16) :: u16) :: u32) n = bit a n"
      by (cases "24 \<le> n"; cases "16 \<le> n") (auto simp: bit_simps)
  qed
qed

text \<open>
  The two descriptors \<open>entry\<close> builds, whatever its uninitialised local variables hold: the LDT
  descriptor has the base \<open>ldt\<close>, the limit 31 and the type of an LDT, the TSS descriptor the base \<open>tss\<close>,
  the limit 103 and the type of an available 32-bit TSS, so that its descriptor can be loaded; both
  are present, at the kernel's level and counted in bytes; the task starts with the kernel's stack
  segment and with the stack at \<open>0x800000\<close>, and the registers are loaded with the two selectors.
\<close>

theorem boot_descriptors:
  shows "let s' = set_tss tss_addr d2 (set_ldt ldt_addr d1 s); l = ldt_desc_ptr s'; t = tss_desc_ptr s'
    in seg_base l = ldt_addr \<and> seg_limit l = 31 \<and> seg_type l = 2 \<and>
       seg_base t = tss_addr \<and> seg_limit t = 103 \<and> seg_type t = 9 \<and>
       seg_present l = 1 \<and> seg_sys l = 0 \<and> seg_dpl l = 0 \<and> granularity l = 0 \<and>
       seg_present t = 1 \<and> seg_sys t = 0 \<and> seg_dpl t = 0 \<and> granularity t = 0 \<and>
       tss s' = \<lparr>ss0 = 0x18, esp0 = 0x800000\<rparr> \<and> ldt_segment_selector s' = 0x38 \<and>
       ldt_register s' = 0x38 \<and> task_register s' = 0x30"
  using seg_parts [of ldt_addr] seg_parts [of tss_addr]
  by (simp add: Let_def set_tss_def set_ldt_def SET_TSS_PARAMS_def SET_LDT_PARAMS_def seg_base_def seg_limit_def ldt_size_def
      tss_size_def TSS_SIZE_def KERNEL_DS_def KERNEL_LDT_def KERNEL_TSS_def)

end
