(* ===== verification/Boot_Start.thy ===== *)
theory Boot_Start
  imports Boot
begin

text \<open>
  The initialisation calls of \<open>entry\<close> on the variables as the loader leaves them, and the start of
  the first shell: \<open>boot_reaches_shell\<close>.
\<close>

section \<open>The variables at boot\<close>

text \<open>The arrays have their sizes and the terminal number is one of three; the interrupt table is zero.\<close>

definition sized_vars :: "'a system_scheme \<Rightarrow> bool" where
  "sized_vars s \<longleftrightarrow> history_sized s \<and> paging_sized s \<and>
     length (buffer s) = 3 \<and> (\<forall>r \<in> set (buffer s). length r = 128) \<and> length (bufferIDX s) = 3 \<and> length (bufferSIZE s) = 3 \<and>
     length (rtc_running s) = 3 \<and> length (rtc_virtual_interupt s) = 3 \<and> 0 \<le> current_terminal s \<and> current_terminal s < 3 \<and>
     length (read_buffer s) = 3 \<and> (\<forall>r \<in> set (read_buffer s). length r = 128) \<and> length (return_switch s) = 3 \<and>
     length (terminal_running s) = 3 \<and> length (shell_pid s) = 3 \<and> length (switch_data_arr s) = 3 \<and>
     (\<forall>d \<in> set (switch_data_arr s). length (vid_data d) = 4000) \<and> length (schedule_top s) = 3 \<and>
     grid37 (schedule_stack s) \<and> grid37 (schedule_tss s) \<and> grid37 (schedule_esp s) \<and> grid37 (schedule_ebp s)"

definition bss :: "'a boot_scheme \<Rightarrow> bool" where
  "bss s \<longleftrightarrow> idt s = replicate 256 zero_gate \<and> procs_sized (ps s) \<and> sized_vars s"

lemma three_cells:
  "aset [a, b, c] 0 v = Some [v, b, c]" "aset [a, b, c] 1 v = Some [a, v, c]" "aset [a, b, c] 2 v = Some [a, b, v]"
  "aget [a, b, c] 0 = Some a" "aget [a, b, c] 1 = Some b" "aget [a, b, c] 2 = Some c"
  by (simp_all add: aset_def aget_def)

lemma three_elements: "length xs = 3 \<Longrightarrow> \<exists>a b c. xs = [a, b, c]"
  by (auto simp: numeral_3_eq_3 length_Suc_conv)

lemma three_rounds:
  "loop_opt 0 3 body s = do { s \<leftarrow> body 0 s; s \<leftarrow> body 1 s; body 2 s }"
  by (auto simp: loop_opt.simps [of 0 3] loop_opt.simps [of 1 3] loop_opt.simps [of 2 3] split: option.splits)

section \<open>The devices\<close>

text \<open>A routine that only talks to devices changes the first four variables.\<close>

lemma machine_more_cases:
  assumes "machine.more t = machine.more s"
  obtains out f a b where "t = s\<lparr>outs := out, iflag := f, master_mask := a, slave_mask := b\<rparr>"
  using assms by (cases s; cases t) simp

lemma machine_more_devices [simp]:
  "machine.more (outb d port s) = machine.more s" "machine.more (enable_irq dev n s) = machine.more s"
  "machine.more (i8259_init s) = machine.more s" "machine.more (restore_flags f s) = machine.more s"
  by (simp_all add: outb_def enable_irq_def i8259_init_def restore_flags_def Let_def)

lemma machine_more_cursor [simp]:
  "machine.more (cursor_update s) = machine.more s" "machine.more (cursor_enable s) = machine.more s"
  "machine.more (cursor_disable s) = machine.more s"
  by (simp_all add: cursor_update_def cursor_update_spec_def cursor_enable_def cursor_disable_def Let_def)

lemma initialize_IDT_frame:
  assumes "initialize_IDT address temp s = Some s'"
  shows "machine.more s' = machine.more (s\<lparr>idt := idt s', color_flag := 0\<rparr>)"
proof -
  let ?s = "outb 0xFF (SLAVE_8259_PORT + 1) (outb 0xFD (MASTER_8259_PORT + 1) (i8259_init s))"
  obtain table where s': "s' = cursor_update (cursor_enable (cursor_disable (?s\<lparr>idt := table, color_flag := 0\<rparr>)))"
    using assms by (auto simp: initialize_IDT_def Let_def bind_eq_Some_conv)
  have m: "machine.more ?s = machine.more s" by simp
  obtain out f a b where "?s = s\<lparr>outs := out, iflag := f, master_mask := a, slave_mask := b\<rparr>" by (rule machine_more_cases [OF m])
  moreover have "machine.more s' = machine.more (?s\<lparr>idt := table, color_flag := 0\<rparr>)" unfolding s' by simp
  moreover have "idt s' = table"
    unfolding s' by (simp add: cursor_update_def cursor_update_spec_def cursor_enable_def cursor_disable_def outb_def Let_def)
  ultimately show ?thesis by (cases s) simp
qed

lemma PIT_init_frame:
  "machine.more (PIT_init dev s) = machine.more (s\<lparr>current_process := 0, terminal_request := -1, schedule_tick := 0\<rparr>)"
  by (cases s) (simp add: PIT_init_def Let_def outb_def)

lemma RTC_init_run:
  assumes "length (rtc_running s) = 3" "length (rtc_virtual_interupt s) = 3"
  shows "\<exists>s'. RTC_init dev s = Some s' \<and> machine.more s' = machine.more ((rtc_optable s)
    \<lparr>rtc_running := [2, 2, 2], rtc_virtual_interupt := [0, 0, 0]\<rparr>)"
proof -
  let ?s = "enable_irq dev IRQ8 (enable_irq dev IRQ2 (outb (inb dev RTC_REG (outb 0x8B CMOS_REG s) OR 0x40) RTC_REG
    (outb 0x8B CMOS_REG (outb 0x8B CMOS_REG s))))"
  have m: "machine.more ?s = machine.more s" by simp
  obtain out f a b where e: "?s = s\<lparr>outs := out, iflag := f, master_mask := a, slave_mask := b\<rparr>" by (rule machine_more_cases [OF m])
  obtain x y z x' y' z' where "rtc_running s = [x, y, z]" "rtc_virtual_interupt s = [x', y', z']"
    using assms three_elements by metis
  then show ?thesis
    unfolding RTC_init_def Let_def e by (cases s) (auto simp: aset_def rtc_optable_def restore_flags_def)
qed

section \<open>The buffers\<close>

lemma clear_lines_run:
  assumes "length (buffer s) = 3" "\<forall>r \<in> set (buffer s). length r = 128" "length (bufferIDX s) = 3" "length (bufferSIZE s) = 3"
  shows "loop_opt 0 NUM_TERMINALS (\<lambda>j s. do {
       xs \<leftarrow> aset (bufferIDX s) j 0;
       zs \<leftarrow> aset (bufferSIZE s) j 0;
       row \<leftarrow> aget (buffer s) j;
       row \<leftarrow> loop_opt 0 MAX_BUFFER_SIZE (\<lambda>i row. aset row i 0) row;
       b \<leftarrow> aset (buffer s) j row;
       Some (s\<lparr>bufferIDX := xs, bufferSIZE := zs, buffer := b\<rparr>) }) s =
    Some (s\<lparr>bufferIDX := [0, 0, 0], bufferSIZE := [0, 0, 0], buffer := replicate 3 (replicate 128 0)\<rparr>)"
proof -
  obtain r0 r1 r2 x0 x1 x2 z0 z1 z2 where b: "buffer s = [r0, r1, r2]" and x: "bufferIDX s = [x0, x1, x2]"
    and z: "bufferSIZE s = [z0, z1, z2]" using assms(1,3,4) three_elements by metis
  have "length r0 = 128" "length r1 = 128" "length r2 = 128" using assms(2) b by simp_all
  note rows = this [THEN zero_row]
  show ?thesis by (simp add: NUM_TERMINALS_def three_rounds three_cells b x z rows numeral_3_eq_3)
qed

lemma history_loop_run:
  assumes "history_sized s"
  shows "\<exists>h hx hb hz. loop_opt 0 TOTAL_PROCESSES (\<lambda>j s. do {
       xs \<leftarrow> aset (historyIDX s) j 0;
       bs \<leftarrow> aset (historyBASE s) j 0;
       zs \<leftarrow> aset (historySIZE s) j 0;
       hs \<leftarrow> aget (history s) j;
       hs \<leftarrow> loop_opt 0 NUM_HISTORY_BUFFERS (\<lambda>k hs. do {
         h \<leftarrow> aget hs k;
         h \<leftarrow> loop_opt 0 MAX_BUFFER_SIZE (\<lambda>i h. aset h i 0) h;
         aset hs k h }) hs;
       h \<leftarrow> aset (history s) j hs;
       Some (s\<lparr>historyIDX := xs, historyBASE := bs, historySIZE := zs, history := h\<rparr>) }) s =
    Some (s\<lparr>historyIDX := hx, historyBASE := hb, historySIZE := hz, history := h\<rparr>) \<and>
    history_sized (s\<lparr>historyIDX := hx, historyBASE := hb, historySIZE := hz, history := h\<rparr>)"
    (is "\<exists>h hx hb hz. loop_opt 0 _ ?body s = Some (?upd h hx hb hz) \<and> _")
proof -
  let ?P = "\<lambda>(i :: int) t. \<exists>h hx hb hz. t = ?upd h hx hb hz \<and> history_sized t"
  have "\<exists>t. loop_opt 0 TOTAL_PROCESSES ?body s = Some t \<and> ?P TOTAL_PROCESSES t"
  proof (rule loop_opt_inv [where P = ?P])
    show "?P 0 s" using assms
      by (intro exI [of _ "history s"] exI [of _ "historyIDX s"] exI [of _ "historyBASE s"] exI [of _ "historySIZE s"]) simp
  next
    fix j t assume j: "0 \<le> j" "j < TOTAL_PROCESSES" and "?P j t"
    then obtain h hx hb hz where t: "t = ?upd h hx hb hz" "history_sized t" by blast
    have len: "length h = 7" "length hx = 7" "length hb = 7" "length hz = 7"
      and rows: "\<forall>hs \<in> set h. length hs = 20 \<and> (\<forall>r \<in> set hs. length r = 128)"
      using t by (simp_all add: history_sized_def)
    have k: "nat j < 7" using j by (simp add: TOTAL_PROCESSES_def)
    then have "h ! nat j \<in> set h" using len(1) by simp
    then have "length (h ! nat j) = 20" "\<forall>r \<in> set (h ! nat j). length r = 128" using rows by blast+
    from clear_history_rows [OF this] obtain hs where hs: "loop_opt 0 NUM_HISTORY_BUFFERS (\<lambda>k hs. do {
         h \<leftarrow> aget hs k;
         h \<leftarrow> loop_opt 0 MAX_BUFFER_SIZE (\<lambda>i h. aset h i 0) h;
         aset hs k h }) (h ! nat j) = Some hs" "length hs = 20 \<and> (\<forall>r \<in> set hs. length r = 128)" by blast
    let ?t = "?upd (h[nat j := hs]) (hx[nat j := 0]) (hb[nat j := 0]) (hz[nat j := 0])"
    have c: "aget h j = Some (h ! nat j)" "aset h j hs = Some (h[nat j := hs])" "aset hx j 0 = Some (hx[nat j := 0])"
      "aset hb j 0 = Some (hb[nat j := 0])" "aset hz j 0 = Some (hz[nat j := 0])"
      using j len by (simp_all add: aget_def aset_def TOTAL_PROCESSES_def)
    have "?body j t = Some ?t" using c hs(1) by (simp add: t(1))
    moreover have "history_sized ?t" using len all_list_update [OF rows hs(2)] by (simp add: history_sized_def)
    ultimately show "\<exists>t'. ?body j t = Some t' \<and> ?P (j + 1) t'" by blast
  qed (simp add: TOTAL_PROCESSES_def)
  then show ?thesis by blast
qed

lemma keyboard_init_run:
  assumes "sized_vars s"
  shows "\<exists>s' h hx hb hz. keyboard_init dev s = Some s' \<and>
    machine.more s' = machine.more (s\<lparr>bufferIDX := [0, 0, 0], bufferSIZE := [0, 0, 0], buffer := replicate 3 (replicate 128 0),
      historyIDX := hx, historyBASE := hb, historySIZE := hz, history := h, key_flag := 0\<rparr>) \<and>
    history_sized s'"
proof -
  let ?s = "s\<lparr>bufferIDX := [0, 0, 0], bufferSIZE := [0, 0, 0], buffer := replicate 3 (replicate 128 0)\<rparr>"
  have h: "history_sized ?s" using assms by (simp add: sized_vars_def history_sized_def)
  obtain h hx hb hz where hi: "clear_all_keyboard_buffers s =
      Some (?s\<lparr>historyIDX := hx, historyBASE := hb, historySIZE := hz, history := h\<rparr>)"
    "history_sized (?s\<lparr>historyIDX := hx, historyBASE := hb, historySIZE := hz, history := h\<rparr>)"
    using history_loop_run [OF h] clear_lines_run [of s] assms unfolding clear_all_keyboard_buffers_def sized_vars_def by force
  let ?t = "?s\<lparr>historyIDX := hx, historyBASE := hb, historySIZE := hz, history := h, key_flag := 0\<rparr>"
  have k: "keyboard_init dev s = Some (enable_irq dev IRQ1 ?t)"
    using hi(1) by (simp add: keyboard_init_def keyboard_open_def)
  have m: "machine.more (enable_irq dev IRQ1 ?t) = machine.more ?t" by simp
  obtain out f a b where "enable_irq dev IRQ1 ?t = ?t\<lparr>outs := out, iflag := f, master_mask := a, slave_mask := b\<rparr>"
    by (rule machine_more_cases [OF m])
  then have "history_sized (enable_irq dev IRQ1 ?t)" using hi(2) by (simp add: history_sized_def)
  with k m show ?thesis by blast
qed

section \<open>Paging\<close>

lemma fill_pages_run: "length pages = 1024 \<Longrightarrow> fill_pages v pages = Some (replicate 1024 v)"
  using loop_write [of pages 1024 "\<lambda>i pages. aset pages i v" "\<lambda>_. v"]
  by (simp add: fill_pages_def PAGE_SIZE_def map_replicate_const)

definition boot_dir :: "u32 \<Rightarrow> u32 list" where
  "boot_dir pt = (replicate 1024 2)[1 := KERNEL, 0 := pt OR PRESENT_MASK OR READWRITE_MASK]"

lemma paging_init_run:
  assumes "paging_sized s"
  shows "\<exists>tabs. paging_init pt s = Some (s\<lparr>process_pages := boot_dir pt, process_tables := tabs\<rparr>) \<and> length tabs = 1024"
  using assms by (intro exI [of _ "(process_tables s)[184 := VIDEO OR PRESENT_MASK]"])
    (simp add: paging_init_def paging_sized_def fill_pages_run aset_def VIDEOMEM_def boot_dir_def)

text \<open>The kernel's 4 MB are mapped at their own addresses.\<close>

lemma boot_walk:
  assumes "process_pages s = boot_dir pt" "0x400000 \<le> unat v" "unat v < 0x800000"
  shows "walk pt s False v = Some v"
proof -
  have "unat (drop_bit 22 v) = unat v div 2 ^ 22" by (simp add: drop_bit_eq_div unat_div)
  also have "\<dots> = 1" using assms(2,3) by simp
  finally have u: "unat (drop_bit 22 v) = 1" .
  then have d: "drop_bit 22 v = 1" by (simp add: unat_eq_numerals)
  have "0x400000 OR (v AND 0x3FFFFF) = 0x400000 + (v AND 0x3FFFFF)"
    by (intro or_is_plus and_and_zero) simp
  then show ?thesis
    using big_page_identity [OF d] by (simp add: walk_def page_walk_def assms(1) boot_dir_def d KERNEL_def)
qed

section \<open>The terminals\<close>

lemma clear_read_buffers_run:
  assumes "length (read_buffer s) = 3" "\<forall>r \<in> set (read_buffer s). length r = 128" "0 \<le> current_terminal s" "current_terminal s < 3"
  shows "\<exists>rb. clear_all_read_buffers s = Some (s\<lparr>read_buffer := rb\<rparr>)"
proof -
  let ?P = "\<lambda>(i :: int) t. \<exists>rb. t = s\<lparr>read_buffer := rb\<rparr> \<and> length rb = 3 \<and> (\<forall>r \<in> set rb. length r = 128)"
  have "\<exists>t. clear_all_read_buffers s = Some t \<and> ?P NUM_TERMINALS t"
    unfolding clear_all_read_buffers_def
  proof (rule loop_opt_inv [where P = ?P])
    show "?P 0 s" using assms by (intro exI [of _ "read_buffer s"]) simp
  next
    fix i :: int and t assume "?P i t"
    then obtain rb where t: "t = s\<lparr>read_buffer := rb\<rparr>" "length rb = 3" "\<forall>r \<in> set rb. length r = 128" by blast
    let ?k = "nat (current_terminal s)"
    have k: "?k < length rb" using assms(3,4) t(2) by simp
    then have "length (rb ! ?k) = 128" using t(3) by simp
    from zero_row [OF this] have "clear_read_buffer t = Some (s\<lparr>read_buffer := rb[?k := replicate 128 0]\<rparr>)"
      using k assms(3) by (simp add: clear_read_buffer_def t(1) aget_def aset_def nat_less_iff)
    moreover have "\<forall>r \<in> set (rb[?k := replicate 128 0]). length r = 128" by (rule all_list_update [OF t(3)]) simp
    ultimately show "\<exists>t'. clear_read_buffer t = Some t' \<and> ?P (i + 1) t'" using t(2) by auto
  qed (simp add: NUM_TERMINALS_def)
  then show ?thesis by blast
qed

lemma clear_grids_run:
  assumes "grid37 (schedule_stack s)" "grid37 (schedule_ebp s)" "grid37 (schedule_esp s)" "0 \<le> i" "i < 3"
  shows "\<exists>st eb es. loop_opt 0 7 (\<lambda>j s. do {
         st \<leftarrow> aset2 (schedule_stack s) (i, j) 0;
         eb \<leftarrow> aset2 (schedule_ebp s) (i, j) 0;
         es \<leftarrow> aset2 (schedule_esp s) (i, j) 0;
         Some (s\<lparr>schedule_stack := st, schedule_ebp := eb, schedule_esp := es\<rparr>) }) s =
     Some (s\<lparr>schedule_stack := st, schedule_ebp := eb, schedule_esp := es\<rparr>) \<and> grid37 st \<and> grid37 eb \<and> grid37 es"
    (is "\<exists>st eb es. loop_opt 0 7 ?body s = Some (?upd st eb es) \<and> _")
proof -
  let ?P = "\<lambda>(j :: int) t. \<exists>st eb es. t = ?upd st eb es \<and> grid37 st \<and> grid37 eb \<and> grid37 es"
  have "\<exists>t. loop_opt 0 7 ?body s = Some t \<and> ?P 7 t"
  proof (rule loop_opt_inv [where P = ?P])
    show "?P 0 s" using assms
      by (intro exI [of _ "schedule_stack s"] exI [of _ "schedule_ebp s"] exI [of _ "schedule_esp s"]) simp
  next
    fix j t assume j: "0 \<le> j" "j < (7 :: int)" and "?P j t"
    then obtain st eb es where t: "t = ?upd st eb es" "grid37 st" "grid37 eb" "grid37 es" by blast
    note a = grid_access(2,3) [OF t(2) assms(4,5) j] grid_access(2,3) [OF t(3) assms(4,5) j] grid_access(2,3) [OF t(4) assms(4,5) j]
    have "?body j t = Some (?upd (gput st i j 0) (gput eb i j 0) (gput es i j 0))" using a(1,3,5) by (simp add: t(1))
    with a(2,4,6) show "\<exists>t'. ?body j t = Some t' \<and> ?P (j + 1) t'" by blast
  qed simp
  then show ?thesis by blast
qed

lemma blank_saved_run:
  fixes v :: "u8 list"
  assumes "length v = 4000"
  shows "\<exists>w. loop_opt 0 (NUM_ROWS * NUM_COLS) (\<lambda>m v. do { v \<leftarrow> aset v (2 * m) 32; aset v (2 * m + 1) 7 }) v = Some w \<and>
    length w = 4000" (is "\<exists>w. loop_opt 0 _ ?body v = Some w \<and> _")
proof (rule loop_opt_inv [where P = "\<lambda>_ w. length w = 4000"])
  fix m :: int and w :: "u8 list" assume m: "0 \<le> m" "m < NUM_ROWS * NUM_COLS" and w: "length w = 4000"
  then have "2 * m + 1 < 4000" by (simp add: screen_consts)
  with m(1) w show "\<exists>w'. ?body m w = Some w' \<and> length w' = 4000" by (simp add: aset_def)
qed (use assms in \<open>simp_all add: screen_consts\<close>)

text \<open>The variables \<open>terminal_open\<close> resets, with the first \<open>i\<close> stacks empty.\<close>

definition reset_to :: "int \<Rightarrow> 'a kernel_scheme \<Rightarrow> 'a kernel_scheme \<Rightarrow> bool" where
  "reset_to i s t \<longleftrightarrow> (\<exists>rs tr top st eb es sd. t = s\<lparr>return_switch := rs, terminal_running := tr, schedule_top := top,
       schedule_stack := st, schedule_ebp := eb, schedule_esp := es, switch_data_arr := sd\<rparr> \<and>
     length rs = 3 \<and> length tr = 3 \<and> length top = 3 \<and> (\<forall>k < nat i. top ! k = 0) \<and> grid37 st \<and> grid37 eb \<and> grid37 es \<and>
     length sd = 3 \<and> (\<forall>d \<in> set sd. length (vid_data d) = 4000))"

lemma reset_round:
  assumes P: "reset_to i s t" and i: "0 \<le> i" "i < 3"
  shows "\<exists>t'. (do {
       rs \<leftarrow> aset (return_switch t) i 0;
       tr \<leftarrow> aset (terminal_running t) i 0;
       sd \<leftarrow> aget (switch_data_arr t) i;
       top \<leftarrow> aset (schedule_top t) i 0;
       let s = t\<lparr>return_switch := rs, terminal_running := tr, schedule_top := top\<rparr>;
       s \<leftarrow> loop_opt 0 7 (\<lambda>j s. do {
         st \<leftarrow> aset2 (schedule_stack s) (i, j) 0;
         eb \<leftarrow> aset2 (schedule_ebp s) (i, j) 0;
         es \<leftarrow> aset2 (schedule_esp s) (i, j) 0;
         Some (s\<lparr>schedule_stack := st, schedule_ebp := eb, schedule_esp := es\<rparr>) }) s;
       v \<leftarrow> loop_opt 0 (NUM_ROWS * NUM_COLS) (\<lambda>m v. do {
         v \<leftarrow> aset v (2 * m) 32;
         aset v (2 * m + 1) 7 }) (vid_data sd);
       arr \<leftarrow> aset (switch_data_arr s) i \<lparr>vid_data = v, cursor_x = 0, cursor_y = 0\<rparr>;
       Some (s\<lparr>switch_data_arr := arr\<rparr>) }) = Some t' \<and> reset_to (i + 1) s t'"
proof -
  obtain rs tr top st eb es sd where t: "t = s\<lparr>return_switch := rs, terminal_running := tr, schedule_top := top,
       schedule_stack := st, schedule_ebp := eb, schedule_esp := es, switch_data_arr := sd\<rparr>"
    and z: "length rs = 3" "length tr = 3" "length top = 3" "\<forall>k < nat i. top ! k = 0" "grid37 st" "grid37 eb" "grid37 es"
      "length sd = 3" "\<forall>d \<in> set sd. length (vid_data d) = 4000"
    using P unfolding reset_to_def by blast
  let ?n = "nat i" and ?u = "t\<lparr>return_switch := rs[nat i := 0], terminal_running := tr[nat i := 0], schedule_top := top[nat i := 0]\<rparr>"
  have n: "?n < 3" using i by simp
  then have d: "length (vid_data (sd ! ?n)) = 4000" using z(8,9) by simp
  have g: "grid37 (schedule_stack ?u)" "grid37 (schedule_ebp ?u)" "grid37 (schedule_esp ?u)" using t z(5-7) by simp_all
  from clear_grids_run [OF g i] obtain st' eb' es' where l: "loop_opt 0 7 (\<lambda>j s. do {
         st \<leftarrow> aset2 (schedule_stack s) (i, j) 0;
         eb \<leftarrow> aset2 (schedule_ebp s) (i, j) 0;
         es \<leftarrow> aset2 (schedule_esp s) (i, j) 0;
         Some (s\<lparr>schedule_stack := st, schedule_ebp := eb, schedule_esp := es\<rparr>) }) ?u =
     Some (?u\<lparr>schedule_stack := st', schedule_ebp := eb', schedule_esp := es'\<rparr>)" "grid37 st'" "grid37 eb'" "grid37 es'" by blast
  from blank_saved_run [OF d] obtain w where w: "loop_opt 0 (NUM_ROWS * NUM_COLS) (\<lambda>m v. do {
         v \<leftarrow> aset v (2 * m) 32;
         aset v (2 * m + 1) 7 }) (vid_data (sd ! ?n)) = Some w" "length w = 4000" by blast
  let ?sd = "sd[?n := \<lparr>vid_data = w, cursor_x = 0, cursor_y = 0\<rparr>]"
  let ?t = "s\<lparr>return_switch := rs[?n := 0], terminal_running := tr[?n := 0], schedule_top := top[?n := 0],
       schedule_stack := st', schedule_ebp := eb', schedule_esp := es', switch_data_arr := ?sd\<rparr>"
  have "aset rs i 0 = Some (rs[?n := 0])" "aset tr i 0 = Some (tr[?n := 0])" "aget sd i = Some (sd ! ?n)"
    "aset top i 0 = Some (top[?n := 0])" "aset sd i \<lparr>vid_data = w, cursor_x = 0, cursor_y = 0\<rparr> = Some ?sd"
    using z i by (simp_all add: aset_def aget_def)
  then have c: "aset (return_switch t) i 0 = Some (rs[?n := 0])" "aset (terminal_running t) i 0 = Some (tr[?n := 0])"
    "aget (switch_data_arr t) i = Some (sd ! ?n)" "aset (schedule_top t) i 0 = Some (top[?n := 0])"
    "aset (switch_data_arr (?u\<lparr>schedule_stack := st', schedule_ebp := eb', schedule_esp := es'\<rparr>)) i
      \<lparr>vid_data = w, cursor_x = 0, cursor_y = 0\<rparr> = Some ?sd" by (simp_all add: t)
  have e: "?u\<lparr>schedule_stack := st', schedule_ebp := eb', schedule_esp := es', switch_data_arr := ?sd\<rparr> = ?t" by (simp add: t)
  have "\<forall>k < nat (i + 1). top[?n := 0] ! k = 0" using z(3,4) n i(1) by (auto simp: nth_list_update nat_add_distrib less_Suc_eq)
  moreover have "\<forall>d \<in> set ?sd. length (vid_data d) = 4000" by (rule all_list_update [OF z(9)]) (simp add: w(2))
  ultimately have "reset_to (i + 1) s ?t"
    unfolding reset_to_def using z l(2-4)
    by (intro exI [of _ "rs[?n := 0]"] exI [of _ "tr[?n := 0]"] exI [of _ "top[?n := 0]"] exI [of _ st'] exI [of _ eb']
        exI [of _ es'] exI [of _ ?sd]) simp
  then show ?thesis unfolding Let_def c(1-4) bind.bind_lunit l(1) w(1) c(5) e by blast
qed

lemma terminal_open_run:
  assumes "sized_vars s"
  shows "\<exists>rb t. terminal_open s = Some (0, t) \<and> reset_to 3 (s\<lparr>read_buffer := rb, current_terminal := 0\<rparr>) t"
proof -
  obtain rb where rb: "clear_all_read_buffers s = Some (s\<lparr>read_buffer := rb\<rparr>)"
    using clear_read_buffers_run [of s] assms by (auto simp: sized_vars_def)
  let ?s = "s\<lparr>read_buffer := rb, current_terminal := 0\<rparr>"
  have "reset_to 0 ?s ?s"
    unfolding reset_to_def using assms
    by (intro exI [of _ "return_switch s"] exI [of _ "terminal_running s"] exI [of _ "schedule_top s"] exI [of _ "schedule_stack s"]
        exI [of _ "schedule_ebp s"] exI [of _ "schedule_esp s"] exI [of _ "switch_data_arr s"]) (simp add: sized_vars_def)
  then have "\<exists>t. terminal_open s = Some (0, t) \<and> reset_to 3 ?s t"
    using loop_opt_inv [where P = "\<lambda>i. reset_to i ?s" and lo = 0 and hi = 3, OF _ _ reset_round]
    unfolding terminal_open_def rb NUM_TERMINALS_def Let_def by fastforce
  then show ?thesis by blast
qed

section \<open>All the calls\<close>

lemma clear_shown:
  assumes "video_mem s = VIDEO"
  shows "shown s (clear s)" "screen_x (clear s) = screen_x s" "screen_y (clear s) = screen_y s"
proof -
  let ?P = "\<lambda>(i :: int) t. shown s t \<and> screen_x t = screen_x s \<and> screen_y t = screen_y s"
  have "?P (NUM_ROWS * NUM_COLS) (clear s)"
    unfolding clear_def
  proof (rule loop_up_inv [where P = ?P])
    fix i t assume i: "0 \<le> i" "i < NUM_ROWS * NUM_COLS" and P: "?P i t"
    then have "on_display (VIDEO + of_int (2 * i))" "on_display (VIDEO + of_int (2 * i + 1))"
      using display_cell [of "2 * i"] display_cell [of "2 * i + 1"] by (simp_all add: screen_consts)
    with P show "?P (i + 1) (put_cell i 32 ATTRIB t)"
      using assms by (auto simp: shown_def same_ram_def put_cell_def put_cell_at_def)
  qed (simp_all add: screen_consts)
  then show "shown s (clear s)" "screen_x (clear s) = screen_x s" "screen_y (clear s) = screen_y s" by simp_all
qed

lemma terminal_clear_shown:
  assumes "video_mem s = VIDEO"
  shows "shown s (terminal_clear s)" "screen_x (terminal_clear s) = 0" "screen_y (terminal_clear s) = 0"
  using clear_shown [OF assms]
  by (simp_all add: terminal_clear_def shown_def cursor_update_def cursor_update_spec_def outb_def Let_def)

text \<open>What the calls establish for the first \<open>execute\<close>.\<close>

definition initialised :: "u32 \<Rightarrow> 'a boot_scheme \<Rightarrow> bool" where
  "initialised pt s \<longleftrightarrow> procs_wf (ps s) \<and> current_pid (ps s) = 0 \<and> num_active_processes (ps s) = 0 \<and> api_set (ps s) \<and>
     (\<forall>k c. get_cb (ps s) k = Some c \<longrightarrow> fresh_block c) \<and> process_pages s = boot_dir pt \<and> length (process_tables s) = 1024 \<and>
     editor_wf s \<and> history_sized s \<and> sched_sized s \<and> current_terminal s = 0 \<and> current_process s = 0 \<and> terminal_request s = -1 \<and>
     (\<forall>t \<in> {0, 1, 2}. height s t = 0) \<and> length (terminal_running s) = 3 \<and> length (shell_pid s) = 3 \<and>
     screen_x s = 0 \<and> screen_y s = 0 \<and> video_mem s = VIDEO"

lemma initialised_reset:
  assumes t: "reset_to 3 s t" and s: "procs_wf (ps s)" "current_pid (ps s) = 0" "num_active_processes (ps s) = 0" "api_set (ps s)"
    "\<forall>k c. get_cb (ps s) k = Some c \<longrightarrow> fresh_block c" "process_pages s = boot_dir pt" "length (process_tables s) = 1024"
    "bufferIDX s = [0, 0, 0]" "bufferSIZE s = [0, 0, 0]" "buffer s = replicate 3 (replicate 128 0)" "history_sized s"
    "current_terminal s = 0" "current_process s = 0" "terminal_request s = -1" "length (shell_pid s) = 3" "grid37 (schedule_tss s)"
    and u: "console.more u = console.more t" "screen_x u = 0" "screen_y u = 0" "video_mem u = VIDEO"
  shows "initialised pt u" "fs u = fs s" "idt u = idt s"
proof -
  obtain rs tr top st eb es sd where e: "t = s\<lparr>return_switch := rs, terminal_running := tr, schedule_top := top,
       schedule_stack := st, schedule_ebp := eb, schedule_esp := es, switch_data_arr := sd\<rparr>"
    and z: "length tr = 3" "length top = 3" "\<forall>k < 3. top ! k = 0" "grid37 st" "grid37 eb" "grid37 es"
    using t unfolding reset_to_def by auto
  obtain out f a b m v x y k where ue: "u = t\<lparr>outs := out, iflag := f, master_mask := a, slave_mask := b, vid := m, video_mem := v,
      screen_x := x, screen_y := y, key_flag := k\<rparr>" using u(1) by (cases t; cases u) simp
  have h: "height u j = 0" if "0 \<le> j" "j < 3" for j
    using that z(3) by (simp add: ue e height_def)
  have "zero_from (unat (0 :: u8)) (replicate 128 0)" by (simp add: zero_from_def)
  then have "editor_wf u" using s(8-10,12) by (simp add: ue e editor_wf_def nth_Cons' numeral_3_eq_3 less_Suc_eq)
  moreover have "history_sized u" using s(11) by (simp add: ue e history_sized_def)
  moreover have "sched_sized u" unfolding sched_sized_def using h z s(16) by (auto simp: ue e)
  ultimately show "initialised pt u"
    unfolding initialised_def using s h z(1) u(2-4) by (auto simp: ue e)
  show "fs u = fs s" "idt u = idt s" by (simp_all add: ue e)
qed

lemma sized_vars_io:
  "sized_vars (s\<lparr>outs := out, iflag := f, master_mask := a, slave_mask := b\<rparr>) = sized_vars s"
  by (simp add: sized_vars_def history_sized_def paging_sized_def)

lemma devices_run:
  assumes bss: "bss s"
  obtains s1 s2 where "initialize_IDT address temp s = Some s1" "keyboard_init dev (PIT_init dev s1) = Some s2"
    "\<And>program v. v < 256 \<Longrightarrow> vector_target program (idt s2) v = (case map_of vectors (int v) of None \<Rightarrow> None
      | Some (level, h) \<Rightarrow> if program \<and> level = DPL_KERNEL then None else Some (0x10, address h))"
    "sized_vars s2" "ps s2 = ps s" "fs s2 = fs s" "vid s2 = vid s" "screen_x s2 = screen_x s" "screen_y s2 = screen_y s"
    "bufferIDX s2 = [0, 0, 0]" "bufferSIZE s2 = [0, 0, 0]" "buffer s2 = replicate 3 (replicate 128 0)"
    "current_process s2 = 0" "terminal_request s2 = -1"
proof -
  have z: "idt s = replicate 256 zero_gate" "sized_vars s" using bss by (simp_all add: bss_def)
  obtain s1 where s1: "initialize_IDT address temp s = Some s1"
    and tgt: "\<And>program v. v < 256 \<Longrightarrow> vector_target program (idt s1) v = (case map_of vectors (int v) of None \<Rightarrow> None
      | Some (level, h) \<Rightarrow> if program \<and> level = DPL_KERNEL then None else Some (0x10, address h))"
    by (rule initialize_IDT_targets [OF z(1)]) (rule that; assumption)
  define T where "T = idt s1"
  obtain out1 f1 a1 b1 where e1: "s1 = s\<lparr>idt := T, color_flag := 0, outs := out1, iflag := f1, master_mask := a1, slave_mask := b1\<rparr>"
    unfolding T_def by (rule machine_more_cases [OF initialize_IDT_frame [OF s1]])
  obtain P where P: "P = PIT_init dev s1" by simp
  obtain out2 f2 a2 b2 where e2: "P = s1\<lparr>current_process := 0, terminal_request := -1, schedule_tick := 0,
      outs := out2, iflag := f2, master_mask := a2, slave_mask := b2\<rparr>"
    unfolding P by (rule machine_more_cases [OF PIT_init_frame])
  have v1: "sized_vars P"
    using z(2) unfolding e2 e1 by (simp add: sized_vars_def history_sized_def paging_sized_def)
  obtain s2 h hx hb hz where s2: "keyboard_init dev P = Some s2"
    "machine.more s2 = machine.more (P\<lparr>bufferIDX := [0, 0, 0], bufferSIZE := [0, 0, 0],
      buffer := replicate 3 (replicate 128 0), historyIDX := hx, historyBASE := hb, historySIZE := hz, history := h, key_flag := 0\<rparr>)"
    "history_sized s2"
    using keyboard_init_run [OF v1] by blast
  obtain out3 f3 a3 b3 where e3: "s2 = P\<lparr>bufferIDX := [0, 0, 0], bufferSIZE := [0, 0, 0],
      buffer := replicate 3 (replicate 128 0), historyIDX := hx, historyBASE := hb, historySIZE := hz, history := h, key_flag := 0,
      outs := out3, iflag := f3, master_mask := a3, slave_mask := b3\<rparr>"
    by (rule machine_more_cases [OF s2(2)])
  have v2: "sized_vars s2"
    using v1 s2(3) unfolding e3 by (simp add: sized_vars_def history_sized_def paging_sized_def)
  have "idt s2 = idt s1" by (simp add: e3 e2)
  from that [OF s1 s2(1) [unfolded P] _ v2] tgt show ?thesis unfolding \<open>idt s2 = idt s1\<close> by (simp add: e3 e2 e1)
qed

lemma initialise_run:
  assumes bss: "bss s" and row: "at_row 100 s" and junk: "64 \<le> length (im_junk im)"
  obtains s' where "initialise im dev s = Some s'" "initialised (im_pt im) s'" "fs s' = fs s" "same_ram (vid s) (vid s')"
    "\<And>program v. v < 256 \<Longrightarrow> vector_target program (idt s') v = (case map_of vectors (int v) of None \<Rightarrow> None
      | Some (level, h) \<Rightarrow> if program \<and> level = DPL_KERNEL then None else Some (0x10, im_handlers im h))"
proof -
  obtain s1 s2 where d: "initialize_IDT (im_handlers im) (im_gate im) s = Some s1" "keyboard_init dev (PIT_init dev s1) = Some s2"
    and tgt: "\<And>program v. v < 256 \<Longrightarrow> vector_target program (idt s2) v = (case map_of vectors (int v) of None \<Rightarrow> None
      | Some (level, h) \<Rightarrow> if program \<and> level = DPL_KERNEL then None else Some (0x10, im_handlers im h))"
    and z: "sized_vars s2" "ps s2 = ps s" "fs s2 = fs s" "vid s2 = vid s" "screen_x s2 = screen_x s" "screen_y s2 = screen_y s"
    and k: "bufferIDX s2 = [0, 0, 0]" "bufferSIZE s2 = [0, 0, 0]" "buffer s2 = replicate 3 (replicate 128 0)"
      "current_process s2 = 0" "terminal_request s2 = -1"
    by (rule devices_run [OF bss, of "im_handlers im" "im_gate im" dev]) (rule that; assumption)
  obtain s3 where s3: "RTC_init dev s2 = Some s3"
    "machine.more s3 = machine.more ((rtc_optable s2)\<lparr>rtc_running := [2, 2, 2], rtc_virtual_interupt := [0, 0, 0]\<rparr>)"
    using RTC_init_run [of s2 dev] z(1) by (auto simp: sized_vars_def)
  obtain out f a b where e3: "s3 = (rtc_optable s2)\<lparr>rtc_running := [2, 2, 2], rtc_virtual_interupt := [0, 0, 0],
      outs := out, iflag := f, master_mask := a, slave_mask := b\<rparr>" by (rule machine_more_cases [OF s3(2)])
  have pg: "paging_sized s3" using z(1) by (simp add: e3 rtc_optable_def sized_vars_def paging_sized_def)
  obtain tabs where s4: "paging_init (im_pt im) s3 = Some (s3\<lparr>process_pages := boot_dir (im_pt im), process_tables := tabs\<rparr>)"
    "length tabs = 1024" using paging_init_run [OF pg] by blast
  let ?s4 = "s3\<lparr>process_pages := boot_dir (im_pt im), process_tables := tabs\<rparr>"
  have "procs_sized (ps ?s4)" using bss z(2) by (simp add: e3 rtc_optable_def bss_def procs_sized_def)
  from process_init_establishes_wf [OF this, of "im_ss im" "im_esp im"] obtain p1 p2 where
    p: "process_control_block_init (ps ?s4) = Some (0, p1)" "first_process_init (im_ss im) (im_esp im) p1 = Some (0, p2)"
      "procs_wf p2" "current_pid p2 = 0" "num_active_processes p2 = 0" "\<forall>k c. get_cb p2 k = Some c \<longrightarrow> fresh_block c" "api_set p2"
    by blast
  let ?s5 = "?s4\<lparr>ps := p2\<rparr>"
  have z5: "sized_vars ?s5"
    using z(1) s4(2) by (simp add: e3 rtc_optable_def sized_vars_def history_sized_def paging_sized_def boot_dir_def)
  obtain rb s6 where s6: "terminal_open ?s5 = Some (0, s6)" "reset_to 3 (?s5\<lparr>read_buffer := rb, current_terminal := 0\<rparr>) s6"
    using terminal_open_run [OF z5] by blast
  let ?s6 = "s6\<lparr>video_mem := VIDEO\<rparr>"
  have v6: "vid s6 = vid s" "screen_x s6 = screen_x s" "screen_y s6 = screen_y s"
    using s6(2) z(4-6) by (auto simp: reset_to_def e3 rtc_optable_def)
  then have "video_mem ?s6 = VIDEO" "at_row 100 ?s6" using row by (simp_all add: at_row_def)
  from say_line [OF junk prints_formats(11) this] obtain s7 where
    s7: "say (im_junk im) (''Enabling Interrupts'' @ newline) [] ?s6 = Some s7" "shown ?s6 s7" by blast
  have v7: "video_mem s7 = VIDEO" using s7(2) by (simp add: shown_def)
  note c = terminal_clear_shown [OF v7]
  let ?s = "terminal_clear s7"
  have "shown ?s6 ?s" by (rule shown_trans [OF s7(2) c(1)])
  then have more: "console.more ?s = console.more s6" "video_mem ?s = VIDEO" "same_ram (vid s) (vid ?s)"
    using v6(1) by (simp_all add: shown_def)
  have hs: "history_sized s2" "length (shell_pid s2) = 3" "grid37 (schedule_tss s2)" using z(1) by (simp_all add: sized_vars_def)
  have i: "initialised (im_pt im) ?s" "fs ?s = fs (?s5\<lparr>read_buffer := rb, current_terminal := 0\<rparr>)"
    "idt ?s = idt (?s5\<lparr>read_buffer := rb, current_terminal := 0\<rparr>)"
    by (rule initialised_reset [OF s6(2), where u = ?s];
        use p k hs s4(2) c(2,3) more(1,2) in \<open>simp add: e3 rtc_optable_def history_sized_def\<close>)+
  have "initialise im dev s = Some ?s"
    unfolding initialise_def Let_def using d s3(1) s4(1) p(1,2) s6(1) s7(1) by simp
  from that [OF this i(1) _ more(3)] tgt show ?thesis using i(2,3) z(3) by (simp add: e3 rtc_optable_def)
qed

section \<open>The first program\<close>

definition shell_text :: "u8 list" where
  "shell_text = c_string ''shell''"

text \<open>A file system with an executable \<open>shell\<close> of these contents.\<close>

definition holds_shell :: "fsys \<Rightarrow> u8 list \<Rightarrow> bool" where
  "holds_shell F content \<longleftrightarrow> (\<exists>k d. find_entry F (map of_char ''shell'') 0 = Some k \<and> d = dir_entries F (of_nat k) \<and>
     file_type d = TYPE_FILE \<and> (\<forall>p. open_file F (file_block (inode_num d) p)) \<and> content = file_content F (inode_num d) \<and>
     28 \<le> length content \<and> word_at content 0 = MAGIC_LEAD)"

text \<open>What the linker leaves in the kernel's 4 MB: the page table, the literal and the stack.\<close>

definition image_ok :: "image \<Rightarrow> memory \<Rightarrow> bool" where
  "image_ok im m \<longleftrightarrow> 64 \<le> length (im_junk im) \<and> page_aligned (im_pt im) \<and>
     0x400000 \<le> unat (im_frame im) \<and> unat (im_frame im) + 10000 \<le> 0x800000 \<and>
     0x400000 \<le> unat (im_shell im) \<and> unat (im_shell im) + 6 \<le> 0x800000 \<and>
     (\<forall>k < 6. m (im_shell im + of_nat k) = shell_text ! k)"

lemma string_at_bytes:
  assumes "\<And>k. k \<le> length cs \<Longrightarrow> walk pt s False (v + of_nat k) = Some (v + of_nat k)"
    and "\<And>k. k \<le> length cs \<Longrightarrow> vid s (v + of_nat k) = (cs @ [0]) ! k" and "0 \<notin> set cs"
  shows "string_at pt s v = Some (cs @ [0])"
  using assms
proof (induction cs arbitrary: v)
  case Nil
  then show ?case using Nil(1) [of 0] Nil(2) [of 0] by (subst string_at.simps) simp
next
  case (Cons c cs)
  have "string_at pt s (v + 1) = Some (cs @ [0])"
  proof (rule Cons.IH)
    fix k assume "k \<le> length cs"
    then show "walk pt s False (v + 1 + of_nat k) = Some (v + 1 + of_nat k)" "vid s (v + 1 + of_nat k) = (cs @ [0]) ! k"
      using Cons.prems(1,2) [of "Suc k"] by (simp_all add: add.assoc)
  qed (use Cons.prems(3) in simp)
  with Cons.prems(1) [of 0] Cons.prems(2) [of 0] Cons.prems(3) show ?case by (subst string_at.simps) simp
qed

lemma shell_string:
  assumes "image_ok im m" "same_ram m (vid s)" "process_pages s = boot_dir (im_pt im)"
  shows "string_arg (im_pt im) s (im_shell im) = Some (Some shell_text)"
proof -
  have a: "0x400000 \<le> unat (im_shell im)" "unat (im_shell im) + 6 \<le> 0x800000"
    and b: "\<And>k. k < 6 \<Longrightarrow> m (im_shell im + of_nat k) = shell_text ! k" using assms(1) by (simp_all add: image_ok_def)
  have u: "unat (im_shell im + of_nat k) = unat (im_shell im) + k" if "k < 6" for k
    using that a by (intro unat_add_small) simp
  have "string_at (im_pt im) s (im_shell im) = Some (map of_char ''shell'' @ [0])"
  proof (rule string_at_bytes)
    fix k assume "k \<le> length (map of_char ''shell'' :: u8 list)"
    then have k: "k < 6" by simp
    show "walk (im_pt im) s False (im_shell im + of_nat k) = Some (im_shell im + of_nat k)"
      using k a u [OF k] by (intro boot_walk [OF assms(3)]) simp_all
    have "\<not> on_display (im_shell im + of_nat k)"
      using a u [OF k] by (simp add: on_display_def word_less_nat_alt)
    then show "vid s (im_shell im + of_nat k) = (map of_char ''shell'' @ [0]) ! k"
      using assms(2) b [OF k] by (simp add: same_ram_def shell_text_def c_string_def)
  qed simp
  moreover have "im_shell im \<noteq> 0" using a by auto
  ultimately show ?thesis by (simp add: string_arg_def shell_text_def c_string_def)
qed

lemma initialised_executes:
  assumes s: "initialised (im_pt im) s" and im: "image_ok im m" and F: "holds_shell (fs s) content"
  shows "can_execute (im_pt im) e (im_frame im) shell_text content (cli s)"
proof -
  have fr: "0x400000 \<le> unat (im_frame im)" "unat (im_frame im) + 10000 \<le> 0x800000" "page_aligned (im_pt im)"
    using im by (simp_all add: image_ok_def)
  have cb: "procs_wf (ps s)" "current_pid (ps s) = 0" "api_set (ps s)" "\<forall>k c. get_cb (ps s) k = Some c \<longrightarrow> fresh_block c"
    using s by (simp_all add: initialised_def)
  obtain c where c: "get_cb (ps s) 0 = Some c" using get_cb_wf [OF cb(1), of 0] by auto
  then have "length (fd_table c) = 8" "descriptors_free c" using cb(4) by (auto simp: fresh_block_def)
  then have "get_fd (ps s) 2 = Some (fd_table c ! 2)" "is_free (fd_table c ! 2)"
    using c cb(2) by (auto simp: get_fd_def aget_def descriptors_free_def is_free_def)
  then have "\<not> fds_full (ps s)" by (auto simp: fds_full_def intro!: bexI [of _ 2])
  moreover have "walk (im_pt im) (cli s) False (im_frame im) = Some (im_frame im)"
    using s fr by (intro boot_walk) (simp_all add: initialised_def cli_def)
  moreover have "exec_ready (im_pt im) (im_frame im) (cli s)"
    using s fr unfolding exec_ready_def initialised_def
    by (auto simp: cli_def caller_ok_def paging_sized_def boot_dir_def editor_wf_def history_sized_def sched_sized_def height_def)
  moreover have "im_frame im \<noteq> 0" using fr by auto
  moreover have "runs_file e (padded_word shell_text) content (cli s)"
  proof -
    have z: "0 \<in> set shell_text" "length (cstr shell_text) < 128" by (simp_all add: shell_text_def c_string_def cstr_def)
    have w: "cstr (padded_word shell_text) = map of_char ''shell''"
      unfolding padded_word_cstr(1) [OF z] by (simp add: command_word_def shell_text_def c_string_def)
    from F obtain k d where "find_entry (fs s) (map of_char ''shell'') 0 = Some k" "d = dir_entries (fs s) (of_nat k)"
      "file_type d = TYPE_FILE" "\<forall>p. open_file (fs s) (file_block (inode_num d) p)" "content = file_content (fs s) (inode_num d)"
      "28 \<le> length content" "word_at content 0 = MAGIC_LEAD" by (auto simp: holds_shell_def)
    with padded_word_cstr(2) [OF z] w show ?thesis
      by (simp add: runs_file_def names_file_def read_dentry_by_name_eq cli_def)
  qed
  ultimately show ?thesis
    using cb(3) by (simp add: can_execute_def file_api_def api_set_def cli_def shell_text_def c_string_def cstr_def)
qed

lemma system_call_execute:
  "system_call pt e frame temp 2 ebx ecx edx s =
     map_option (iret_flag (iflag s)) (do { c \<leftarrow> string_arg pt (cli s) ebx; execute_reply (execute pt e frame temp c (cli s)) })"
  by (simp add: system_call_def syscalltable_def call_number Let_def)

text \<open>The process that runs the first program: its streams are the terminal and its own memory holds the program.\<close>

definition shell_running :: "u32 \<Rightarrow> u8 list \<Rightarrow> int \<Rightarrow> 'a system_scheme \<Rightarrow> bool" where
  "shell_running pt content n s \<longleftrightarrow> 1 \<le> n \<and> n < 7 \<and> current_pid (ps s) = n \<and> num_active_processes (ps s) = 1 \<and>
     (\<forall>area. in_program area 4096 \<longrightarrow> user_ready pt n VIDEO area s) \<and> api_set (ps s) \<and>
     (\<forall>fd. 0 \<le> fd \<and> fd < 8 \<longrightarrow> (\<exists>b. get_fd (ps s) fd = Some b \<and>
        (fd = 0 \<longrightarrow> b = stdin_block) \<and> (fd = 1 \<longrightarrow> b = stdout_block) \<and> (2 \<le> fd \<longrightarrow> is_free b))) \<and>
     (\<forall>k < min 10000 (length content). \<exists>a. walk pt s True (VIRTUAL_START + of_nat k) = Some a \<and> vid s a = content ! k) \<and>
     esp0 (tss s) = kernel_stack n \<and> height s 0 = 1 \<and> current_terminal s = 0 \<and> \<not> iflag s"

lemma new_block_fds:
  assumes "fresh_block c" "get_cb p n = Some (new_block n par temp rest c)" "current_pid p = n" "0 \<le> fd" "fd < 8"
  shows "\<exists>b. get_fd p fd = Some b \<and> (fd = 0 \<longrightarrow> b = stdin_block) \<and> (fd = 1 \<longrightarrow> b = stdout_block) \<and> (2 \<le> fd \<longrightarrow> is_free b)"
proof -
  have c: "length (fd_table c) = 8" "fd_table c ! 0 = stdin_block" "fd_table c ! 1 = stdout_block"
    using assms(1) by (simp_all add: fresh_block_def)
  let ?t = "take 2 (fd_table c) @ map freed (drop 2 (fd_table c))"
  have "get_fd p fd = Some (?t ! nat fd)" using assms(2-5) c(1) by (simp add: get_fd_def aget_def new_block_def)
  moreover have "is_free (?t ! nat fd)" if "2 \<le> fd"
  proof -
    have n: "\<not> nat fd < 2" "nat fd - 2 < length (drop 2 (fd_table c))" using that assms(5) c(1) by auto
    then show ?thesis using c(1) by (simp add: nth_append is_free_def freed_def)
  qed
  ultimately show ?thesis using c by (auto simp: nth_append)
qed

lemma first_program_run:
  assumes s: "initialised (im_pt im) s" and im: "image_ok im m" "same_ram m (vid s)" and F: "holds_shell (fs s) content"
  shows "\<exists>n s'. first_program im e s = Some (Entered (word_at content 24) s') \<and> shell_running (im_pt im) content n s' \<and>
    idt s' = idt s"
proof -
  let ?s = "cli s" and ?pt = "im_pt im"
  have i: "procs_wf (ps s)" "current_pid (ps s) = 0" "num_active_processes (ps s) = 0" "api_set (ps s)"
    "\<forall>k c. get_cb (ps s) k = Some c \<longrightarrow> fresh_block c" "process_pages s = boot_dir ?pt" "current_terminal s = 0" "height s 0 = 0"
    "length (schedule_top s) = 3" "screen_x s = 0" "screen_y s = 0"
    using s by (simp_all add: initialised_def sched_sized_def)
  have al: "page_aligned ?pt" using im(1) by (simp add: image_ok_def)
  have str: "string_arg ?pt ?s (im_shell im) = Some (Some shell_text)"
    using shell_string [OF im(1), of ?s] im(2) i(6) by (simp add: cli_def)
  obtain n p mm sp b xs zs hs hx hb hz tr where ex:
    "execute ?pt e (im_frame im) (im_temp im) (Some shell_text) ?s = Some (Enter_program (word_at content 24)
       (?s\<lparr>iflag := False, shell_pid := sp, tss := \<lparr>ss0 = KERNEL_DS, esp0 = kernel_stack n\<rparr>, ps := p,
           process_pages := page_dir ?pt n, process_tables := page_tab VIDEO,
           buffer := b, bufferIDX := xs, bufferSIZE := zs,
           history := hs, historyIDX := hx, historyBASE := hb, historySIZE := hz, video_mem := VIDMAP,
           vid := mm, terminal_running := tr,
           schedule_top := (schedule_top ?s)[nat (current_terminal ?s) := height ?s (current_terminal ?s) + 1],
           schedule_stack := gput (schedule_stack ?s) (current_terminal ?s) (height ?s (current_terminal ?s)) (of_int n)\<rparr>))"
      (is "_ = Some (Enter_program _ ?t)")
    and bytes: "\<And>k. k < min 10000 (length content) \<Longrightarrow> mm (program_base n + of_nat k) = content ! k"
    and n: "1 \<le> n" "n < 7" and p: "current_pid p = n" "procs_wf p" "num_active_processes p = num_active_processes (ps ?s) + 1"
    and blk: "\<exists>old. get_cb (ps ?s) n = Some old \<and> pid old = -1 \<and> get_cb p n =
       Some (new_block n (current_pid (ps ?s)) (im_temp im) (command_args shell_text) old)"
    and tab: "tables p = tables (ps ?s) \<and> file_ptr p = file_ptr (ps ?s) \<and> dir_ptr p = dir_ptr (ps ?s)"
    by (rule execute_run [OF initialised_executes [OF s im(1) F, of e], where temp = "im_temp im"]) (rule that; assumption)
  obtain old where old: "get_cb (ps s) n = Some old"
    "get_cb p n = Some (new_block n (current_pid (ps s)) (im_temp im) (command_args shell_text) old)"
    using blk by (auto simp: cli_def)
  have fresh: "fresh_block old" using i(5) old(1) by blast
  note fds = new_block_fds [OF fresh old(2) p(1)]
  have api: "api_set p" using i(4) tab by (simp add: api_set_def cli_def)
  have sp: "in_space ?pt n VIDEO ?t" by (simp add: in_space_def)
  have out: "std_output p" using fds [of 1] api by (auto simp: std_output_def api_set_def stdout_block_def)
  have "user_ready ?pt n VIDEO area ?t" if "in_program area 4096" for area
    unfolding user_ready_def in_user_def using that sp al n p(2) out i(10,11)
    by (simp add: on_screen_def page_aligned_VIDEO cli_def) (simp add: VIDEO_def)
  moreover have "\<exists>a. walk ?pt ?t True (VIRTUAL_START + of_nat k) = Some a \<and> vid ?t a = content ! k"
    if k: "k < min 10000 (length content)" for k
    using walk_program [OF sp al n, of k] k bytes [OF k] by simp
  moreover have "height ?t 0 = 1" using i(7-9) by (simp add: height_def cli_def)
  ultimately have "shell_running ?pt content n ?t"
    unfolding shell_running_def using n p api fds i(3,7) by (simp add: cli_def)
  moreover have "first_program im e s = Some (Entered (word_at content 24) ?t)"
    using ex str by (simp add: first_program_def do_call_def SYS_EXECUTE_def system_call_execute execute_reply_def iret_flag_def)
  moreover have "idt ?t = idt s" by (simp add: cli_def)
  ultimately show ?thesis by blast
qed

section \<open>From the boot loader to the first shell\<close>

text \<open>
  What the loader leaves: the information structure, its modules and its memory map, of at most
  \<open>n\<close> entries, are not on the display, there is a module, and bits 4 and 5 are not both set.
\<close>

definition multiboot_ok :: "memory \<Rightarrow> u32 \<Rightarrow> nat \<Rightarrow> bool" where
  "multiboot_ok m mbi n \<longleftrightarrow> off_display mbi 52 \<and> cmdline_ok m mbi \<and> modules_ok m mbi \<and>
     (CHECK_FLAG (mbi_flags m mbi) 6 \<longrightarrow> mmap_ends m (mmap_addr m mbi + mmap_length m mbi) (mmap_addr m mbi) n) \<and>
     CHECK_FLAG (mbi_flags m mbi) 3 \<and> 0 < mods_count m mbi \<and>
     \<not> (CHECK_FLAG (mbi_flags m mbi) 4 \<and> CHECK_FLAG (mbi_flags m mbi) 5)"

lemma report_run:
  assumes ok: "multiboot_ok (vid s) addr n" and j: "64 \<le> length junk" and t: "talking s t"
  obtains s1 s2 s3 s4 where "report_head junk addr t = Some s1" "CHECK_FLAG (mbi_flags (vid s1) addr) 3"
    "report_modules junk addr 0 (mods_addr (vid s1) addr) s1 = Some s2"
    "\<not> (CHECK_FLAG (mbi_flags (vid s2) addr) 4 \<and> CHECK_FLAG (mbi_flags (vid s2) addr) 5)"
    "report_elf junk addr s2 = Some s3" "report_mmap junk addr s3 = Some s4" "talking (s\<lparr>fs := fs s4\<rparr>) s4"
    "\<exists>m. same_ram (vid s) m \<and> fs s4 = boot_block_init (mod_start (vid s) (last_module (vid s) addr)) m"
proof -
  have o: "off_display addr 52" "cmdline_ok (vid s) addr" "modules_ok (vid s) addr" "CHECK_FLAG (mbi_flags (vid s) addr) 3"
    "0 < mods_count (vid s) addr" using ok by (simp_all add: multiboot_ok_def)
  obtain s1 where s1: "report_head junk addr t = Some s1" "talking s s1" using report_head_run [OF j t o(1,2)] by blast
  note m1 = mbi_same [OF talking_ram [OF s1(2)] o(1)]
  obtain s2 where s2: "report_modules junk addr 0 (mods_addr (vid s1) addr) s1 = Some s2" "talking (s\<lparr>fs := fs s2\<rparr>) s2"
    "\<exists>m. same_ram (vid s) m \<and> fs s2 = boot_block_init (mod_start (vid s) (last_module (vid s) addr)) m"
    using report_modules_run [OF j s1(2) o(1,3), of 0] o(5) m1(4) by auto
  let ?s = "s\<lparr>fs := fs s2\<rparr>"
  have m2: "mbi_flags (vid s2) addr = mbi_flags (vid s) addr" using mbi_same(1) [OF talking_ram [OF s2(2)] o(1)] by simp
  obtain s3 where s3: "report_elf junk addr s2 = Some s3" "talking ?s s3" using report_elf_run [OF j s2(2)] by blast
  obtain s4 where s4: "report_mmap junk addr s3 = Some s4" "talking ?s s4"
    using report_mmap_run [OF j s3(2) o(1), of n] ok by (auto simp: multiboot_ok_def)
  have "fs s4 = fs s2" using s4(2) more_system(2) [of s4 ?s] by (simp add: talking_def shown_def)
  with that [OF s1(1) _ s2(1) _ s3(1) s4(1)] s4(2) s2(3) o(4) m1(1) m2 ok show ?thesis by (simp add: multiboot_ok_def)
qed

lemma bss_report:
  assumes "bss s" "talking (s\<lparr>fs := F\<rparr>) t"
  shows "bss (set_tss x d2 (set_ldt y d1 t))" "at_row 100 (set_tss x d2 (set_ldt y d1 t))"
    "fs (set_tss x d2 (set_ldt y d1 t)) = F" "vid (set_tss x d2 (set_ldt y d1 t)) = vid t"
proof -
  have "console.more t = console.more (s\<lparr>fs := F\<rparr>)" using assms(2) by (simp add: talking_def shown_def)
  then obtain out f a b m v x' y' k where t: "t = s\<lparr>fs := F, outs := out, iflag := f, master_mask := a, slave_mask := b, vid := m,
      video_mem := v, screen_x := x', screen_y := y', key_flag := k\<rparr>" by (cases t; cases s) simp
  show "bss (set_tss x d2 (set_ldt y d1 t))"
    using assms(1) by (simp add: t set_tss_def set_ldt_def Let_def bss_def sized_vars_def history_sized_def paging_sized_def)
  show "at_row 100 (set_tss x d2 (set_ldt y d1 t))"
    using assms(2) by (simp add: talking_def at_row_def set_tss_def set_ldt_def Let_def)
  show "fs (set_tss x d2 (set_ldt y d1 t)) = F" "vid (set_tss x d2 (set_ldt y d1 t)) = vid t"
    by (simp_all add: t set_tss_def set_ldt_def Let_def)
qed

lemma boot_shell_run:
  fixes s :: "'a started_scheme"
  assumes "bss s" and "video_mem s = VIDEO" and "at_row 100 s" and "multiboot_ok (vid s) addr entries"
    and "image_ok im (vid s)"
    and "\<And>m. same_ram (vid s) m \<Longrightarrow> holds_shell (boot_block_init (mod_start (vid s) (last_module (vid s) addr)) m) content"
  shows "\<exists>n s'. entry im e d1 d2 MULTIBOOT_BOOTLOADER_MAGIC addr s = Some (Entered (word_at content 24) s') \<and>
    shell_running (im_pt im) content n s' \<and>
    vector_target True (idt s') 0x80 = Some (0x10, im_handlers im System_call) \<and>
    vector_target False (idt s') 0x20 = Some (0x10, im_handlers im Schedule_wrapper) \<and>
    vector_target False (idt s') 0x21 = Some (0x10, im_handlers im Keyboard_wrapper) \<and>
    vector_target False (idt s') 0x28 = Some (0x10, im_handlers im Rtc_wrapper)"
proof -
  have j: "64 \<le> length (im_junk im)" using assms(5) by (simp add: image_ok_def)
  have "talking s (clear s)" using clear_shown [OF assms(2)] assms(2,3) by (simp add: talking_def at_row_def)
  note r = report_run [OF assms(4) j this]
  obtain s1 s2 s3 s4 where c: "report_head (im_junk im) addr (clear s) = Some s1" "CHECK_FLAG (mbi_flags (vid s1) addr) 3"
    "report_modules (im_junk im) addr 0 (mods_addr (vid s1) addr) s1 = Some s2"
    "\<not> (CHECK_FLAG (mbi_flags (vid s2) addr) 4 \<and> CHECK_FLAG (mbi_flags (vid s2) addr) 5)"
    "report_elf (im_junk im) addr s2 = Some s3" "report_mmap (im_junk im) addr s3 = Some s4" "talking (s\<lparr>fs := fs s4\<rparr>) s4"
    and F: "\<exists>m. same_ram (vid s) m \<and> fs s4 = boot_block_init (mod_start (vid s) (last_module (vid s) addr)) m"
    by (rule r) (rule that; assumption)
  let ?s = "set_tss (im_tss im) d2 (set_ldt (im_ldt im) d1 s4)"
  note b = bss_report [OF assms(1) c(7), of "im_tss im" d2 "im_ldt im" d1]
  obtain s5 where s5: "initialise im (e_dev e) ?s = Some s5" "initialised (im_pt im) s5" "fs s5 = fs ?s" "same_ram (vid ?s) (vid s5)"
    and tgt: "\<And>program v. v < 256 \<Longrightarrow> vector_target program (idt s5) v = (case map_of vectors (int v) of None \<Rightarrow> None
      | Some (level, h) \<Rightarrow> if program \<and> level = DPL_KERNEL then None else Some (0x10, im_handlers im h))"
    by (rule initialise_run [OF b(1,2) j, of "e_dev e"]) (rule that; assumption)
  have ram: "same_ram (vid s) (vid s5)" using talking_ram [OF c(7)] s5(4) b(4) by (simp add: same_ram_def)
  have "holds_shell (fs s5) content" using F assms(6) s5(3) b(3) by auto
  from first_program_run [OF s5(2) assms(5) ram this, of e] obtain n s' where
    p: "first_program im e s5 = Some (Entered (word_at content 24) s')" "shell_running (im_pt im) content n s'" "idt s' = idt s5" by blast
  have "entry im e d1 d2 MULTIBOOT_BOOTLOADER_MAGIC addr s = Some (Entered (word_at content 24) s')"
    using c(1-6) s5(1) p(1) by (auto simp: entry_def)
  moreover note tgt [folded p(3)]
  from this [of "0x80" True] this [of "0x20" False] this [of "0x21" False] this [of "0x28" False]
  have "vector_target True (idt s') 0x80 = Some (0x10, im_handlers im System_call)"
    "vector_target False (idt s') 0x20 = Some (0x10, im_handlers im Schedule_wrapper)"
    "vector_target False (idt s') 0x21 = Some (0x10, im_handlers im Keyboard_wrapper)"
    "vector_target False (idt s') 0x28 = Some (0x10, im_handlers im Rtc_wrapper)"
    by (simp_all add: vectors_def DPL_USER_def DPL_KERNEL_def)
  ultimately show ?thesis using p(2) by blast
qed


text \<open>
  A machine to boot: an image at address 0 whose one file \<open>shell\<close> has 28 bytes, the information
  structure at \<open>0x10000\<close> with one module, and the literal in the kernel at \<open>0x402000\<close>.
\<close>

definition boot_mem :: memory where
  "boot_mem = (\<lambda>_. 0)(0 := 1, 4 := 1, 8 := 1, 64 := 115, 65 := 104, 66 := 101, 67 := 108, 68 := 108, 96 := 2, 4096 := 28,
     8192 := 0x7F, 8193 := 0x45, 8194 := 0x4C, 8195 := 0x46, 8216 := 0x50, 8217 := 0x80, 8218 := 4, 8219 := 8,
     0x10000 := 8, 0x10014 := 1, 0x10019 := 0x10, 0x1001A := 1,
     0x402000 := 115, 0x402001 := 104, 0x402002 := 101, 0x402003 := 108, 0x402004 := 108)"

definition boot_content :: "u8 list" where
  "boot_content = map (\<lambda>k. boot_mem (8192 + of_nat k)) [0..<28]"

definition blank_desc :: seg_desc_t where
  "blank_desc = \<lparr>seg_lim_15_00 = 0, base_15_00 = 0, base_23_16 = 0, seg_type = 0, seg_sys = 0, seg_dpl = 0, seg_present = 0,
     seg_lim_19_16 = 0, seg_avail = 0, seg_reserved = 0, opsize = 0, granularity = 0, base_31_24 = 0\<rparr>"

definition boot_machine :: started where
  "boot_machine = boot.extend (boot_system\<lparr>vid := boot_mem, video_mem := VIDEO, screen_x := 0, screen_y := 0\<rparr>)
     (started.fields blank_desc blank_desc 0 0 0)"

definition boot_linked :: image where
  "boot_linked = \<lparr>im_handlers = (\<lambda>_. 0x402310), im_gate = zero_gate, im_pt = 0x480000, im_ldt = 0x403000, im_tss = 0x403100,
     im_shell = 0x402000, im_ss = 24, im_esp = 0x7FFFE0, im_frame = 0x7F0000, im_temp = 0, im_junk = replicate 64 0\<rparr>"

lemma boot_mem_same: "same_ram boot_mem m \<Longrightarrow> unat a < 0xB8000 \<Longrightarrow> m a = boot_mem a"
  by (simp add: same_ram_def on_display_def word_le_nat_alt)

lemma boot_mem_shell:
  assumes "same_ram boot_mem m"
  shows "holds_shell (boot_block_init 0 m) boot_content"
proof -
  note low = boot_mem_same [OF assms]
  have F: "boot_block_init 0 m = \<lparr>fs_mem = m, casted_block = 0, node_list = 4096, data_list = 8192\<rparr>"
    by (simp add: boot_block_init_def inodes_def load32_def FILE_SIZE_def low boot_mem_def)
  let ?F = "\<lparr>fs_mem = m, casted_block = 0, node_list = 4096, data_list = 8192\<rparr>"
  have "entry_name ?F 0 = map of_char ''shell''"
    by (simp add: entry_name_def dir_entries_def bytes_at_def FILENAME_SIZE_def upt_32 low boot_mem_def Let_def cstr_def)
  then have find: "find_entry ?F (map of_char ''shell'') 0 = Some 0" by (simp add: find_entry_Some_iff)
  have d: "file_type (dir_entries ?F 0) = TYPE_FILE" "inode_num (dir_entries ?F 0) = 0"
    by (simp_all add: dir_entries_def Let_def load32_def low boot_mem_def TYPE_FILE_def)
  have l: "B_length ?F 0 = 28" "data_blocks ?F 0 0 = 0" "inodes ?F = 1"
    by (simp_all add: B_length_def data_blocks_def inodes_def load32_def low boot_mem_def)
  have "file_byte ?F 0 k = boot_mem (8192 + of_nat k)" if "k < 28" for k
  proof -
    have "unat (8192 + of_nat k :: u32) < 0xB8000" using unat_add_small [of 8192 k] that by simp
    then show ?thesis using that l(2) low by (simp add: file_byte_def data_block_def)
  qed
  then have c: "file_content ?F 0 = boot_content" using l(1) by (simp add: file_content_def file_bytes_def boot_content_def)
  have "length boot_content = 28" by (simp add: boot_content_def)
  moreover have "word_at boot_content 0 = MAGIC_LEAD"
    by (simp add: word_at_def boot_content_def boot_mem_def MAGIC_LEAD_def)
  ultimately show ?thesis
    unfolding holds_shell_def F using find d l c by (auto simp: open_file_def file_block_def intro!: exI [of _ 0])
qed

lemma boot_mem_mbi:
  "mbi_flags boot_mem 0x10000 = 8" "mods_count boot_mem 0x10000 = 1" "mods_addr boot_mem 0x10000 = 0x11000"
  "last_module boot_mem 0x10000 = 0x11000" "mod_start boot_mem 0x11000 = 0"
  by (simp_all add: mbi_flags_def mods_count_def mods_addr_def last_module_def mod_start_def load32_def boot_mem_def)

lemma low_off_display:
  assumes "unat a + n \<le> 0xB8000"
  shows "off_display a n"
  unfolding off_display_def on_display_def
proof (intro allI impI)
  fix k assume "k < n"
  then have "unat (a + of_nat k) = unat a + k" using assms by (intro unat_add_small) simp
  with \<open>k < n\<close> assms show "\<not> (0xB8000 \<le> a + of_nat k \<and> a + of_nat k < 0xC0000)" by (simp add: word_le_nat_alt)
qed

lemma boot_mem_multiboot: "multiboot_ok boot_mem 0x10000 0"
proof -
  have "off_display 0x10000 52" "off_display 0x11000 8" by (simp_all add: low_off_display)
  then show ?thesis
    by (simp add: multiboot_ok_def cmdline_ok_def modules_ok_def boot_mem_mbi CHECK_FLAG_def)
qed

lemma boot_linked_ok: "image_ok boot_linked boot_mem"
proof -
  have "boot_mem (0x402000 + of_nat k) = shell_text ! k" if "k < 6" for k
  proof -
    have "k = 0 \<or> k = 1 \<or> k = 2 \<or> k = 3 \<or> k = 4 \<or> k = 5" using that by linarith
    then show ?thesis by (elim disjE) (simp_all add: boot_mem_def shell_text_def c_string_def)
  qed
  then show ?thesis by (simp add: image_ok_def boot_linked_def page_aligned_def)
qed

lemma boot_machine_vars: "bss boot_machine" "video_mem boot_machine = VIDEO" "at_row 100 boot_machine" "vid boot_machine = boot_mem"
proof -
  show "video_mem boot_machine = VIDEO" "at_row 100 boot_machine" "vid boot_machine = boot_mem"
    by (simp_all add: boot_machine_def boot.defs started.defs at_row_def)
  show "bss boot_machine"
    by (simp add: bss_def sized_vars_def boot_machine_def boot.defs started.defs boot_system_def system.defs clock_system_def
        kernel.defs idle_kernel_def history_sized_def paging_sized_def grid37_def procs_sized_def sample_procs_def pcb_wf_def
        unused_block_def)
qed

lemma boot_machine_starts:
  "image_ok boot_linked (vid boot_machine)" "multiboot_ok (vid boot_machine) 0x10000 0"
  "same_ram (vid boot_machine) m \<Longrightarrow>
    holds_shell (boot_block_init (mod_start (vid boot_machine) (last_module (vid boot_machine) 0x10000)) m) boot_content"
  "word_at boot_content 24 = 0x8048050" "im_pt boot_linked = 0x480000"
proof -
  show "image_ok boot_linked (vid boot_machine)" using boot_linked_ok by (simp add: boot_machine_vars)
  show "multiboot_ok (vid boot_machine) 0x10000 0" using boot_mem_multiboot by (simp add: boot_machine_vars)
  show "same_ram (vid boot_machine) m \<Longrightarrow>
      holds_shell (boot_block_init (mod_start (vid boot_machine) (last_module (vid boot_machine) 0x10000)) m) boot_content"
    using boot_mem_shell [of m] by (simp add: boot_machine_vars boot_mem_mbi)
  show "word_at boot_content 24 = 0x8048050" by (simp add: word_at_def boot_content_def boot_mem_def)
  show "im_pt boot_linked = 0x480000" by (simp add: boot_linked_def)
qed


lemma boot_machine_runs:
  obtains n s' where "entry boot_linked quiet_env blank_desc blank_desc MULTIBOOT_BOOTLOADER_MAGIC 0x10000 boot_machine =
      Some (Entered 0x8048050 s')" "shell_running 0x480000 boot_content n s'"
  using boot_shell_run [OF boot_machine_vars(1-3) boot_machine_starts(2,1,3), of quiet_env blank_desc blank_desc]
    boot_machine_starts(4,5) by auto

section \<open>Boots that stop\<close>



end
