(* ===== verification/Exceptions.thy ===== *)
theory Exceptions
  imports Dispatch
begin

text \<open>
  The exception handlers of \<^verbatim>\<open>student-distrib/exception-handlers.c\<close>. Each prints a line where
  \<open>video_mem\<close> is mapped; then it either waits forever, with the interrupts off, or ends the
  running program through \<open>do_call\<close>.
\<close>

datatype 's handled = Waits_forever 's | Ends "'s reply"

definition say :: "u32 \<Rightarrow> u8 list \<Rightarrow> string \<Rightarrow> 'a system_scheme \<Rightarrow> 'a system_scheme option" where
  "say pt junk t s = do { (n, s) \<leftarrow> on_video pt (printf junk (c_string t) []) s; Some s }"

text \<open>\<open>while (1) {}\<close>, and \<open>int status = 256; do_call(SYS_HALT, status, 0, 0)\<close>.\<close>

definition wait_after :: "u32 \<Rightarrow> u8 list \<Rightarrow> string \<Rightarrow> 'a system_scheme \<Rightarrow> 'a system_scheme handled option" where
  "wait_after pt junk t s = do { s \<leftarrow> say pt junk t s; Some (Waits_forever s) }"

definition halt_after :: "u32 \<Rightarrow> env \<Rightarrow> u32 \<Rightarrow> u32 \<Rightarrow> u8 list \<Rightarrow> string \<Rightarrow> 'a system_scheme \<Rightarrow>
    'a system_scheme handled option" where
  "halt_after pt e frame temp junk t s = do {
     s \<leftarrow> say pt junk t s;
     r \<leftarrow> do_call pt e frame temp SYS_HALT 256 0 0 s;
     Some (Ends r) }"

definition exception_div_zero :: "u32 \<Rightarrow> env \<Rightarrow> u32 \<Rightarrow> u32 \<Rightarrow> u8 list \<Rightarrow> 'a system_scheme \<Rightarrow> 'a system_scheme handled option" where
  "exception_div_zero pt e frame temp junk = halt_after pt e frame temp junk (''Exception: Divide by Zero'' @ newline)"

definition exception_debug :: "u32 \<Rightarrow> u8 list \<Rightarrow> 'a system_scheme \<Rightarrow> 'a system_scheme handled option" where
  "exception_debug pt junk = wait_after pt junk (''Exception: Debug'' @ newline)"

definition exception_nonmaskable_interrupt :: "u32 \<Rightarrow> u8 list \<Rightarrow> 'a system_scheme \<Rightarrow> 'a system_scheme handled option" where
  "exception_nonmaskable_interrupt pt junk = wait_after pt junk (''Exception: Non-maskable Interrupt'' @ newline)"

definition exception_breakpoint :: "u32 \<Rightarrow> u8 list \<Rightarrow> 'a system_scheme \<Rightarrow> 'a system_scheme handled option" where
  "exception_breakpoint pt junk = wait_after pt junk (''Exception: Breakpoint'' @ newline)"

definition exception_overflow :: "u32 \<Rightarrow> env \<Rightarrow> u32 \<Rightarrow> u32 \<Rightarrow> u8 list \<Rightarrow> 'a system_scheme \<Rightarrow> 'a system_scheme handled option" where
  "exception_overflow pt e frame temp junk = halt_after pt e frame temp junk (''Exception: overflow'' @ newline)"

definition exception_bound_range_exceeded :: "u32 \<Rightarrow> env \<Rightarrow> u32 \<Rightarrow> u32 \<Rightarrow> u8 list \<Rightarrow> 'a system_scheme \<Rightarrow> 'a system_scheme handled option" where
  "exception_bound_range_exceeded pt e frame temp junk = halt_after pt e frame temp junk (''Exception: Breakpoint'' @ newline)"

definition exception_invalid_opcode :: "u32 \<Rightarrow> env \<Rightarrow> u32 \<Rightarrow> u32 \<Rightarrow> u8 list \<Rightarrow> 'a system_scheme \<Rightarrow> 'a system_scheme handled option" where
  "exception_invalid_opcode pt e frame temp junk = halt_after pt e frame temp junk (''Exception: Invalid opcode'' @ newline)"

definition exception_device_not_available :: "u32 \<Rightarrow> u8 list \<Rightarrow> 'a system_scheme \<Rightarrow> 'a system_scheme handled option" where
  "exception_device_not_available pt junk = wait_after pt junk (''Exception: Device Not Available'' @ newline)"

definition exception_double_fault :: "u32 \<Rightarrow> u8 list \<Rightarrow> 'a system_scheme \<Rightarrow> 'a system_scheme handled option" where
  "exception_double_fault pt junk = wait_after pt junk (''Exception: Double Fault'' @ newline)"

definition exception_coprocessor_segment_overrun :: "u32 \<Rightarrow> u8 list \<Rightarrow> 'a system_scheme \<Rightarrow> 'a system_scheme handled option" where
  "exception_coprocessor_segment_overrun pt junk = wait_after pt junk (''Exception: CoProcessor Segment Overun'' @ newline)"

definition exception_invalid_TSS :: "u32 \<Rightarrow> u8 list \<Rightarrow> 'a system_scheme \<Rightarrow> 'a system_scheme handled option" where
  "exception_invalid_TSS pt junk = wait_after pt junk (''Exception: Invalid TSS'' @ newline)"

definition exception_segment_not_present :: "u32 \<Rightarrow> u8 list \<Rightarrow> 'a system_scheme \<Rightarrow> 'a system_scheme handled option" where
  "exception_segment_not_present pt junk = wait_after pt junk (''Exception: Segment Not Present'' @ newline)"

definition exception_page_fault :: "u32 \<Rightarrow> env \<Rightarrow> u32 \<Rightarrow> u32 \<Rightarrow> u8 list \<Rightarrow> 'a system_scheme \<Rightarrow> 'a system_scheme handled option" where
  "exception_page_fault pt e frame temp junk = halt_after pt e frame temp junk (''Exception: Page Fault'' @ newline)"

definition exception_reserved :: "u32 \<Rightarrow> u8 list \<Rightarrow> 'a system_scheme \<Rightarrow> 'a system_scheme handled option" where
  "exception_reserved pt junk = wait_after pt junk (''Exception: Reserved. How did you get here?'' @ newline)"

definition exception_x87_floating_point :: "u32 \<Rightarrow> u8 list \<Rightarrow> 'a system_scheme \<Rightarrow> 'a system_scheme handled option" where
  "exception_x87_floating_point pt junk = wait_after pt junk (''Exception: x87 Floating-Point Exception'' @ newline)"

definition exception_alignment_check :: "u32 \<Rightarrow> u8 list \<Rightarrow> 'a system_scheme \<Rightarrow> 'a system_scheme handled option" where
  "exception_alignment_check pt junk = wait_after pt junk (''Exception: Alignment Check'' @ newline)"

definition exception_machine_check :: "u32 \<Rightarrow> u8 list \<Rightarrow> 'a system_scheme \<Rightarrow> 'a system_scheme handled option" where
  "exception_machine_check pt junk = wait_after pt junk (''Exception: Machine Check'' @ newline)"

definition exception_SIMD_floating_point :: "u32 \<Rightarrow> u8 list \<Rightarrow> 'a system_scheme \<Rightarrow> 'a system_scheme handled option" where
  "exception_SIMD_floating_point pt junk = wait_after pt junk (''Exception: SIMD Floating-Point Exception'' @ newline)"

definition exception_virtualization :: "u32 \<Rightarrow> u8 list \<Rightarrow> 'a system_scheme \<Rightarrow> 'a system_scheme handled option" where
  "exception_virtualization pt junk = wait_after pt junk (''Exception: Virtualization Exception'' @ newline)"

definition exception_security :: "u32 \<Rightarrow> u8 list \<Rightarrow> 'a system_scheme \<Rightarrow> 'a system_scheme handled option" where
  "exception_security pt junk = wait_after pt junk (''Exception: Security Exception'' @ newline)"

definition exception_general_protection_fault :: "u32 \<Rightarrow> env \<Rightarrow> u32 \<Rightarrow> u32 \<Rightarrow> u8 list \<Rightarrow> 'a system_scheme \<Rightarrow> 'a system_scheme handled option" where
  "exception_general_protection_fault pt e frame temp junk = halt_after pt e frame temp junk (''Exception: General Protection Fault'' @ newline)"

definition exception_stack_segment_fault :: "u32 \<Rightarrow> env \<Rightarrow> u32 \<Rightarrow> u32 \<Rightarrow> u8 list \<Rightarrow> 'a system_scheme \<Rightarrow> 'a system_scheme handled option" where
  "exception_stack_segment_fault pt e frame temp junk = halt_after pt e frame temp junk (''Exception: Stack Segment Fault'' @ newline)"

section \<open>What becomes of the program\<close>

lemma more_putc [simp]: "console.more (putc c s) = console.more s"
  by (simp add: putc_def putc_at_def Let_def)

lemma more_fold_putc [simp]: "console.more (fold putc t s) = console.more s"
  by (induction t arbitrary: s) simp_all

lemma more_sched:
  assumes "console.more t = console.more s"
  shows "ps t = ps s" "schedule_top t = schedule_top s" "schedule_stack t = schedule_stack s"
    "schedule_tss t = schedule_tss s" "schedule_esp t = schedule_esp s" "schedule_ebp t = schedule_ebp s"
    "current_process t = current_process s" "process_pages t = process_pages s" "process_tables t = process_tables s"
  using assms by (cases s; cases t; simp)+

lemma can_halt_more:
  assumes "console.more t = console.more s"
  shows "can_halt pt video c d t = can_halt pt video c d s"
proof -
  note eq = more_sched [OF assms]
  have h: "height t = height s" "runnable t = runnable s" using eq by (simp_all add: fun_eq_iff height_def runnable_def)
  show ?thesis unfolding can_halt_def sched_sized_def in_space_def eq h by simp
qed

lemma say_run:
  assumes "64 \<le> length junk" "walk pt s False (video_mem s) = Some a" "(37 :: u8) \<notin> of_char ` set t"
  obtains s' where "say pt junk t s = Some s'" "console.more s' = console.more s"
proof -
  have lit: "0 \<in> set (c_string t)" "37 \<notin> set (cstr (c_string t))"
    using assms(3) by (auto simp: c_string_def cstr_def dest: set_takeWhileD)
  have "say pt junk t s = Some ((fold putc (cstr (c_string t)) (s\<lparr>video_mem := a\<rparr>))\<lparr>video_mem := video_mem s\<rparr>)"
    using printf_literal [OF assms(1) lit, of "[]" "s\<lparr>video_mem := a\<rparr>"] assms(2)
    by (simp add: say_def on_video_def)
  from that [OF this] show ?thesis by simp
qed

text \<open>The handlers of the exceptions a program is ended for, and the others.\<close>

definition ending_handlers :: "u32 \<Rightarrow> env \<Rightarrow> u32 \<Rightarrow> u32 \<Rightarrow> u8 list \<Rightarrow>
    ('a system_scheme \<Rightarrow> 'a system_scheme handled option) list" where
  "ending_handlers pt e frame temp junk = map (\<lambda>h. h pt e frame temp junk)
     [exception_div_zero, exception_overflow, exception_bound_range_exceeded, exception_invalid_opcode,
      exception_stack_segment_fault, exception_general_protection_fault, exception_page_fault]"

definition waiting_handlers :: "u32 \<Rightarrow> u8 list \<Rightarrow> ('a system_scheme \<Rightarrow> 'a system_scheme handled option) list" where
  "waiting_handlers pt junk = map (\<lambda>h. h pt junk)
     [exception_debug, exception_nonmaskable_interrupt, exception_breakpoint, exception_device_not_available,
      exception_double_fault, exception_coprocessor_segment_overrun, exception_invalid_TSS,
      exception_segment_not_present, exception_reserved, exception_x87_floating_point, exception_alignment_check,
      exception_machine_check, exception_SIMD_floating_point, exception_virtualization, exception_security]"

lemma handler_forms:
  "h \<in> set (ending_handlers pt e frame temp junk) \<Longrightarrow>
     \<exists>t. h = halt_after pt e frame temp junk t \<and> (37 :: u8) \<notin> of_char ` set t"
  "g \<in> set (waiting_handlers pt junk) \<Longrightarrow> \<exists>t. g = wait_after pt junk t \<and> (37 :: u8) \<notin> of_char ` set t"
  unfolding ending_handlers_def waiting_handlers_def list.map list.set insert_iff empty_iff simp_thms
    exception_div_zero_def exception_overflow_def exception_bound_range_exceeded_def exception_invalid_opcode_def
    exception_stack_segment_fault_def exception_general_protection_fault_def exception_page_fault_def
    exception_debug_def exception_nonmaskable_interrupt_def exception_breakpoint_def
    exception_device_not_available_def exception_double_fault_def exception_coprocessor_segment_overrun_def
    exception_invalid_TSS_def exception_segment_not_present_def exception_reserved_def
    exception_x87_floating_point_def exception_alignment_check_def exception_machine_check_def
    exception_SIMD_floating_point_def exception_virtualization_def exception_security_def
  by (elim disjE; fastforce simp: newline_def)+

text \<open>The status of the exception handlers as the byte \<open>halt\<close> takes.\<close>

lemma status_byte: "(256 :: u8) = 0"
  by simp

lemma halt_after_run:
  fixes s :: "'a system_scheme"
  assumes can: "can_halt pt video c d s" and junk: "64 \<le> length junk"
    and screen: "walk pt s False (video_mem s) = Some a" and t: "(37 :: u8) \<notin> of_char ` set t"
  shows "\<exists>s'. halt_after pt e frame temp junk t s =
        Some (Ends (Ended (stack_pos c) (if parent c = 0 then Exec_shell s' else Returned 0 s'))) \<and>
      current_pid (ps s') = parent c \<and> procs_wf (ps s') \<and>
      get_cb (ps s') (current_pid (ps s)) = Some (c\<lparr>pid := -1\<rparr>) \<and>
      num_active_processes (ps s') = num_active_processes (ps s) - 1 \<and> in_space pt (parent c) video s'"
proof -
  obtain s1 where s1: "say pt junk t s = Some s1" "console.more s1 = console.more s"
    by (rule say_run [OF junk screen t])
  let ?s = "cli s1"
  let ?t = "current_process ?s"
  let ?h = "height ?s ?t - 1"
  have ps1: "ps ?s = ps s" using more_sched(1) [OF s1(2)] by (simp add: cli_def)
  have can1: "can_halt pt video c d ?s"
    using can can_halt_more [of ?s s pt video c d] s1(2) by (simp add: cli_def)
  obtain p s' where r: "halt_call 0 ?s =
      Some (stack_pos c, if parent c = 0 then Exec_shell s' else Returned (uint (0 :: u8)) s')"
    and s': "s' = ?s\<lparr>ps := p, tss := (tss ?s)\<lparr>esp0 := esp d\<rparr>, process_pages := page_dir pt (parent c),
       schedule_stack := gput (schedule_stack ?s) ?t ?h 0, schedule_ebp := gput (schedule_ebp ?s) ?t ?h 0,
       schedule_esp := gput (schedule_esp ?s) ?t ?h 0,
       schedule_top := (schedule_top ?s)[nat ?t := ?h], iflag := True\<rparr>"
    and p: "procs_wf p" "current_pid p = parent c" "num_active_processes p = num_active_processes (ps ?s) - 1"
    "get_cb p (current_pid (ps ?s)) = Some (c\<lparr>pid := -1\<rparr>)"
    by (rule halt_call_run [OF can1, where status = 0]) (rule that; assumption)
  have "in_space pt (parent c) video s'" using can1 unfolding s' by (simp add: can_halt_def in_space_def)
  moreover have "ps s' = p" unfolding s' by simp
  moreover have "halt_after pt e frame temp junk t s =
      Some (Ends (Ended (stack_pos c) (if parent c = 0 then Exec_shell s' else Returned 0 s')))"
    using s1(1) r
    by (simp add: halt_after_def do_call_def system_call_def syscalltable_def SYS_HALT_def Let_def iret_flag_def
        status_byte)
  ultimately show ?thesis using p ps1 by (intro exI [of _ s'] conjI) simp_all
qed

lemma wait_after_run:
  assumes "64 \<le> length junk" "walk pt s False (video_mem s) = Some a" "(37 :: u8) \<notin> of_char ` set t"
  shows "\<exists>s'. wait_after pt junk t s = Some (Waits_forever s') \<and> console.more s' = console.more s"
  by (rule say_run [OF assms]) (simp add: wait_after_def)

text \<open>
  C18: a program that divides by zero, overflows, leaves a bound, executes an invalid instruction
  or faults on a page, a segment or a privilege is ended: its block is free, its parent runs in
  its own address space, and \<open>execute\<close> returns there. The status 256 passed to \<open>halt\<close> is cut to
  a byte, so \<open>execute\<close> returns 0, as for a program that ends normally. Every other exception
  prints its name and stops the system.
\<close>

theorem exception_ends_program:
  fixes s :: "'a system_scheme"
  assumes can: "can_halt pt video c d s" and junk: "64 \<le> length junk"
    and screen: "walk pt s False (video_mem s) = Some a"
  shows "(\<forall>h \<in> set (ending_handlers pt e frame temp junk). \<exists>s'.
      h s = Some (Ends (Ended (stack_pos c) (if parent c = 0 then Exec_shell s' else Returned 0 s'))) \<and>
      current_pid (ps s') = parent c \<and> procs_wf (ps s') \<and>
      get_cb (ps s') (current_pid (ps s)) = Some (c\<lparr>pid := -1\<rparr>) \<and>
      num_active_processes (ps s') = num_active_processes (ps s) - 1 \<and> in_space pt (parent c) video s') \<and>
    (\<forall>g \<in> set (waiting_handlers pt junk). \<exists>s'. g s = Some (Waits_forever s') \<and> console.more s' = console.more s)"
proof (intro conjI ballI)
  fix h :: "'a system_scheme \<Rightarrow> 'a system_scheme handled option"
  assume "h \<in> set (ending_handlers pt e frame temp junk)"
  then obtain t where t: "h = halt_after pt e frame temp junk t" "(37 :: u8) \<notin> of_char ` set t"
    using handler_forms(1) by blast
  show "\<exists>s'. h s = Some (Ends (Ended (stack_pos c) (if parent c = 0 then Exec_shell s' else Returned 0 s'))) \<and>
      current_pid (ps s') = parent c \<and> procs_wf (ps s') \<and>
      get_cb (ps s') (current_pid (ps s)) = Some (c\<lparr>pid := -1\<rparr>) \<and>
      num_active_processes (ps s') = num_active_processes (ps s) - 1 \<and> in_space pt (parent c) video s'"
    unfolding t(1) by (rule halt_after_run [OF can junk screen t(2)])
next
  fix g :: "'a system_scheme \<Rightarrow> 'a system_scheme handled option"
  assume "g \<in> set (waiting_handlers pt junk)"
  then show "\<exists>s'. g s = Some (Waits_forever s') \<and> console.more s' = console.more s"
    using handler_forms(2) wait_after_run [OF junk screen] by blast
qed

lemma child_can_halt: "can_halt 0x480000 VIDEO (unused_block\<lparr>pid := 1\<rparr>) unused_block (exec_system child_procs)"
proof -
  have "exec_ready 0x480000 0x7F0000 (exec_system child_procs)" by (rule exec_system_ready [OF child_procs_calling(1)])
  then have "sched_sized (exec_system child_procs)" by (simp add: exec_ready_def)
  moreover have "current_process (exec_system child_procs) \<in> runnable (exec_system child_procs)"
    by (simp add: exec_system_fields runnable_iff)
  moreover have "get_cb child_procs 1 = Some (unused_block\<lparr>pid := 1\<rparr>)" "get_cb child_procs 0 = Some unused_block"
    "parent unused_block = 0"
    by (simp_all add: get_cb_def child_procs_def aget_def unused_block_def)
  ultimately show ?thesis
    using child_procs_calling by (simp add: can_halt_def exec_system_fields calling_def)
qed

theorem exception_ends_program_witness:
  "\<exists>s'. exception_page_fault 0x480000 quiet_env 0 0 (replicate 64 0) (exec_system child_procs) =
     Some (Ends (Ended 0 (Exec_shell s'))) \<and> current_pid (ps s') = 0 \<and> num_active_processes (ps s') = 0"
proof -
  let ?s = "exec_system child_procs"
  have v: "video_mem ?s = VIDEO"
    by (simp add: exec_system_def file_system_def clock_system_def kernel.defs idle_kernel_def)
  have "walk 0x480000 ?s False VIDEO = address_space 1 VIDEO False VIDEO"
    by (rule walk_in_space [OF exec_system_fields(5)])
      (simp_all add: page_aligned_def page_aligned_VIDEO [unfolded page_aligned_def])
  then have "walk 0x480000 ?s False (video_mem ?s) = Some VIDEO"
    unfolding v by (simp add: address_space_def table_space_def VIDEO_def drop_bit_eq_div)
  note all = exception_ends_program [OF child_can_halt _ this, of "replicate 64 0" quiet_env 0 0, simplified, THEN conjunct1]
  have "num_active_processes child_procs = 1" by (simp add: child_procs_def)
  moreover have "parent unused_block = 0" "stack_pos unused_block = 0" by (simp_all add: unused_block_def)
  moreover have "exception_page_fault 0x480000 quiet_env 0 0 (replicate 64 0)
      \<in> set (ending_handlers 0x480000 quiet_env 0 0 (replicate 64 0))" by (simp add: ending_handlers_def)
  ultimately show ?thesis using bspec [OF all] by (auto simp: exec_system_fields)
qed

end
