(* ===== verification/Line_Input.thy ===== *)
theory Line_Input
  imports Terminal_Input
begin

text \<open>
  A line from the keyboard to the program: the scan codes of a line and of Enter, served by
  \<open>handle_keyboard\<close> of \<^verbatim>\<open>student-distrib/interrupts.c\<close> through the line editor of \<^verbatim>\<open>keyboard.c\<close>, end
  the wait of \<open>terminal_read\<close> of \<^verbatim>\<open>terminal.c\<close>, which returns the line.
\<close>

section \<open>Typing a character\<close>

text \<open>What typing leaves alone: everything but the line, the history, the screen and the ports.\<close>

definition typing_frame :: "'a kernel_scheme \<Rightarrow> 'a kernel_scheme \<Rightarrow> bool" where
  "typing_frame s t \<longleftrightarrow> current_terminal t = current_terminal s \<and> current_process t = current_process s \<and>
     schedule_top t = schedule_top s \<and> schedule_stack t = schedule_stack s \<and>
     shift_down t = shift_down s \<and> caps_lock t = caps_lock s \<and> ctrl_down t = ctrl_down s \<and> alt_down t = alt_down s \<and>
     video_mem t = video_mem s"

definition reader_frame :: "'a kernel_scheme \<Rightarrow> 'a kernel_scheme \<Rightarrow> bool" where
  "reader_frame s t \<longleftrightarrow> return_switch t = return_switch s \<and> read_buffer t = read_buffer s \<and>
     history t = history s \<and> historyIDX t = historyIDX s \<and> historyBASE t = historyBASE s \<and> historySIZE t = historySIZE s"

lemma frames_more:
  assumes "console.more t = console.more s" "video_mem t = video_mem s"
  shows "typing_frame s t" "reader_frame s t"
  using more_kernel [OF assms(1)] assms(2) by (simp_all add: typing_frame_def reader_frame_def)

lemma frames_trans:
  "typing_frame s t \<Longrightarrow> typing_frame t u \<Longrightarrow> typing_frame s u"
  "reader_frame s t \<Longrightarrow> reader_frame t u \<Longrightarrow> reader_frame s u"
  by (simp_all add: typing_frame_def reader_frame_def)

lemma video_mem_put_cell [simp]: "video_mem (put_cell i c a s) = video_mem s"
  by (simp add: put_cell_def put_cell_at_def)

lemma video_mem_next_line [simp]: "video_mem (next_line s) = video_mem s"
  unfolding next_line_def scroll_def Let_def by (simp add: loop_up_keeps [of video_mem])

lemma video_mem_write_char [simp]: "video_mem (write_char c s) = video_mem s"
  by (simp add: write_char_def putc_def putc_at_def Let_def cli_def sti_def put_cell_at_def)

lemma write_loop_frame:
  "write_loop buf n i s = Some t \<Longrightarrow> console.more t = console.more s \<and> video_mem t = video_mem s"
proof (induction buf n i s rule: write_loop.induct)
  case (1 buf n i s)
  from 1(2) show ?case
    by (subst (asm) write_loop.simps) (use 1(1) in \<open>auto split: if_splits option.splits\<close>)
qed

lemma terminal_write_frame:
  "terminal_write fd buf n s = Some (r, t) \<Longrightarrow> console.more t = console.more s \<and> video_mem t = video_mem s"
  by (auto simp: terminal_write_def IRQ1_def send_eoi_lines outb_def sti_def cli_def split: if_splits option.splits
      dest!: write_loop_frame)

lemma cursor_left_frame:
  "console.more (cursor_update_left m s) = console.more s \<and> video_mem (cursor_update_left m s) = video_mem s"
  by (simp add: cursor_update_left_def cursor_update_def cursor_update_spec_def outb_def Let_def)

lemma add_counters_frame:
  "add_counters i n s = Some t \<Longrightarrow> typing_frame s t \<and> reader_frame s t"
  by (auto simp: add_counters_def typing_frame_def reader_frame_def bind_eq_Some_conv)

lemma keyboard_insert_frame:
  assumes "keyboard_insert c s = Some t"
  shows "typing_frame s t" "reader_frame s t"
proof -
  obtain b xs n r u m where u: "terminal_write 1 xs n (s\<lparr>buffer := b, key_flag := 1\<rparr>) = Some (r, u)"
    "add_counters 1 1 (cursor_update_left m (u\<lparr>key_flag := 0\<rparr>)) = Some t"
    using assms by (auto simp: keyboard_insert_def put_row_def Let_def bind_eq_Some_conv)
  let ?s = "s\<lparr>buffer := b, key_flag := 1\<rparr>" and ?v = "cursor_update_left m (u\<lparr>key_flag := 0\<rparr>)"
  have v: "console.more ?v = console.more ?s" "video_mem ?v = video_mem ?s"
    using terminal_write_frame [OF u(1)] cursor_left_frame [of m "u\<lparr>key_flag := 0\<rparr>"] by simp_all
  have s: "typing_frame s ?s" "reader_frame s ?s" by (simp_all add: typing_frame_def reader_frame_def)
  show "typing_frame s t" "reader_frame s t"
    using frames_trans frames_more [OF v] add_counters_frame [OF u(2)] s by blast+
qed

text \<open>The keys of the plain table that type a character.\<close>

definition typing_codes :: "nat list" where
  "typing_codes = [2..<14] @ [16..<28] @ [30..<42] @ [43..<54] @ [57]"

definition special_keys :: "u16 list" where
  "special_keys = [CAPSLOCK, CTRLPRESS, CTRLRELEASE, ALTPRESS, ALTRELEASE, LSHIFTPRESS, RSHIFTPRESS,
     LSHIFTRELEASE, RSHIFTRELEASE, UP_ARROW, DOWN_ARROW, LEFT_ARROW, RIGHT_ARROW, BACKSPACE, ENTER]"

lemma typing_codes_table:
  "\<forall>n \<in> set typing_codes. (of_nat n :: u16) \<notin> set special_keys \<and> (of_nat n AND RELEASE :: u16) = 0 \<and>
     unat (of_nat n :: u16) = n \<and> unat (of_nat n :: u8) = n \<and> n < length scancode \<and>
     scancode ! n \<notin> {0, 10, INVALID_SCANCODE, ALT_F1, ALT_F2, ALT_F3}"
  by code_simp

definition char_key :: "u8 \<Rightarrow> bool" where
  "char_key k \<longleftrightarrow> unat k \<in> set typing_codes"

definition key_char :: "u8 \<Rightarrow> u8" where
  "key_char k = scancode ! unat k"

definition no_modifiers :: "'a kernel_scheme \<Rightarrow> bool" where
  "no_modifiers s \<longleftrightarrow> shift_down s = 0 \<and> caps_lock s = 0 \<and> ctrl_down s = 0 \<and> alt_down s = 0"

lemma char_key_facts:
  assumes "char_key k"
  shows "(ucast k :: u16) \<notin> set special_keys" "(ucast k AND RELEASE :: u16) = 0"
    "aget scancode (uint (ucast k :: u16)) = Some (key_char k)"
    "key_char k \<notin> {0, 10, INVALID_SCANCODE, ALT_F1, ALT_F2, ALT_F3}"
proof -
  have k: "(ucast k :: u16) = of_nat (unat k)" by simp
  note f = typing_codes_table [rule_format, OF assms [unfolded char_key_def]]
  show "(ucast k :: u16) \<notin> set special_keys" "(ucast k AND RELEASE :: u16) = 0"
    using f unfolding k by simp_all
  have u: "uint (ucast k :: u16) = int (unat k)" using f unfolding k by (metis uint_nat)
  have "unat k < length scancode" using f by blast
  then show "aget scancode (uint (ucast k :: u16)) = Some (key_char k)"
    unfolding u by (simp only: aget_def key_char_def of_nat_less_iff nat_int of_nat_0_le_iff simp_thms if_True)
  show "key_char k \<notin> {0, 10, INVALID_SCANCODE, ALT_F1, ALT_F2, ALT_F3}" using f by (simp add: key_char_def)
qed

lemma handle_char_key:
  assumes "char_key k" "no_modifiers s"
  shows "handle_keyboard_input (ucast k) s = map_option stay (edit_step (Type_char (key_char k)) s)"
proof -
  note f = char_key_facts [OF assms(1), unfolded special_keys_def list.set insert_iff de_Morgan_disj]
  have t: "translate (ucast k) s = Some (key_char k)"
    using assms(2) f(3) by (simp add: translate_def no_modifiers_def)
  have c: "ctrl_down s \<noteq> 1" using assms(2) by (simp add: no_modifiers_def)
  show ?thesis
    using f c t by (cases "aget (bufferSIZE s) (current_terminal s)") (simp_all add: handle_keyboard_input_def Let_def edit_step_def)
qed

lemma type_char_frame: "edit_step (Type_char c) s = Some t \<Longrightarrow> typing_frame s t \<and> reader_frame s t"
proof -
  assume "edit_step (Type_char c) s = Some t"
  then consider "t = s" | "keyboard_insert c s = Some t" by (auto simp: edit_step_def bind_eq_Some_conv split: if_splits)
  then show ?thesis by cases (simp_all add: frames_more keyboard_insert_frame)
qed

lemma serve_char_key:
  assumes k: "char_key k" and s: "no_modifiers s" "editor_wf s"
  obtains t where "serve_key k s = Some t" "editor_wf t"
    "edited t = line_spec (Type_char (key_char k)) (edited s)" "typing_frame s t" "reader_frame s t"
proof -
  let ?s = "(cli s)\<lparr>video_mem := VIDEO\<rparr>"
  have more: "console.more ?s = console.more s" by (simp add: cli_def)
  have m: "no_modifiers ?s" "editor_wf ?s" "edited ?s = edited s"
    using s same_input_facts [OF same_input_more [OF more]] by (simp_all add: no_modifiers_def cli_def)
  obtain u where u: "edit_step (Type_char (key_char k)) ?s = Some u" "editor_wf u"
    "edited u = line_spec (Type_char (key_char k)) (edited s)"
    using edit_step_simulates [OF m(2), of "Type_char (key_char k)"] m(3) by auto
  have fr: "typing_frame ?s u" "reader_frame ?s u"
    using type_char_frame [OF u(1)] by simp_all
  let ?t = "restore_flags (iflag s) (send_eoi IRQ1 (u\<lparr>video_mem := video_mem s\<rparr>))"
  have mt: "console.more ?t = console.more u" "video_mem ?t = video_mem s"
    by (simp_all add: restore_flags_def IRQ1_def send_eoi_lines outb_def)
  have "serve_key k s = Some ?t"
    using handle_char_key [OF k m(1)] u(1) by (simp add: serve_key_def handle_keyboard_def Let_def stay_def)
  moreover have "editor_wf ?t" "edited ?t = edited u"
    using u(2) same_input_facts [OF same_input_more [OF mt(1)]] by simp_all
  moreover have "typing_frame s ?t" "reader_frame s ?t"
    using fr more_kernel [OF mt(1)] mt(2) by (simp_all add: typing_frame_def reader_frame_def cli_def)
  ultimately show ?thesis using that u(3) by simp
qed

lemma spin_chars:
  assumes "\<forall>k \<in> set ks. char_key k" "no_modifiers s" "editor_wf s" "edited s = (l, [])"
    and "length l + length ks \<le> 127" "aget (return_switch s) cip = Some 1"
  shows "\<exists>t. spin (\<lambda>s. map_option (\<lambda>v. v \<noteq> SWITCH_OFF) (aget (return_switch s) cip)) serve_key (ks @ es) s =
      spin (\<lambda>s. map_option (\<lambda>v. v \<noteq> SWITCH_OFF) (aget (return_switch s) cip)) serve_key es t \<and>
    editor_wf t \<and> edited t = (l @ map key_char ks, []) \<and> typing_frame s t \<and> reader_frame s t"
  using assms
proof (induction ks arbitrary: s l)
  case Nil
  then show ?case by (auto simp: typing_frame_def reader_frame_def)
next
  case (Cons k ks)
  have k: "char_key k" using Cons.prems(1) by simp
  obtain u where u: "serve_key k s = Some u" "editor_wf u"
    "edited u = line_spec (Type_char (key_char k)) (edited s)" "typing_frame s u" "reader_frame s u"
    by (rule serve_char_key [OF k Cons.prems(2,3)])
  have e: "edited u = (l @ [key_char k], [])" using u(3) Cons.prems(4,5) by simp
  have f: "no_modifiers u" "aget (return_switch u) cip = Some 1"
    using u(4,5) Cons.prems(2,6) by (simp_all add: no_modifiers_def typing_frame_def reader_frame_def)
  obtain t where t: "spin (\<lambda>s. map_option (\<lambda>v. v \<noteq> SWITCH_OFF) (aget (return_switch s) cip)) serve_key (ks @ es) u =
      spin (\<lambda>s. map_option (\<lambda>v. v \<noteq> SWITCH_OFF) (aget (return_switch s) cip)) serve_key es t"
    "editor_wf t" "edited t = ((l @ [key_char k]) @ map key_char ks, [])" "typing_frame u t" "reader_frame u t"
    using Cons.IH [OF _ f(1) u(2) e _ f(2)] Cons.prems(1,5) by auto
  then show ?case
    using Cons.prems(6) u(1,4,5) frames_trans by (intro exI [of _ t]) (auto simp: SWITCH_OFF_def)
qed

section \<open>Enter\<close>

lemma terminal_return_on:
  assumes ct: "0 \<le> current_terminal s" "current_terminal s < 3" and rd: "readers_wf s"
    and row: "cur_row s = Some (xs @ 10 # ys)" "length (xs @ 10 # ys) = 128" "10 \<notin> set xs" "0 \<notin> set xs"
    and on: "return_switch s ! nat (current_terminal s) = 1"
  obtains zs where "terminal_return s = Some (s\<lparr>
      read_buffer := (read_buffer s)[nat (current_terminal s) := xs @ 10 # zs],
      return_switch := (return_switch s)[nat (current_terminal s) := 0]\<rparr>)" "length (xs @ 10 # zs) = 128"
proof -
  let ?ct = "nat (current_terminal s)"
  let ?out = "read_buffer s ! ?ct"
  have out: "aget (read_buffer s) (current_terminal s) = Some ?out" "length ?out = 128"
    and v: "aget (return_switch s) (current_terminal s) = Some 1"
    using ct rd on by (auto simp: readers_wf_def aget_def)
  let ?new = "xs @ 10 # drop (Suc (length xs)) ?out"
  have "keyboard_read 1 ?out 128 s = Some (int (length xs), ?new)"
    using keyboard_read_loop_run [OF refl row(2-4) out(2), of 0] row(1) by (simp add: keyboard_read_def)
  then have "terminal_return s = Some (s\<lparr>read_buffer := (read_buffer s)[?ct := ?new],
      return_switch := (return_switch s)[?ct := 0]\<rparr>)"
    using v out(1) ct rd
    by (simp add: terminal_return_def switch_consts MAX_BUFFER_SIZE_def set_return_switch_def aset_def readers_wf_def)
  from that [OF this] show ?thesis using row(2) out(2) by simp
qed

text \<open>The line goes into the history unless it is empty.\<close>

lemma remember_line:
  assumes wf: "editor_wf s" and h: "history_wf s p"
  obtains t where "(if c \<noteq> 0 then do { s \<leftarrow> copy_to_history s; increment_history_indices s } else Some s) = Some t"
    "t = s\<lparr>history := history t, historyBASE := historyBASE t, historyIDX := historyIDX t, historySIZE := historySIZE t\<rparr>"
proof (cases "c = 0")
  case True
  then show ?thesis using that [of s] by simp
next
  case False
  obtain t1 hs where t1: "copy_to_history s = Some t1" "t1 = s\<lparr>history := history t1\<rparr>" "history_wf t1 p"
    by (rule copy_to_history_run [OF wf h])
  obtain t2 where t2: "increment_history_indices t1 = Some t2"
    "t2 = t1\<lparr>historyBASE := historyBASE t2, historyIDX := historyIDX t2, historySIZE := historySIZE t2\<rparr>"
    by (rule increment_run [OF t1(3)]) (rule that; assumption)
  have "history t2 = history t1" by (subst t2(2)) simp
  then have "t2 = s\<lparr>history := history t2, historyBASE := historyBASE t2, historyIDX := historyIDX t2,
      historySIZE := historySIZE t2\<rparr>"
    using t1(2) t2(2) by metis
  then show ?thesis using that [of t2] False t1(1) t2(1) by simp
qed

lemma enter_key_run:
  assumes wf: "editor_wf s" and rd: "readers_wf s" and h: "history_wf s p"
    and line: "10 \<notin> set (whole_line s)" "0 \<notin> set (whole_line s)"
    and on: "return_switch s ! nat (current_terminal s) = 1"
  obtains t zs where "enter_key s = Some t" "editor_wf t" "edited t = ([], [])" "typing_frame s t"
    "return_switch t = (return_switch s)[nat (current_terminal s) := 0]"
    "read_buffer t = (read_buffer s)[nat (current_terminal s) := whole_line s @ 10 # zs]"
    "length (whole_line s @ 10 # zs) = 128"
proof -
  let ?ct = "nat (current_terminal s)" and ?n = "size_of s"
  note w = editor_wf_row [OF wf] and l = whole_line_row [OF wf]
  have ct: "0 \<le> current_terminal s" "current_terminal s < 3" using wf by (simp_all add: editor_wf_def)
  obtain c where c: "aget (row_of s) 0 = Some c" using w(2) by (simp add: aget_def)
  obtain s1 where s1: "(if c \<noteq> 0 then do { s \<leftarrow> copy_to_history s; increment_history_indices s } else Some s) = Some s1"
    and eq: "s1 = s\<lparr>history := history s1, historyBASE := historyBASE s1, historyIDX := historyIDX s1,
      historySIZE := historySIZE s1\<rparr>"
    by (rule remember_line [OF wf h, where c = c]) (rule that; assumption)
  have f1: "current_terminal s1 = current_terminal s" "buffer s1 = buffer s" "bufferIDX s1 = bufferIDX s"
    "bufferSIZE s1 = bufferSIZE s" "return_switch s1 = return_switch s" "read_buffer s1 = read_buffer s"
    "typing_frame s s1" by (subst eq, simp add: typing_frame_def)+
  have wf1: "editor_wf s1" "row_of s1 = row_of s" "size_of s1 = ?n"
    using wf f1(1-4) by (simp_all add: editor_wf_def row_of_def size_of_def)
  let ?row = "whole_line s @ 10 # replicate (127 - ?n) 0"
  have upd: "aset (row_of s) (int ?n) 10 = Some ?row" "length ?row = 128"
  proof -
    have "replicate (128 - ?n) (0 :: u8) = 0 # replicate (127 - ?n) 0"
      using w(6) by (simp add: Suc_diff_le replicate_Suc [symmetric] del: replicate_Suc)
    then have "(row_of s)[?n := 10] = ?row" using l(2,3) by (simp add: list_update_append)
    then show "aset (row_of s) (int ?n) 10 = Some ?row" using w(2,6) by (simp add: aset_def)
    show "length ?row = 128" using l(3) w(6) by simp
  qed
  let ?s2 = "s1\<lparr>buffer := (buffer s1)[?ct := ?row]\<rparr>"
  have put: "put_row ?row s1 = Some ?s2" using put_row_eq [OF wf1(1), of ?row] f1(1) by simp
  have lb: "length (buffer s1) = 3" "length (bufferIDX s1) = 3" "length (bufferSIZE s1) = 3"
    using wf1(1) by (simp_all add: editor_wf_def)
  have row2: "cur_row ?s2 = Some ?row" using ct f1(1) lb by (simp add: cur_row_def aget_def)
  have "0 \<le> current_terminal ?s2" "current_terminal ?s2 < 3" "readers_wf ?s2" "return_switch ?s2 ! nat (current_terminal ?s2) = 1"
    using ct f1 rd on by (simp_all add: readers_wf_def)
  from terminal_return_on [OF this(1-3) row2 upd(2) line this(4)] obtain zs where
    t3: "terminal_return ?s2 = Some (?s2\<lparr>read_buffer := (read_buffer s)[?ct := whole_line s @ 10 # zs],
      return_switch := (return_switch s)[?ct := 0]\<rparr>)" (is "_ = Some ?s3") and zs: "length (whole_line s @ 10 # zs) = 128"
    using f1 by auto
  have "retyped s1 ?row (bufferIDX s1 ! ?ct) (bufferSIZE s1 ! ?ct) ?s3"
    using f1(1) by (simp add: retyped_def)
  then obtain t where t: "clear_keyboard_buffer ?s3 = Some t" "editor_wf t" "edited t = ([], [])"
    "t = ?s3\<lparr>buffer := buffer t, bufferIDX := bufferIDX t, bufferSIZE := bufferSIZE t\<rparr>"
    by (rule clear_keyboard_buffer_run [OF wf1(1) _ upd(2)]) (rule that; assumption)
  have "cur_row s1 = Some (row_of s)" "cur_size s1 = Some (int ?n)"
    using editor_wf_row(1,4) [OF wf1(1)] wf1(2,3) by simp_all
  then have "enter_key s = Some t"
    using w(1) c s1 upd(1) put t3 t(1) by (simp add: enter_key_def)
  moreover have "typing_frame s t" "return_switch t = (return_switch s)[?ct := 0]"
    "read_buffer t = (read_buffer s)[?ct := whole_line s @ 10 # zs]"
    using f1(7) by (subst t(4), simp add: typing_frame_def)+
  ultimately show ?thesis using that t(2,3) zs by blast
qed

lemma serve_enter:
  assumes wf: "editor_wf s" and rd: "readers_wf s" and h: "history_wf s p"
    and line: "10 \<notin> set (whole_line s)" "0 \<notin> set (whole_line s)"
    and on: "return_switch s ! nat (current_terminal s) = 1"
  obtains t zs where "serve_key 0x1C s = Some t" "editor_wf t" "edited t = ([], [])" "typing_frame s t"
    "return_switch t = (return_switch s)[nat (current_terminal s) := 0]"
    "read_buffer t = (read_buffer s)[nat (current_terminal s) := whole_line s @ 10 # zs]"
    "length (whole_line s @ 10 # zs) = 128"
proof -
  let ?s = "(cli s)\<lparr>video_mem := VIDEO\<rparr>"
  have more: "console.more ?s = console.more s" by (simp add: cli_def)
  note mk = more_kernel [OF more] and si = same_input_facts [OF same_input_more [OF more]]
  have a: "editor_wf ?s" "readers_wf ?s" "history_wf ?s p" "10 \<notin> set (whole_line ?s)" "0 \<notin> set (whole_line ?s)"
    "return_switch ?s ! nat (current_terminal ?s) = 1"
    using assms mk si by (simp_all add: readers_wf_def whole_line_def)
  obtain u zs where u: "enter_key ?s = Some u" "editor_wf u" "edited u = ([], [])" "typing_frame ?s u"
    "return_switch u = (return_switch ?s)[nat (current_terminal ?s) := 0]"
    "read_buffer u = (read_buffer ?s)[nat (current_terminal ?s) := whole_line ?s @ 10 # zs]"
    "length (whole_line ?s @ 10 # zs) = 128"
    by (rule enter_key_run [OF a]) (rule that; assumption)
  let ?t = "restore_flags (iflag s) (send_eoi IRQ1 (u\<lparr>video_mem := video_mem s\<rparr>))"
  have mt: "console.more ?t = console.more u" "video_mem ?t = video_mem s"
    by (simp_all add: restore_flags_def IRQ1_def send_eoi_lines outb_def)
  have "handle_keyboard_input 0x1C ?s = map_option stay (enter_key ?s)"
    by (simp add: handle_keyboard_input_def key_consts)
  then have "serve_key 0x1C s = Some ?t"
    using u(1) by (simp add: serve_key_def handle_keyboard_def Let_def stay_def)
  moreover have "editor_wf ?t" "edited ?t = ([], [])"
    using u(2,3) same_input_facts [OF same_input_more [OF mt(1)]] by simp_all
  moreover have "typing_frame s ?t" "return_switch ?t = (return_switch s)[nat (current_terminal s) := 0]"
    "read_buffer ?t = (read_buffer s)[nat (current_terminal s) := whole_line s @ 10 # zs]"
    "length (whole_line s @ 10 # zs) = 128"
    using u(4-7) more_kernel [OF mt(1)] mt(2) mk si by (simp_all add: typing_frame_def whole_line_def)
  ultimately show ?thesis using that by blast
qed

section \<open>terminal_read\<close>

lemma newline_scan_run:
  assumes "10 \<notin> set xs" "i \<le> length xs"
  shows "newline_scan (xs @ 10 # ys) (int i) = Some (int (length xs))"
  using assms(2)
proof (induction "length xs - i" arbitrary: i)
  case 0
  then have "i = length xs" by simp
  then show ?case by (subst newline_scan.simps) (simp add: aget_def nth_append)
next
  case (Suc n)
  then have i: "i < length xs" by simp
  then have "xs ! i \<noteq> 10" using assms(1) nth_mem by metis
  moreover have "newline_scan (xs @ 10 # ys) (int (Suc i)) = Some (int (length xs))"
    using Suc i by (intro Suc.hyps) auto
  ultimately show ?case
    using i by (subst newline_scan.simps) (simp add: aget_def nth_append add.commute)
qed

lemma next_line_outside:
  assumes "4000 \<le> unat (a - video_mem s)"
  shows "vid (next_line s) a = vid s a"
proof (cases "screen_y s \<ge> NUM_ROWS - 1")
  case True
  obtain t where "scroll s = t\<lparr>screen_x := 0\<rparr>" "drawn s t" by (rule scroll_drawn)
  with True assms show ?thesis by (simp add: next_line_def drawn_def)
qed (simp add: next_line_def)

lemma stored_byte:
  assumes "i < length out" "length out \<le> 128" "4000 \<le> unat (buf + of_nat i - video_mem s)"
    and "vid s = overlay m buf out"
  shows "vid (sti (send_eoi IRQ1 (cursor_update (next_line s)))) (buf + of_nat i) = out ! i"
proof -
  have "vid (next_line s) (buf + of_nat i) = out ! i"
    using next_line_outside [OF assms(3)] overlay_inside [of i out m buf] assms(1,2,4) by simp
  then show ?thesis
    by (simp add: sti_def IRQ1_def send_eoi_lines cursor_update_def cursor_update_spec_def outb_def Let_def)
qed

text \<open>A line delivered to the waiting terminal, as \<open>terminal_read\<close> copies it.\<close>

lemma copied_line:
  assumes len: "length (line @ 10 # zs) = 128" and clean: "10 \<notin> set line" "0 \<notin> set line"
    and n: "length line + 1 < n" "n \<le> 128" and dest: "length dest = n"
  obtains row out where "aset (line @ 10 # zs) (int n - 1) 0 = Some row" "newline_scan row 0 = Some (int (length line))"
    "strncpy dest row n = Some out" "length out = n" "\<And>i. i \<le> length line \<Longrightarrow> out ! i = (line @ [10]) ! i"
proof -
  let ?row = "line @ 10 # zs[n - 2 - length line := 0]"
  have k: "n - 1 - length line = Suc (n - 2 - length line)" "\<not> n - 1 < length line" using n(1) by simp_all
  have set: "aset (line @ 10 # zs) (int n - 1) 0 = Some ?row"
    using n len k by (simp add: aset_def list_update_append nat_diff_distrib)
  have z: "0 \<in> set ?row" using len n by (simp add: set_update_memI)
  have c: "cstr ?row = line @ 10 # cstr (zs[n - 2 - length line := 0])"
    using clean by (simp add: cstr_def takeWhile_append)
  let ?out = "take n (cstr ?row) @ replicate (n - length (cstr ?row)) 0 @ drop n dest"
  have cp: "strncpy dest ?row n = Some ?out" using z dest by (intro strncpy_eq) (simp_all add: readable_def)
  have lo: "length ?out = n" using dest by simp
  have "?out ! i = (line @ [10]) ! i" if "i \<le> length line" for i
    using that n(1) unfolding c by (simp add: nth_append min_def)
  with newline_scan_run [OF clean(1), of 0 "zs[n - 2 - length line := 0]"] set cp lo show ?thesis
    using that [of ?row ?out] by simp
qed

text \<open>A process that can wait for a line: its terminal is the displayed one and the line is empty.\<close>

definition can_read_line :: "int \<Rightarrow> 'a kernel_scheme \<Rightarrow> bool" where
  "can_read_line p s \<longleftrightarrow> editor_wf s \<and> readers_wf s \<and> history_wf s p \<and> no_modifiers s \<and>
     current_process s = current_terminal s \<and> edited s = ([], [])"

lemma key_char_clean: "\<forall>k \<in> set ks. char_key k \<Longrightarrow> 10 \<notin> set (map key_char ks) \<and> 0 \<notin> set (map key_char ks)"
  using char_key_facts(4) by fastforce

lemma wait_for_line:
  assumes s: "can_read_line p s" and ks: "\<forall>k \<in> set ks. char_key k" "length ks \<le> 127"
  defines "cip \<equiv> current_process s"
  defines "wait \<equiv> spin (\<lambda>s. map_option (\<lambda>v. v \<noteq> SWITCH_OFF) (aget (return_switch s) cip)) serve_key"
  defines "s0 \<equiv> sti (s\<lparr>return_switch := (return_switch s)[nat cip := 1]\<rparr>)"
  obtains t zs where "wait ks s0 = None" "wait (ks @ [0x1C]) s0 = Some (t, [])" "edited t = ([], [])"
    "video_mem t = video_mem s" "length (read_buffer t) = 3" "aget (read_buffer t) cip = Some (map key_char ks @ 10 # zs)"
    "length (map key_char ks @ 10 # zs) = 128"
proof -
  have a: "editor_wf s" "readers_wf s" "history_wf s p" "no_modifiers s" "cip = current_terminal s"
    "edited s = ([], [])" using s by (simp_all add: can_read_line_def cip_def)
  have ct: "0 \<le> cip" "cip < 3" using a(1,5) by (simp_all add: editor_wf_def)
  have rs: "length (return_switch s) = 3" "length (read_buffer s) = 3" using a(2) by (simp_all add: readers_wf_def)
  have z: "editor_wf s0" "edited s0 = ([], [])" "readers_wf s0" "no_modifiers s0" "aget (return_switch s0) cip = Some 1"
    "history_wf s0 p" "typing_frame s s0" "read_buffer s0 = read_buffer s"
    using a ct rs by (simp_all add: s0_def sti_def editor_wf_def edited_def idx_of_def size_of_def row_of_def readers_wf_def
        no_modifiers_def history_wf_def displayed_pid_def typing_frame_def aget_def)
  have typed: "\<exists>t. wait (ks @ es) s0 = wait es t \<and> editor_wf t \<and> edited t = (map key_char ks, []) \<and>
      typing_frame s0 t \<and> reader_frame s0 t" for es
    using spin_chars [OF ks(1) z(4,1,2) _ z(5), of es] ks(2) unfolding wait_def by simp
  obtain t0 where "wait (ks @ []) s0 = wait [] t0" "reader_frame s0 t0" using typed by blast
  then have none: "wait ks s0 = None" using z(5) by (simp add: wait_def reader_frame_def SWITCH_OFF_def)
  obtain u where u: "wait (ks @ [0x1C]) s0 = wait [0x1C] u" "editor_wf u" "edited u = (map key_char ks, [])"
    "typing_frame s0 u" "reader_frame s0 u" using typed by blast
  have uf: "current_terminal u = cip" "return_switch u = return_switch s0" "read_buffer u = read_buffer s"
    using u(4,5) z(7,8) a(5) by (simp_all add: typing_frame_def reader_frame_def)
  have line: "whole_line u = map key_char ks" using u(3) by (simp add: whole_line_def)
  have "readers_wf u" "history_wf u p" "return_switch u ! nat (current_terminal u) = 1"
    using z(3,5,6) u(4,5) uf ct by (simp_all add: readers_wf_def history_wf_def displayed_pid_def typing_frame_def
        reader_frame_def aget_def split: if_splits)
  then obtain t zs where t: "serve_key 0x1C u = Some t" "edited t = ([], [])" "typing_frame u t"
    "return_switch t = (return_switch u)[nat (current_terminal u) := 0]"
    "read_buffer t = (read_buffer u)[nat (current_terminal u) := whole_line u @ 10 # zs]"
    "length (whole_line u @ 10 # zs) = 128"
    using serve_enter [OF u(2)] key_char_clean [OF ks(1)] line by metis
  have len: "length (return_switch s0) = 3" using z(3) by (simp add: readers_wf_def)
  have on: "aget (return_switch u) cip = Some 1" "aget (return_switch t) cip = Some 0"
    using z(5) uf t(4) ct len by (simp_all add: aget_def)
  have run: "wait (ks @ [0x1C]) s0 = Some (t, [])"
    using u(1) on t(1) by (simp add: wait_def SWITCH_OFF_def)
  show ?thesis
    by (rule that [OF none run t(2)]) (use t(3,5,6) u(4) z(7) uf line ct rs in \<open>simp_all add: typing_frame_def aget_def\<close>)
qed

text \<open>
  C9: a process that reads from the terminal gets the line the user types: while only characters
  arrive, the call waits; when Enter follows, it returns the length of the line with its newline,
  the line and the newline are in the buffer, and the input line is empty again. The buffer holds
  more than the line, at most 128 bytes, and is not video memory.
\<close>

theorem typed_line_read:
  assumes s: "can_read_line p s" and ks: "\<forall>k \<in> set ks. char_key k"
    and n: "length ks + 1 < n" "n \<le> 128" and buf: "buf \<noteq> 0"
    "\<And>i. i < n \<Longrightarrow> 4000 \<le> unat (buf + of_nat i - video_mem s)"
  shows "terminal_read ks fd buf (int n) s = None \<and>
    (\<exists>s'. terminal_read (ks @ [0x1C]) fd buf (int n) s = Some (int (length ks) + 1, s') \<and>
      (\<forall>i < length ks. vid s' (buf + of_nat i) = key_char (ks ! i)) \<and>
      vid s' (buf + of_nat (length ks)) = 10 \<and> edited s' = ([], []) \<and> iflag s')"
proof -
  let ?cip = "current_process s" and ?line = "map key_char ks"
  have a: "editor_wf s" "readers_wf s" "?cip = current_terminal s" using s by (simp_all add: can_read_line_def)
  have ct: "0 \<le> ?cip" "?cip < 3" using a(1,3) by (simp_all add: editor_wf_def)
  have set: "aset (return_switch s) ?cip SWITCH_ON = Some ((return_switch s)[nat ?cip := 1])"
    using a(2) ct by (simp add: aset_def readers_wf_def SWITCH_ON_def)
  let ?s0 = "sti (s\<lparr>return_switch := (return_switch s)[nat ?cip := 1]\<rparr>)"
  let ?wait = "spin (\<lambda>s. map_option (\<lambda>v. v \<noteq> SWITCH_OFF) (aget (return_switch s) ?cip)) serve_key"
  have "length ks \<le> 127" using n by simp
  then obtain t zs where w: "?wait ks ?s0 = None" "?wait (ks @ [0x1C]) ?s0 = Some (t, [])" "edited t = ([], [])"
    "video_mem t = video_mem s" "length (read_buffer t) = 3" "aget (read_buffer t) ?cip = Some (?line @ 10 # zs)"
    "length (?line @ 10 # zs) = 128"
    by (rule wait_for_line [OF s ks]) (rule that; assumption)
  note clean = key_char_clean [OF ks]
  obtain row out where r: "aset (?line @ 10 # zs) (int n - 1) 0 = Some row" "newline_scan row 0 = Some (int (length ?line))"
    "strncpy (bytes_at (vid (cli t)) buf n) row n = Some out" "length out = n"
    "\<And>i. i \<le> length ?line \<Longrightarrow> out ! i = (?line @ [10]) ! i"
    by (rule copied_line [OF w(7), of n "bytes_at (vid (cli t)) buf n"])
      (use clean n in \<open>simp_all add: bytes_at_def\<close>)
  let ?rb = "(read_buffer t)[nat ?cip := row]"
  let ?t = "(cli t)\<lparr>read_buffer := ?rb, vid := overlay (vid (cli t)) buf out\<rparr>"
  let ?s' = "sti (send_eoi IRQ1 (cursor_update (next_line ?t)))"
  have rb: "aset2 (read_buffer (cli t)) (?cip, int n - 1) 0 = Some ?rb" "aget ?rb ?cip = Some row"
    using w(5,6) r(1) ct by (simp_all add: aset2_def aset_def aget_def cli_def)
  have run: "terminal_read (ks @ [0x1C]) fd buf (int n) s = Some (int (length ks) + 1, ?s')"
    using n buf(1) set w(2) rb r(2,3) by (simp add: terminal_read_def Let_def)
  have none: "terminal_read ks fd buf (int n) s = None"
    using n buf(1) set w(1) by (simp add: terminal_read_def Let_def)
  have mem: "vid ?s' (buf + of_nat i) = (?line @ [10]) ! i" if i: "i \<le> length ks" for i
  proof -
    have "4000 \<le> unat (buf + of_nat i - video_mem ?t)" using buf(2) [of i] i n(1) w(4) by (simp add: cli_def)
    then show ?thesis using stored_byte [of i out buf ?t "vid (cli t)"] i n r(4,5) by simp
  qed
  have "edited ?s' = edited ?t"
    by (rule same_input_facts(3), rule same_input_more)
      (simp add: sti_def IRQ1_def send_eoi_lines outb_def)
  also have "\<dots> = ([], [])" using w(3) by (simp add: edited_def idx_of_def size_of_def row_of_def cli_def)
  finally have "edited ?s' = ([], [])" .
  moreover have "\<forall>i < length ks. vid ?s' (buf + of_nat i) = key_char (ks ! i)"
    using mem by (simp add: nth_append)
  moreover have "vid ?s' (buf + of_nat (length ks)) = 10" using mem [of "length ks"] by (simp add: nth_append)
  moreover have "iflag ?s'" by (simp add: sti_def)
  ultimately show ?thesis using run none by blast
qed

lemma idle_can_read: "can_read_line 1 idle_kernel"
proof -
  have "displayed_pid idle_kernel = Some 1"
    by (simp add: displayed_pid_def idle_kernel_def aget_def aget2_def)
  then have "history_wf idle_kernel 1" by (simp add: history_wf_def idle_kernel_def)
  moreover have "readers_wf idle_kernel" "no_modifiers idle_kernel" "edited idle_kernel = ([], [])"
    "current_process idle_kernel = current_terminal idle_kernel"
    by (simp_all add: readers_wf_def no_modifiers_def edited_def idx_of_def size_of_def row_of_def idle_kernel_def)
  ultimately show ?thesis using editor_wf_idle by (simp add: can_read_line_def)
qed

text \<open>The keys \<open>l\<close> and \<open>s\<close>, then Enter.\<close>

theorem typed_line_read_witness:
  "\<exists>s'. terminal_read [38, 31, 0x1C] 0 0x900000 128 idle_kernel = Some (3, s') \<and>
     vid s' 0x900000 = 108 \<and> vid s' 0x900001 = 115 \<and> vid s' 0x900002 = 10"
proof -
  have k: "\<forall>k \<in> set [38, 31]. char_key k" by code_simp
  have c: "key_char 38 = 108" "key_char 31 = 115" by (simp_all add: key_char_def scancode_def)
  have p: "length [38, 31 :: u8] + 1 < 128" "(128 :: nat) \<le> 128" "(0x900000 :: u32) \<noteq> 0" by simp_all
  have "4000 \<le> unat (0x900000 + of_nat i - video_mem idle_kernel)" if "i < 128" for i
  proof -
    have "0x900000 + of_nat i - video_mem idle_kernel = 0x848000 + of_nat i"
      by (simp add: idle_kernel_def VIDEO_def)
    moreover have "unat (0x848000 + of_nat i :: u32) = 0x848000 + i"
      using that by (simp add: unat_word_ariths unat_of_nat)
    ultimately show ?thesis by simp
  qed
  from typed_line_read [OF idle_can_read k p this, of 0]
  obtain s' where s': "terminal_read [38, 31, 0x1C] 0 0x900000 128 idle_kernel = Some (3, s')"
    "\<forall>i < 2. vid s' (0x900000 + of_nat i) = key_char ([38, 31] ! i)" "vid s' (0x900000 + 2) = 10"
    by (auto simp: numeral_2_eq_2)
  from s'(2) [rule_format, of 0] s'(2) [rule_format, of 1] s'(1,3) c show ?thesis by auto
qed

end
