(* ===== verification/Kernel_Types.thy ===== *)
theory Kernel_Types
  imports Boot_Start Exceptions Line_Input
begin

text \<open>
  The types of the kernel's variables: every array keeps the size it is declared with, and every
  variable that is used as an index stays inside the array it indexes. \<open>typed\<close> says so of a state;
  each operation of the kernel that completes keeps it. The theory follows the components from
  the control blocks to the system calls, the interrupts and the boot.
\<close>

section \<open>Loops\<close>

lemma loop_opt_keeps:
  assumes "loop_opt lo hi body s = Some t" and "P s"
    and "\<And>i s t. lo \<le> i \<Longrightarrow> i < hi \<Longrightarrow> P s \<Longrightarrow> body i s = Some t \<Longrightarrow> P t"
  shows "P t"
  using assms
proof (induction lo hi body s rule: loop_opt.induct)
  case (1 lo hi body s)
  show ?case
  proof (cases "lo < hi")
    case True
    then obtain u where u: "body lo s = Some u" "loop_opt (lo + 1) hi body u = Some t"
      using 1(2) by (subst (asm) loop_opt.simps) (auto split: option.splits)
    have Pu: "P u" using 1(4) [OF _ True 1(3) u(1)] by simp
    show ?thesis by (rule 1(1) [OF True u Pu]) (rule 1(4), auto)
  next
    case False
    then show ?thesis using 1(2,3) by simp
  qed
qed

lemma spin_keeps:
  assumes "spin cond h es s = Some (t, rest)" and "P s" and "\<And>e s t. P s \<Longrightarrow> h e s = Some t \<Longrightarrow> P t"
  shows "P t"
  using assms by (induction es arbitrary: s) (auto split: option.splits bool.splits)

lemma aset_sized: "aset xs i v = Some ys \<Longrightarrow> length ys = length xs"
  by (auto simp: aset_eq_Some_iff)

lemma aset_all: "aset xs i v = Some ys \<Longrightarrow> \<forall>x \<in> set xs. P x \<Longrightarrow> P v \<Longrightarrow> \<forall>y \<in> set ys. P y"
  by (auto simp: aset_eq_Some_iff dest: set_update_subset_insert [THEN subsetD])

lemma aget_all: "aget xs i = Some x \<Longrightarrow> \<forall>x \<in> set xs. P x \<Longrightarrow> P x"
  by (auto simp: aget_eq_Some_iff)

lemma loop_aset_sized:
  "loop_opt lo hi (\<lambda>i xs. aset xs i v) xs = Some ys \<Longrightarrow> length ys = length xs"
  by (rule loop_opt_keeps [where P = "\<lambda>zs. length zs = length xs"]) (auto dest: aset_sized)

section \<open>Control blocks\<close>

definition pcb_typed :: "pcb \<Rightarrow> bool" where
  "pcb_typed c \<longleftrightarrow> pcb_wf c \<and> 0 \<le> parent c \<and> parent c < 7"

definition procs_typed :: "procs \<Rightarrow> bool" where
  "procs_typed p \<longleftrightarrow> length (control_blocks p) = 7 \<and> (\<forall>c \<in> set (control_blocks p). pcb_typed c) \<and>
     0 \<le> current_pid p \<and> current_pid p < 7"

lemma get_cb_typed: "procs_typed p \<Longrightarrow> get_cb p i = Some c \<Longrightarrow> pcb_typed c \<and> 0 \<le> i \<and> i < 7"
  by (auto simp: procs_typed_def get_cb_def aget_eq_Some_iff)

lemma put_cb_typed: "procs_typed p \<Longrightarrow> pcb_typed c \<Longrightarrow> put_cb p i c = Some p' \<Longrightarrow> procs_typed p'"
  by (auto simp: procs_typed_def put_cb_def aset_sized dest: aset_all [where P = pcb_typed] split: option.splits)

text \<open>A change of a block that leaves its parent and the sizes of its arrays.\<close>

definition alike :: "pcb \<Rightarrow> pcb \<Rightarrow> bool" where
  "alike c d \<longleftrightarrow> length (fd_table d) = length (fd_table c) \<and> length (args d) = length (args c) \<and> parent d = parent c"

lemma alike_typed: "pcb_typed c \<Longrightarrow> alike c d \<Longrightarrow> pcb_typed d"
  by (simp add: pcb_typed_def alike_def pcb_wf_def)

lemma put_alike_typed:
  "procs_typed p \<Longrightarrow> get_cb p i = Some c \<Longrightarrow> put_cb p j d = Some p' \<Longrightarrow> alike c d \<Longrightarrow> procs_typed p'"
  using get_cb_typed put_cb_typed alike_typed by blast

lemma put_fd_typed: "procs_typed p \<Longrightarrow> put_fd p fd b = Some p' \<Longrightarrow> procs_typed p'"
  by (auto simp: put_fd_def alike_def aset_sized elim: put_alike_typed split: option.splits)

lemma clear_args_loop_sized: "clear_args_loop as i = Some bs \<Longrightarrow> length bs = length as"
proof (induction as i rule: clear_args_loop.induct)
  case (1 as i)
  from 1(2) show ?case
    by (subst (asm) clear_args_loop.simps) (auto simp: aset_sized dest: 1(1) split: if_splits option.splits)
qed

lemma clear_args_typed: "procs_typed p \<Longrightarrow> clear_args p = Some p' \<Longrightarrow> procs_typed p'"
  by (auto simp: clear_args_def alike_def clear_args_loop_sized elim: put_alike_typed split: option.splits)

lemma free_fds_alike: "free_fds c = Some d \<Longrightarrow> alike c d"
  unfolding free_fds_def
  by (rule loop_opt_keeps [where P = "alike c"]) (auto simp: alike_def aset_sized split: option.splits)

lemma create_new_pcb_typed:
  assumes "procs_typed p" "create_new_pcb par p = Some (n, p')" "0 \<le> par" "par < 7"
  shows "procs_typed p'"
proof -
  consider "p' = p" | c d p1 where "get_cb p n = Some c" "free_fds (c\<lparr>pid := n, parent := par\<rparr>) = Some d"
    "put_cb p n d = Some p1" "clear_args (p1\<lparr>num_active_processes := num_active_processes p1 + 1\<rparr>) = Some p'"
    using assms(2) by (auto simp: create_new_pcb_def split: option.splits if_splits)
  then show ?thesis
  proof cases
    case 2
    have "pcb_typed (c\<lparr>pid := n, parent := par\<rparr>)" using get_cb_typed [OF assms(1) 2(1)] assms(3,4) by (simp add: pcb_typed_def pcb_wf_def)
    then have "procs_typed p1" using put_cb_typed [OF assms(1) _ 2(3)] free_fds_alike [OF 2(2)] alike_typed by blast
    then show ?thesis using clear_args_typed [OF _ 2(4)] by (simp add: procs_typed_def)
  qed (simp add: assms(1))
qed

lemma load_pcb_typed: "procs_typed p \<Longrightarrow> load_pcb i x y p = Some p' \<Longrightarrow> procs_typed p'"
  by (auto simp: load_pcb_def alike_def elim: put_alike_typed split: option.splits)

lemma set_stack_pos_typed: "procs_typed p \<Longrightarrow> set_stack_pos i v p = Some p' \<Longrightarrow> procs_typed p' \<and> 0 \<le> i \<and> i < 7"
  by (auto simp: set_stack_pos_def alike_def bind_eq_Some_conv elim: put_alike_typed dest: get_cb_typed)

lemma destroy_pcb_typed: "procs_typed p \<Longrightarrow> destroy_pcb i p = Some (r, p') \<Longrightarrow> procs_typed p'"
proof -
  assume p: "procs_typed p" and d: "destroy_pcb i p = Some (r, p')"
  then obtain c p1 where "get_cb p i = Some c" "put_cb p i (c\<lparr>pid := -1\<rparr>) = Some p1"
    and p': "p' = p1\<lparr>num_active_processes := num_active_processes p1 - 1\<rparr>"
    by (auto simp: destroy_pcb_def split: option.splits)
  then have "procs_typed p1" by (auto simp: alike_def elim: put_alike_typed [OF p])
  then show ?thesis by (simp add: p' procs_typed_def)
qed

lemma strncpy_pad_sized: "strncpy_pad d n i = Some e \<Longrightarrow> length e = length d"
proof (induction d n i rule: strncpy_pad.induct)
  case (1 d n i)
  from 1(2) show ?case
    by (subst (asm) strncpy_pad.simps) (auto simp: aset_sized dest: 1(1) split: if_splits option.splits)
qed

lemma strncpy_sized: "strncpy d s n = Some e \<Longrightarrow> length e = length d"
proof -
  have "strncpy_loop d s n i = Some e \<Longrightarrow> length e = length d" for i
  proof (induction d s n i rule: strncpy_loop.induct)
    case (1 d s n i)
    from 1(2) show ?case
      by (subst (asm) strncpy_loop.simps) (auto simp: aset_sized strncpy_pad_sized dest: 1(1) split: if_splits option.splits)
  qed
  then show "strncpy d s n = Some e \<Longrightarrow> length e = length d" by (simp add: strncpy_def)
qed

lemma pass_args_typed: "procs_typed p \<Longrightarrow> pass_args rest p = Some p' \<Longrightarrow> procs_typed p'"
  by (auto simp: pass_args_def bind_eq_Some_conv alike_def strncpy_sized elim: put_alike_typed clear_args_typed
      split: if_splits)

section \<open>Typed states\<close>

text \<open>An array of \<open>n\<close> elements of type \<open>P\<close>, and an index of an array of \<open>n\<close> elements.\<close>

definition arr :: "nat \<Rightarrow> ('a \<Rightarrow> bool) \<Rightarrow> 'a list \<Rightarrow> bool" where
  "arr n P xs \<longleftrightarrow> length xs = n \<and> (\<forall>x \<in> set xs. P x)"

definition index_of :: "int \<Rightarrow> int \<Rightarrow> bool" where
  "index_of n i \<longleftrightarrow> 0 \<le> i \<and> i < n"

abbreviation any :: "'a \<Rightarrow> bool" where
  "any \<equiv> \<lambda>_. True"

lemma arr_aset: "aset xs i v = Some ys \<Longrightarrow> arr n P xs \<Longrightarrow> P v \<Longrightarrow> arr n P ys"
  using aset_all [of xs i v ys P] aset_sized [of xs i v ys] by (simp add: arr_def)

lemma arr_aget: "aget xs i = Some x \<Longrightarrow> arr n P xs \<Longrightarrow> P x"
  using aget_all [of xs i x P] by (simp add: arr_def)

lemma aset_index: "aset xs i v = Some ys \<Longrightarrow> arr n P xs \<Longrightarrow> index_of (int n) i"
  by (auto simp: arr_def index_of_def aset_eq_Some_iff)

lemma aget_index: "aget xs i = Some v \<Longrightarrow> arr n P xs \<Longrightarrow> index_of (int n) i"
  by (auto simp: arr_def index_of_def aget_eq_Some_iff)

lemma arr_aset2: "aset2 xs (i, j) v = Some ys \<Longrightarrow> arr n (arr m P) xs \<Longrightarrow> P v \<Longrightarrow> arr n (arr m P) ys"
  unfolding aset2_def bind_eq_Some_conv by (metis arr_aget arr_aset)

lemma arr_aget2: "aget2 xs (i, j) = Some x \<Longrightarrow> arr n (arr m P) xs \<Longrightarrow> P x"
  unfolding aget2_def bind_eq_Some_conv by (metis arr_aget)

lemma aset2_index:
  assumes "aset2 xs (i, j) v = Some ys" and "arr n (arr m P) xs"
  shows "index_of (int n) i" "index_of (int m) j"
proof -
  obtain r r' where r: "aget xs i = Some r" "aset r j v = Some r'"
    using assms(1) by (auto simp: aset2_def bind_eq_Some_conv)
  show "index_of (int n) i" by (rule aget_index [OF r(1) assms(2)])
  show "index_of (int m) j" by (rule aset_index [OF r(2) arr_aget [OF r(1) assms(2)]])
qed

lemma arr_loop_aset:
  "loop_opt lo hi (\<lambda>i xs. aset xs i v) xs = Some ys \<Longrightarrow> arr n P xs \<Longrightarrow> P v \<Longrightarrow> arr n P ys"
  by (rule loop_opt_keeps [where P = "arr n P"]) (auto elim: arr_aset)

lemma arr_any: "arr n P xs \<Longrightarrow> arr n any xs"
  by (simp add: arr_def)

definition sched_typed :: "'a sched_scheme \<Rightarrow> bool" where
  "sched_typed s \<longleftrightarrow> procs_typed (ps s) \<and> index_of 3 (current_process s) \<and> index_of 3 (current_terminal s) \<and>
     -1 \<le> terminal_request s \<and> terminal_request s < 3 \<and>
     arr 3 (index_of 8) (schedule_top s) \<and> arr 3 (arr 7 (\<lambda>p. p < 7)) (schedule_stack s) \<and>
     arr 3 (arr 7 any) (schedule_tss s) \<and> arr 3 (arr 7 any) (schedule_esp s) \<and> arr 3 (arr 7 any) (schedule_ebp s) \<and>
     arr 3 any (terminal_running s) \<and> arr 3 any (shell_pid s) \<and>
     arr 1024 any (process_pages s) \<and> arr 1024 any (process_tables s)"

definition input_typed :: "'a kernel_scheme \<Rightarrow> bool" where
  "input_typed s \<longleftrightarrow> arr 3 (\<lambda>d. arr 4000 any (vid_data d)) (switch_data_arr s) \<and>
     arr 3 any (return_switch s) \<and> arr 3 (arr 128 any) (read_buffer s) \<and>
     arr 3 (arr 128 any) (buffer s) \<and> arr 3 any (bufferIDX s) \<and> arr 3 any (bufferSIZE s) \<and>
     arr 7 (arr 20 (arr 128 any)) (history s) \<and> arr 7 (index_of 20) (historyIDX s) \<and>
     arr 7 (index_of 20) (historyBASE s) \<and> arr 7 (index_of 21) (historySIZE s) \<and>
     arr 3 any (rtc_running s) \<and> arr 3 any (rtc_virtual_interupt s)"

definition typed :: "'a kernel_scheme \<Rightarrow> bool" where
  "typed s \<longleftrightarrow> sched_typed s \<and> input_typed s"

text \<open>What a routine of the console, or of the devices, leaves.\<close>

lemma sched_typed_more:
  assumes "console.more t = console.more s"
  shows "sched_typed t = sched_typed s"
proof -
  have "ps t = ps s \<and> current_process t = current_process s \<and> current_terminal t = current_terminal s \<and>
      terminal_request t = terminal_request s \<and> schedule_top t = schedule_top s \<and> schedule_stack t = schedule_stack s \<and>
      schedule_tss t = schedule_tss s \<and> schedule_esp t = schedule_esp s \<and> schedule_ebp t = schedule_ebp s \<and>
      terminal_running t = terminal_running s \<and> shell_pid t = shell_pid s \<and>
      process_pages t = process_pages s \<and> process_tables t = process_tables s"
    using assms by (cases s; cases t) simp
  then show ?thesis by (simp add: sched_typed_def)
qed

lemma typed_more:
  assumes "console.more t = console.more s"
  shows "typed t = typed s"
proof -
  have "switch_data_arr t = switch_data_arr s \<and> return_switch t = return_switch s \<and> read_buffer t = read_buffer s \<and>
      buffer t = buffer s \<and> bufferIDX t = bufferIDX s \<and> bufferSIZE t = bufferSIZE s \<and> history t = history s \<and>
      historyIDX t = historyIDX s \<and> historyBASE t = historyBASE s \<and> historySIZE t = historySIZE s \<and>
      rtc_running t = rtc_running s \<and> rtc_virtual_interupt t = rtc_virtual_interupt s"
    using assms by (cases s; cases t) simp
  then show ?thesis using sched_typed_more [OF assms] by (simp add: typed_def input_typed_def)
qed

lemma more_io [simp]:
  "console.more (cli s) = console.more s" "console.more (sti s) = console.more s"
  "console.more (outb b p s) = console.more s" "console.more (restore_flags f s) = console.more s"
  "console.more (send_eoi n s) = console.more s"
  by (simp_all add: cli_def sti_def outb_def restore_flags_def send_eoi_def Let_def)

lemma more_devices [simp]: "console.more (enable_irq dev n s) = console.more s" "console.more (set_rate dev r s) = console.more s"
  by (simp_all add: enable_irq_def set_rate_def Let_def outb_def)

lemma typed_console [simp]:
  "typed (cli s) = typed s" "typed (sti s) = typed s" "typed (outb b p s) = typed s" "typed (restore_flags f s) = typed s"
  "typed (send_eoi n s) = typed s" "typed (enable_irq dev n s) = typed s" "typed (set_rate dev r s) = typed s"
  "typed (cursor_update s) = typed s" "typed (cursor_update_left i s) = typed s" "typed (cursor_update_right i s) = typed s"
  "typed (next_line s) = typed s" "typed (terminal_backspace s) = typed s" "typed (terminal_clear s) = typed s"
  "typed (reset_terminal_keyboard_input i j s) = typed s"
  "typed (s\<lparr>iflag := f\<rparr>) = typed s" "typed (s\<lparr>vid := m\<rparr>) = typed s" "typed (s\<lparr>video_mem := a\<rparr>) = typed s"
  "typed (s\<lparr>screen_x := x\<rparr>) = typed s" "typed (s\<lparr>screen_y := y\<rparr>) = typed s" "typed (s\<lparr>key_flag := k\<rparr>) = typed s"
  by (rule typed_more, simp)+

text \<open>The fields of a typed state, and updates of them.\<close>

lemma typedD:
  assumes "typed s"
  shows "procs_typed (ps s)" "index_of 3 (current_process s)" "index_of 3 (current_terminal s)"
    "arr 3 (index_of 8) (schedule_top s)" "arr 3 (arr 7 (\<lambda>p. p < 7)) (schedule_stack s)"
    "arr 3 (arr 7 any) (schedule_tss s)" "arr 3 (arr 7 any) (schedule_esp s)" "arr 3 (arr 7 any) (schedule_ebp s)"
    "arr 3 any (terminal_running s)" "arr 3 any (shell_pid s)" "arr 1024 any (process_pages s)" "arr 1024 any (process_tables s)"
    "arr 3 (\<lambda>d. arr 4000 any (vid_data d)) (switch_data_arr s)" "arr 3 any (return_switch s)" "arr 3 (arr 128 any) (read_buffer s)"
    "arr 3 (arr 128 any) (buffer s)" "arr 3 any (bufferIDX s)" "arr 3 any (bufferSIZE s)"
    "arr 7 (arr 20 (arr 128 any)) (history s)" "arr 7 (index_of 20) (historyIDX s)" "arr 7 (index_of 20) (historyBASE s)"
    "arr 7 (index_of 21) (historySIZE s)" "arr 3 any (rtc_running s)" "arr 3 any (rtc_virtual_interupt s)"
  using assms by (simp_all add: typed_def sched_typed_def input_typed_def)

lemma typed_updates:
  assumes "typed s"
  shows "procs_typed p \<Longrightarrow> typed (s\<lparr>ps := p\<rparr>)" "index_of 3 i \<Longrightarrow> typed (s\<lparr>current_process := i\<rparr>)"
    "index_of 3 i \<Longrightarrow> typed (s\<lparr>current_terminal := i\<rparr>)" "-1 \<le> i \<Longrightarrow> i < 3 \<Longrightarrow> typed (s\<lparr>terminal_request := i\<rparr>)"
    "arr 3 (index_of 8) tops \<Longrightarrow> typed (s\<lparr>schedule_top := tops\<rparr>)"
    "arr 3 (arr 7 (\<lambda>p. p < 7)) st \<Longrightarrow> typed (s\<lparr>schedule_stack := st\<rparr>)"
    "arr 3 (arr 7 any) ts \<Longrightarrow> typed (s\<lparr>schedule_tss := ts\<rparr>)" "arr 3 (arr 7 any) xs \<Longrightarrow> typed (s\<lparr>schedule_esp := xs\<rparr>)"
    "arr 3 (arr 7 any) xs \<Longrightarrow> typed (s\<lparr>schedule_ebp := xs\<rparr>)" "arr 3 any bs \<Longrightarrow> typed (s\<lparr>terminal_running := bs\<rparr>)"
    "arr 3 any bs \<Longrightarrow> typed (s\<lparr>shell_pid := bs\<rparr>)" "arr 1024 any ws \<Longrightarrow> typed (s\<lparr>process_pages := ws\<rparr>)"
    "arr 1024 any ws \<Longrightarrow> typed (s\<lparr>process_tables := ws\<rparr>)"
    "arr 3 (\<lambda>d. arr 4000 any (vid_data d)) ds \<Longrightarrow> typed (s\<lparr>switch_data_arr := ds\<rparr>)"
    "arr 3 any vs \<Longrightarrow> typed (s\<lparr>return_switch := vs\<rparr>)" "arr 3 (arr 128 any) bb \<Longrightarrow> typed (s\<lparr>read_buffer := bb\<rparr>)"
    "arr 3 (arr 128 any) bb \<Longrightarrow> typed (s\<lparr>buffer := bb\<rparr>)" "arr 3 any vs \<Longrightarrow> typed (s\<lparr>bufferIDX := vs\<rparr>)"
    "arr 3 any vs \<Longrightarrow> typed (s\<lparr>bufferSIZE := vs\<rparr>)" "arr 7 (arr 20 (arr 128 any)) h \<Longrightarrow> typed (s\<lparr>history := h\<rparr>)"
    "arr 7 (index_of 20) ns \<Longrightarrow> typed (s\<lparr>historyIDX := ns\<rparr>)" "arr 7 (index_of 20) ns \<Longrightarrow> typed (s\<lparr>historyBASE := ns\<rparr>)"
    "arr 7 (index_of 21) ns \<Longrightarrow> typed (s\<lparr>historySIZE := ns\<rparr>)" "arr 3 any ns' \<Longrightarrow> typed (s\<lparr>rtc_running := ns'\<rparr>)"
    "arr 3 any ns' \<Longrightarrow> typed (s\<lparr>rtc_virtual_interupt := ns'\<rparr>)"
  using assms by (simp_all add: typed_def sched_typed_def input_typed_def)

lemma typed_free [simp]:
  "typed (s\<lparr>tss := x\<rparr>) = typed s" "typed (s\<lparr>last_esp := w\<rparr>) = typed s" "typed (s\<lparr>last_ebp := w\<rparr>) = typed s"
  "typed (s\<lparr>schedule_tick := i\<rparr>) = typed s" "typed (s\<lparr>shift_down := i\<rparr>) = typed s" "typed (s\<lparr>caps_lock := i\<rparr>) = typed s"
  "typed (s\<lparr>ctrl_down := i\<rparr>) = typed s" "typed (s\<lparr>alt_down := i\<rparr>) = typed s"
  by (simp_all add: typed_def sched_typed_def input_typed_def)

section \<open>What a partial operation yields\<close>

text \<open>\<open>yields Q m\<close>: if the operation \<open>m\<close> completes, its result satisfies \<open>Q\<close>.\<close>

definition yields :: "('a \<Rightarrow> bool) \<Rightarrow> 'a option \<Rightarrow> bool" where
  "yields Q m \<longleftrightarrow> (\<forall>x. m = Some x \<longrightarrow> Q x)"

named_theorems wp "what partial operations yield"

lemma yieldsI: "(\<And>x. m = Some x \<Longrightarrow> Q x) \<Longrightarrow> yields Q m"
  by (simp add: yields_def)

lemma yieldsD: "yields Q m \<Longrightarrow> m = Some x \<Longrightarrow> Q x"
  by (simp add: yields_def)

lemma yields_weaken: "yields R m \<Longrightarrow> (\<And>x. R x \<Longrightarrow> Q x) \<Longrightarrow> yields Q m"
  by (simp add: yields_def)

lemma yields_None [wp]: "yields Q None"
  by (simp add: yields_def)

lemma yields_Some [wp]: "Q x \<Longrightarrow> yields Q (Some x)"
  by (simp add: yields_def)

lemma yields_bind [wp]:
  assumes "yields R m" and "\<And>x. R x \<Longrightarrow> yields Q (f x)"
  shows "yields Q (Option.bind m f)"
  using assms by (auto simp: yields_def bind_eq_Some_conv)

lemma yields_any: "yields any m"
  by (simp add: yields_def)

lemma yields_case [wp]:
  assumes "yields R m" and "\<And>x. R x \<Longrightarrow> yields Q (f x)"
  shows "yields Q (case m of None \<Rightarrow> None | Some x \<Rightarrow> f x)"
  using assms by (auto simp: yields_def split: option.splits)

lemma yields_if [wp]: "(c \<Longrightarrow> yields Q m) \<Longrightarrow> (\<not> c \<Longrightarrow> yields Q n) \<Longrightarrow> yields Q (if c then m else n)"
  by simp

lemma yields_prod [wp]: "yields Q (f (fst x) (snd x)) \<Longrightarrow> yields Q (case x of (a, b) \<Rightarrow> f a b)"
  by (cases x) simp

lemma yields_aset [wp]: "arr n P xs \<Longrightarrow> P v \<Longrightarrow> yields (arr n P) (aset xs i v)"
  by (rule yieldsI) (rule arr_aset)

lemma yields_aget [wp]: "arr n P xs \<Longrightarrow> yields P (aget xs i)"
  by (rule yieldsI) (rule arr_aget)

lemma yields_aset2 [wp]: "arr n (arr m P) xs \<Longrightarrow> P v \<Longrightarrow> yields (arr n (arr m P)) (aset2 xs (i, j) v)"
  by (rule yieldsI) (rule arr_aset2)

lemma yields_aget2 [wp]: "arr n (arr m P) xs \<Longrightarrow> yields P (aget2 xs (i, j))"
  by (rule yieldsI) (rule arr_aget2)

lemma yields_loop:
  assumes "P s" "\<And>i s. P s \<Longrightarrow> yields P (body i s)"
  shows "yields P (loop_opt lo hi body s)"
  by (rule yieldsI, rule loop_opt_keeps, assumption, rule assms(1)) (rule yieldsD [OF assms(2)])

lemma yields_loop_arr [wp]:
  assumes "arr n P xs" "\<And>i xs. arr n P xs \<Longrightarrow> yields (arr n P) (body i xs)"
  shows "yields (arr n P) (loop_opt lo hi body xs)"
  by (rule yields_loop [OF assms])

lemma yields_loop_typed [wp]:
  assumes "typed s" "\<And>i s. typed s \<Longrightarrow> yields typed (body i s)"
  shows "yields typed (loop_opt lo hi body s)"
  by (rule yields_loop [OF assms])

lemmas typed_parts [wp] = typed_updates typedD typed_console [THEN iffD2] typed_free [THEN iffD2] TrueI

section \<open>The keyboard\<close>

lemma cur_row_typed [wp]: "typed s \<Longrightarrow> yields (arr 128 any) (cur_row s)"
  unfolding cur_row_def by (assumption | rule wp)+

lemma put_row_typed [wp]: "typed s \<Longrightarrow> arr 128 any row \<Longrightarrow> yields typed (put_row row s)"
  unfolding put_row_def by (assumption | rule wp)+

lemma add_counters_typed [wp]: "typed s \<Longrightarrow> yields typed (add_counters i n s)"
  unfolding add_counters_def by (assumption | rule wp)+

lemma clear_keyboard_buffer_typed [wp]: "typed s \<Longrightarrow> yields typed (clear_keyboard_buffer s)"
  unfolding clear_keyboard_buffer_def by (assumption | rule wp)+

lemma index_zero [wp]: "index_of 3 0" "index_of 8 0" "index_of 20 0" "index_of 21 0"
  by (simp_all add: index_of_def)

lemma clear_history_buffer_typed [wp]: "typed s \<Longrightarrow> yields typed (clear_history_buffer p s)"
  unfolding clear_history_buffer_def by (assumption | rule wp)+

lemma clear_all_keyboard_buffers_typed [wp]: "typed s \<Longrightarrow> yields typed (clear_all_keyboard_buffers s)"
  unfolding clear_all_keyboard_buffers_def by (assumption | rule wp)+

text \<open>Values that are only looked at.\<close>

lemma yields_values [wp]:
  "yields any (cur_idx s)" "yields any (cur_size s)" "yields any (displayed_pid s)" "yields any (translate key s)"
  by (rule yields_any)+

lemma arr_bytes: "arr n any xs \<longleftrightarrow> length xs = n"
  by (simp add: arr_def)

lemma keyboard_read_typed [wp]: "arr n any out \<Longrightarrow> yields (\<lambda>r. arr n any (snd r)) (keyboard_read fd out m s)"
proof -
  have loop: "length (snd r) = length out" if "keyboard_read_loop row m i out = Some r" for row i r
    using that
  proof (induction row m i out arbitrary: r rule: keyboard_read_loop.induct)
    case (1 row m i out)
    from 1(2) show ?case
      by (subst (asm) keyboard_read_loop.simps) (auto simp: aset_sized dest: 1(1) split: if_splits option.splits)
  qed
  then have "yields (\<lambda>r. length (snd r) = length out) (keyboard_read_loop row m 0 out)" for row by (simp add: yields_def)
  then show "arr n any out \<Longrightarrow> yields (\<lambda>r. arr n any (snd r)) (keyboard_read fd out m s)"
    by (auto simp: keyboard_read_def arr_bytes yields_def bind_eq_Some_conv)
qed

lemma shift_right_typed [wp]: "arr n any row \<Longrightarrow> yields (arr n any) (shift_right i idx row)"
proof (induction i idx row rule: shift_right.induct)
  case (1 i idx row)
  show ?case
    by (subst shift_right.simps)
      (use 1 in \<open>auto simp: yields_def arr_bytes aset_sized split: option.splits\<close>)
qed

lemma terminal_write_typed [wp]: "typed s \<Longrightarrow> yields (\<lambda>r. typed (snd r)) (terminal_write fd buf n s)"
proof (rule yieldsI)
  fix r assume s: "typed s" and "terminal_write fd buf n s = Some r"
  then have "console.more (snd r) = console.more s" using terminal_write_frame [of fd buf n s "fst r" "snd r"] by simp
  then show "typed (snd r)" using s typed_more by blast
qed

lemma keyboard_insert_typed [wp]: "typed s \<Longrightarrow> yields typed (keyboard_insert c s)"
  unfolding keyboard_insert_def Let_def by (assumption | rule wp)+

lemma keyboard_backspace_typed [wp]: "typed s \<Longrightarrow> yields typed (keyboard_backspace s)"
  unfolding keyboard_backspace_def Let_def by (assumption | rule wp)+

lemma keyboard_left_arrow_typed [wp]: "typed s \<Longrightarrow> yields typed (keyboard_left_arrow s)"
  unfolding keyboard_left_arrow_def by (assumption | rule wp)+

lemma keyboard_right_arrow_typed [wp]: "typed s \<Longrightarrow> yields typed (keyboard_right_arrow s)"
  unfolding keyboard_right_arrow_def by (assumption | rule wp)+

section \<open>The history\<close>

lemma index_next [wp]:
  "index_of 20 k \<Longrightarrow> index_of 20 ((k + 1) smod NUM_HISTORY_BUFFERS)"
  "index_of 20 k \<Longrightarrow> index_of 20 (if k - 1 < 0 then NUM_HISTORY_BUFFERS - 1 else k - 1)"
  "index_of 21 n \<Longrightarrow> n < NUM_HISTORY_BUFFERS \<Longrightarrow> index_of 21 (n + 1)"
  by (simp_all add: index_of_def NUM_HISTORY_BUFFERS_def signed_modulo_int_def)

lemma copy_to_history_typed [wp]: "typed s \<Longrightarrow> yields typed (copy_to_history s)"
  unfolding copy_to_history_def by (assumption | rule wp)+

lemma increment_history_indices_typed [wp]: "typed s \<Longrightarrow> yields typed (increment_history_indices s)"
  unfolding increment_history_indices_def by (assumption | rule wp)+

lemma history_loop_typed [wp]: "typed s \<Longrightarrow> yields typed (history_loop h i s)"
proof (induction h i s rule: history_loop.induct)
  case (1 h i s)
  have "yields typed (do { row \<leftarrow> cur_row s; row \<leftarrow> aset row i c; s \<leftarrow> put_row row s; add_counters 1 1 s })" for c
    by (rule 1(2) | assumption | rule wp)+
  then show ?case
    by (subst history_loop.simps) (use 1 in \<open>auto simp: yields_def split: option.splits\<close>)
qed

lemma show_history_typed [wp]: "typed s \<Longrightarrow> yields typed (show_history p s)"
  unfolding show_history_def Let_def by (assumption | rule wp)+

lemma up_history_typed [wp]: "typed s \<Longrightarrow> yields typed (up_history s)"
  unfolding up_history_def Let_def by (assumption | rule wp)+

lemma down_history_typed [wp]: "typed s \<Longrightarrow> yields typed (down_history s)"
  unfolding down_history_def by (assumption | rule wp)+

section \<open>The terminals\<close>

lemma set_return_switch_typed [wp]: "typed s \<Longrightarrow> yields typed (set_return_switch v s)"
  unfolding set_return_switch_def by (assumption | rule wp)+

lemma terminal_return_typed [wp]: "typed s \<Longrightarrow> yields typed (terminal_return s)"
  unfolding terminal_return_def by (assumption | rule wp)+

lemma enter_key_typed [wp]: "typed s \<Longrightarrow> yields typed (enter_key s)"
  unfolding enter_key_def by (assumption | rule wp)+

text \<open>The state in an outcome.\<close>

fun outcome_state :: "'s outcome \<Rightarrow> 's" where
  "outcome_state (Returned n s) = s"
| "outcome_state (Wait_tick s) = s"
| "outcome_state (Exec_shell s) = s"

lemma outcome_typed [wp]:
  "typed s \<Longrightarrow> typed (outcome_state (Returned n s))" "typed s \<Longrightarrow> typed (outcome_state (Wait_tick s))"
  "typed s \<Longrightarrow> typed (outcome_state (Exec_shell s))"
  by simp_all

lemma current_pid_typed [wp]: "procs_typed p \<Longrightarrow> procs_typed (p\<lparr>current_pid := SENTINEL_PROCESS\<rparr>)"
  by (simp add: procs_typed_def SENTINEL_PROCESS_def)

lemma index_request [wp]: "index_of 3 i \<Longrightarrow> -1 \<le> i" "index_of 3 i \<Longrightarrow> i < 3"
  by (simp_all add: index_of_def)

lemma saved_screen_typed [wp]:
  "arr 4000 any (vid_data d) \<Longrightarrow> arr 4000 any (vid_data (d\<lparr>cursor_x := x, cursor_y := y\<rparr>))"
  by simp

lemma terminal_switch_typed:
  assumes "typed s" and num: "index_of 3 (uint num)"
  shows "yields (\<lambda>r. typed (outcome_state r)) (terminal_switch num s)"
  unfolding terminal_switch_def Let_def
  by (rule assms(1) num | assumption | rule wp)+

lemma stay_typed [wp]:
  "typed s \<Longrightarrow> typed (outcome_state (stay s))" "yields typed m \<Longrightarrow> yields (\<lambda>r. typed (outcome_state r)) (map_option stay m)"
  by (auto simp: stay_def yields_def)

lemma terminal_keys [wp]:
  "typed s \<Longrightarrow> yields (\<lambda>r. typed (outcome_state r)) (terminal_switch 0 s)"
  "typed s \<Longrightarrow> yields (\<lambda>r. typed (outcome_state r)) (terminal_switch 1 s)"
  "typed s \<Longrightarrow> yields (\<lambda>r. typed (outcome_state r)) (terminal_switch 2 s)"
  by (rule terminal_switch_typed, assumption, simp add: index_of_def)+

lemma handle_keyboard_input_typed [wp]: "typed s \<Longrightarrow> yields (\<lambda>r. typed (outcome_state r)) (handle_keyboard_input key s)"
  unfolding handle_keyboard_input_def Let_def by (assumption | rule wp)+

lemma handle_keyboard_typed [wp]:
  assumes "typed s"
  shows "yields (\<lambda>r. typed (outcome_state r)) (handle_keyboard key s)"
proof -
  have "typed ((cli s)\<lparr>video_mem := VIDEO\<rparr>)" using assms by simp
  note i = handle_keyboard_input_typed [OF this, of "ucast key"]
  have "typed (outcome_state (case r of Returned v s' \<Rightarrow> Returned v (restore_flags f (send_eoi IRQ1 (s'\<lparr>video_mem := a\<rparr>)))
      | Wait_tick s' \<Rightarrow> Wait_tick s' | Exec_shell s' \<Rightarrow> Exec_shell s'))" if "typed (outcome_state r)" for r :: "'a kernel_scheme outcome" and f a
    using that by (cases r) simp_all
  then show ?thesis unfolding handle_keyboard_def Let_def by (intro yields_bind [OF i] yields_Some)
qed

lemma serve_key_typed [wp]: "typed s \<Longrightarrow> yields typed (serve_key key s)"
  using handle_keyboard_typed [of s key] by (auto simp: serve_key_def yields_def split: option.splits outcome.splits)

lemma yields_spin [wp]:
  assumes "typed s" "\<And>e s. typed s \<Longrightarrow> yields typed (h e s)"
  shows "yields (\<lambda>r. typed (fst r)) (spin cond h es s)"
proof (rule yieldsI)
  fix r assume r: "spin cond h es s = Some r"
  then have "spin cond h es s = Some (fst r, snd r)" by simp
  then show "typed (fst r)" by (rule spin_keeps [where P = typed, OF _ assms(1)]) (rule yieldsD [OF assms(2)])
qed

lemma yields_others [wp]: "yields any (newline_scan row i)" "yields any (strncpy d r n)"
  by (rule yields_any)+

lemma reply_typed [wp]: "typed s \<Longrightarrow> typed (snd (n, s))"
  by simp

lemma terminal_read_typed [wp]: "typed s \<Longrightarrow> yields (\<lambda>r. typed (snd r)) (terminal_read keys fd buf n s)"
  unfolding terminal_read_def Let_def by (assumption | rule wp)+

lemma get_fd_yields [wp]: "yields any (get_fd p fd)" "yields any (aget2 xs ij)"
  by (rule yields_any)+

lemma put_fd_yields [wp]: "procs_typed p \<Longrightarrow> yields procs_typed (put_fd p fd b)"
  by (rule yieldsI) (rule put_fd_typed)

lemma terminal_close_typed [wp]: "typed s \<Longrightarrow> yields (\<lambda>r. typed (snd r)) (terminal_close fd s)"
  unfolding terminal_close_def by (assumption | rule wp)+

lemma keyboard_close_typed [wp]:
  assumes "typed s"
  shows "yields (\<lambda>r. typed (snd r)) (keyboard_close fd s)"
proof (rule yieldsI)
  fix r assume "keyboard_close fd s = Some r"
  then obtain c b t p where a: "get_cb (ps s) (current_terminal s) = Some c" "aset (fd_table c) 0 b = Some t"
    "put_cb (ps s) (current_terminal s) (c\<lparr>fd_table := t\<rparr>) = Some p" and r: "r = (0, s\<lparr>ps := p\<rparr>)"
    by (auto simp: keyboard_close_def bind_eq_Some_conv)
  have "procs_typed p"
    by (rule put_alike_typed [OF typedD(1) [OF assms] a(1,3)]) (simp add: alike_def aset_sized [OF a(2)])
  then show "typed (snd r)" using typed_updates(1) [OF assms] r by simp
qed

lemma switch_data_typed [wp]: "arr 4000 any v \<Longrightarrow> arr 4000 any (vid_data \<lparr>vid_data = v, cursor_x = x, cursor_y = y\<rparr>)"
  by simp

lemma word_small [wp]: "(0 :: u8) < 7"
  by simp

lemma clear_read_buffer_typed [wp]: "typed s \<Longrightarrow> yields typed (clear_read_buffer s)"
  unfolding clear_read_buffer_def by (assumption | rule wp)+

lemma terminal_open_typed [wp]: "typed s \<Longrightarrow> yields (\<lambda>r. typed (snd r)) (terminal_open s)"
  unfolding terminal_open_def clear_all_read_buffers_def Let_def by (assumption | rule wp)+

section \<open>The clock\<close>

lemma handle_RTC_typed [wp]: "typed s \<Longrightarrow> yields typed (handle_RTC dev s)"
  unfolding handle_RTC_def Let_def by (assumption | rule wp)+

lemma rtc_read_typed [wp]: "typed s \<Longrightarrow> yields (\<lambda>r. typed (snd r)) (rtc_read dev ints fd s)"
  unfolding rtc_read_def Let_def by (assumption | rule wp)+

lemma yields_rate [wp]: "yields any (passed_rate m a b n)" "yields any (rtc_in_use r p i)" "yields any (fd_scan k p i)"
  by (rule yields_any)+

lemma yields_sum [wp]:
  "(\<And>a. yields Q (f a)) \<Longrightarrow> (\<And>b. yields Q (g b)) \<Longrightarrow> yields Q (case x of Inl a \<Rightarrow> f a | Inr b \<Rightarrow> g b)"
  by (cases x) simp_all

lemma rtc_write_typed [wp]: "typed s \<Longrightarrow> yields (\<lambda>r. typed (snd r)) (rtc_write dev junk fd m a n s)"
  unfolding rtc_write_def Let_def by (assumption | rule wp)+

lemma rtc_open_typed [wp]: "typed s \<Longrightarrow> yields (\<lambda>r. typed (snd r)) (rtc_open dev junk s)"
  unfolding rtc_open_def Let_def by (assumption | rule wp)+

lemma procs_reply [wp]: "procs_typed p \<Longrightarrow> procs_typed (snd (n, p))"
  by simp

lemma rtc_close_fd_typed [wp]: "procs_typed p \<Longrightarrow> yields (\<lambda>r. procs_typed (snd r)) (rtc_close_fd fd p)"
  unfolding rtc_close_fd_def by (assumption | rule wp)+

lemma rtc_close_typed [wp]: "typed s \<Longrightarrow> yields (\<lambda>r. typed (snd r)) (rtc_close fd s)"
proof -
  assume s: "typed s"
  have "typed ((if b then sti else id) u) = typed u" for b and u :: "'a kernel_scheme" by simp
  then show ?thesis unfolding rtc_close_def by (intro yields_bind [OF rtc_close_fd_typed [OF typedD(1) [OF s]]] yields_prod yields_Some reply_typed)
      (use s typed_updates(1) [of "cli s"] in simp)
qed

section \<open>The scheduler and the address space\<close>

lemma set_program_page_typed [wp]: "typed s \<Longrightarrow> yields typed (set_program_page s)"
  unfolding set_program_page_def by (assumption | rule wp)+

lemma link_video_table_typed [wp]: "typed s \<Longrightarrow> yields typed (link_video_table pt s)"
  unfolding link_video_table_def Let_def by (assumption | rule wp)+

lemma set_video_page_typed [wp]: "typed s \<Longrightarrow> yields typed (set_video_page pt a s)"
  unfolding set_video_page_def by (assumption | rule wp)+

lemma execute_paging_typed [wp]: "typed s \<Longrightarrow> yields typed (execute_paging pt s)"
  unfolding execute_paging_def by (assumption | rule wp)+

lemma paging_init_typed [wp]: "typed s \<Longrightarrow> yields typed (paging_init pt s)"
  unfolding paging_init_def fill_pages_def by (assumption | rule wp)+

lemma stack_entry: "procs_typed p \<Longrightarrow> (of_int (current_pid p) :: u8) < 7"
  by (auto simp: procs_typed_def word_less_def unsigned_of_int take_bit_int_eq_self)

lemma schedule_typed [wp]:
  assumes "typed s"
  shows "yields typed (schedule s)"
proof (rule yieldsI)
  fix u assume "schedule s = Some u"
  then obtain t tops st where a: "aget (schedule_top s) (current_terminal s) = Some t"
    "aset (schedule_top s) (current_terminal s) (t + 1) = Some tops"
    "aset2 (schedule_stack s) (current_terminal s, t) (of_int (current_pid (ps s))) = Some st"
    and u: "u = s\<lparr>schedule_top := tops, schedule_stack := st\<rparr>"
    by (auto simp: schedule_def bind_eq_Some_conv Let_def)
  note d = typedD [OF assms]
  have "index_of 7 t" using aset2_index(2) [OF a(3) d(5)] by simp
  then have t: "index_of 8 (t + 1)" by (simp add: index_of_def)
  show "typed u" unfolding u
    by (intro typed_updates assms arr_aset [OF a(2) d(4) t] arr_aset2 [OF a(3) d(5)] stack_entry [OF d(1)])
qed

lemma deschedule_typed [wp]:
  assumes "typed s"
  shows "yields typed (deschedule s)"
proof (rule yieldsI)
  fix u assume "deschedule s = Some u"
  then obtain t st eb es tops where a: "aget (schedule_top s) (current_process s) = Some t"
    "aset2 (schedule_stack s) (current_process s, t - 1) 0 = Some st"
    "aset2 (schedule_ebp s) (current_process s, t - 1) 0 = Some eb" "aset2 (schedule_esp s) (current_process s, t - 1) 0 = Some es"
    "aset (schedule_top s) (current_process s) (t - 1) = Some tops"
    and u: "u = s\<lparr>schedule_stack := st, schedule_ebp := eb, schedule_esp := es, schedule_top := tops\<rparr>"
    by (auto simp: deschedule_def bind_eq_Some_conv Let_def)
  note d = typedD [OF assms]
  have "index_of 7 (t - 1)" using aset2_index(2) [OF a(2) d(5)] by simp
  then have t: "index_of 8 (t - 1)" by (simp add: index_of_def)
  show "typed u" unfolding u
    by (intro typed_updates assms arr_aset [OF a(5) d(4) t] arr_aset2 [OF a(2) d(5)] arr_aset2 [OF a(3) d(8)]
        arr_aset2 [OF a(4) d(7)] TrueI) simp
qed

lemma save_context_typed [wp]: "typed s \<Longrightarrow> yields typed (save_context tp s)"
  unfolding save_context_def by (assumption | rule wp)+

lemma switch_process_typed [wp]: "procs_typed p \<Longrightarrow> (b :: u8) < 7 \<Longrightarrow> procs_typed (p\<lparr>current_pid := uint b\<rparr>)"
  by (simp add: procs_typed_def word_less_def)

lemma restore_context_typed [wp]: "typed s \<Longrightarrow> yields typed (restore_context pt tp s)"
  unfolding restore_context_def Let_def by (assumption | rule wp)+

lemma next_running_index [wp]: "arr 3 (index_of 8) tops \<Longrightarrow> yields (index_of 3) (next_running tops n)"
  using next_running_runnable aget_index [of tops _ _ 3 "index_of 8"] by (fastforce simp: yields_def)

lemma next_terminal_index [wp]: "typed s \<Longrightarrow> yields (index_of 3) (next_terminal junk s)"
proof -
  assume s: "typed s"
  then have "terminal_request s \<in> {-1, 0, 1, 2}" by (auto simp: typed_def sched_typed_def)
  moreover have "yields (index_of 3) (next_running (schedule_top s) n)" for n by (rule next_running_index [OF typedD(4) [OF s]])
  ultimately show ?thesis by (auto simp: next_terminal_def yields_def index_of_def)
qed

lemma no_request: "typed s \<Longrightarrow> typed (s\<lparr>terminal_request := -1\<rparr>)"
  by (simp add: typed_updates)

lemma timer_handler_typed [wp]: "typed s \<Longrightarrow> yields typed (timer_handler pt junk s)"
  unfolding timer_handler_def Let_def by (assumption | rule no_request | rule wp)+

section \<open>The system calls\<close>

lemma system_free [simp]: "typed (s\<lparr>fs := F\<rparr>) = typed s" "typed (s\<lparr>rtc_ptr := r\<rparr>) = typed s"
  by (simp_all add: typed_def sched_typed_def input_typed_def)

lemma take_slot_typed [wp]: "procs_typed p \<Longrightarrow> yields (\<lambda>r. procs_typed (snd r)) (take_slot full blk p)"
  unfolding take_slot_def by (auto simp: yields_def put_fd_typed split: option.splits sum.splits)

lemma file_ops_typed [wp]:
  "procs_typed p \<Longrightarrow> yields (\<lambda>r. procs_typed (snd r)) (file_open F d name p)"
  "procs_typed p \<Longrightarrow> yields (\<lambda>r. procs_typed (snd r)) (directory_open F d name p)"
  "procs_typed p \<Longrightarrow> yields (\<lambda>r. procs_typed (snd r)) (file_close fd p)"
  "procs_typed p \<Longrightarrow> yields (\<lambda>r. procs_typed (snd r)) (directory_close fd p)"
  using take_slot_typed [of p]
  by (auto simp: file_open_def directory_open_def file_close_def directory_close_def yields_def put_fd_typed split: option.splits)

lemma advance_typed: "procs_typed p \<Longrightarrow> advance p fd b i = Some p' \<Longrightarrow> procs_typed p'"
  unfolding advance_def by (rule put_fd_typed)

lemma read_loop_typed:
  "procs_typed p \<Longrightarrow> yields (\<lambda>r. procs_typed (snd (snd r))) (read_loop F p fd b num a len m i j loop dp)"
proof (induction F p fd b num a len m i j loop dp rule: read_loop.induct)
  case (1 F p fd b num a len m i j loop dp)
  let ?Q = "yields (\<lambda>r. procs_typed (snd (snd r)))"
  show ?case
  proof (cases "len \<noteq> i \<and> i \<noteq> num \<and> \<not> file_position b + i \<ge> num")
    case True
    note ih = 1(1,2) [OF _ _ _ refl refl refl _ 1(3)]
    show ?thesis by (subst read_loop.simps) (use True ih in \<open>simp add: Let_def fun_upd_def\<close>)
  next
    case False
    then show ?thesis
      by (subst read_loop.simps) (use 1(3) in \<open>auto simp: yields_def advance_typed split: option.splits if_splits\<close>)
  qed
qed

lemma file_read_typed [wp]:
  "procs_typed p \<Longrightarrow> yields (\<lambda>r. procs_typed (snd (snd r))) (file_read F p fd m a n)"
  using read_loop_typed [of p]
  by (auto simp: file_read_def read_data_def yields_def Let_def split: option.splits)

lemma directory_read_typed [wp]:
  assumes "procs_typed p"
  shows "yields (\<lambda>r. procs_typed (snd (snd r))) (directory_read F d p fd m a n)"
proof (rule yieldsI)
  fix r assume "directory_read F d p fd m a n = Some r"
  then have "directory_read_loop F d fd m a 0 n p = Some r" by (simp add: directory_read_def)
  moreover have "procs_typed p \<longrightarrow> procs_typed (snd (snd r))" if "directory_read_loop F d fd m a i n p = Some r" for F d fd m a i n p r
    by (rule directory_read_loop.raw_induct [OF _ that, of "\<lambda>F d fd m a i n p r. procs_typed p \<longrightarrow> procs_typed (snd (snd r))"])
      (auto simp: Let_def put_fd_typed split: option.splits if_splits prod.splits)
  ultimately show "procs_typed (snd (snd r))" using assms by blast
qed

lemma store_result_typed [wp]:
  "typed s \<Longrightarrow> yields (\<lambda>r. procs_typed (snd (snd r))) m \<Longrightarrow> yields (\<lambda>r. typed (snd r)) (store_result m s)"
  by (auto simp: store_result_def yields_def bind_eq_Some_conv typed_updates)

lemma on_procs_typed [wp]:
  "typed s \<Longrightarrow> yields (\<lambda>r. procs_typed (snd r)) m \<Longrightarrow> yields (\<lambda>r. typed (snd r)) (on_procs m s)"
  by (auto simp: on_procs_def yields_def bind_eq_Some_conv typed_updates)

lemma on_video_typed [wp]:
  assumes "\<And>a. yields (\<lambda>r. typed (snd r)) (f (s\<lparr>video_mem := a\<rparr>))"
  shows "yields (\<lambda>r. typed (snd r)) (on_video pt f s)"
  using assms by (fastforce simp: on_video_def yields_def bind_eq_Some_conv)

lemma call_read_typed [wp]: "typed s \<Longrightarrow> yields (\<lambda>r. typed (snd r)) (call_read pt e f fd a n s)"
  unfolding call_read_def by (cases f; simp only: read_fn.case) (assumption | rule wp)+

lemma call_write_typed [wp]: "typed s \<Longrightarrow> yields (\<lambda>r. typed (snd r)) (call_write pt e f fd a n s)"
  unfolding call_write_def by (cases f; simp only: write_fn.case) (assumption | rule wp)+

lemma call_close_typed [wp]: "typed s \<Longrightarrow> yields (\<lambda>r. typed (snd r)) (call_close f fd s)"
  unfolding call_close_def by (cases f; simp only: close_fn.case) (assumption | rule wp)+

lemma yields_lookup [wp]:
  "yields any (op_read t)" "yields any (op_write t)" "yields any (op_close t)" "yields any (walk pt s u v)"
  "yields any (read_dentry_by_name F name d)" "yields any (get_cb p i)" "yields any (strlen xs)" "yields any (strncmp xs ys n)"
  "yields any (string_arg pt s v)" "yields any (skip_spaces c i)"
  by (rule yields_any)+

lemma yields_default [wp]:
  "yields Q d \<Longrightarrow> (\<And>x. yields Q (f x)) \<Longrightarrow> yields Q (case m of None \<Rightarrow> d | Some x \<Rightarrow> f x)"
  by (cases m) simp_all

lemma read_call_typed [wp]: "typed s \<Longrightarrow> yields (\<lambda>r. typed (snd r)) (read_call pt e fd a n s)"
  unfolding read_call_def Let_def by (assumption | rule yields_default | rule wp)+

lemma write_call_typed [wp]: "typed s \<Longrightarrow> yields (\<lambda>r. typed (snd r)) (write_call pt e fd a n s)"
  unfolding write_call_def Let_def by (assumption | rule yields_default | rule wp)+

lemma open_call_typed [wp]: "typed s \<Longrightarrow> yields (\<lambda>r. typed (snd r)) (open_call e name s)"
  unfolding open_call_def Let_def by (assumption | rule yields_default | rule wp)+

lemma close_call_typed [wp]: "typed s \<Longrightarrow> yields (\<lambda>r. typed (snd r)) (close_call fd s)"
  unfolding close_call_def Let_def by (assumption | rule yields_default | rule wp)+

lemma clear_args_yields [wp]: "procs_typed p \<Longrightarrow> yields procs_typed (clear_args p)"
  by (rule yieldsI) (rule clear_args_typed)

lemma getargs_typed [wp]: "typed s \<Longrightarrow> yields (\<lambda>r. typed (snd r)) (getargs pt a n s)"
  unfolding getargs_def Let_def by (assumption | rule wp)+

lemma vidmap_typed [wp]: "typed s \<Longrightarrow> yields (\<lambda>r. typed (snd r)) (vidmap pt a s)"
  unfolding vidmap_def Let_def by (assumption | rule wp)+

section \<open>Starting and ending programs\<close>

lemma note_shell_typed [wp]: "typed s \<Longrightarrow> yields typed (note_shell cmd s)"
  unfolding note_shell_def by (assumption | rule wp)+

lemma mark_running_typed [wp]: "typed s \<Longrightarrow> yields typed (mark_running s)"
  unfolding mark_running_def by (assumption | rule wp)+

lemma load_file_typed [wp]: "typed s \<Longrightarrow> yields (\<lambda>r. typed (snd r)) (load_file pt e frame cmd s)"
  unfolding load_file_def by (assumption | rule wp)+

lemma start_process_typed [wp]:
  assumes "typed s"
  shows "yields (\<lambda>r. typed (snd r)) (start_process pt frame temp command cmd i s)"
proof (rule yieldsI)
  fix r assume "start_process pt frame temp command cmd i s = Some r"
  then obtain n p p1 s1 p2 p3 j s2 s3 s4 m s5 where a: "create_new_pcb (current_pid (ps s)) (ps s) = Some (n, p)"
    "set_stack_pos n temp (p\<lparr>current_pid := n\<rparr>) = Some p1" "note_shell cmd (s\<lparr>ps := p1\<rparr>) = Some s1"
    "load_pcb n KERNEL_DS (kernel_stack n) (ps s1) = Some p2" "pass_args (drop (nat j) command) p2 = Some p3"
    "execute_paging pt (s1\<lparr>tss := \<lparr>ss0 = KERNEL_DS, esp0 = kernel_stack n\<rparr>, ps := p3\<rparr>) = Some s2"
    "clear_keyboard_buffer s2 = Some s3" "clear_history_buffer n s3 = Some s4"
    "mark_running (s4\<lparr>video_mem := VIDMAP, vid := m\<rparr>) = Some s5" "schedule s5 = Some (snd r)"
    by (auto simp: start_process_def bind_eq_Some_conv Let_def)
  note d = typedD [OF assms]
  have p: "procs_typed p" using create_new_pcb_typed [OF d(1) a(1)] d(1) by (simp add: procs_typed_def)
  have "get_cb p n \<noteq> None" using a(2) by (auto simp: set_stack_pos_def bind_eq_Some_conv get_cb_def)
  then have n: "0 \<le> n" "n < 7" using get_cb_typed [OF p] by auto
  then have "procs_typed (p\<lparr>current_pid := n\<rparr>)" using p by (simp add: procs_typed_def)
  then have "procs_typed p1" using set_stack_pos_typed [OF _ a(2)] by blast
  then have s1: "typed s1" by (intro yieldsD [OF note_shell_typed a(3)] typed_updates assms)
  then have "procs_typed p3" by (intro pass_args_typed [OF load_pcb_typed a(5)]) (auto intro: typedD a(4))
  then have "typed s2" by (intro yieldsD [OF execute_paging_typed a(6)] typed_updates) (simp add: s1)
  then have "typed s4" by (intro yieldsD [OF clear_history_buffer_typed a(8)] yieldsD [OF clear_keyboard_buffer_typed a(7)])
  then show "typed (snd r)" by (intro yieldsD [OF schedule_typed a(10)] yieldsD [OF mark_running_typed a(9)]) simp
qed

text \<open>The state in the result of \<open>execute\<close> and of a system call.\<close>

fun result_state :: "'s exec_result \<Rightarrow> 's" where
  "result_state (Failed n s) = s"
| "result_state (Enter_program a s) = s"

lemma result_typed [wp]:
  "typed s \<Longrightarrow> typed (result_state (Failed n s))" "typed s \<Longrightarrow> typed (result_state (Enter_program a s))"
  by simp_all

lemma yields_word [wp]: "yields any (copy_word c d i)" "yields any (aset (xs :: u8 list) i v)"
  by (rule yields_any)+

lemma execute_typed [wp]: "typed s \<Longrightarrow> yields (\<lambda>r. typed (result_state r)) (execute pt e frame temp arg s)"
proof -
  assume s: "typed s"
  note any = yields_word(2)
  show ?thesis unfolding execute_def
    by (rule s | assumption | rule yields_default any | rule wp)+
qed

lemma halt_typed [wp]:
  assumes "typed s"
  shows "yields typed (halt status s)"
proof (rule yieldsI)
  fix r assume "halt status s = Some r"
  then obtain c q p d t where a: "get_cb (ps s) (current_pid (ps s)) = Some c"
    "destroy_pcb (current_pid (ps s)) ((ps s)\<lparr>past_pid := current_pid (ps s)\<rparr>) = Some (q, p)"
    "set_program_page (loop_up 2 FDT_SIZE pcb_close ((cli s)\<lparr>ps := p\<lparr>current_pid := parent c\<rparr>, tss := t\<rparr>)) = Some r"
    by (auto simp: halt_def bind_eq_Some_conv Let_def cli_def)
  note d = typedD [OF assms]
  have "procs_typed p" using destroy_pcb_typed [OF _ a(2)] d(1) by (simp add: procs_typed_def)
  then have "procs_typed (p\<lparr>current_pid := parent c\<rparr>)" using get_cb_typed [OF d(1) a(1)] by (simp add: procs_typed_def pcb_typed_def)
  then have "typed ((cli s)\<lparr>ps := p\<lparr>current_pid := parent c\<rparr>, tss := t\<rparr>)" using typed_updates(1) [of "cli s"] assms by simp
  then show "typed r" using yieldsD [OF set_program_page_typed a(3)] by (simp add: pcb_close_loop)
qed

lemma halted_typed [wp]: "typed s \<Longrightarrow> yields (\<lambda>r. typed (outcome_state (snd r))) (halted status s)"
  unfolding halted_def Let_def by (assumption | rule wp | simp)+

lemma halt_call_typed [wp]: "typed s \<Longrightarrow> yields (\<lambda>r. typed (outcome_state (snd r))) (halt_call status s)"
  unfolding halt_call_def by (assumption | rule wp)+

fun reply_state :: "'s reply \<Rightarrow> 's" where
  "reply_state (Reply n s) = s"
| "reply_state (Enter a s) = s"
| "reply_state (Ended sp r) = outcome_state r"

lemma value_reply_typed [wp]:
  "yields (\<lambda>r. typed (snd r)) m \<Longrightarrow> yields (\<lambda>r. typed (reply_state r)) (value_reply m)"
  by (auto simp: value_reply_def yields_def)

lemma execute_reply_state: "reply_state (case_exec_result Reply Enter r) = result_state r"
  by (cases r) simp_all

lemma syscalltable_typed [wp]: "typed s \<Longrightarrow> yields (\<lambda>r. typed (reply_state r)) (syscalltable pt e frame temp i b c d s)"
proof -
  assume s: "typed s"
  have "yields (\<lambda>r. typed (reply_state r)) (map_option (\<lambda>(sp, r). Ended sp r) (halt_call (ucast b) s))"
    using halt_call_typed [OF s, of "ucast b"] by (auto simp: yields_def)
  moreover have "yields (\<lambda>r. typed (reply_state r)) (execute_reply (execute pt e frame temp a s))" for a
    using execute_typed [OF s, of pt e frame temp a] by (auto simp: yields_def execute_reply_def execute_reply_state)
  moreover have "typed (snd (set_handler h w s))" "typed (snd (sigreturn s))" for h w
    using s by (simp_all add: set_handler_def sigreturn_def Let_def)
  ultimately show ?thesis unfolding syscalltable_def
    by (intro yields_if yields_bind [OF yields_any] value_reply_typed yields_Some yields_None wp s)
qed

lemma iret_typed: "typed (reply_state (iret_flag f r)) = typed (reply_state r)"
  by (cases r) (simp_all add: iret_flag_def)

lemma system_call_typed: "typed s \<Longrightarrow> yields (\<lambda>r. typed (reply_state r)) (system_call pt e frame temp a b c d s)"
  using syscalltable_typed [of "cli s" pt e frame temp "a - 1" b c d]
  by (auto simp: system_call_def Let_def yields_def iret_typed split: if_splits)

section \<open>Printing\<close>

lemma puts_frame: "puts str s = Some (n, t) \<Longrightarrow> console.more t = console.more s"
proof -
  have "puts_loop str i s = Some (n, t) \<Longrightarrow> console.more t = console.more s" for i
  proof (induction str i s rule: puts_loop.induct)
    case (1 str i s)
    from 1(2) show ?case
      by (subst (asm) puts_loop.simps) (use 1(1) in \<open>auto split: if_splits option.splits\<close>)
  qed
  then show "puts str s = Some (n, t) \<Longrightarrow> console.more t = console.more s" by (simp add: puts_def)
qed

lemma puts_out_frame: "puts_out str s = Some t \<Longrightarrow> console.more t = console.more s"
  by (auto simp: puts_out_def bind_eq_Some_conv dest: puts_frame)

lemma print_frame:
  "print_hex junk b v s = Some t \<Longrightarrow> console.more t = console.more s"
  "print_unsigned junk v s = Some t \<Longrightarrow> console.more t = console.more s"
  "print_signed junk v s = Some t \<Longrightarrow> console.more t = console.more s"
  by (auto simp: print_hex_def print_unsigned_def print_signed_def Let_def bind_eq_Some_conv dest: puts_out_frame split: if_splits)

lemma convert_frame: "convert junk c b arg s = Some (rest, t) \<Longrightarrow> console.more t = console.more s"
  by (auto simp: convert_def bind_eq_Some_conv dest: print_frame puts_out_frame split: if_splits list.splits printf_arg.splits)

lemma printf_frame: "printf junk format arg s = Some (n, t) \<Longrightarrow> console.more t = console.more s"
proof -
  have "printf_loop junk format i arg s = Some (n, t) \<Longrightarrow> console.more t = console.more s" for i
  proof (induction junk format i arg s rule: printf_loop.induct)
    case (1 junk format i arg s)
    from 1(3) show ?case
      by (subst (asm) printf_loop.simps)
        (use 1(1,2) in \<open>auto dest: convert_frame split: if_splits option.splits prod.splits\<close>)
  qed
  then show "printf junk format arg s = Some (n, t) \<Longrightarrow> console.more t = console.more s" by (simp add: printf_def)
qed

lemma say_typed [wp]: "typed s \<Longrightarrow> yields typed (Boot.say junk format arg s)"
  by (auto simp: Boot.say_def yields_def bind_eq_Some_conv dest: printf_frame typed_more)

lemma exception_say_typed [wp]: "typed s \<Longrightarrow> yields typed (Exceptions.say pt junk t s)"
proof -
  assume s: "typed s"
  have "yields (\<lambda>r. typed (snd r)) (printf junk (c_string t) [] (s\<lparr>video_mem := a\<rparr>))" for a
    using s by (auto simp: yields_def dest!: printf_frame typed_more)
  then have "yields (\<lambda>r. typed (snd r)) (on_video pt (printf junk (c_string t) []) s)" by (rule on_video_typed)
  then show ?thesis unfolding Exceptions.say_def by (auto simp: yields_def bind_eq_Some_conv)
qed

end
