(* ===== verification/Kernel_Steps.thy ===== *)
theory Kernel_Steps
  imports Kernel_Types
begin

text \<open>
  The kernel as a state machine: from the state in which the boot enters the first program, the
  programs run, make system calls and cause exceptions, and the timer, the clock and the keyboard
  interrupt them. Every state that is reached is typed, so that the interrupts of the timer and
  the clock never access an array outside its bounds.
\<close>

section \<open>The boot\<close>

lemma typed_machine: "machine.more t = machine.more s \<Longrightarrow> typed t = typed s"
  by (rule typed_more) (cases s; cases t; simp)

lemma boot_free [simp]: "typed (s\<lparr>idt := t\<rparr>) = typed s" "typed (s\<lparr>color_flag := c\<rparr>) = typed s"
  by (simp_all add: typed_def sched_typed_def input_typed_def)

lemma started_free [simp]:
  "typed (s\<lparr>ldt_desc_ptr := d\<rparr>) = typed s" "typed (s\<lparr>tss_desc_ptr := d\<rparr>) = typed s"
  "typed (s\<lparr>ldt_segment_selector := w\<rparr>) = typed s" "typed (s\<lparr>ldt_register := w\<rparr>) = typed s"
  "typed (s\<lparr>task_register := w\<rparr>) = typed s"
  by (simp_all add: typed_def sched_typed_def input_typed_def)

lemma initialize_IDT_typed [wp]: "typed s \<Longrightarrow> yields typed (initialize_IDT address temp s)"
  by (rule yieldsI) (simp add: typed_machine [OF initialize_IDT_frame])

lemma PIT_init_typed [wp]: "typed s \<Longrightarrow> typed (PIT_init dev s)"
  by (simp add: PIT_init_def Let_def typed_updates index_of_def)

lemma keyboard_init_typed [wp]: "typed s \<Longrightarrow> yields typed (keyboard_init dev s)"
  unfolding keyboard_init_def keyboard_open_def by (auto simp: yields_def bind_eq_Some_conv dest: yieldsD [OF clear_all_keyboard_buffers_typed])

lemma rtc_optable_typed [wp]: "typed s \<Longrightarrow> typed (rtc_optable s)"
  using typed_updates(1) [of "s\<lparr>rtc_ptr := Some Rtc_table\<rparr>"] typedD(1) [of s] by (simp add: rtc_optable_def procs_typed_def)

lemma RTC_init_typed [wp]: "typed s \<Longrightarrow> yields typed (RTC_init dev s)"
  unfolding RTC_init_def Let_def by (assumption | rule wp)+

lemma procs_tables_typed:
  "procs_typed (p\<lparr>tables := t\<rparr>) = procs_typed p" "procs_typed (p\<lparr>stdout_ptr := a\<rparr>) = procs_typed p"
  "procs_typed (p\<lparr>stdin_ptr := a\<rparr>) = procs_typed p" "procs_typed (p\<lparr>file_ptr := a\<rparr>) = procs_typed p"
  "procs_typed (p\<lparr>dir_ptr := a\<rparr>) = procs_typed p" "procs_typed (p\<lparr>num_active_processes := n\<rparr>) = procs_typed p"
  by (simp_all add: procs_typed_def)

lemma block_loops_typed:
  "procs_typed p \<Longrightarrow> yields procs_typed (init_std i p)" "procs_typed p \<Longrightarrow> yields procs_typed (init_rest i p)"
proof -
  have args: "alike c d" if "clear_args_buffer c = Some d" for c d
    using that unfolding clear_args_buffer_def
    by (rule loop_opt_keeps [where P = "alike c"]) (auto simp: alike_def aset_sized split: option.splits)
  show "procs_typed p \<Longrightarrow> yields procs_typed (init_std i p)"
    by (auto simp: init_std_def yields_def alike_def aset_sized elim!: put_alike_typed split: option.splits)
  show "procs_typed p \<Longrightarrow> yields procs_typed (init_rest i p)"
    by (auto simp: init_rest_def yields_def alike_def elim!: put_alike_typed dest!: free_fds_alike args split: option.splits)
qed

lemma process_control_block_init_typed [wp]:
  assumes "procs_typed p"
  shows "yields (\<lambda>r. procs_typed (snd r)) (process_control_block_init p)"
proof -
  have "procs_typed p \<Longrightarrow> yields procs_typed (loop_opt lo hi init_std p)" "procs_typed p \<Longrightarrow> yields procs_typed (loop_opt lo hi init_rest p)"
    for lo hi p by (rule yields_loop, assumption, rule block_loops_typed, assumption)+
  note loops = this
  show ?thesis unfolding process_control_block_init_def Let_def
    by (rule yields_case yields_Some loops procs_reply procs_tables_typed [THEN iffD2] assms | assumption)+
qed

lemma first_process_init_typed [wp]:
  assumes "procs_typed p"
  shows "yields (\<lambda>r. procs_typed (snd r)) (first_process_init a b p)"
proof (rule yieldsI)
  fix r assume "first_process_init a b p = Some r"
  then obtain c p2 where c: "get_cb (p\<lparr>current_pid := SENTINEL_PROCESS\<rparr>) SENTINEL_PROCESS = Some c"
    "put_cb (p\<lparr>current_pid := SENTINEL_PROCESS\<rparr>) SENTINEL_PROCESS
      (c\<lparr>pid := SENTINEL_PROCESS, parent := SENTINEL_PROCESS, ss := a, esp := b\<rparr>) = Some p2"
    "loop_opt 1 TOTAL_PROCESSES (\<lambda>i p. case get_cb p i of None \<Rightarrow> None | Some c \<Rightarrow> put_cb p i (c\<lparr>pid := -1\<rparr>)) p2 = Some (snd r)"
    by (auto simp: first_process_init_def Let_def split: option.splits)
  have p: "procs_typed (p\<lparr>current_pid := SENTINEL_PROCESS\<rparr>)" using assms by (rule current_pid_typed)
  have "pcb_typed (c\<lparr>pid := SENTINEL_PROCESS, parent := SENTINEL_PROCESS, ss := a, esp := b\<rparr>)"
    using get_cb_typed [OF p c(1)] by (simp add: pcb_typed_def pcb_wf_def SENTINEL_PROCESS_def)
  then have "procs_typed p2" by (rule put_cb_typed [OF p _ c(2)])
  then show "procs_typed (snd r)"
    by (rule loop_opt_keeps [OF c(3)]) (auto simp: alike_def elim: put_alike_typed split: option.splits)
qed

lemma initialise_typed [wp]: "typed s \<Longrightarrow> yields typed (initialise im dev s)"
  unfolding initialise_def Let_def by (assumption | rule wp)+

text \<open>The state in which the boot ends.\<close>

fun end_state :: "'s boot_end \<Rightarrow> 's" where
  "end_state (Returned_early s) = s"
| "end_state (Spinning s) = s"
| "end_state (Entered a s) = s"

lemma end_typed [wp]:
  "typed s \<Longrightarrow> typed (end_state (Returned_early s))" "typed s \<Longrightarrow> typed (end_state (Spinning s))"
  "typed s \<Longrightarrow> typed (end_state (Entered a s))"
  by simp_all

lemma first_program_typed [wp]: "typed s \<Longrightarrow> yields (\<lambda>r. typed (end_state r)) (first_program im e s)"
proof (rule yieldsI)
  fix r assume s: "typed s" and "first_program im e s = Some r"
  then obtain q where q: "system_call (im_pt im) e (im_frame im) (im_temp im) SYS_EXECUTE (im_shell im) 0 0 s = Some q"
    "(case q of Reply n s \<Rightarrow> Some (Spinning s) | Enter a s \<Rightarrow> Some (Entered a s) | Ended sp x \<Rightarrow> None) = Some r"
    by (auto simp: first_program_def do_call_def bind_eq_Some_conv)
  have "typed (reply_state q)" by (rule yieldsD [OF system_call_typed [OF s] q(1)])
  then show "typed (end_state r)" using q(2) by (cases q) auto
qed

lemma report_module_typed [wp]: "typed s \<Longrightarrow> yields typed (report_module junk n md s)"
  unfolding report_module_def Let_def by (rule wp system_free [THEN iffD2] | assumption)+

lemma report_modules_typed [wp]: "typed s \<Longrightarrow> yields typed (report_modules junk mbi n md s)"
proof (rule yieldsI)
  fix t assume s: "typed s" and r: "report_modules junk mbi n md s = Some t"
  have "typed s \<longrightarrow> typed t"
    by (rule report_modules.raw_induct [OF _ r, of "\<lambda>junk mbi n md s t. typed s \<longrightarrow> typed t"])
      (auto simp: bind_eq_Some_conv dest: yieldsD [OF report_module_typed] split: if_splits)
  then show "typed t" using s by simp
qed

lemma report_mmap_loop_typed [wp]: "typed s \<Longrightarrow> yields typed (report_mmap_loop junk mbi mm s)"
proof (rule yieldsI)
  fix t assume s: "typed s" and r: "report_mmap_loop junk mbi mm s = Some t"
  have "typed s \<longrightarrow> typed t"
    by (rule report_mmap_loop.raw_induct [OF _ r, of "\<lambda>junk mbi mm s t. typed s \<longrightarrow> typed t"])
      (auto simp: bind_eq_Some_conv dest: yieldsD [OF say_typed] split: if_splits)
  then show "typed t" using s by simp
qed

lemma report_typed [wp]:
  "typed s \<Longrightarrow> yields typed (report_head junk mbi s)" "typed s \<Longrightarrow> yields typed (report_elf junk mbi s)"
  "typed s \<Longrightarrow> yields typed (report_mmap junk mbi s)"
proof -
  assume s: "typed s"
  have str: "yields any (string_in m a)" for m a by (rule yields_any)
  show "yields typed (report_head junk mbi s)" unfolding report_head_def by (rule s str | assumption | rule wp)+
  show "yields typed (report_elf junk mbi s)" unfolding report_elf_def Let_def by (rule s | assumption | rule wp)+
  show "yields typed (report_mmap junk mbi s)" unfolding report_mmap_def by (rule s | assumption | rule wp)+
qed

lemma entry_typed:
  assumes "typed s"
  shows "yields (\<lambda>r. typed (end_state r)) (entry im e d1 d2 magic addr s)"
proof -
  have c: "typed (clear s)" using assms by (simp add: typed_more [of "clear s" s])
  have d: "typed u \<Longrightarrow> typed (set_tss x d2 (set_ldt y d1 u))" for x y and u :: "'a started_scheme"
    by (simp add: set_tss_def set_ldt_def Let_def)
  show ?thesis unfolding entry_def Let_def by (rule c d | assumption | rule wp)+
qed

section \<open>Steps of the running system\<close>

text \<open>
  One step: a program runs, which changes memory and, when the processor returns to it, the
  interrupt flag; it makes a system call; its exception is handled; a shell is started again; or
  an interrupt is served, when interrupts are enabled. \<open>pt\<close> is the address of the page table.
\<close>

inductive kernel_step :: "u32 \<Rightarrow> 'a system_scheme \<Rightarrow> 'a system_scheme \<Rightarrow> bool" for pt where
  Program: "kernel_step pt s (s\<lparr>vid := m, iflag := f\<rparr>)"
| Call: "system_call pt e frame temp eax ebx ecx edx s = Some r \<Longrightarrow> kernel_step pt s (reply_state r)"
| Exception: "h \<in> set (ending_handlers pt e frame temp junk) \<Longrightarrow> h s = Some (Ends r) \<Longrightarrow> kernel_step pt s (reply_state r)"
| Restart: "execute pt e frame temp (Some shell_name) s = Some r \<Longrightarrow> kernel_step pt s (result_state r)"
| Timer: "iflag s \<Longrightarrow> schedule_wrapper pt nxt regs s = Some (regs', s') \<Longrightarrow> kernel_step pt s s'"
| Clock: "iflag s \<Longrightarrow> handle_RTC dev s = Some s' \<Longrightarrow> kernel_step pt s s'"
| Key: "iflag s \<Longrightarrow> handle_keyboard key s = Some r \<Longrightarrow> kernel_step pt s (outcome_state r)"

text \<open>The states the system reaches from a boot that enters its first program.\<close>

inductive reachable :: "u32 \<Rightarrow> 'a started_scheme \<Rightarrow> bool" for pt where
  Booted: "typed s \<Longrightarrow> im_pt im = pt \<Longrightarrow> entry im e d1 d2 MULTIBOOT_BOOTLOADER_MAGIC addr s = Some (Entered a s') \<Longrightarrow>
    reachable pt s'"
| Step: "reachable pt s \<Longrightarrow> kernel_step pt s s' \<Longrightarrow> reachable pt s'"

inductive_cases kernel_stepE: "kernel_step pt s s'"

lemma schedule_wrapper_typed [wp]: "typed s \<Longrightarrow> yields (\<lambda>r. typed (snd r)) (schedule_wrapper pt nxt regs s)"
  unfolding schedule_wrapper_def by (assumption | rule wp)+

lemma exception_typed:
  assumes "typed s" "h \<in> set (ending_handlers pt e frame temp junk)" "h s = Some (Ends r)"
  shows "typed (reply_state r)"
proof -
  obtain t where "h = halt_after pt e frame temp junk t" using handler_forms(1) [OF assms(2)] by blast
  then obtain u where u: "Exceptions.say pt junk t s = Some u" "system_call pt e frame temp SYS_HALT 256 0 0 u = Some r"
    using assms(3) by (auto simp: halt_after_def do_call_def bind_eq_Some_conv)
  show ?thesis by (rule yieldsD [OF system_call_typed u(2)]) (rule yieldsD [OF exception_say_typed u(1)], rule assms(1))
qed

lemma step_typed: "kernel_step pt s s' \<Longrightarrow> typed s \<Longrightarrow> typed s'"
proof (induction rule: kernel_step.induct)
  case (Timer s nxt regs regs' s')
  then show ?case using yieldsD [OF schedule_wrapper_typed] by fastforce
qed (auto dest: yieldsD [OF system_call_typed] yieldsD [OF execute_typed] yieldsD [OF handle_RTC_typed]
    yieldsD [OF handle_keyboard_typed] exception_typed)

lemma reachable_is_typed:
  assumes "reachable pt s"
  shows "typed s"
  using assms
proof (induction rule: reachable.induct)
  case (Booted s im e d1 d2 addr a s')
  then show ?case using yieldsD [OF entry_typed] by fastforce
qed (rule step_typed)


text \<open>The machine of \<open>Boot_Start\<close> is typed and boots.\<close>

lemma boot_machine_typed: "typed boot_machine"
  by (simp add: typed_def sched_typed_def input_typed_def arr_def index_of_def procs_typed_def pcb_typed_def pcb_wf_def
      boot_machine_def boot.defs started.defs boot_system_def system.defs clock_system_def kernel.defs idle_kernel_def
      sample_procs_def unused_block_def)

lemma boot_machine_reaches:
  obtains n s where "reachable 0x480000 (s :: started)" "shell_running 0x480000 boot_content n s"
proof -
  obtain n s where "entry boot_linked quiet_env blank_desc blank_desc MULTIBOOT_BOOTLOADER_MAGIC 0x10000 boot_machine =
      Some (Entered 0x8048050 s)" "shell_running 0x480000 boot_content n s" by (rule boot_machine_runs)
  with that reachable.Booted [OF boot_machine_typed boot_machine_starts(5)] show thesis by blast
qed


section \<open>Interrupts complete\<close>

lemma aget_ok: "arr n P xs \<Longrightarrow> index_of (int n) i \<Longrightarrow> \<exists>x. aget xs i = Some x"
  by (simp add: arr_def index_of_def aget_def)

lemma aset_ok: "arr n P xs \<Longrightarrow> index_of (int n) i \<Longrightarrow> \<exists>ys. aset xs i v = Some ys"
  by (simp add: arr_def index_of_def aset_def)

lemma grid_ok:
  assumes "arr n (arr m P) xs" "index_of (int n) i" "index_of (int m) j"
  shows "\<exists>x. aget2 xs (i, j) = Some x" "\<exists>ys. aset2 xs (i, j) v = Some ys"
proof -
  obtain r where r: "aget xs i = Some r" using aget_ok [OF assms(1,2)] by blast
  then have a: "arr m P r" using arr_aget [OF _ assms(1)] by blast
  show "\<exists>x. aget2 xs (i, j) = Some x" using r aget_ok [OF a assms(3)] by (simp add: aget2_def)
  obtain r' where "aset r j v = Some r'" using aset_ok [OF a assms(3)] by blast
  then show "\<exists>ys. aset2 xs (i, j) v = Some ys" using r aset_ok [OF assms(1,2), of r'] by (simp add: aset2_def)
qed

lemma save_context_ok:
  assumes "typed s" "index_of 7 (tp - 1)"
  shows "\<exists>t. save_context tp s = Some t \<and> typed t \<and> schedule_top t = schedule_top s \<and>
    current_process t = current_process s \<and> terminal_request t = terminal_request s"
proof -
  note d = typedD [OF assms(1)]
  have i: "index_of (int 3) (current_process s)" "index_of (int 7) (tp - 1)" using d(2) assms(2) by simp_all
  obtain ts es eb where "aset2 (schedule_tss s) (current_process s, tp - 1) (tss s) = Some ts"
    "aset2 (schedule_esp s) (current_process s, tp - 1) (last_esp s) = Some es"
    "aset2 (schedule_ebp s) (current_process s, tp - 1) (last_ebp s) = Some eb"
    using grid_ok(2) [OF d(6) i] grid_ok(2) [OF d(7) i] grid_ok(2) [OF d(8) i] by metis
  then have "save_context tp s = Some (s\<lparr>schedule_tss := ts, schedule_esp := es, schedule_ebp := eb\<rparr>)"
    by (simp add: save_context_def)
  with yieldsD [OF save_context_typed [OF assms(1)] this] show ?thesis by simp
qed

lemma pages_ok:
  assumes "typed s"
  shows "\<exists>t. set_program_page s = Some t" "\<exists>t. link_video_table pt s = Some t" "\<exists>w. aset (process_tables s) VID_IDX v = Some w"
  using assms typedD(11,12) [OF assms]
  by (simp_all add: set_program_page_def link_video_table_def arr_def aset_def VIRTUAL_PROGRAM_def VID_IDX_def)

lemma restore_context_ok:
  assumes "typed s" "index_of 7 (tp - 1)"
  shows "\<exists>t. restore_context pt tp s = Some t"
proof -
  note d = typedD [OF assms(1)]
  have i: "index_of (int 3) (current_process s)" "index_of (int 7) (tp - 1)" using d(2) assms(2) by simp_all
  obtain eb st es ts where a: "aget2 (schedule_ebp s) (current_process s, tp - 1) = Some eb"
    "aget2 (schedule_stack s) (current_process s, tp - 1) = Some st" "aget2 (schedule_esp s) (current_process s, tp - 1) = Some es"
    "aget2 (schedule_tss s) (current_process s, tp - 1) = Some ts"
    using grid_ok(1) [OF d(8) i] grid_ok(1) [OF d(5) i] grid_ok(1) [OF d(7) i] grid_ok(1) [OF d(6) i] by metis
  let ?u = "s\<lparr>ps := (ps s)\<lparr>current_pid := uint st\<rparr>, last_esp := es, last_ebp := eb, tss := ts\<rparr>"
  have u: "typed ?u"
    using typed_updates(1) [OF assms(1) switch_process_typed [OF d(1) arr_aget2 [OF a(2) d(5)]]] by simp
  obtain v where v: "set_program_page ?u = Some v" using pages_ok(1) [OF u] by blast
  have tv: "typed v" by (rule yieldsD [OF set_program_page_typed [OF u] v])
  let ?page = "VIDEO_1 + 0x1000 * of_int (current_process v)"
  let ?e = "user_entry (if current_process v \<noteq> current_terminal v then ?page else VIDEO)"
  obtain w where w: "aset (process_tables v) VID_IDX ?e = Some w" using pages_ok(3) [OF tv] by blast
  have "arr 1024 any w" by (rule arr_aset [OF w typedD(12) [OF tv] TrueI])
  then have "typed (v\<lparr>process_tables := w, video_mem := (if current_process v \<noteq> current_terminal v then ?page else VIDMAP)\<rparr>)"
    using typed_updates(13) [OF tv] by simp
  then obtain x where "link_video_table pt (v\<lparr>process_tables := w,
      video_mem := (if current_process v \<noteq> current_terminal v then ?page else VIDMAP)\<rparr>) = Some x"
    using pages_ok(2) by blast
  then show ?thesis using a v w by (simp add: restore_context_def Let_def)
qed

lemma next_terminal_returns:
  assumes "typed s"
  shows "(\<exists>n. next_terminal junk s = Some n) \<longleftrightarrow> runnable s \<noteq> {} \<or> terminal_request s \<noteq> -1"
proof -
  have len: "length (schedule_top s) = 3" using typedD(4) [OF assms] by (simp add: arr_def)
  have "0 \<le> (current_process s + 1) smod NUM_TERMINALS" "(current_process s + 1) smod NUM_TERMINALS < 3"
    using typedD(2) [OF assms] by (auto simp: index_of_def NUM_TERMINALS_def signed_modulo_int_def)
  from next_running_returns [OF len this] show ?thesis
    by (auto simp: next_terminal_def runnable_def)
qed

lemma next_terminal_cong:
  "schedule_top t = schedule_top s \<Longrightarrow> current_process t = current_process s \<Longrightarrow> terminal_request t = terminal_request s \<Longrightarrow>
    next_terminal junk t = next_terminal junk s"
  by (simp add: next_terminal_def)

lemma timer_handler_returns:
  assumes "typed s"
  shows "(\<exists>t. timer_handler pt junk s = Some t) \<longleftrightarrow> (\<exists>n. next_terminal junk s = Some n)"
proof -
  let ?u = "cli (send_eoi IRQ0 s)" and ?w = "\<lambda>v n. v\<lparr>current_process := n, terminal_request := -1\<rparr>"
  have "typed ?u" using assms by simp
  then have u: "typed ?u" "schedule_top ?u = schedule_top s" "current_process ?u = current_process s" "terminal_request ?u = terminal_request s"
    using more_kernel [of ?u s] by simp_all
  have top: "index_of 7 (tp - 1)" if "aget (schedule_top v) i = Some tp" "typed v" "tp \<noteq> 0" for v :: "'a kernel_scheme" and i tp
    using arr_aget [OF that(1) typedD(4) [OF that(2)]] that(3) by (simp add: index_of_def)
  have access: "\<exists>tp. aget (schedule_top v) (current_process v) = Some tp" if "typed v" for v :: "'a kernel_scheme"
    using aget_ok [OF typedD(4) [OF that]] typedD(2) [OF that] by simp
  obtain tp where tp: "aget (schedule_top ?u) (current_process ?u) = Some tp" using access [OF u(1)] by blast
  obtain v where v: "(if tp \<noteq> 0 then save_context tp ?u else Some ?u) = Some v" "typed v" "schedule_top v = schedule_top ?u"
    "current_process v = current_process ?u" "terminal_request v = terminal_request ?u"
    using save_context_ok [OF u(1) top [OF tp u(1)]] u(1) by (cases "tp = 0") auto
  have nt: "next_terminal junk v = next_terminal junk s" by (rule next_terminal_cong) (simp_all add: v u)
  have rest: "\<exists>t. (do { tp \<leftarrow> aget (schedule_top w) (current_process w); s \<leftarrow> (if tp \<noteq> 0 then restore_context pt tp w else Some w);
      Some (s\<lparr>schedule_tick := (if schedule_tick s = 0 then 1 else 0)\<rparr>) }) = Some t" if w: "typed w" for w :: "'a kernel_scheme"
  proof -
    obtain k where k: "aget (schedule_top w) (current_process w) = Some k" using access [OF w] by blast
    show ?thesis using k restore_context_ok [OF w top [OF k w], of pt] by (cases "k = 0") auto
  qed
  have eq: "timer_handler pt junk s = Option.bind (next_terminal junk s) (\<lambda>n. do {
      tp \<leftarrow> aget (schedule_top (?w v n)) (current_process (?w v n));
      s \<leftarrow> (if tp \<noteq> 0 then restore_context pt tp (?w v n) else Some (?w v n));
      Some (s\<lparr>schedule_tick := (if schedule_tick s = 0 then 1 else 0)\<rparr>) })"
    unfolding timer_handler_def Let_def using tp v(1) nt by simp
  have wt: "typed (?w v n)" if "next_terminal junk s = Some n" for n
    using yieldsD [OF next_terminal_index [OF assms] that] v(2) by (intro no_request typed_updates)
  show ?thesis
  proof (cases "next_terminal junk s")
    case (Some n)
    with rest [OF wt [OF Some]] show ?thesis unfolding eq by simp
  qed (simp add: eq)
qed

lemma handle_RTC_ok: "typed s \<Longrightarrow> \<exists>t. handle_RTC dev s = Some t"
  using three_elements [of "rtc_virtual_interupt s"] typedD(24) [of s]
  by (auto simp: handle_RTC_def three_cells Let_def cli_def arr_def)

text \<open>
  C25: in every state the system reaches, the clock interrupt completes, and the timer interrupt
  completes exactly when some terminal has a process or a switch to a terminal is requested.
  Neither accesses an array outside its bounds. When the last program has ended, until its shell
  is started again, no terminal has a process; a timer interrupt then searches forever.
\<close>

theorem timer_completes:
  assumes "reachable pt s"
  shows "(\<exists>s'. handle_RTC dev s = Some s') \<and>
    ((\<exists>r. schedule_wrapper pt junk regs s = Some r) \<longleftrightarrow> runnable s \<noteq> {} \<or> terminal_request s \<noteq> -1)"
proof
  have s: "typed s" by (rule reachable_is_typed [OF assms])
  then show "\<exists>s'. handle_RTC dev s = Some s'" by (rule handle_RTC_ok)
  let ?u = "(cli s)\<lparr>last_esp := fst regs, last_ebp := snd regs\<rparr>"
  have u: "typed ?u" using s by simp
  have "(\<exists>r. schedule_wrapper pt junk regs s = Some r) \<longleftrightarrow> (\<exists>t. timer_handler pt junk ?u = Some t)"
    by (auto simp: schedule_wrapper_def bind_eq_Some_conv)
  also have "\<dots> \<longleftrightarrow> runnable ?u \<noteq> {} \<or> terminal_request ?u \<noteq> -1"
    unfolding timer_handler_returns [OF u] by (rule next_terminal_returns [OF u])
  finally show "(\<exists>r. schedule_wrapper pt junk regs s = Some r) \<longleftrightarrow> runnable s \<noteq> {} \<or> terminal_request s \<noteq> -1"
    by (simp add: runnable_def cli_def)
qed

theorem timer_completes_witness:
  "\<exists>(s :: started) r. reachable 0x480000 s \<and> schedule_wrapper 0x480000 0 (0x7FFF00, 0x7FFF10) s = Some r"
proof -
  obtain n s where s: "reachable 0x480000 (s :: started)" "shell_running 0x480000 boot_content n s" by (rule boot_machine_reaches)
  have "height s 0 = 1" using s(2) by (simp add: shell_running_def)
  then have "0 \<in> runnable s" by (simp add: runnable_def runnable_set_def height_def)
  then show ?thesis using timer_completes [OF s(1), of "\<lambda>_ _. 0" 0 "(0x7FFF00, 0x7FFF10)"] s(1) by blast
qed

end
