(* ===== verification/Spec2Isabelle.thy ===== *)
theory Spec2Isabelle
  imports User_Errors User_Search User_Ticks Kernel_Steps
begin

text \<open>
  A verification of the operating system in \<^verbatim>\<open>src/student-distrib\<close>, a kernel for one x86
  processor in 32-bit protected mode, with three text terminals, up to six processes, a
  read-only file system, a real-time clock, paging, ten system calls and round-robin scheduling
  of the terminals, and of the programs in \<^verbatim>\<open>src/syscalls\<close> that run on it.

  \<^bold>\<open>The parts and how they interact.\<close> A program enters the kernel through the gate 0x80 of the
  interrupt descriptor table; \<open>system_call\<close> dispatches to the ten calls of \<^verbatim>\<open>syscalls.c\<close>. \<open>read\<close>,
  \<open>write\<close> and \<open>close\<close> go through the operation table of a file descriptor, in the control block of
  the process (\<^verbatim>\<open>process_control.c\<close>), to the file system (\<^verbatim>\<open>filesystem_driver.c\<close>), the clock
  (\<^verbatim>\<open>rtc_driver.c\<close>) or the terminal (\<^verbatim>\<open>terminal.c\<close>). \<open>execute\<close> reads a file, makes a process for
  it, builds its address space, copies the file to its memory and enters it; \<open>halt\<close> returns to the
  \<open>execute\<close> that started it, as do the handlers of the exceptions a program is ended for. The
  keyboard interrupt edits the line of the displayed terminal (\<^verbatim>\<open>keyboard.c\<close>) and, with Enter,
  hands it to the process that waits in \<open>terminal_read\<close>. The timer interrupt switches to the next
  terminal that has a process (\<open>timer_handler\<close> of \<^verbatim>\<open>interrupts.c\<close>). Text goes to video memory
  (\<^verbatim>\<open>lib.c\<close>). \<open>entry\<close> of \<^verbatim>\<open>kernel.c\<close> sets all of this up and starts the first shell. The user
  programs reach the kernel through the stubs of \<^verbatim>\<open>ece391syscall.S\<close> and a small library
  (\<^verbatim>\<open>ece391support.c\<close>).

  \<^bold>\<open>The theories.\<close>

  \<^item> \<open>Prelude\<close>: bytes, words and memory; arrays with their bounds, whose access outside is \<open>None\<close>;
    counted loops; busy loops ended by interrupts (\<open>spin\<close>); sequences of operations; the locales
    \<open>indexed_store\<close> and \<open>simulation\<close>, and the collections of simplification rules.

  \<^item> \<open>Lib_Strings\<close>, \<open>Lib_Memory\<close>, \<open>Printf\<close>: the string routines, the memory routines in inline
    assembly and \<open>printf\<close> of \<^verbatim>\<open>lib.c\<close>. The optimised memory routines are plain fills and copies;
    \<open>itoa\<close> prints a numeral that reads back; \<open>printf\<close> prints the text its format stands for.

  \<^item> \<open>Hardware\<close>: the trace of port writes, the interrupt flag and the interrupt controller
    (\<^verbatim>\<open>i8259.c\<close>, \<^verbatim>\<open>lib.h\<close>). A device is a function of the trace.

  \<^item> \<open>Screen\<close>: video memory, the position and the hardware cursor (\<^verbatim>\<open>lib.c\<close>, \<^verbatim>\<open>terminal.c\<close>);
    \<open>terminal_write\<close> refines a terminal of 25 lines of 80 characters that wraps and scrolls.

  \<^item> \<open>Process\<close>: control blocks and descriptors (\<^verbatim>\<open>process_control.c\<close>); their invariant, which
    the set-up establishes and every routine keeps.

  \<^item> \<open>Filesystem\<close>: the image of the file system in memory, its lookups and the operations on
    files and directories (\<^verbatim>\<open>filesystem_driver.c\<close>); what they read is the contents of the file.

  \<^item> \<open>Kernel_State\<close>: the records \<open>sched\<close> and \<open>kernel\<close> of the variables the higher components
    share; each extends the record of the component below.

  \<^item> \<open>Line_Editor\<close>, \<open>Terminal\<close>, \<open>Keyboard\<close>: the input line, the history and the keys
    (\<^verbatim>\<open>keyboard.c\<close>), the terminals and their switch (\<^verbatim>\<open>terminal.c\<close>), and \<open>handle_keyboard\<close>. Editing
    refines an ideal line editor. \<open>Terminal_Input\<close> is \<open>terminal_read\<close>; \<open>Line_Input\<close> shows that a
    typed line is read.

  \<^item> \<open>Paging\<close>: the page directory and the page table as \<open>paging_init\<close>, \<open>execute\<close>, \<open>halt\<close> and the timer
    write them, the walk of the processor through them, and the address space they amount to;
    programs cannot reach each other, but can reach the kernel.

  \<^item> \<open>Scheduler\<close>: the process stacks of the terminals and the timer interrupt, which refines
    round-robin scheduling; no terminal starves; its search ends exactly when there is a process.

  \<^item> \<open>Clock\<close>: the driver and the interrupt of the real-time clock (\<^verbatim>\<open>rtc_driver.c\<close>).

  \<^item> \<open>Syscalls\<close>, \<open>Execute\<close>, \<open>Programs\<close>, \<open>Dispatch\<close>: the system calls and their dispatcher; files
    opened, read and closed by name, programs started, run and ended, and every way \<open>execute\<close>
    fails.

  \<^item> \<open>Exceptions\<close>, \<open>Interrupt_Table\<close>: the exception handlers and the interrupt descriptor table with
    the way the processor reads it.

  \<^item> \<open>User_Support\<close>, \<open>User_Programs\<close>: the support library of the programs and the programs \<^verbatim>\<open>cat\<close>,
    \<^verbatim>\<open>ls\<close>, \<^verbatim>\<open>hello\<close>, \<^verbatim>\<open>testprint\<close>, \<^verbatim>\<open>shell\<close> and \<^verbatim>\<open>counter\<close>, over a record \<open>os\<close> of the system calls; \<open>User_Grep\<close> and
    \<open>User_Pingpong\<close>: \<^verbatim>\<open>grep\<close> and \<^verbatim>\<open>pingpong\<close>. \<open>User_Calls\<close> makes such a record, \<open>kernel_os\<close>, of the kernel's \<open>system_call\<close>, with the
    arrays of a program in its own memory. \<open>User_Files\<close>, \<open>User_Directories\<close>, \<open>User_Search\<close>, \<open>User_Ticks\<close>
    and \<open>User_Errors\<close> show what \<^verbatim>\<open>cat\<close>, \<^verbatim>\<open>ls\<close>, \<^verbatim>\<open>grep\<close>, \<^verbatim>\<open>pingpong\<close> and \<^verbatim>\<open>syserr\<close> do on this kernel; each program is proved
    once, from the laws of a locale of calls, which are discharged for \<open>kernel_os\<close>.

  \<^item> \<open>Boot\<close>, \<open>Boot_Start\<close>: \<open>entry\<close> with the Multiboot report and the segment descriptors, up to the
    first shell, whose start rests on the theorems of every component above.

  \<^item> \<open>Kernel_Types\<close>, \<open>Kernel_Steps\<close>: the sizes of the arrays and the ranges of the indices, kept by every
    operation (a small calculus, \<open>yields\<close>, carries the proofs), and the running system as a step
    relation from the boot on: every reachable state is typed, and so the interrupts of the timer
    and the clock complete.

  \<^bold>\<open>How the model corresponds to the code.\<close> A C function is a function from the state, and its
  arguments, to an optional result and state, with the name of the source (\<open>read_call\<close>,
  \<open>write_call\<close>, \<open>open_call\<close> and \<open>close_call\<close> for the calls whose names are taken). The state is a
  record; its fields are the global variables. \<open>None\<close> is an access outside an array, a page fault
  or a loop that does not end. Integers keep their width where it matters. Each routine that
  loops is total by a measure, or, where the code may run forever, an option whose theorems say
  when it returns: \<open>next_running\<close>, \<open>string_at\<close>, \<open>string_in\<close>, the loops of the Multiboot report and those
  of the user programs are partial functions, and the busy loops of \<open>terminal_read\<close> and \<open>rtc_read\<close>
  take the interrupts that arrive as a list, so no fuel is needed.

  What is not code of the repository is a parameter: the devices, the keys and clock interrupts
  that arrive, the contents of uninitialised variables, the addresses of the page table
  (\<open>pt\<close>), of the handlers and of a local array on the kernel stack (\<open>frame\<close>), the information the
  boot loader leaves in memory, and what a program that \<open>execute\<close> starts does until it halts.

  \<^bold>\<open>What is not modelled.\<close> The assembly that loads the segment and control registers (\<^verbatim>\<open>boot.S\<close>,
  \<^verbatim>\<open>paging.S\<close>) and the tests of the course (\<^verbatim>\<open>tests.c\<close>); \<^verbatim>\<open>fish\<close>, whose work is done by the assembly of
  \<^verbatim>\<open>blink.S\<close>; \<^verbatim>\<open>sigtest\<close>, which tests signals, that this kernel answers with -1, by storing through
  a null pointer; and the emulation of the system calls on Linux (\<^verbatim>\<open>ece391emulate.c\<close>), which is no
  part of the system. Of two routines that another interrupt could interleave, each runs to its
  end: interrupts are served at the busy loops, where the code enables them. The translation
  look-aside buffer is not modelled: every access walks the arrays.
\<close>

end
